(* ===== verification/Prelude.thy ===== *)
theory Prelude
  imports Main "HOL-Library.Word"
begin

text \<open>
  What every theory of the development shares: the C integer types as words, the error
  codes of \<open>include/mosquitto.h\<close>, the result type of operations that can fail, and
  generic lemmas on bytes and on sum-typed results.

  An operation of the code that returns an \<open>int\<close> error code is a function into
  \<open>fault + 'a\<close>: \<open>Inr x\<close> is \<open>MOSQ_ERR_SUCCESS\<close> with its out parameters \<open>x\<close>, \<open>Inl (Rc e)\<close>
  the error code \<open>e\<close>, and \<open>Inl Trap\<close> an execution that C leaves undefined or that an
  \<open>assert\<close> stops: an access outside the buffer that is really there, or a NULL
  pointer passed to a function that follows it.
\<close>

unbundle bit_operations_syntax

named_theorems byte_arith \<open>masked bytes read as arithmetic\<close>
named_theorems fault_simps \<open>sequencing of results\<close>

section \<open>Machine integers\<close>

type_synonym u8 = "8 word"
type_synonym u16 = "16 word"
type_synonym u32 = "32 word"

section \<open>Error codes\<close>

datatype mosq_err_t =
    MOSQ_ERR_AUTH_CONTINUE
  | MOSQ_ERR_NO_SUBSCRIBERS
  | MOSQ_ERR_SUB_EXISTS
  | MOSQ_ERR_CONN_PENDING
  | MOSQ_ERR_SUCCESS
  | MOSQ_ERR_NOMEM
  | MOSQ_ERR_PROTOCOL
  | MOSQ_ERR_INVAL
  | MOSQ_ERR_NO_CONN
  | MOSQ_ERR_CONN_REFUSED
  | MOSQ_ERR_NOT_FOUND
  | MOSQ_ERR_CONN_LOST
  | MOSQ_ERR_TLS
  | MOSQ_ERR_PAYLOAD_SIZE
  | MOSQ_ERR_NOT_SUPPORTED
  | MOSQ_ERR_AUTH
  | MOSQ_ERR_ACL_DENIED
  | MOSQ_ERR_UNKNOWN
  | MOSQ_ERR_ERRNO
  | MOSQ_ERR_EAI
  | MOSQ_ERR_PROXY
  | MOSQ_ERR_PLUGIN_DEFER
  | MOSQ_ERR_MALFORMED_UTF8
  | MOSQ_ERR_KEEPALIVE
  | MOSQ_ERR_LOOKUP
  | MOSQ_ERR_MALFORMED_PACKET
  | MOSQ_ERR_DUPLICATE_PROPERTY
  | MOSQ_ERR_TLS_HANDSHAKE
  | MOSQ_ERR_QOS_NOT_SUPPORTED
  | MOSQ_ERR_OVERSIZE_PACKET
  | MOSQ_ERR_OCSP
  | MOSQ_ERR_TIMEOUT
  | MOSQ_ERR_RETAIN_NOT_SUPPORTED
  | MOSQ_ERR_TOPIC_ALIAS_INVALID
  | MOSQ_ERR_ADMINISTRATIVE_ACTION
  | MOSQ_ERR_ALREADY_EXISTS

text \<open>The number the enumeration gives a code: callers compare it with \<open>rc > 0\<close>.\<close>

fun err_code :: "mosq_err_t \<Rightarrow> int" where
  "err_code MOSQ_ERR_AUTH_CONTINUE = -4"
| "err_code MOSQ_ERR_NO_SUBSCRIBERS = -3"
| "err_code MOSQ_ERR_SUB_EXISTS = -2"
| "err_code MOSQ_ERR_CONN_PENDING = -1"
| "err_code MOSQ_ERR_SUCCESS = 0"
| "err_code MOSQ_ERR_NOMEM = 1"
| "err_code MOSQ_ERR_PROTOCOL = 2"
| "err_code MOSQ_ERR_INVAL = 3"
| "err_code MOSQ_ERR_NO_CONN = 4"
| "err_code MOSQ_ERR_CONN_REFUSED = 5"
| "err_code MOSQ_ERR_NOT_FOUND = 6"
| "err_code MOSQ_ERR_CONN_LOST = 7"
| "err_code MOSQ_ERR_TLS = 8"
| "err_code MOSQ_ERR_PAYLOAD_SIZE = 9"
| "err_code MOSQ_ERR_NOT_SUPPORTED = 10"
| "err_code MOSQ_ERR_AUTH = 11"
| "err_code MOSQ_ERR_ACL_DENIED = 12"
| "err_code MOSQ_ERR_UNKNOWN = 13"
| "err_code MOSQ_ERR_ERRNO = 14"
| "err_code MOSQ_ERR_EAI = 15"
| "err_code MOSQ_ERR_PROXY = 16"
| "err_code MOSQ_ERR_PLUGIN_DEFER = 17"
| "err_code MOSQ_ERR_MALFORMED_UTF8 = 18"
| "err_code MOSQ_ERR_KEEPALIVE = 19"
| "err_code MOSQ_ERR_LOOKUP = 20"
| "err_code MOSQ_ERR_MALFORMED_PACKET = 21"
| "err_code MOSQ_ERR_DUPLICATE_PROPERTY = 22"
| "err_code MOSQ_ERR_TLS_HANDSHAKE = 23"
| "err_code MOSQ_ERR_QOS_NOT_SUPPORTED = 24"
| "err_code MOSQ_ERR_OVERSIZE_PACKET = 25"
| "err_code MOSQ_ERR_OCSP = 26"
| "err_code MOSQ_ERR_TIMEOUT = 27"
| "err_code MOSQ_ERR_RETAIN_NOT_SUPPORTED = 28"
| "err_code MOSQ_ERR_TOPIC_ALIAS_INVALID = 29"
| "err_code MOSQ_ERR_ADMINISTRATIVE_ACTION = 30"
| "err_code MOSQ_ERR_ALREADY_EXISTS = 31"

datatype fault = Rc mosq_err_t | Trap

section \<open>Sequencing\<close>

text \<open>\<open>rc = f(...); if(rc) return rc; ...\<close>\<close>

definition seq :: "'e + 'a \<Rightarrow> ('a \<Rightarrow> 'e + 'b) \<Rightarrow> 'e + 'b" where
  "seq r k = (case r of Inl e \<Rightarrow> Inl e | Inr x \<Rightarrow> k x)"

lemma seq_Inl [simp]: "seq (Inl e) k = Inl e"
  by (simp add: seq_def)

lemma seq_Inr [simp]: "seq (Inr x) k = k x"
  by (simp add: seq_def)

lemma seq_eq_Inr_iff [fault_simps]: "seq r k = Inr y \<longleftrightarrow> (\<exists>x. r = Inr x \<and> k x = Inr y)"
  by (cases r) auto

lemma seq_eq_Inl_iff [fault_simps]:
  "seq r k = Inl e \<longleftrightarrow> r = Inl e \<or> (\<exists>x. r = Inr x \<and> k x = Inl e)"
  by (cases r) auto

lemma seq_assoc: "seq (seq r f) g = seq r (\<lambda>x. seq (f x) g)"
  by (cases r) auto

lemma seq_split:
  "P (seq r k) \<longleftrightarrow> (\<forall>e. r = Inl e \<longrightarrow> P (Inl e)) \<and> (\<forall>x. r = Inr x \<longrightarrow> P (k x))"
  by (cases r) auto

lemma seq_cong [fundef_cong]:
  "r = r' \<Longrightarrow> (\<And>x. r' = Inr x \<Longrightarrow> k x = k' x) \<Longrightarrow> seq r k = seq r' k'"
  by (cases r') auto

section \<open>Bytes\<close>

lemma unat_u8_less: "unat (b :: u8) < 256"
  using unsigned_less[of b, where 'a = nat] by simp

lemma unat_and_not_mask:
  "unat ((w :: u8) AND NOT (mask n)) = unat w div 2 ^ n * 2 ^ n"
proof -
  have "w AND NOT (mask n) = push_bit n (drop_bit n w)"
    by (rule bit_word_eqI) (auto simp: bit_simps)
  then have "unat (w AND NOT (mask n)) = take_bit 8 (unat w div 2 ^ n * 2 ^ n)"
    by (simp only: unsigned_push_bit_eq unsigned_drop_bit_eq)
      (simp add: push_bit_eq_mult drop_bit_eq_div take_bit_nat_eq_self unat_u8_less)
  moreover have "unat w div 2 ^ n * 2 ^ n < 2 ^ 8"
    using unsigned_less[of w, where 'a = nat]
    by (simp add: le_less_trans [OF div_times_less_eq_dividend])
  ultimately show ?thesis
    by (simp add: take_bit_nat_eq_self)
qed

lemma unat_and_mask: "unat ((w :: u8) AND mask n) = unat w mod 2 ^ n"
  by (simp only: take_bit_eq_mask [symmetric] unsigned_take_bit_eq) (simp add: take_bit_eq_mod)

lemma u8_eq_iff: "(a :: u8) = b \<longleftrightarrow> unat a = unat b"
  by (simp add: word_unat_eq_iff)

lemma and_E0_eq [byte_arith]: "((b :: u8) AND 0xE0 = 0xC0) = (unat b div 32 = 6)"
proof -
  have "(0xE0 :: u8) = NOT (mask 5)" by (simp add: mask_eq_exp_minus_1)
  then have "unat (b AND 0xE0) = unat b div 32 * 32"
    using unat_and_not_mask [of b 5] by simp
  then show ?thesis by (simp add: u8_eq_iff)
qed

lemma and_F0_eq [byte_arith]: "((b :: u8) AND 0xF0 = 0xE0) = (unat b div 16 = 14)"
proof -
  have "(0xF0 :: u8) = NOT (mask 4)" by (simp add: mask_eq_exp_minus_1)
  then have "unat (b AND 0xF0) = unat b div 16 * 16"
    using unat_and_not_mask [of b 4] by simp
  then show ?thesis by (simp add: u8_eq_iff)
qed

lemma and_F8_eq [byte_arith]: "((b :: u8) AND 0xF8 = 0xF0) = (unat b div 8 = 30)"
proof -
  have "(0xF8 :: u8) = NOT (mask 3)" by (simp add: mask_eq_exp_minus_1)
  then have "unat (b AND 0xF8) = unat b div 8 * 8"
    using unat_and_not_mask [of b 3] by simp
  then show ?thesis by (simp add: u8_eq_iff)
qed

lemma and_C0_eq [byte_arith]: "((b :: u8) AND 0xC0 = 0x80) = (unat b div 64 = 2)"
proof -
  have "(0xC0 :: u8) = NOT (mask 6)" by (simp add: mask_eq_exp_minus_1)
  then have "unat (b AND 0xC0) = unat b div 64 * 64"
    using unat_and_not_mask [of b 6] by simp
  then show ?thesis by (simp add: u8_eq_iff)
qed

lemma and_80_eq [byte_arith]: "((b :: u8) AND 128 = 0) = (unat b < 128)"
proof -
  have bit7: "(128 :: u8) = NOT (mask 7)" by (simp add: mask_eq_exp_minus_1)
  have "unat (b AND 128) = unat b div 128 * 128"
    using unat_and_not_mask [of b 7] unfolding bit7 by simp
  then show ?thesis by (auto simp: u8_eq_iff div_eq_0_iff)
qed

lemma unat_and_low [byte_arith]:
  "unat ((b :: u8) AND 0x3F) = unat b mod 64"
  "unat (b AND 0x1F) = unat b mod 32"
  "unat (b AND 0x0F) = unat b mod 16"
  "unat (b AND 0x07) = unat b mod 8"
  "unat (b AND 127) = unat b mod 128"
  using unat_and_mask [of b 6] unat_and_mask [of b 5] unat_and_mask [of b 4]
    unat_and_mask [of b 3] unat_and_mask [of b 7]
  by (simp_all add: mask_eq_exp_minus_1)

lemma push_bit_or_nat: "x < 2 ^ n \<Longrightarrow> push_bit n (a :: nat) OR x = a * 2 ^ n + x"
proof -
  assume "x < 2 ^ n"
  then have x: "take_bit n x = x" by (simp add: take_bit_nat_eq_self)
  have "push_bit n a AND x = 0"
    by (rule bit_eqI)
      (metis x bit_and_iff bit_push_bit_iff bit_take_bit_iff bit_0_eq bot_apply bot_bool_def leD)
  then show ?thesis by (simp add: disjunctive_add_eq_or [symmetric] push_bit_eq_mult)
qed

lemma unat_word_of_nat_u8: "n < 256 \<Longrightarrow> unat (word_of_nat n :: u8) = n"
  by (simp add: unsigned_of_nat take_bit_nat_eq_self)

lemma u8_sum: "unat (b :: u8) = numeral m + n \<Longrightarrow> b = numeral m + word_of_nat n"
proof -
  assume "unat b = numeral m + n"
  then have "word_of_nat (numeral m + n) = (word_of_nat (unat b) :: u8)" by (simp only:)
  then show ?thesis by simp
qed

lemma unat_u8_sum: "numeral m + n < 256 \<Longrightarrow> unat (numeral m + word_of_nat n :: u8) = numeral m + n"
  using unat_word_of_nat_u8 [of "numeral m + n"] by simp

end
