(* ===== verification/Utf8.thy ===== *)
theory Utf8
  imports Prelude
begin

text \<open>
  \<open>lib/utf8_mosq.c\<close>: the validator \<open>mosquitto_validate_utf8\<close> that every string of a packet
  goes through. The definitions follow the loop; the reference definition is the
  UTF-8 encoder \<open>utf8_encode\<close> on the code points MQTT allows, and the central lemmas
  say that the loop accepts exactly the encodings of sequences of allowed code points.

  A buffer is the list of the bytes that can be read at the pointer, which may be more
  than \<open>len\<close> bytes: the loop does read past \<open>len\<close> in one case, so the byte behind the
  string matters.
\<close>

section \<open>The loop\<close>

text \<open>
  The classification of the first byte of a sequence (lines 36 to 64): the length of the
  sequence and the bits of the code point it carries, \<open>None\<close> for the malformed cases.
\<close>

definition utf8_lead :: "u8 \<Rightarrow> (nat \<times> nat) option" where
  "utf8_lead b =
     (if b = 0 then None
      else if b \<le> 0x7f then Some (1, unat b)
      else if b AND 0xE0 = 0xC0 then
        (if b = 0xC0 \<or> b = 0xC1 then None else Some (2, unat (b AND 0x1F)))
      else if b AND 0xF0 = 0xE0 then Some (3, unat (b AND 0x0F))
      else if b AND 0xF8 = 0xF0 then
        (if b > 0xF4 then None else Some (4, unat (b AND 0x07)))
      else None)"

text \<open>The inner loop over the continuation bytes (lines 71 to 77).\<close>

fun utf8_cont :: "nat \<Rightarrow> nat \<Rightarrow> u8 list \<Rightarrow> fault + (nat \<times> u8 list)" where
  "utf8_cont 0 codepoint rest = Inr (codepoint, rest)"
| "utf8_cont (Suc j) codepoint [] = Inl Trap"
| "utf8_cont (Suc j) codepoint (b # rest) =
     (if b AND 0xC0 \<noteq> 0x80 then Inl (Rc MOSQ_ERR_MALFORMED_UTF8)
      else utf8_cont j (push_bit 6 codepoint OR unat (b AND 0x3F)) rest)"

text \<open>The checks on the reconstructed code point (lines 79 to 107).\<close>

definition utf8_reject :: "nat \<Rightarrow> nat \<Rightarrow> bool" where
  "utf8_reject codelen codepoint \<longleftrightarrow>
     (codepoint \<ge> 0xD800 \<and> codepoint \<le> 0xDFFF) \<or>
     (codelen = 3 \<and> codepoint < 0x0800) \<or>
     (codelen = 4 \<and> (codepoint < 0x10000 \<or> codepoint > 0x10FFFF)) \<or>
     (codepoint \<ge> 0xFDD0 \<and> codepoint \<le> 0xFDEF) \<or>
     (codepoint AND 0xFFFF = 0xFFFE \<or> codepoint AND 0xFFFF = 0xFFFF) \<or>
     (codepoint \<le> 0x001F \<or> (codepoint \<ge> 0x007F \<and> codepoint \<le> 0x009F))"

text \<open>
  One iteration of the outer loop: \<open>n = len - i\<close> bytes are left, the byte at \<open>i\<close> is \<open>b\<close>
  and the bytes behind it are \<open>rest\<close>. The test \<open>i == len-codelen+1\<close> is \<open>n = codelen - 1\<close>.
\<close>

definition utf8_step :: "nat \<Rightarrow> u8 \<Rightarrow> u8 list \<Rightarrow> fault + (nat \<times> u8 list)" where
  "utf8_step n b rest =
     (case utf8_lead b of
        None \<Rightarrow> Inl (Rc MOSQ_ERR_MALFORMED_UTF8)
      | Some (codelen, bits) \<Rightarrow>
          if n = codelen - 1 then Inl (Rc MOSQ_ERR_MALFORMED_UTF8)
          else seq (utf8_cont (codelen - 1) bits rest) (\<lambda>(codepoint, rest').
            if utf8_reject codelen codepoint then Inl (Rc MOSQ_ERR_MALFORMED_UTF8)
            else Inr (codelen, rest')))"

lemma utf8_cont_length:
  "utf8_cont k cp bs = Inr (cp', rest) \<Longrightarrow> length bs = k + length rest"
  by (induction k cp bs rule: utf8_cont.induct) (auto split: if_splits)

lemma utf8_step_length:
  "utf8_step n b bs = Inr (k, rest) \<Longrightarrow> length rest \<le> length bs"
  by (auto simp: utf8_step_def fault_simps split: option.splits if_splits prod.splits
      dest: utf8_cont_length)

function utf8_loop :: "nat \<Rightarrow> u8 list \<Rightarrow> fault + unit" where
  "utf8_loop 0 bs = Inr ()"
| "utf8_loop (Suc n) [] = Inl Trap"
| "utf8_loop (Suc n) (b # bs) =
     seq (utf8_step (Suc n) b bs) (\<lambda>(codelen, rest). utf8_loop (Suc n - codelen) rest)"
  by pat_completeness auto
termination
  by (relation "measure (\<lambda>(n, bs). length bs)") (auto dest: utf8_step_length)

definition mosquitto_validate_utf8 :: "u8 list option \<Rightarrow> int \<Rightarrow> fault + unit" where
  "mosquitto_validate_utf8 str len =
     (case str of
        None \<Rightarrow> Inl (Rc MOSQ_ERR_INVAL)
      | Some ustr \<Rightarrow>
          if len < 0 \<or> len > 65536 then Inl (Rc MOSQ_ERR_INVAL)
          else utf8_loop (nat len) ustr)"

section \<open>The reference: encodings of allowed code points\<close>

text \<open>
  The code points a string of MQTT may hold under this validator: not a control
  character, not a surrogate, not a non-character, at most \<open>0x10FFFF\<close>.
\<close>

definition mqtt_char :: "nat \<Rightarrow> bool" where
  "mqtt_char cp \<longleftrightarrow>
     (0x20 \<le> cp \<and> cp \<le> 0x7E \<or> 0xA0 \<le> cp \<and> cp \<le> 0x10FFFF) \<and>
     \<not> (0xD800 \<le> cp \<and> cp \<le> 0xDFFF) \<and> \<not> (0xFDD0 \<le> cp \<and> cp \<le> 0xFDEF) \<and>
     cp mod 0x10000 < 0xFFFE"

definition utf8_encode :: "nat \<Rightarrow> u8 list" where
  "utf8_encode cp =
     (if cp < 0x80 then [word_of_nat cp]
      else if cp < 0x800 then
        [word_of_nat (0xC0 + cp div 64), word_of_nat (0x80 + cp mod 64)]
      else if cp < 0x10000 then
        [word_of_nat (0xE0 + cp div 4096), word_of_nat (0x80 + cp div 64 mod 64),
         word_of_nat (0x80 + cp mod 64)]
      else
        [word_of_nat (0xF0 + cp div 262144), word_of_nat (0x80 + cp div 4096 mod 64),
         word_of_nat (0x80 + cp div 64 mod 64), word_of_nat (0x80 + cp mod 64)])"

definition utf8_text :: "nat list \<Rightarrow> u8 list" where
  "utf8_text cps = concat (map utf8_encode cps)"

section \<open>One sequence\<close>

lemma div_eq_interval:
  "(x div 32 = 6) = (192 \<le> (x::nat) \<and> x < 224)" "(x div 16 = 14) = (224 \<le> x \<and> x < 240)"
  "(x div 8 = 30) = (240 \<le> x \<and> x < 248)" "(x div 64 = 2) = (128 \<le> x \<and> x < 192)"
  by auto

lemma utf8_lead_unat:
  "utf8_lead b = (let x = unat b in
     if x = 0 then None
     else if x < 128 then Some (1, x)
     else if 192 \<le> x \<and> x < 224 then (if x = 192 \<or> x = 193 then None else Some (2, x mod 32))
     else if 224 \<le> x \<and> x < 240 then Some (3, x mod 16)
     else if 240 \<le> x \<and> x < 248 then (if x > 244 then None else Some (4, x mod 8))
     else None)"
  unfolding utf8_lead_def byte_arith div_eq_interval Let_def
  by (simp add: u8_eq_iff word_le_nat_alt word_less_nat_alt)

lemma utf8_lead_Some_iff:
  "utf8_lead b = Some (k, v) \<longleftrightarrow>
     (k = 1 \<and> v = unat b \<and> 0 < unat b \<and> unat b < 128) \<or>
     (k = 2 \<and> v = unat b mod 32 \<and> 194 \<le> unat b \<and> unat b < 224) \<or>
     (k = 3 \<and> v = unat b mod 16 \<and> 224 \<le> unat b \<and> unat b < 240) \<or>
     (k = 4 \<and> v = unat b mod 8 \<and> 240 \<le> unat b \<and> unat b \<le> 244)"
  unfolding utf8_lead_unat Let_def by (cases "unat b < 128"; cases "unat b < 224"; cases "unat b < 240") auto

lemma utf8_reject_iff:
  "\<not> utf8_reject k cp \<longleftrightarrow> (k = 3 \<longrightarrow> 0x800 \<le> cp) \<and> (k = 4 \<longrightarrow> 0x10000 \<le> cp \<and> cp \<le> 0x10FFFF) \<and>
     (0x20 \<le> cp \<and> cp \<le> 0x7E \<or> 0xA0 \<le> cp) \<and>
     \<not> (0xD800 \<le> cp \<and> cp \<le> 0xDFFF) \<and> \<not> (0xFDD0 \<le> cp \<and> cp \<le> 0xFDEF) \<and> cp mod 0x10000 < 0xFFFE"
proof -
  have "cp AND 0xFFFF = cp mod 0x10000"
    using take_bit_eq_mask [of 16 cp] by (simp add: mask_eq_exp_minus_1 take_bit_eq_mod)
  moreover have "(m = 0xFFFE \<or> m = 0xFFFF) = (\<not> m < 0xFFFE)" if "m < 0x10000" for m :: nat
    using that by linarith
  ultimately have m: "(cp AND 0xFFFF = 0xFFFE \<or> cp AND 0xFFFF = 0xFFFF) = (\<not> cp mod 0x10000 < 0xFFFE)"
    by simp
  show ?thesis
    unfolding utf8_reject_def m by (simp add: not_le not_less) (safe; linarith)
qed

lemma unat_div_64: "(unat (c :: u8) div 64 = 2) = (\<exists>x < 64. unat c = 128 + x)"
proof -
  have "(n div 64 = 2) = (\<exists>x < 64. n = 128 + x)" for n :: nat
    by (auto intro!: exI [of _ "n - 128"])
  then show ?thesis .
qed

lemma utf8_cont_Suc_iff:
  "utf8_cont (Suc j) cp bs = Inr r \<longleftrightarrow>
     (\<exists>c cs x. bs = c # cs \<and> unat c = 128 + x \<and> x < 64 \<and> utf8_cont j (cp * 64 + x) cs = Inr r)"
proof (cases bs)
  case (Cons c cs)
  have "(128 + x) mod 64 = x" if "x < 64" for x :: nat
    using that by (simp add: mod_add_eq [symmetric])
  then show ?thesis
    using Cons push_bit_or_nat [of "unat c mod 64" 6 cp] by (auto simp: byte_arith unat_div_64)
qed simp

lemma word_of_nat_u8_eq: "n < 256 \<Longrightarrow> (word_of_nat n = (b :: u8)) = (n = unat b)"
  by (auto simp: u8_eq_iff unsigned_of_nat take_bit_nat_eq_self)

lemma utf8_step_Inr_iff:
  "utf8_step n b bs = Inr (k, rest) \<longleftrightarrow>
     (\<exists>v cp. utf8_lead b = Some (k, v) \<and> n \<noteq> k - 1 \<and> utf8_cont (k - 1) v bs = Inr (cp, rest) \<and>
        \<not> utf8_reject k cp)"
  by (auto simp: utf8_step_def fault_simps split: option.splits if_splits)


lemma digit64: "x < 64 \<Longrightarrow> (q * 64 + x) div 64 = q" "x < 64 \<Longrightarrow> (q * 64 + x) mod 64 = (x::nat)"
  by simp_all

lemma encode2:
  assumes "a < 32" "2 \<le> a" "x < 64"
  shows "utf8_encode (a * 64 + x) = [word_of_nat (192 + a), word_of_nat (128 + x)]"
  using assms by (simp add: utf8_encode_def)

lemma encode3:
  assumes "a < 16" "x < 64" "y < 64" "0x800 \<le> (a * 64 + x) * 64 + y"
  shows "utf8_encode ((a * 64 + x) * 64 + y) =
    [word_of_nat (224 + a), word_of_nat (128 + x), word_of_nat (128 + y)]"
proof -
  define cp where "cp = (a * 64 + x) * 64 + y"
  have div: "cp div 64 = a * 64 + x" "cp mod 64 = y" "cp div 4096 = cp div 64 div 64"
    using assms by (simp_all only: cp_def digit64) (simp add: div_mult2_eq [symmetric])
  have "cp < 0x10000" using assms(1-3) unfolding cp_def add_mult_distrib by linarith
  moreover have "0x800 \<le> cp" using assms(4) by (simp only: cp_def)
  moreover from this have "\<not> cp < 0x80" "\<not> cp < 0x800" by simp_all
  ultimately show ?thesis
    unfolding cp_def [symmetric] utf8_encode_def by (simp add: div digit64 assms)
qed

lemma encode4:
  assumes "a < 8" "x < 64" "y < 64" "z < 64" "0x10000 \<le> ((a * 64 + x) * 64 + y) * 64 + z"
  shows "utf8_encode (((a * 64 + x) * 64 + y) * 64 + z) =
    [word_of_nat (240 + a), word_of_nat (128 + x), word_of_nat (128 + y), word_of_nat (128 + z)]"
proof -
  define cp where "cp = ((a * 64 + x) * 64 + y) * 64 + z"
  have "cp div 64 = (a * 64 + x) * 64 + y" "cp mod 64 = z"
    by (simp_all only: cp_def digit64 assms)
  moreover have "cp div 4096 = cp div 64 div 64" "cp div 262144 = cp div 64 div 64 div 64"
    by (simp_all add: div_mult2_eq [symmetric])
  ultimately have div: "cp mod 64 = z" "cp div 64 mod 64 = y" "cp div 4096 mod 64 = x" "cp div 262144 = a"
    by (simp_all only: digit64 assms)
  have "0x10000 \<le> cp" using assms(5) by (simp only: cp_def)
  then have "\<not> cp < 0x10000" "\<not> cp < 0x80" "\<not> cp < 0x800" by simp_all
  then show ?thesis
    unfolding cp_def [symmetric] utf8_encode_def by (simp add: div digit64 assms)
qed

lemma div_split: "n div d = q \<Longrightarrow> n = q * d + n mod (d :: nat)"
  by (metis div_mult_mod_eq)

lemma lead_split:
  "192 \<le> n \<Longrightarrow> n < 224 \<Longrightarrow> n = 192 + n mod 32"
  "224 \<le> n \<Longrightarrow> n < 240 \<Longrightarrow> n = 224 + n mod 16"
  "240 \<le> n \<Longrightarrow> n < 248 \<Longrightarrow> n = 240 + (n mod 8 :: nat)"
  using div_split [of n 32 6] div_split [of n 16 14] div_split [of n 8 30]
  by (simp_all add: div_eq_interval)

lemma utf8_step_sound:
  assumes "utf8_step n b bs = Inr (k, rest)"
  shows "\<exists>cp. mqtt_char cp \<and> b # bs = utf8_encode cp @ rest \<and> length (utf8_encode cp) = k"
proof -
  obtain v cp where lead: "utf8_lead b = Some (k, v)" and cont: "utf8_cont (k - 1) v bs = Inr (cp, rest)"
    and ok: "\<not> utf8_reject k cp"
    using assms by (auto simp: utf8_step_Inr_iff)
  from lead consider "k = 1" | "k = 2" | "k = 3" | "k = 4"
    unfolding utf8_lead_Some_iff by blast
  then have "b # bs = utf8_encode cp @ rest \<and> length (utf8_encode cp) = k \<and> cp \<le> 0x10FFFF"
  proof cases
    case 1
    with lead cont show ?thesis
      by (auto simp: utf8_lead_Some_iff utf8_encode_def)
  next
    case 2
    define a where "a = unat b mod 32"
    from 2 lead have b: "unat b = 192 + a" "v = a" "2 \<le> a" "a < 32"
      using lead_split(1) [of "unat b"] by (auto simp: utf8_lead_Some_iff a_def)
    from 2 cont obtain c x where "bs = c # rest" "unat c = 128 + x" "x < 64" "cp = a * 64 + x"
      by (auto simp: utf8_cont_Suc_iff b)
    with b 2 show ?thesis
      using encode2 [of a x] by (simp add: u8_sum)
  next
    case 3
    define a where "a = unat b mod 16"
    from 3 lead have b: "unat b = 224 + a" "v = a" "a < 16"
      using lead_split(2) [of "unat b"] by (auto simp: utf8_lead_Some_iff a_def)
    from 3 cont obtain c x d y where "bs = c # d # rest" "unat c = 128 + x" "x < 64"
        "unat d = 128 + y" "y < 64" "cp = (a * 64 + x) * 64 + y"
      by (auto simp: utf8_cont_Suc_iff numeral_2_eq_2 b)
    with b 3 ok show ?thesis
      using encode3 [of a x y] by (simp add: u8_sum utf8_reject_iff)
  next
    case 4
    define a where "a = unat b mod 8"
    from 4 lead have b: "unat b = 240 + a" "v = a" "a < 8"
      using lead_split(3) [of "unat b"] by (auto simp: utf8_lead_Some_iff a_def)
    from 4 cont obtain c x d y e z where "bs = c # d # e # rest" "unat c = 128 + x" "x < 64"
        "unat d = 128 + y" "y < 64" "unat e = 128 + z" "z < 64"
        "cp = ((a * 64 + x) * 64 + y) * 64 + z"
      by (auto simp: utf8_cont_Suc_iff numeral_3_eq_3 b)
    with b 4 ok show ?thesis
      using encode4 [of a x y z] by (simp add: u8_sum utf8_reject_iff)
  qed
  then show ?thesis
    using ok by (auto simp: utf8_reject_iff mqtt_char_def)
qed

lemma utf8_step_complete:
  assumes cp: "mqtt_char cp" and enc: "utf8_encode cp = b # es" and n: "Suc (length es) \<le> n"
  shows "utf8_step n b (es @ rest) = Inr (Suc (length es), rest)"
proof -
  consider "cp < 0x80" | "0x80 \<le> cp" "cp < 0x800" | "0x800 \<le> cp" "cp < 0x10000" | "0x10000 \<le> cp"
    by linarith
  then show ?thesis
  proof cases
    case 1
    with cp enc n show ?thesis
      by (auto simp: utf8_encode_def utf8_step_Inr_iff utf8_lead_Some_iff unat_word_of_nat_u8
          utf8_reject_iff mqtt_char_def)
  next
    case 2
    define a x where "a = cp div 64" and "x = cp mod 64"
    have dec: "cp = a * 64 + x" "x < 64" by (simp_all add: a_def x_def)
    then have "2 \<le> a" "a < 32" using 2 by linarith+
    with dec encode2 [of a x] enc have "b = 192 + word_of_nat a" "es = [128 + word_of_nat x]"
      by simp_all
    then show ?thesis
      using dec \<open>a < 32\<close> \<open>2 \<le> a\<close> n cp
      by (auto simp: utf8_step_Inr_iff utf8_lead_Some_iff unat_u8_sum utf8_cont_Suc_iff
          utf8_reject_iff mqtt_char_def mod_add_eq [symmetric, of 192 a 32] simp del: utf8_cont.simps(3))
  next
    case 3
    define a x y where "a = cp div 64 div 64" and "x = cp div 64 mod 64" and "y = cp mod 64"
    have dec: "cp = (a * 64 + x) * 64 + y" "x < 64" "y < 64" by (simp_all add: a_def x_def y_def)
    have a: "a < 16" using 3 less_mult_imp_div_less [of cp 16 4096]
      by (simp add: a_def div_mult2_eq [symmetric])
    with dec encode3 [of a x y] enc 3(1)
    have "b = 224 + word_of_nat a" "es = [128 + word_of_nat x, 128 + word_of_nat y]"
      by simp_all
    then show ?thesis
      using dec a n cp 3
      by (auto simp: utf8_step_Inr_iff utf8_lead_Some_iff unat_u8_sum utf8_cont_Suc_iff numeral_2_eq_2
          utf8_reject_iff mqtt_char_def mod_add_eq [symmetric, of 224 a 16] simp del: utf8_cont.simps(3))
  next
    case 4
    define a x y z where "a = cp div 64 div 64 div 64" and "x = cp div 64 div 64 mod 64"
      and "y = cp div 64 mod 64" and "z = cp mod 64"
    have dec: "cp = ((a * 64 + x) * 64 + y) * 64 + z" "x < 64" "y < 64" "z < 64"
      by (simp_all add: a_def x_def y_def z_def)
    have "cp \<le> 0x10FFFF" using cp by (auto simp: mqtt_char_def)
    then have a: "a < 5" using less_mult_imp_div_less [of cp 5 262144]
      by (simp add: a_def div_mult2_eq [symmetric])
    with dec encode4 [of a x y z] enc 4
    have "b = 240 + word_of_nat a"
      "es = [128 + word_of_nat x, 128 + word_of_nat y, 128 + word_of_nat z]"
      by simp_all
    then show ?thesis
      using dec a n cp 4
      by (auto simp: utf8_step_Inr_iff utf8_lead_Some_iff unat_u8_sum utf8_cont_Suc_iff numeral_3_eq_3
          utf8_reject_iff mqtt_char_def mod_add_eq [symmetric, of 240 a 8] simp del: utf8_cont.simps(3))
  qed
qed

lemma utf8_encode_nonzero: "mqtt_char cp \<Longrightarrow> 0 \<notin> set (utf8_encode cp)"
  by (auto simp: utf8_encode_def mqtt_char_def u8_eq_iff unat_word_of_nat_u8 unat_u8_sum
      dest!: arg_cong [of _ _ unat] split: if_splits)

lemma utf8_encode_Cons: "\<exists>b es. utf8_encode cp = b # es"
  by (simp add: utf8_encode_def)

lemma utf8_cont_no_trap:
  "j < length bs \<Longrightarrow> bs ! j = 0 \<Longrightarrow> utf8_cont k cp bs \<noteq> Inl Trap"
proof (induction k cp bs arbitrary: j rule: utf8_cont.induct)
  case (3 k cp b bs)
  then show ?case by (cases j) auto
qed auto

section \<open>The loop against the reference\<close>

lemma utf8_step_within:
  assumes step: "utf8_step (Suc n) b bs = Inr (k, rest)"
    and nul: "Suc n < length (b # bs)" "(b # bs) ! Suc n = 0"
  shows "\<exists>cp. mqtt_char cp \<and> b # bs = utf8_encode cp @ rest \<and> length (utf8_encode cp) = k \<and>
    1 \<le> k \<and> k \<le> Suc n"
proof -
  obtain cp where cp: "mqtt_char cp" "b # bs = utf8_encode cp @ rest" "length (utf8_encode cp) = k"
    using utf8_step_sound [OF step] by blast
  have "k \<le> Suc n"
  proof (rule ccontr)
    assume "\<not> k \<le> Suc n"
    with cp have "(b # bs) ! Suc n = utf8_encode cp ! Suc n" by (simp add: nth_append)
    with nul cp \<open>\<not> k \<le> Suc n\<close> have "0 \<in> set (utf8_encode cp)"
      by (metis not_le nth_mem)
    with utf8_encode_nonzero [OF cp(1)] show False by simp
  qed
  moreover have "1 \<le> k" using cp(3) utf8_encode_Cons [of cp] by auto
  ultimately show ?thesis using cp by blast
qed

lemma utf8_loop_sound:
  "utf8_loop n bs = Inr () \<Longrightarrow> n < length bs \<Longrightarrow> bs ! n = 0 \<Longrightarrow>
   \<exists>cps. list_all mqtt_char cps \<and> take n bs = utf8_text cps"
proof (induction n bs rule: utf8_loop.induct)
  case (1 bs)
  show ?case by (intro exI [of _ "[]"]) (simp add: utf8_text_def)
next
  case (3 n b bs)
  then obtain k rest where step: "utf8_step (Suc n) b bs = Inr (k, rest)"
    and loop: "utf8_loop (Suc n - k) rest = Inr ()"
    by (auto simp: fault_simps)
  obtain cp where cp: "mqtt_char cp" "b # bs = utf8_encode cp @ rest" "length (utf8_encode cp) = k"
    "1 \<le> k" "k \<le> Suc n"
    using utf8_step_within [OF step 3(3,4)] by blast
  have "(b # bs) ! Suc n = rest ! (Suc n - k)" "Suc n - k < length rest"
    using cp 3(3) by (auto simp: nth_append not_less dest: arg_cong [of _ _ length])
  with 3 loop step obtain cps where "list_all mqtt_char cps" "take (Suc n - k) rest = utf8_text cps"
    by (metis (no_types, lifting))
  then show ?case
    using cp by (intro exI [of _ "cp # cps"]) (simp add: utf8_text_def del: take_Suc_Cons)
qed auto

lemma utf8_loop_complete:
  "list_all mqtt_char cps \<Longrightarrow> utf8_loop (length (utf8_text cps)) (utf8_text cps @ rest) = Inr ()"
proof (induction cps)
  case (Cons cp cps)
  obtain b es where enc: "utf8_encode cp = b # es" using utf8_encode_Cons by blast
  with Cons utf8_step_complete [of cp b es "length (utf8_text (cp # cps))" "utf8_text cps @ rest"]
  show ?case by (simp add: utf8_text_def)
qed (simp add: utf8_text_def)

lemma utf8_loop_no_trap:
  "n < length bs \<Longrightarrow> bs ! n = 0 \<Longrightarrow> utf8_loop n bs \<noteq> Inl Trap"
proof (induction n bs rule: utf8_loop.induct)
  case (3 n b bs)
  have "utf8_step (Suc n) b bs \<noteq> Inl Trap"
    using 3 utf8_cont_no_trap [of n bs]
    by (auto simp: utf8_step_def fault_simps split: option.splits if_splits)
  moreover have "utf8_loop (Suc n - k) rest \<noteq> Inl Trap" if st: "utf8_step (Suc n) b bs = Inr (k, rest)" for k rest
  proof -
    obtain cp where cp: "b # bs = utf8_encode cp @ rest" "length (utf8_encode cp) = k" "1 \<le> k" "k \<le> Suc n"
      using utf8_step_within [OF st 3(2,3)] by blast
    have "(b # bs) ! Suc n = rest ! (Suc n - k)" "Suc n - k < length rest"
      using cp 3(2) by (auto simp: nth_append not_less dest: arg_cong [of _ _ length])
    with 3 st show ?thesis by auto
  qed
  ultimately show ?case by (auto simp: fault_simps)
qed auto

section \<open>Properties\<close>

text \<open>
  C25: on a NUL-terminated string, \<open>mosquitto_validate_utf8\<close> accepts the first \<open>n\<close> bytes
  exactly when they are the UTF-8 encoding of a sequence of code points none of which is
  a control character, a surrogate, a non-character or beyond \<open>0x10FFFF\<close>: nothing else
  passes (overlong forms included) and nothing of that form is refused.
\<close>

theorem validate_utf8_iff:
  assumes "n < length ustr" and "ustr ! n = 0" and "n \<le> 65536"
  shows "mosquitto_validate_utf8 (Some ustr) (int n) = Inr () \<longleftrightarrow>
    (\<exists>cps. list_all mqtt_char cps \<and> take n ustr = utf8_text cps)"
proof
  assume "mosquitto_validate_utf8 (Some ustr) (int n) = Inr ()"
  then show "\<exists>cps. list_all mqtt_char cps \<and> take n ustr = utf8_text cps"
    using assms utf8_loop_sound [of n ustr] by (simp add: mosquitto_validate_utf8_def)
next
  assume "\<exists>cps. list_all mqtt_char cps \<and> take n ustr = utf8_text cps"
  then obtain cps where cps: "list_all mqtt_char cps" "take n ustr = utf8_text cps" by blast
  then have "utf8_loop n ustr = Inr ()"
    using utf8_loop_complete [OF cps(1), of "drop n ustr"] assms
    by (metis append_take_drop_id length_take less_imp_le_nat min.absorb2)
  then show "mosquitto_validate_utf8 (Some ustr) (int n) = Inr ()"
    using assms by (simp add: mosquitto_validate_utf8_def)
qed

theorem validate_utf8_iff_witness:
  "mosquitto_validate_utf8 (Some [0xE2, 0x82, 0xAC, 0]) (int 3) = Inr () \<longleftrightarrow>
    (\<exists>cps. list_all mqtt_char cps \<and> take 3 [0xE2, 0x82, 0xAC, 0] = utf8_text cps)"
  by (rule validate_utf8_iff) simp_all

text \<open>
  C34: on a NUL-terminated string of any length the validator never reads outside the
  buffer, whatever the bytes are: the bytes that announce a longer sequence than is left
  are stopped by the terminator at the latest.
\<close>

theorem validate_utf8_no_overread:
  assumes "n < length ustr" and "ustr ! n = 0"
  shows "mosquitto_validate_utf8 (Some ustr) (int n) \<noteq> Inl Trap"
  using assms utf8_loop_no_trap [of n ustr] by (simp add: mosquitto_validate_utf8_def)

theorem validate_utf8_no_overread_witness:
  "mosquitto_validate_utf8 (Some [0xF0, 0]) (int 1) \<noteq> Inl Trap"
  by (rule validate_utf8_no_overread) simp_all

text \<open>
  The terminator is needed. The test for too little data (\<open>i == len-codelen+1\<close>)
  notices only a sequence that is short of exactly one byte, so where the bytes behind
  \<open>len\<close> go on with the encoding of a character of three bytes, its first byte alone is
  accepted as a string of length 1, although it is not the encoding of any text.
\<close>

theorem validate_utf8_accepts_truncated:
  assumes "mqtt_char cp" and "length (utf8_encode cp) = 3"
  shows "mosquitto_validate_utf8 (Some (utf8_encode cp)) 1 = Inr () \<and>
    (\<forall>cps. utf8_text cps \<noteq> take 1 (utf8_encode cp))"
proof -
  obtain b es where enc: "utf8_encode cp = b # es" using utf8_encode_Cons by blast
  have lead: "\<exists>v. utf8_lead b = Some (3, v)"
    using utf8_step_complete [OF assms(1) enc, of 3 "[]"] assms(2)
    by (auto simp: enc utf8_step_Inr_iff)
  have "utf8_step 3 b es = Inr (3, [])"
    using utf8_step_complete [OF assms(1) enc, of 3 "[]"] assms(2) by (simp add: enc)
  then have "utf8_step 1 b es = Inr (3, [])"
    using lead by (auto simp: utf8_step_Inr_iff)
  moreover have "utf8_text cps \<noteq> [b]" for cps
  proof
    assume "utf8_text cps = [b]"
    then have "\<exists>c. utf8_encode c = [b]"
    proof (cases cps)
      case (Cons c cs)
      with \<open>utf8_text cps = [b]\<close> show ?thesis
        using utf8_encode_Cons [of c] by (auto simp: utf8_text_def append_eq_Cons_conv)
    qed (simp add: utf8_text_def)
    then have "unat b < 128"
      by (auto simp: utf8_encode_def unat_word_of_nat_u8 split: if_splits)
    with lead show False by (auto simp: utf8_lead_Some_iff)
  qed
  ultimately show ?thesis
    using assms(2) by (simp add: enc mosquitto_validate_utf8_def)
qed

theorem validate_utf8_accepts_truncated_witness:
  "mosquitto_validate_utf8 (Some [0xE2, 0x82, 0xAC]) 1 = Inr ()"
  using validate_utf8_accepts_truncated [of 8364]
  by (simp add: mqtt_char_def utf8_encode_def)

end
