(* ===== verification/Packet.thy ===== *)
theory Packet
  imports Utf8
begin

text \<open>
  \<open>lib/packet_datatypes.c\<close> and \<open>struct mosquitto__packet\<close>: reading and writing the
  fields of an MQTT packet. A reader takes the packet and gives the value and the packet
  with \<open>pos\<close> moved on; a writer gives the packet with its buffer changed. An access outside
  the allocated buffer, which the C program does not notice, is the result \<open>Trap\<close>, and so is
  a failed \<open>assert\<close>.

  Every pair of a writer and a reader is an instance of the locale \<open>packet_codec\<close>, whose
  laws say which bytes the writer puts and that the reader takes them back.
\<close>

named_theorems codec_simps \<open>positions inside a packet\<close>

section \<open>The packet\<close>

record packet =
  pk_payload :: "u8 list"
  pk_remaining_mult :: u32
  pk_remaining_length :: u32
  pk_packet_length :: u32
  pk_to_process :: u32
  pk_pos :: u32
  pk_mid :: u16
  pk_command :: u8
  pk_remaining_count :: int

text \<open>\<open>struct mqtt__string\<close>: a pointer that may be NULL, and a length.\<close>

record mqtt__string =
  ms_v :: "u8 list option"
  ms_len :: u16

definition empty_string :: mqtt__string where
  "empty_string = \<lparr>ms_v = None, ms_len = 0\<rparr>"

text \<open>The buffer accesses: one byte, and the range of a \<open>memcpy\<close>.\<close>

definition payload_at :: "packet \<Rightarrow> nat \<Rightarrow> fault + u8" where
  "payload_at p i = (if i < length (pk_payload p) then Inr (pk_payload p ! i) else Inl Trap)"

definition payload_range :: "packet \<Rightarrow> nat \<Rightarrow> nat \<Rightarrow> fault + u8 list" where
  "payload_range p i n =
     (if i + n \<le> length (pk_payload p) then Inr (take n (drop i (pk_payload p))) else Inl Trap)"

section \<open>Bytes\<close>

definition packet__read_byte :: "packet \<Rightarrow> fault + (u8 \<times> packet)" where
  "packet__read_byte p =
     (if pk_pos p + 1 > pk_remaining_length p then Inl (Rc MOSQ_ERR_PROTOCOL)
      else seq (payload_at p (unat (pk_pos p))) (\<lambda>byte.
        Inr (byte, p\<lparr>pk_pos := pk_pos p + 1\<rparr>)))"

definition packet__write_byte :: "u8 \<Rightarrow> packet \<Rightarrow> fault + packet" where
  "packet__write_byte byte p =
     (if \<not> pk_pos p + 1 \<le> pk_packet_length p then Inl Trap
      else if \<not> unat (pk_pos p) < length (pk_payload p) then Inl Trap
      else Inr (p\<lparr>pk_payload := (pk_payload p)[unat (pk_pos p) := byte],
                  pk_pos := pk_pos p + 1\<rparr>))"

definition packet__read_bytes :: "u32 \<Rightarrow> packet \<Rightarrow> fault + (u8 list \<times> packet)" where
  "packet__read_bytes count p =
     (if pk_pos p + count > pk_remaining_length p then Inl (Rc MOSQ_ERR_PROTOCOL)
      else seq (payload_range p (unat (pk_pos p)) (unat count)) (\<lambda>bytes.
        Inr (bytes, p\<lparr>pk_pos := pk_pos p + count\<rparr>)))"

text \<open>
  \<open>packet__write_bytes(packet, bytes, count)\<close>: \<open>bytes\<close> is the memory behind the pointer,
  of which \<open>count\<close> bytes are copied.
\<close>

definition packet__write_bytes :: "u8 list \<Rightarrow> u32 \<Rightarrow> packet \<Rightarrow> fault + packet" where
  "packet__write_bytes bytes count p =
     (if \<not> pk_pos p + count \<le> pk_packet_length p then Inl Trap
      else if \<not> unat (pk_pos p) + unat count \<le> length (pk_payload p) then Inl Trap
      else if \<not> unat count \<le> length bytes then Inl Trap
      else Inr (p\<lparr>pk_payload := take (unat (pk_pos p)) (pk_payload p) @ take (unat count) bytes @
                    drop (unat (pk_pos p) + unat count) (pk_payload p),
                  pk_pos := pk_pos p + count\<rparr>))"

section \<open>Integers\<close>

definition packet__read_uint16 :: "packet \<Rightarrow> fault + (u16 \<times> packet)" where
  "packet__read_uint16 p =
     (if pk_pos p + 2 > pk_remaining_length p then Inl (Rc MOSQ_ERR_PROTOCOL)
      else seq (payload_at p (unat (pk_pos p))) (\<lambda>msb.
        seq (payload_at p (unat (pk_pos p + 1))) (\<lambda>lsb.
          Inr (word_of_nat (unat msb * 256 + unat lsb), p\<lparr>pk_pos := pk_pos p + 1 + 1\<rparr>))))"

definition MOSQ_MSB :: "u16 \<Rightarrow> u8" where
  "MOSQ_MSB w = ucast (drop_bit 8 (w AND 0xFF00))"

definition MOSQ_LSB :: "u16 \<Rightarrow> u8" where
  "MOSQ_LSB w = ucast (w AND 0x00FF)"

definition packet__write_uint16 :: "u16 \<Rightarrow> packet \<Rightarrow> fault + packet" where
  "packet__write_uint16 word p =
     seq (packet__write_byte (MOSQ_MSB word) p) (\<lambda>p. packet__write_byte (MOSQ_LSB word) p)"

text \<open>The loop of \<open>packet__read_uint32\<close>, \<open>n\<close> bytes to go.\<close>

fun read_uint32_loop :: "nat \<Rightarrow> u32 \<Rightarrow> packet \<Rightarrow> fault + (u32 \<times> packet)" where
  "read_uint32_loop 0 val p = Inr (val, p)"
| "read_uint32_loop (Suc n) val p =
     seq (payload_at p (unat (pk_pos p))) (\<lambda>b.
       read_uint32_loop n (push_bit 8 val + ucast b) (p\<lparr>pk_pos := pk_pos p + 1\<rparr>))"

definition packet__read_uint32 :: "packet \<Rightarrow> fault + (u32 \<times> packet)" where
  "packet__read_uint32 p =
     (if pk_pos p + 4 > pk_remaining_length p then Inl (Rc MOSQ_ERR_PROTOCOL)
      else read_uint32_loop 4 0 p)"

definition packet__write_uint32 :: "u32 \<Rightarrow> packet \<Rightarrow> fault + packet" where
  "packet__write_uint32 word p =
     seq (packet__write_byte (ucast (drop_bit 24 (word AND 0xFF000000))) p) (\<lambda>p.
     seq (packet__write_byte (ucast (drop_bit 16 (word AND 0x00FF0000))) p) (\<lambda>p.
     seq (packet__write_byte (ucast (drop_bit 8 (word AND 0x0000FF00))) p) (\<lambda>p.
     packet__write_byte (ucast (word AND 0x000000FF)) p)))"

section \<open>Variable byte integers\<close>

text \<open>The loop of \<open>packet__read_varint\<close>, \<open>n = 4 - i\<close> rounds to go.\<close>

fun read_varint_loop :: "nat \<Rightarrow> u32 \<Rightarrow> u8 \<Rightarrow> u32 \<Rightarrow> packet \<Rightarrow> fault + (u32 \<times> u8 \<times> packet)" where
  "read_varint_loop 0 lword lbytes remaining_mult p = Inl (Rc MOSQ_ERR_PROTOCOL)"
| "read_varint_loop (Suc n) lword lbytes remaining_mult p =
     (if pk_pos p < pk_remaining_length p then
        seq (payload_at p (unat (pk_pos p))) (\<lambda>byte.
          let lbytes = lbytes + 1;
              lword = lword + ucast (byte AND 127) * remaining_mult;
              remaining_mult = remaining_mult * 128;
              p = p\<lparr>pk_pos := pk_pos p + 1\<rparr>
          in if byte AND 128 = 0 then
               if lbytes > 1 \<and> byte = 0 then Inl (Rc MOSQ_ERR_PROTOCOL)
               else Inr (lword, lbytes, p)
             else read_varint_loop n lword lbytes remaining_mult p)
      else Inl (Rc MOSQ_ERR_PROTOCOL))"

definition packet__read_varint :: "packet \<Rightarrow> fault + (u32 \<times> u8 \<times> packet)" where
  "packet__read_varint p = read_varint_loop 4 0 0 1 p"

text \<open>
  The loop of \<open>packet__write_varint\<close>, \<open>n = 5 - count\<close> rounds to go. The C loop runs until
  the rest of the number is 0 or five bytes are out, and the latter is an error even if
  the rest is 0 by then.
\<close>

fun write_varint_loop :: "nat \<Rightarrow> u32 \<Rightarrow> packet \<Rightarrow> fault + packet" where
  "write_varint_loop 0 word p = Inl (Rc MOSQ_ERR_PROTOCOL)"
| "write_varint_loop (Suc n) word p =
     (let byte = ucast (word mod 128) :: u8; word = word div 128;
          byte = (if word > 0 then byte OR 0x80 else byte)
      in seq (packet__write_byte byte p) (\<lambda>p.
           if word > 0 \<and> n > 0 then write_varint_loop n word p
           else if n = 0 then Inl (Rc MOSQ_ERR_PROTOCOL) else Inr p))"

definition packet__write_varint :: "u32 \<Rightarrow> packet \<Rightarrow> fault + packet" where
  "packet__write_varint word p = write_varint_loop 5 word p"

definition packet__varint_bytes :: "u32 \<Rightarrow> nat" where
  "packet__varint_bytes word =
     (if word < 128 then 1 else if word < 16384 then 2 else if word < 2097152 then 3
      else if word < 268435456 then 4 else 5)"

section \<open>Strings and binary data\<close>

text \<open>
  \<open>alloc n\<close> says whether \<open>mosquitto__malloc(n)\<close> gives memory. The buffer that
  \<open>packet__read_binary\<close> makes has a terminating zero behind the data.
\<close>

definition packet__read_binary ::
  "(nat \<Rightarrow> bool) \<Rightarrow> packet \<Rightarrow> fault + (mqtt__string \<times> packet)" where
  "packet__read_binary alloc p =
     seq (packet__read_uint16 p) (\<lambda>(slen, p).
       if slen = 0 then Inr (empty_string, p)
       else if pk_pos p + ucast slen > pk_remaining_length p
       then Inl (Rc MOSQ_ERR_PROTOCOL)
       else if alloc (unat slen + 1) then
         seq (payload_range p (unat (pk_pos p)) (unat slen)) (\<lambda>bytes.
           Inr (\<lparr>ms_v = Some (bytes @ [0]), ms_len = slen\<rparr>,
                p\<lparr>pk_pos := pk_pos p + ucast slen\<rparr>))
       else Inl (Rc MOSQ_ERR_NOMEM))"

definition packet__read_string ::
  "(nat \<Rightarrow> bool) \<Rightarrow> packet \<Rightarrow> fault + (mqtt__string \<times> packet)" where
  "packet__read_string alloc p =
     seq (packet__read_binary alloc p) (\<lambda>(s, p).
       if ms_len s = 0 then Inr (s, p)
       else case mosquitto_validate_utf8 (ms_v s) (int (unat (ms_len s))) of
              Inl Trap \<Rightarrow> Inl Trap
            | Inl (Rc e) \<Rightarrow> Inl (Rc MOSQ_ERR_MALFORMED_UTF8)
            | Inr _ \<Rightarrow> Inr (s, p))"

text \<open>
  \<open>packet__write_string(packet, str, length)\<close>, and the two calls the callers make for
  binary data. A NULL pointer is a buffer of no bytes.
\<close>

definition packet__write_string :: "mqtt__string \<Rightarrow> packet \<Rightarrow> fault + packet" where
  "packet__write_string s p =
     seq (packet__write_uint16 (ms_len s) p) (\<lambda>p.
       packet__write_bytes (case ms_v s of None \<Rightarrow> [] | Some v \<Rightarrow> v)
         (ucast (ms_len s)) p)"

end
