(* ===== verification/Codec.thy ===== *)
theory Codec
  imports Packet
begin

text \<open>
  The contract between a packet writer and the reader of the same field: the locale
  \<open>packet_codec\<close>. Its laws name the bytes of a value, \<open>enc x\<close>; the writer puts them at
  \<open>pos\<close> and the reader finds them there. The lemmas proved from the laws alone (the round
  trip, the value read back and the position after it) hold for every interpretation:
  bytes, 16-bit and 32-bit integers, variable byte integers, strings and binary data here,
  whole properties in the theory of the properties.
\<close>

section \<open>Positions\<close>

text \<open>\<open>fits n p\<close>: the writer has room for \<open>n\<close> bytes; \<open>holds bs p\<close>: the reader sees \<open>bs\<close>.\<close>

definition fits :: "nat \<Rightarrow> packet \<Rightarrow> bool" where
  "fits n p \<longleftrightarrow> unat (pk_pos p) + n \<le> unat (pk_packet_length p) \<and>
     unat (pk_packet_length p) \<le> length (pk_payload p) \<and> unat (pk_packet_length p) < 2 ^ 31"

definition emit :: "u8 list \<Rightarrow> packet \<Rightarrow> packet" where
  "emit bs p = p\<lparr>pk_payload := take (unat (pk_pos p)) (pk_payload p) @ bs @
       drop (unat (pk_pos p) + length bs) (pk_payload p),
     pk_pos := pk_pos p + word_of_nat (length bs)\<rparr>"

definition readable :: "packet \<Rightarrow> bool" where
  "readable p \<longleftrightarrow> unat (pk_pos p) \<le> unat (pk_remaining_length p) \<and>
     unat (pk_remaining_length p) \<le> length (pk_payload p) \<and> unat (pk_remaining_length p) < 2 ^ 31"

definition holds :: "u8 list \<Rightarrow> packet \<Rightarrow> bool" where
  "holds bs p \<longleftrightarrow> readable p \<and> unat (pk_pos p) + length bs \<le> unat (pk_remaining_length p) \<and>
     take (length bs) (drop (unat (pk_pos p)) (pk_payload p)) = bs"

definition skip :: "nat \<Rightarrow> packet \<Rightarrow> packet" where
  "skip n p = p\<lparr>pk_pos := pk_pos p + word_of_nat n\<rparr>"

text \<open>The packet as its receiver sees it, from position \<open>i\<close> on.\<close>

definition reader_at :: "u32 \<Rightarrow> packet \<Rightarrow> packet" where
  "reader_at i p = p\<lparr>pk_pos := i, pk_remaining_length := pk_packet_length p\<rparr>"

lemma unat_u32_less: "unat (w :: u32) < 4294967296"
  using unsigned_less [of w, where 'a = nat] by simp

lemma unat_add_of_nat: "unat (w :: u32) + n < 2 ^ 32 \<Longrightarrow> unat (w + word_of_nat n) = unat w + n"
  by (simp add: unat_word_ariths unsigned_of_nat take_bit_nat_eq_self)

lemma unat_add_numeral:
  "unat (w :: u32) < 2 ^ 31 \<Longrightarrow> unat (w + 1) = unat w + 1"
  "unat w < 2 ^ 31 \<Longrightarrow> unat (w + 2) = unat w + 2"
  "unat w < 2 ^ 31 \<Longrightarrow> unat (w + 4) = unat w + 4"
  by (simp_all add: unat_word_ariths)

lemma fits_append:
  "fits (length (as @ bs)) p \<Longrightarrow> fits (length as) p \<and> fits (length bs) (emit as p)"
  by (auto simp: fits_def emit_def unat_add_of_nat)

lemma emit_append:
  assumes "fits (length (as @ bs)) p"
  shows "emit (as @ bs) p = emit bs (emit as p)"
proof -
  have "unat (pk_pos p + word_of_nat (length as)) = unat (pk_pos p) + length as"
    using assms by (simp add: fits_def unat_add_of_nat)
  then show ?thesis
    using assms by (simp add: emit_def fits_def ac_simps)
qed

lemma emit_Nil [simp]: "emit [] p = p"
  by (simp add: emit_def)

lemma skip_0 [simp]: "skip 0 p = p"
  by (simp add: skip_def)

lemma skip_skip [simp]: "skip m (skip n p) = skip (n + m) p"
  by (simp add: skip_def)

lemma holds_append:
  "holds (as @ bs) p \<Longrightarrow> holds as p \<and> holds bs (skip (length as) p)"
  by (auto simp: holds_def readable_def skip_def unat_add_of_nat take_add add.commute dest: arg_cong [of _ _ "take (length as)"] arg_cong [of _ _ "drop (length as)"]
      simp flip: drop_take)

lemma holds_emit:
  assumes "fits (length bs) p"
  shows "holds bs (reader_at (pk_pos p) (emit bs p))"
  using assms by (auto simp: holds_def readable_def reader_at_def fits_def emit_def)

lemma skip_emit: "skip (length bs) (reader_at (pk_pos p) (emit bs p)) = reader_at (pk_pos (emit bs p)) (emit bs p)"
  by (simp add: skip_def reader_at_def emit_def)

text \<open>A packet that holds just the given bytes.\<close>

definition packet_of :: "u8 list \<Rightarrow> packet" where
  "packet_of bs = \<lparr>pk_payload = bs, pk_remaining_mult = 1,
     pk_remaining_length = word_of_nat (length bs), pk_packet_length = word_of_nat (length bs),
     pk_to_process = 0, pk_pos = 0, pk_mid = 0, pk_command = 0, pk_remaining_count = 0\<rparr>"

lemma holds_packet_of: "length bs < 2 ^ 31 \<Longrightarrow> holds bs (packet_of bs)"
  by (simp add: holds_def readable_def packet_of_def unsigned_of_nat take_bit_nat_eq_self)

section \<open>The contract\<close>

locale packet_codec =
  fixes put :: "'a \<Rightarrow> packet \<Rightarrow> fault + packet"
    and get :: "packet \<Rightarrow> fault + ('a \<times> packet)"
    and enc :: "'a \<Rightarrow> u8 list"
    and ok :: "'a \<Rightarrow> bool"
  assumes put_enc: "ok x \<Longrightarrow> fits (length (enc x)) p \<Longrightarrow> put x p = Inr (emit (enc x) p)"
    and get_enc: "ok x \<Longrightarrow> holds (enc x) p \<Longrightarrow> get p = Inr (x, skip (length (enc x)) p)"
begin

lemma roundtrip:
  assumes "ok x" and "fits (length (enc x)) p"
  shows "\<exists>p'. put x p = Inr p' \<and> get (reader_at (pk_pos p) p') = Inr (x, reader_at (pk_pos p') p')"
  using put_enc [OF assms] get_enc [OF assms(1) holds_emit [OF assms(2)]] skip_emit [of "enc x" p]
  by auto

lemma enc_inject:
  assumes "ok x" "ok y" "enc x = enc y" "length (enc x) < 2 ^ 31"
  shows "x = y"
proof -
  have "holds (enc x) (packet_of (enc x))"
    using assms(4) by (rule holds_packet_of)
  then show ?thesis
    using get_enc [OF assms(1)] get_enc [OF assms(2)] assms(3) by fastforce
qed

text \<open>A value followed by other bytes: the reader stops at its end.\<close>

lemma get_prefix:
  assumes "ok x" and "holds (enc x @ bs) p"
  shows "get p = Inr (x, skip (length (enc x)) p) \<and> holds bs (skip (length (enc x)) p)"
  using holds_append [OF assms(2)] get_enc [OF assms(1)] by simp

end

end
