(* ===== verification/Field_Codecs.thy ===== *)
theory Field_Codecs
  imports Codec
begin

text \<open>
  The writers and readers of \<open>lib/packet_datatypes.c\<close> as instances of \<open>packet_codec\<close>:
  for each the bytes on the wire, the laws, and the interpretation.
\<close>

section \<open>Bounds checks of readers and writers\<close>

lemma pos_le_iff:
  "unat (pk_pos p) < 2 ^ 31 \<Longrightarrow> n < 2 ^ 31 \<Longrightarrow>
   (pk_pos p + word_of_nat n \<le> w) = (unat (pk_pos p) + n \<le> unat w)"
  by (simp add: word_le_nat_alt unat_add_of_nat)

lemma readable_pos: "readable p \<Longrightarrow> unat (pk_pos p) < 2 ^ 31"
  by (auto simp: readable_def)

lemma fits_pos: "fits n p \<Longrightarrow> unat (pk_pos p) < 2 ^ 31"
  by (auto simp: fits_def)

lemma read_check:
  assumes "readable p"
  shows "n < 2 ^ 31 \<Longrightarrow> (pk_remaining_length p < pk_pos p + word_of_nat n) =
      (unat (pk_remaining_length p) < unat (pk_pos p) + n)"
    and "(pk_remaining_length p < pk_pos p + 1) = (unat (pk_remaining_length p) < unat (pk_pos p) + 1)"
    and "(pk_remaining_length p < pk_pos p + 2) = (unat (pk_remaining_length p) < unat (pk_pos p) + 2)"
    and "(pk_remaining_length p < pk_pos p + 4) = (unat (pk_remaining_length p) < unat (pk_pos p) + 4)"
  using pos_le_iff [of p n "pk_remaining_length p"] readable_pos [OF assms]
  by (simp_all add: not_le [symmetric] word_le_nat_alt unat_add_numeral)

lemma holds_Cons:
  assumes "holds (b # bs) p"
  shows "payload_at p (unat (pk_pos p)) = Inr b" and "pk_pos p < pk_remaining_length p"
    and "holds bs (p\<lparr>pk_pos := pk_pos p + 1\<rparr>)"
proof -
  show "payload_at p (unat (pk_pos p)) = Inr b"
    using assms by (cases "drop (unat (pk_pos p)) (pk_payload p)")
      (auto simp: holds_def readable_def payload_at_def nth_via_drop)
  show "pk_pos p < pk_remaining_length p"
    using assms by (auto simp: holds_def word_less_nat_alt)
  show "holds bs (p\<lparr>pk_pos := pk_pos p + 1\<rparr>)"
    using holds_append [of "[b]" bs p] assms by (simp add: skip_def)
qed

lemma holds_range:
  "holds bs p \<Longrightarrow> payload_range p (unat (pk_pos p)) (length bs) = Inr bs"
  by (auto simp: holds_def readable_def payload_range_def)

lemma holds_readable: "holds bs p \<Longrightarrow> readable p"
  by (simp add: holds_def)

lemma holds_room: "holds bs p \<Longrightarrow> unat (pk_pos p) + length bs \<le> unat (pk_remaining_length p)"
  by (simp add: holds_def)

lemma write_byte_emit: "fits (Suc 0) p \<Longrightarrow> packet__write_byte b p = Inr (emit [b] p)"
  using pos_le_iff [of p 1 "pk_packet_length p"] fits_pos [of "Suc 0" p]
  by (auto simp: packet__write_byte_def emit_def fits_def upd_conv_take_nth_drop)

lemma write_byte_fits:
  "fits (Suc n) p \<Longrightarrow> packet__write_byte b p = Inr (emit [b] p) \<and> fits n (emit [b] p)"
  using fits_append [of "[b]" "replicate n 0" p] write_byte_emit [of p b] by (auto simp: fits_def)

lemma emit_Cons: "fits (Suc (length bs)) p \<Longrightarrow> emit bs (emit [b] p) = emit (b # bs) p"
  using emit_append [of "[b]" bs p] by simp

lemma write_bytes_emit:
  assumes "fits (unat n) p" and "unat n \<le> length bs" and "unat n < 2 ^ 31"
  shows "packet__write_bytes bs n p = Inr (emit (take (unat n) bs) p)"
  using assms pos_le_iff [of p "unat n" "pk_packet_length p"] fits_pos [of "unat n" p]
  by (auto simp: packet__write_bytes_def emit_def fits_def)

section \<open>Bytes\<close>

definition enc_byte :: "u8 \<Rightarrow> u8 list" where
  "enc_byte b = [b]"

interpretation byte_codec: packet_codec packet__write_byte packet__read_byte enc_byte "\<lambda>_. True"
proof unfold_locales
  fix x p
  assume "fits (length (enc_byte x)) p"
  then show "packet__write_byte x p = Inr (emit (enc_byte x) p)"
    by (simp add: enc_byte_def write_byte_emit)
next
  fix x p
  assume h: "holds (enc_byte x) p"
  then show "packet__read_byte p = Inr (x, skip (length (enc_byte x)) p)"
    using holds_Cons [of x "[]" p] holds_room [OF h] holds_readable [OF h]
    by (simp add: enc_byte_def packet__read_byte_def read_check skip_def)
qed

section \<open>16-bit integers\<close>

definition enc_uint16 :: "u16 \<Rightarrow> u8 list" where
  "enc_uint16 w = [word_of_nat (unat w div 256), word_of_nat (unat w mod 256)]"

lemma length_enc_uint16 [simp]: "length (enc_uint16 w) = 2"
  by (simp add: enc_uint16_def)

lemma unat_u16_less: "unat (w :: u16) < 65536"
  using unsigned_less [of w, where 'a = nat] by simp

lemma unat_ucast_u8: "unat (ucast (w :: 'a::len word) :: u8) = unat w mod 256"
  by (simp add: unsigned_ucast_eq take_bit_eq_mod)

lemma MOSQ_MSB_LSB:
  "MOSQ_MSB w = word_of_nat (unat w div 256)" "MOSQ_LSB w = word_of_nat (unat w mod 256)"
proof -
  have "drop_bit 8 (w AND 0xFF00) = drop_bit 8 w"
  proof (rule bit_word_eqI)
    fix n assume "n < LENGTH(16)"
    have m: "(0xFF00 :: u16) = push_bit 8 (mask 8)" by (simp add: mask_eq_exp_minus_1)
    show "bit (drop_bit 8 (w AND 0xFF00)) n = bit (drop_bit 8 w) n"
      unfolding m using bit_imp_le_length [of w "8 + n"]
      by (auto simp only: bit_drop_bit_eq bit_and_iff bit_push_bit_iff bit_mask_iff o_def) simp_all
  qed
  moreover have "unat (drop_bit 8 w) = unat w div 256"
    by (simp only: unsigned_drop_bit_eq) (simp add: drop_bit_eq_div take_bit_nat_eq_self unat_u16_less)
  ultimately show "MOSQ_MSB w = word_of_nat (unat w div 256)"
    using unat_u16_less [of w]
    by (simp only: MOSQ_MSB_def u8_eq_iff unat_ucast_u8) (simp add: unat_word_of_nat_u8 less_mult_imp_div_less)
  have "w AND 0xFF = take_bit 8 w"
    using take_bit_eq_mask [of 8 w] by (simp add: mask_eq_exp_minus_1)
  moreover have "unat (take_bit 8 w) = unat w mod 256"
    by (simp only: unsigned_take_bit_eq) (simp add: take_bit_eq_mod)
  ultimately show "MOSQ_LSB w = word_of_nat (unat w mod 256)"
    by (simp only: MOSQ_LSB_def u8_eq_iff unat_ucast_u8) (simp add: unat_word_of_nat_u8)
qed

interpretation uint16_codec: packet_codec packet__write_uint16 packet__read_uint16 enc_uint16 "\<lambda>_. True"
proof unfold_locales
  fix x p
  assume "fits (length (enc_uint16 x)) p"
  then have f: "fits (Suc (Suc 0)) p" by (simp add: numeral_2_eq_2)
  then show "packet__write_uint16 x p = Inr (emit (enc_uint16 x) p)"
    using write_byte_fits [OF f, of "MOSQ_MSB x"]
      write_byte_emit [of "emit [MOSQ_MSB x] p" "MOSQ_LSB x"] emit_Cons [of "[MOSQ_LSB x]" p "MOSQ_MSB x"]
    by (simp add: packet__write_uint16_def enc_uint16_def MOSQ_MSB_LSB)
next
  fix x p
  assume h: "holds (enc_uint16 x) p"
  define msb lsb where "msb = (word_of_nat (unat x div 256) :: u8)" and "lsb = (word_of_nat (unat x mod 256) :: u8)"
  have e: "enc_uint16 x = [msb, lsb]" by (simp add: enc_uint16_def msb_def lsb_def)
  have "unat msb * 256 + unat lsb = unat x"
    using unat_u16_less [of x] by (simp add: msb_def lsb_def unat_word_of_nat_u8 less_mult_imp_div_less)
  then have "word_of_nat (unat msb * 256 + unat lsb) = x" by simp
  then show "packet__read_uint16 p = Inr (x, skip (length (enc_uint16 x)) p)"
    using holds_Cons [OF h [unfolded e]] holds_Cons(1) [OF holds_Cons(3) [OF h [unfolded e]]]
      holds_room [OF h] holds_readable [OF h]
    by (simp add: packet__read_uint16_def read_check skip_def payload_at_def split: if_splits)
qed

section \<open>32-bit integers\<close>

definition enc_uint32 :: "u32 \<Rightarrow> u8 list" where
  "enc_uint32 w = [word_of_nat (unat w div 16777216), word_of_nat (unat w div 65536 mod 256),
     word_of_nat (unat w div 256 mod 256), word_of_nat (unat w mod 256)]"

lemma length_enc_uint32 [simp]: "length (enc_uint32 w) = 4"
  by (simp add: enc_uint32_def)

text \<open>The byte that \<open>(word & mask) >> n\<close> selects.\<close>

lemma and_shifted_mask:
  assumes "n + 8 \<le> 32"
  shows "unat (drop_bit n ((w :: u32) AND push_bit n (mask 8))) = unat w div 2 ^ n mod 256"
proof -
  have "drop_bit n (w AND push_bit n (mask 8)) = take_bit 8 (drop_bit n w)"
    using assms by (intro bit_word_eqI) (auto simp: bit_simps dest: bit_imp_le_length)
  then show ?thesis
    by (simp only: unsigned_take_bit_eq unsigned_drop_bit_eq)
      (simp add: take_bit_eq_mod drop_bit_eq_div take_bit_nat_eq_self unat_u32_less)
qed

lemma uint32_bytes:
  "ucast (drop_bit 24 (w AND 0xFF000000)) = (word_of_nat (unat (w :: u32) div 16777216) :: u8)"
  "ucast (drop_bit 16 (w AND 0x00FF0000)) = (word_of_nat (unat w div 65536 mod 256) :: u8)"
  "ucast (drop_bit 8 (w AND 0x0000FF00)) = (word_of_nat (unat w div 256 mod 256) :: u8)"
  "ucast (w AND 0x000000FF) = (word_of_nat (unat w mod 256) :: u8)"
proof -
  have m: "(0xFF000000 :: u32) = push_bit 24 (mask 8)" "(0x00FF0000 :: u32) = push_bit 16 (mask 8)"
    "(0x0000FF00 :: u32) = push_bit 8 (mask 8)" "(0x000000FF :: u32) = push_bit 0 (mask 8)"
    by (simp_all add: mask_eq_exp_minus_1)
  have top: "unat w div 16777216 mod 256 = unat w div 16777216"
    using unat_u32_less [of w] by (simp add: less_mult_imp_div_less)
  show "ucast (drop_bit 24 (w AND 0xFF000000)) = (word_of_nat (unat w div 16777216) :: u8)"
    unfolding m u8_eq_iff unat_ucast_u8 using and_shifted_mask [of 24 w] top by (simp add: unat_word_of_nat_u8)
  show "ucast (drop_bit 16 (w AND 0x00FF0000)) = (word_of_nat (unat w div 65536 mod 256) :: u8)"
    unfolding m u8_eq_iff unat_ucast_u8 using and_shifted_mask [of 16 w] by (simp add: unat_word_of_nat_u8)
  show "ucast (drop_bit 8 (w AND 0x0000FF00)) = (word_of_nat (unat w div 256 mod 256) :: u8)"
    unfolding m u8_eq_iff unat_ucast_u8 using and_shifted_mask [of 8 w] by (simp add: unat_word_of_nat_u8)
  show "ucast (w AND 0x000000FF) = (word_of_nat (unat w mod 256) :: u8)"
    unfolding m u8_eq_iff unat_ucast_u8 using and_shifted_mask [of 0 w] by (simp add: unat_word_of_nat_u8)
qed

text \<open>What the reading loop makes of \<open>n\<close> bytes: the number in base 256.\<close>

lemma read_uint32_loop_holds:
  "holds bs p \<Longrightarrow> read_uint32_loop (length bs) val p =
     Inr (foldl (\<lambda>v b. push_bit 8 v + ucast b) val bs, skip (length bs) p)"
proof (induction bs arbitrary: val p)
  case (Cons b bs)
  show ?case
    using Cons.IH [OF holds_Cons(3) [OF Cons.prems]] holds_Cons(1) [OF Cons.prems]
    by (simp add: skip_def ac_simps)
qed simp

lemma ucast_word_of_nat_u32: "n < 256 \<Longrightarrow> ucast (word_of_nat n :: u8) = (word_of_nat n :: u32)"
  by (simp add: word_unat_eq_iff unsigned_ucast_eq unsigned_of_nat take_bit_nat_eq_self)

lemma uint32_value:
  "foldl (\<lambda>v b. push_bit 8 v + ucast b) 0 (enc_uint32 w) = (w :: u32)"
proof -
  let ?n = "unat w"
  have "?n div 16777216 < 256"
    using unat_u32_less [of w] by (simp add: less_mult_imp_div_less)
  then have "foldl (\<lambda>v b. push_bit 8 v + ucast b) 0 (enc_uint32 w) =
    (word_of_nat (((?n div 16777216 * 256 + ?n div 65536 mod 256) * 256 + ?n div 256 mod 256) * 256 + ?n mod 256) :: u32)"
    by (simp add: enc_uint32_def ucast_word_of_nat_u32 push_bit_eq_mult distrib_right)
  also have "((?n div 16777216 * 256 + ?n div 65536 mod 256) * 256 + ?n div 256 mod 256) * 256 + ?n mod 256 = ?n"
  proof -
    have "?n div 16777216 = ?n div 65536 div 256" "?n div 65536 = ?n div 256 div 256"
      by (simp_all add: div_mult2_eq [symmetric])
    then show ?thesis by (simp only: div_mult_mod_eq)
  qed
  finally show ?thesis by simp
qed

interpretation uint32_codec: packet_codec packet__write_uint32 packet__read_uint32 enc_uint32 "\<lambda>_. True"
proof unfold_locales
  fix x p
  assume f: "fits (length (enc_uint32 x)) p"
  define a b c d where "a = (word_of_nat (unat x div 16777216) :: u8)"
    and "b = (word_of_nat (unat x div 65536 mod 256) :: u8)"
    and "c = (word_of_nat (unat x div 256 mod 256) :: u8)" and "d = (word_of_nat (unat x mod 256) :: u8)"
  have f4: "fits (Suc (Suc (Suc (Suc 0)))) p" using f by (simp add: eval_nat_numeral)
  have w: "packet__write_byte a p = Inr (emit [a] p)" "fits (Suc (Suc (Suc 0))) (emit [a] p)"
    using write_byte_fits [OF f4] by auto
  have w2: "packet__write_byte b (emit [a] p) = Inr (emit [a, b] p)" "fits (Suc (Suc 0)) (emit [a, b] p)"
    using write_byte_fits [OF w(2), of b] emit_Cons [of "[b]" p a] f4 by (auto simp: fits_def)
  have w3: "packet__write_byte c (emit [a, b] p) = Inr (emit [a, b, c] p)" "fits (Suc 0) (emit [a, b, c] p)"
    using write_byte_fits [OF w2(2), of c] emit_append [of "[a, b]" "[c]" p] f4 by (auto simp: fits_def)
  have w4: "packet__write_byte d (emit [a, b, c] p) = Inr (emit [a, b, c, d] p)"
    using write_byte_emit [OF w3(2), of d] emit_append [of "[a, b, c]" "[d]" p] f4 by (auto simp: fits_def)
  show "packet__write_uint32 x p = Inr (emit (enc_uint32 x) p)"
    using w(1) w2(1) w3(1) w4
    by (simp only: packet__write_uint32_def uint32_bytes enc_uint32_def seq_Inr
        a_def [symmetric] b_def [symmetric] c_def [symmetric] d_def [symmetric])
next
  fix x p
  assume h: "holds (enc_uint32 x) p"
  show "packet__read_uint32 p = Inr (x, skip (length (enc_uint32 x)) p)"
    using read_uint32_loop_holds [OF h, of 0] holds_room [OF h] holds_readable [OF h]
    by (simp add: packet__read_uint32_def read_check uint32_value)
qed

section \<open>Variable byte integers\<close>

fun enc_varint :: "nat \<Rightarrow> u8 list" where
  "enc_varint v =
     (if v < 128 then [word_of_nat v] else word_of_nat (128 + v mod 128) # enc_varint (v div 128))"

declare enc_varint.simps [simp del]

text \<open>The numbers the four bytes of the protocol can express.\<close>

definition varint_ok :: "u32 \<Rightarrow> bool" where
  "varint_ok w \<longleftrightarrow> w < 268435456"

lemma enc_varint_length:
  "length (enc_varint v) =
     (if v < 128 then 1 else if v < 16384 then 2 else if v < 2097152 then 3
      else if v < 268435456 then 4 else 4 + length (enc_varint (v div 268435456)))"
proof -
  have step: "length (enc_varint v) = (if v < 128 then 1 else Suc (length (enc_varint (v div 128))))" for v
    by (subst enc_varint.simps) simp
  show ?thesis
    using step [of v] step [of "v div 128"] step [of "v div 128 div 128"] step [of "v div 128 div 128 div 128"]
    by (auto simp: div_mult2_eq [symmetric] div_less_iff_less_mult)
qed

lemma varint_bytes_enc: "packet__varint_bytes w = length (enc_varint (unat w))"
proof -
  have "unat w div 268435456 < 128"
    using unat_u32_less [of w] by (simp add: div_less_iff_less_mult)
  then show ?thesis
    by (simp add: packet__varint_bytes_def enc_varint_length [of "unat w"]
        enc_varint_length [of "unat w div 268435456"] word_less_nat_alt)
qed

lemma ucast_low7: "ucast (b AND 127 :: u8) = (word_of_nat (unat b mod 128) :: u32)"
  by (simp add: word_unat_eq_iff unsigned_ucast_eq unsigned_of_nat take_bit_nat_eq_self unat_and_low)

lemma varint_step:
  "(lword :: u32) + word_of_nat (v mod 128) * m + word_of_nat (v div 128) * (m * 128) = lword + word_of_nat v * m"
proof -
  have "(word_of_nat v :: u32) = word_of_nat (v div 128 * 128 + v mod 128)"
    by (simp only: div_mult_mod_eq)
  also have "\<dots> = word_of_nat (v div 128) * 128 + word_of_nat (v mod 128)"
    by (simp only: of_nat_add of_nat_mult of_nat_numeral)
  finally show ?thesis by (simp add: algebra_simps)
qed

lemma read_varint_loop_holds:
  "holds (enc_varint v) p \<Longrightarrow> length (enc_varint v) \<le> n \<Longrightarrow> unat lb + length (enc_varint v) \<le> 4 \<Longrightarrow>
   (lb = 0 \<or> 0 < v) \<Longrightarrow>
   read_varint_loop n lword lb m p =
     Inr (lword + word_of_nat v * m, lb + word_of_nat (length (enc_varint v)), skip (length (enc_varint v)) p)"
proof (induction n arbitrary: v lword lb m p)
  case 0
  then show ?case by (subst (asm) enc_varint.simps) (simp split: if_splits)
next
  case (Suc n)
  show ?case
  proof (cases "v < 128")
    case True
    then have enc: "enc_varint v = [word_of_nat v]" by (simp add: enc_varint.simps)
    have "(1 < lb + 1) = (lb \<noteq> 0)"
      using Suc.prems(3) by (simp add: word_less_nat_alt unat_word_ariths enc u8_eq_iff)
    moreover define b where "b = (word_of_nat v :: u8)"
    moreover have "unat b = v" using True by (simp add: b_def unat_word_of_nat_u8)
    moreover from this have "b AND 128 = 0" using True by (simp add: and_80_eq)
    moreover have "b = 0 \<longleftrightarrow> v = 0" using \<open>unat b = v\<close> by (simp add: u8_eq_iff)
    ultimately show ?thesis
      using holds_Cons [OF Suc.prems(1) [unfolded enc, folded b_def]] True Suc.prems(4)
      by (auto simp: enc Let_def ucast_low7 skip_def)
  next
    case False
    define b where "b = (word_of_nat (128 + v mod 128) :: u8)"
    have enc: "enc_varint v = b # enc_varint (v div 128)"
      using False by (simp add: enc_varint.simps [of v] b_def)
    have b: "unat b = 128 + v mod 128" by (simp add: b_def unat_word_of_nat_u8 del: of_nat_add)
    have lb: "unat (lb + 1) = unat lb + 1"
      using Suc.prems(3) by (simp add: unat_word_ariths enc)
    have "0 < v div 128" using False by (simp add: div_greater_zero_iff)
    then have "read_varint_loop n (lword + word_of_nat (v mod 128) * m) (lb + 1) (m * 128) (p\<lparr>pk_pos := pk_pos p + 1\<rparr>) =
      Inr (lword + word_of_nat v * m, lb + word_of_nat (length (enc_varint v)), skip (length (enc_varint v)) p)"
      using Suc.IH [OF holds_Cons(3) [OF Suc.prems(1) [unfolded enc]], of "lb + 1"] Suc.prems lb
        varint_step [of lword v m]
      by (simp add: enc skip_def ac_simps)
    then show ?thesis
      using holds_Cons [OF Suc.prems(1) [unfolded enc]]
      by (simp add: Let_def and_80_eq b ucast_low7)
  qed
qed

lemma varint_byte:
  "(ucast (w mod 128 :: u32) :: u8) = word_of_nat (unat w mod 128)"
  "(ucast (w mod 128 :: u32) :: u8) OR 0x80 = word_of_nat (128 + unat w mod 128)"
proof -
  show e: "(ucast (w mod 128) :: u8) = word_of_nat (unat w mod 128)"
    by (simp add: u8_eq_iff unat_ucast_u8 unat_word_of_nat_u8 unat_mod_distrib)
  have "(ucast (w mod 128) :: u8) AND 0x80 = 0"
    by (simp add: e and_80_eq unat_word_of_nat_u8)
  then have "(ucast (w mod 128) :: u8) + 0x80 = ucast (w mod 128) OR 0x80"
    by (rule disjunctive_add_eq_or)
  then show "(ucast (w mod 128) :: u8) OR 0x80 = word_of_nat (128 + unat w mod 128)"
    by (simp add: e add.commute)
qed

lemma write_varint_loop_fits:
  "fits (length (enc_varint (unat w))) p \<Longrightarrow> length (enc_varint (unat w)) < n \<Longrightarrow>
   write_varint_loop n w p = Inr (emit (enc_varint (unat w)) p)"
proof (induction n arbitrary: w p)
  case (Suc n)
  have dv: "unat (w div 128) = unat w div 128" by (simp add: unat_div_distrib)
  show ?case
  proof (cases "unat w < 128")
    case True
    then have "w div 128 = 0" by (simp add: word_unat_eq_iff dv)
    moreover have "n \<noteq> 0" using Suc.prems(2) by (subst (asm) enc_varint.simps) (simp split: if_splits)
    ultimately show ?thesis
      using True Suc.prems by (simp add: enc_varint.simps Let_def varint_byte write_byte_emit)
  next
    case False
    define b where "b = (word_of_nat (128 + unat w mod 128) :: u8)"
    have enc: "enc_varint (unat w) = b # enc_varint (unat w div 128)"
      using False by (simp add: enc_varint.simps [of "unat w"] b_def)
    have or: "(ucast (w mod 128) :: u8) OR 0x80 = b" unfolding varint_byte(2) b_def ..
    have pos: "0 < w div 128"
      using False by (simp add: word_less_nat_alt dv div_greater_zero_iff)
    have n: "0 < n" "length (enc_varint (unat w div 128)) < n" using Suc.prems(2) by (simp_all add: enc)
    have "write_varint_loop n (w div 128) (emit [b] p) = Inr (emit (enc_varint (unat w)) p)"
      using Suc.IH [of "w div 128" "emit [b] p"] n write_byte_fits [of _ p b] Suc.prems(1)
        emit_Cons [of "enc_varint (unat w div 128)" p b]
      by (simp add: enc dv)
    then show ?thesis
      using pos n write_byte_fits [of _ p b] Suc.prems(1)
      by (simp add: Let_def or enc)
  qed
qed simp

definition read_varint_value :: "packet \<Rightarrow> fault + (u32 \<times> packet)" where
  "read_varint_value p = seq (packet__read_varint p) (\<lambda>(w, _, p). Inr (w, p))"

lemma varint_ok_length: "varint_ok w \<Longrightarrow> length (enc_varint (unat w)) \<le> 4"
  by (simp add: varint_ok_def word_less_nat_alt enc_varint_length)

lemma read_varint_holds:
  assumes "varint_ok w" and "holds (enc_varint (unat w)) p"
  shows "packet__read_varint p =
    Inr (w, word_of_nat (length (enc_varint (unat w))), skip (length (enc_varint (unat w))) p)"
  using read_varint_loop_holds [OF assms(2), of 4 0 0 1] varint_ok_length [OF assms(1)]
  by (simp add: packet__read_varint_def)

interpretation varint_codec: packet_codec packet__write_varint read_varint_value
  "\<lambda>w. enc_varint (unat w)" varint_ok
proof unfold_locales
  fix x p
  assume "varint_ok x" "fits (length (enc_varint (unat x))) p"
  then show "packet__write_varint x p = Inr (emit (enc_varint (unat x)) p)"
    using varint_ok_length [of x] by (simp add: packet__write_varint_def write_varint_loop_fits)
next
  fix x p
  assume "varint_ok x" "holds (enc_varint (unat x)) p"
  then show "read_varint_value p = Inr (x, skip (length (enc_varint (unat x))) p)"
    by (simp add: read_varint_value_def read_varint_holds)
qed

text \<open>The reader accepts nothing but these encodings: each number has one form only.\<close>

lemma holds_ConsI:
  assumes "readable p" "pk_pos p < pk_remaining_length p" "payload_at p (unat (pk_pos p)) = Inr b"
    and "holds bs (p\<lparr>pk_pos := pk_pos p + 1\<rparr>)"
  shows "holds (b # bs) p"
proof -
  have "unat (pk_pos p + 1) = unat (pk_pos p) + 1"
    using readable_pos [OF assms(1)] by (simp add: unat_add_numeral)
  moreover have "drop (unat (pk_pos p)) (pk_payload p) = b # drop (Suc (unat (pk_pos p))) (pk_payload p)"
    using assms(3) by (auto simp: payload_at_def Cons_nth_drop_Suc split: if_splits)
  ultimately show ?thesis
    using assms by (auto simp: holds_def)
qed

lemma readable_Suc:
  "readable p \<Longrightarrow> pk_pos p < pk_remaining_length p \<Longrightarrow> readable (p\<lparr>pk_pos := pk_pos p + 1\<rparr>)"
  using readable_pos [of p] by (auto simp: readable_def unat_add_numeral word_less_nat_alt)

lemma read_varint_loop_canonical:
  "read_varint_loop n lword lb m p = Inr (w, b, p') \<Longrightarrow> readable p \<Longrightarrow> unat lb + n \<le> 4 \<Longrightarrow>
   \<exists>v. holds (enc_varint v) p \<and> length (enc_varint v) \<le> n \<and> w = lword + word_of_nat v * m \<and>
     b = lb + word_of_nat (length (enc_varint v)) \<and> p' = skip (length (enc_varint v)) p \<and>
     (lb = 0 \<or> 0 < v) \<and> v < 128 ^ n"
proof (induction n arbitrary: lword lb m p)
  case (Suc n)
  then obtain byte where byte: "pk_pos p < pk_remaining_length p" "payload_at p (unat (pk_pos p)) = Inr byte"
    by (auto simp: fault_simps split: if_splits)
  let ?p = "p\<lparr>pk_pos := pk_pos p + 1\<rparr>"
  have rd: "readable ?p" using readable_Suc [OF Suc.prems(2) byte(1)] .
  have nil: "holds [] ?p" using rd by (simp add: holds_def readable_def)
  have lb: "unat (lb + 1) = unat lb + 1" using Suc.prems(3) by (simp add: unat_word_ariths)
  show ?case
  proof (cases "unat byte < 128")
    case True
    then have enc: "enc_varint (unat byte) = [byte]" by (simp add: enc_varint.simps)
    define v where "v = unat byte mod 128"
    have v: "v = unat byte" "v < 128" using True by (simp_all add: v_def)
    have eq: "(if lb + 1 > 1 \<and> byte = 0 then Inl (Rc MOSQ_ERR_PROTOCOL)
        else Inr (lword + word_of_nat v * m, lb + 1, ?p)) = (Inr (w, b, p') :: fault + _)"
      using Suc.prems(1) True
      by (auto simp: byte and_80_eq ucast_low7 Let_def v_def simp del: mod_less split: if_splits)
    have "lb = 0 \<or> 0 < v"
      using eq by (auto simp: word_less_nat_alt lb u8_eq_iff v(1) split: if_splits)
    moreover have "v < 128 ^ Suc n"
      using v(2) by (simp add: less_le_trans [of _ 128])
    moreover have "enc_varint v = [byte]" using enc v(1) by simp
    ultimately show ?thesis
      using eq holds_ConsI [OF Suc.prems(2) byte nil]
      by (intro exI [of _ v]) (auto simp: skip_def split: if_splits)
  next
    case False
    define x where "x = unat byte mod 128"
    have x: "unat byte = 128 + x" "x < 128"
      using False unat_u8_less [of byte] div_split [of "unat byte" 128 1] by (auto simp: x_def)
    have "read_varint_loop n (lword + word_of_nat x * m) (lb + 1) (m * 128) ?p = Inr (w, b, p')"
      using Suc.prems(1) False by (simp add: byte and_80_eq ucast_low7 Let_def x_def)
    from Suc.IH [OF this rd] lb Suc.prems(3)
    obtain v where v: "holds (enc_varint v) ?p" "length (enc_varint v) \<le> n"
      "w = lword + word_of_nat x * m + word_of_nat v * (m * 128)"
      "b = lb + 1 + word_of_nat (length (enc_varint v))" "p' = skip (length (enc_varint v)) ?p"
      "lb + 1 = 0 \<or> 0 < v" "v < 128 ^ n"
      by auto
    have "lb + 1 \<noteq> 0" using lb by (auto simp: u8_eq_iff)
    with v(6) have "0 < v" by simp
    define V where "V = v * 128 + x"
    have V: "V mod 128 = x" "V div 128 = v" "\<not> V < 128" using x \<open>0 < v\<close> by (auto simp: V_def)
    have "word_of_nat (128 + x) = byte" unfolding x(1) [symmetric] by simp
    then have enc: "enc_varint V = byte # enc_varint v"
      using V by (simp add: enc_varint.simps [of V])
    have "V < 128 ^ Suc n" using v(7) x(2) by (simp add: V_def)
    moreover have "w = lword + word_of_nat V * m" using varint_step [of lword V m] v(3) by (simp add: V)
    moreover have "0 < V" using V(3) by simp
    ultimately show ?thesis
      using holds_ConsI [OF Suc.prems(2) byte v(1)] v(2,4,5)
      by (intro exI [of _ V]) (auto simp: enc skip_def ac_simps)
  qed
qed simp

lemma read_varint_canonical:
  assumes "packet__read_varint p = Inr (w, b, p')" and "readable p"
  shows "holds (enc_varint (unat w)) p \<and> varint_ok w \<and> unat b = length (enc_varint (unat w)) \<and>
    p' = skip (length (enc_varint (unat w))) p"
proof -
  obtain v where v: "holds (enc_varint v) p" "length (enc_varint v) \<le> 4" "w = word_of_nat v"
    "b = word_of_nat (length (enc_varint v))" "p' = skip (length (enc_varint v)) p" "v < 128 ^ 4"
    using read_varint_loop_canonical [of 4 0 0 1 p w b p'] assms by (auto simp: packet__read_varint_def)
  have "unat w = v" using v(6) by (simp add: v(3) unsigned_of_nat take_bit_nat_eq_self)
  moreover have "unat b = length (enc_varint v)"
    using v(2) by (simp add: v(4) unat_word_of_nat_u8)
  ultimately show ?thesis
    using v by (simp add: varint_ok_def word_less_nat_alt)
qed

section \<open>Strings and binary data\<close>

text \<open>
  The values these readers make: no pointer and length 0, or a buffer of the length and
  a terminating zero. Both writers are \<open>packet__write_string\<close>.
\<close>

definition binary_ok :: "(nat \<Rightarrow> bool) \<Rightarrow> mqtt__string \<Rightarrow> bool" where
  "binary_ok alloc s =
     (case ms_v s of
        None \<Rightarrow> ms_len s = 0
      | Some v \<Rightarrow> ms_len s \<noteq> 0 \<and> length v = unat (ms_len s) + 1 \<and> last v = 0 \<and>
          alloc (unat (ms_len s) + 1))"

definition string_ok :: "(nat \<Rightarrow> bool) \<Rightarrow> mqtt__string \<Rightarrow> bool" where
  "string_ok alloc s \<longleftrightarrow> binary_ok alloc s \<and>
     (ms_len s = 0 \<or> mosquitto_validate_utf8 (ms_v s) (int (unat (ms_len s))) = Inr ())"

definition string_bytes :: "mqtt__string \<Rightarrow> u8 list" where
  "string_bytes s = take (unat (ms_len s)) (case ms_v s of None \<Rightarrow> [] | Some v \<Rightarrow> v)"

definition enc_string :: "mqtt__string \<Rightarrow> u8 list" where
  "enc_string s = enc_uint16 (ms_len s) @ string_bytes s"

lemma unat_ucast_u16_u32: "unat (ucast (n :: u16) :: u32) = unat n"
  using unat_u16_less [of n] by (simp add: unsigned_ucast_eq take_bit_nat_eq_self)

lemma ucast_u16_of_nat: "(ucast (n :: u16) :: u32) = word_of_nat (unat n)"
  by (simp add: unat_ucast_u16_u32 word_unat_eq_iff)

lemma string_bytes_length: "binary_ok alloc s \<Longrightarrow> length (string_bytes s) = unat (ms_len s)"
  by (auto simp: binary_ok_def string_bytes_def split: option.splits)

lemma string_bytes_buffer:
  "binary_ok alloc s \<Longrightarrow> ms_v s = Some v \<Longrightarrow> v = string_bytes s @ [0]"
  by (cases v rule: rev_cases) (auto simp: binary_ok_def string_bytes_def)

lemma write_string_enc:
  assumes "binary_ok alloc s" and f: "fits (length (enc_string s)) p"
  shows "packet__write_string s p = Inr (emit (enc_string s) p)"
proof -
  let ?n = "ms_len s" and ?v = "case ms_v s of None \<Rightarrow> [] | Some v \<Rightarrow> v"
  have n: "unat (ucast ?n :: u32) = unat ?n" by (rule unat_ucast_u16_u32)
  have le: "unat ?n \<le> length ?v" using assms(1) by (auto simp: binary_ok_def split: option.splits)
  have f2: "fits (length (enc_uint16 ?n)) p" "fits (unat ?n) (emit (enc_uint16 ?n) p)"
    using fits_append [of "enc_uint16 ?n" "string_bytes s" p] f string_bytes_length [OF assms(1)]
    by (simp_all add: enc_string_def)
  have "packet__write_bytes ?v (ucast ?n) (emit (enc_uint16 ?n) p) =
      Inr (emit (string_bytes s) (emit (enc_uint16 ?n) p))"
    using write_bytes_emit [of "ucast ?n" "emit (enc_uint16 ?n) p" ?v] f2 le unat_u16_less [of ?n]
    by (simp add: n string_bytes_def)
  then show ?thesis
    using uint16_codec.put_enc [of ?n p] f2(1) emit_append [of "enc_uint16 ?n" "string_bytes s" p] f
    by (simp add: packet__write_string_def enc_string_def del: length_enc_uint16)
qed

lemma read_binary_holds:
  assumes ok: "binary_ok alloc s" and h: "holds (enc_string s) p"
  shows "packet__read_binary alloc p = Inr (s, skip (length (enc_string s)) p)"
proof -
  let ?n = "ms_len s" and ?p = "skip 2 p"
  have len: "length (string_bytes s) = unat ?n" using ok by (rule string_bytes_length)
  have rd: "packet__read_uint16 p = Inr (?n, ?p)" and hb: "holds (string_bytes s) ?p"
    using uint16_codec.get_prefix [of ?n "string_bytes s" p] h unfolding enc_string_def by simp_all
  show ?thesis
  proof (cases "ms_v s")
    case None
    then have "?n = 0" using ok by (simp add: binary_ok_def)
    moreover from this have "s = empty_string"
      using None by (intro mqtt__string.equality) (simp_all add: empty_string_def)
    ultimately show ?thesis
      using rd len by (simp add: packet__read_binary_def enc_string_def)
  next
    case (Some v)
    define n bs where "n = ms_len s" and "bs = string_bytes s"
    have s: "s = \<lparr>ms_v = Some (bs @ [0]), ms_len = n\<rparr>"
      using string_bytes_buffer [OF ok Some, folded bs_def] Some
      by (intro mqtt__string.equality) (simp_all add: n_def)
    have n: "n \<noteq> 0" "alloc (unat n + 1)" "length bs = unat n"
      using Some ok len by (simp_all add: binary_ok_def n_def bs_def)
    have "holds bs ?p" "packet__read_uint16 p = Inr (n, ?p)" using hb rd unfolding n_def bs_def by blast+
    moreover have "\<not> pk_remaining_length ?p < pk_pos ?p + ucast n"
      unfolding ucast_u16_of_nat
      using read_check(1) [OF holds_readable [OF hb], of "unat n"] holds_room [OF hb] len
        unat_u16_less [of n]
      by (simp only: n_def) simp
    ultimately have "packet__read_binary alloc p =
        Inr (\<lparr>ms_v = Some (bs @ [0]), ms_len = n\<rparr>, ?p\<lparr>pk_pos := pk_pos ?p + ucast n\<rparr>)"
      using n holds_range [of bs ?p] by (simp add: packet__read_binary_def)
    moreover have "enc_string s = enc_uint16 n @ bs" by (simp add: enc_string_def n_def bs_def)
    moreover have "?p\<lparr>pk_pos := pk_pos ?p + ucast n\<rparr> = skip (length (enc_uint16 n @ bs)) p"
      unfolding ucast_u16_of_nat n(3) [symmetric] by (simp add: skip_def)
    ultimately show ?thesis by (simp only: s [symmetric])
  qed
qed

interpretation binary_codec: packet_codec packet__write_string "packet__read_binary alloc"
  enc_string "binary_ok alloc" for alloc
  by unfold_locales (auto intro: write_string_enc read_binary_holds)

interpretation string_codec: packet_codec packet__write_string "packet__read_string alloc"
  enc_string "string_ok alloc" for alloc
proof unfold_locales
  fix x p
  assume "string_ok alloc x" "fits (length (enc_string x)) p"
  then show "packet__write_string x p = Inr (emit (enc_string x) p)"
    using write_string_enc [of alloc x p] by (simp add: string_ok_def)
next
  fix x p
  assume "string_ok alloc x" "holds (enc_string x) p"
  then show "packet__read_string alloc p = Inr (x, skip (length (enc_string x)) p)"
    using read_binary_holds [of alloc x p] by (auto simp: string_ok_def packet__read_string_def)
qed

section \<open>Readers stay inside the packet\<close>

text \<open>
  What every reader owes its caller: on a readable packet it gives a value and a readable
  packet further on in the same buffer, or an error code, never an access outside.
\<close>

definition reads_within :: "packet \<Rightarrow> fault + ('a \<times> packet) \<Rightarrow> bool" where
  "reads_within p r \<longleftrightarrow>
     (case r of
        Inl e \<Rightarrow> e \<noteq> Trap
      | Inr (x, p') \<Rightarrow> readable p' \<and> (\<exists>n. p' = skip n p \<and> unat (pk_pos p') = unat (pk_pos p) + n))"

named_theorems within_intros \<open>readers that stay inside the packet\<close>

lemma reads_within_Rc [simp]: "reads_within p (Inl (Rc e))"
  by (simp add: reads_within_def)

lemma reads_within_same [simp]: "reads_within p (Inr (x, p)) = readable p"
  by (auto simp: reads_within_def intro: exI [of _ 0])

lemma reads_within_trans:
  assumes "reads_within p (Inr (x, p'))" and "reads_within p' r"
  shows "reads_within p r"
proof -
  obtain n where n: "p' = skip n p" "unat (pk_pos p') = unat (pk_pos p) + n"
    using assms(1) by (auto simp: reads_within_def)
  show ?thesis
    using assms(2) n
    by (auto simp: reads_within_def split: sum.splits intro!: exI [of _ "n + k" for k])
qed

lemma reads_within_seq [within_intros]:
  assumes "reads_within p r"
    and "\<And>x p'. r = Inr (x, p') \<Longrightarrow> readable p' \<Longrightarrow> reads_within p' (k (x, p'))"
  shows "reads_within p (seq r k)"
proof (cases r)
  case (Inr a)
  obtain x p' where "a = (x, p')" by (cases a)
  with Inr assms show ?thesis
    using reads_within_trans [of p x p' "k (x, p')"] by (auto simp: reads_within_def)
qed (use assms in \<open>auto simp: reads_within_def\<close>)

lemma reads_within_advance:
  assumes "readable p" and "unat (pk_pos p) + n \<le> unat (pk_remaining_length p)"
  shows "reads_within p (Inr (x, p\<lparr>pk_pos := pk_pos p + word_of_nat n\<rparr>))"
proof -
  have "unat (pk_pos p + word_of_nat n) = unat (pk_pos p) + n"
    using assms by (auto simp: readable_def unat_add_of_nat)
  then show ?thesis
    using assms by (auto simp: reads_within_def readable_def skip_def)
qed

lemma reads_within_holds:
  "holds bs p \<Longrightarrow> reads_within p (Inr (x, skip (length bs) p))"
  using reads_within_advance [of p "length bs"] by (auto simp: holds_def skip_def)

lemma read_byte_within [within_intros]: "readable p \<Longrightarrow> reads_within p (packet__read_byte p)"
  using reads_within_advance [of p 1]
  by (auto simp: packet__read_byte_def read_check payload_at_def not_less readable_def)

lemma read_bytes_within [within_intros]:
  "readable p \<Longrightarrow> unat n < 2 ^ 31 \<Longrightarrow> reads_within p (packet__read_bytes n p)"
  using reads_within_advance [of p "unat n"] read_check(1) [of p "unat n"]
  by (auto simp: packet__read_bytes_def payload_range_def not_less readable_def)

lemma read_uint16_within [within_intros]: "readable p \<Longrightarrow> reads_within p (packet__read_uint16 p)"
  using reads_within_advance [of p 2]
  by (auto simp: packet__read_uint16_def read_check payload_at_def not_less readable_def unat_add_numeral
      add.assoc)

lemma read_uint32_loop_within:
  "readable p \<Longrightarrow> unat (pk_pos p) + n \<le> unat (pk_remaining_length p) \<Longrightarrow>
   reads_within p (read_uint32_loop n val p)"
proof (induction n arbitrary: val p)
  case (Suc n)
  then have lt: "pk_pos p < pk_remaining_length p" by (simp add: word_less_nat_alt)
  have rd: "readable (p\<lparr>pk_pos := pk_pos p + 1\<rparr>)" by (rule readable_Suc [OF Suc.prems(1) lt])
  have "unat (pk_pos p + 1) = unat (pk_pos p) + 1"
    using readable_pos [OF Suc.prems(1)] by (simp add: unat_add_numeral)
  then have "reads_within (p\<lparr>pk_pos := pk_pos p + 1\<rparr>) (read_uint32_loop n v (p\<lparr>pk_pos := pk_pos p + 1\<rparr>))" for v
    using Suc.IH [OF rd] Suc.prems(2) by simp
  then show ?case
    using Suc.prems reads_within_advance [of p 1] reads_within_trans
    by (fastforce simp: payload_at_def readable_def)
qed simp

lemma read_uint32_within [within_intros]: "readable p \<Longrightarrow> reads_within p (packet__read_uint32 p)"
  using read_uint32_loop_within [of p 4] by (simp add: packet__read_uint32_def read_check)

lemma read_varint_loop_no_trap:
  "readable p \<Longrightarrow> read_varint_loop n lword lb m p \<noteq> Inl Trap"
proof (induction n arbitrary: lword lb m p)
  case (Suc n)
  show ?case
    using Suc.IH [OF readable_Suc [OF Suc.prems]] Suc.prems
    by (auto simp: Let_def payload_at_def readable_def word_less_nat_alt)
qed simp

lemma read_varint_within [within_intros]: "readable p \<Longrightarrow> reads_within p (read_varint_value p)"
  using read_varint_loop_no_trap [of p 4 0 0 1] read_varint_canonical [of p] reads_within_holds
  by (cases "packet__read_varint p")
    (fastforce simp: read_varint_value_def packet__read_varint_def reads_within_def)+

lemma read_binary_within [within_intros]:
  assumes "readable p"
  shows "reads_within p (packet__read_binary alloc p)"
  unfolding packet__read_binary_def
proof (rule reads_within_seq [OF read_uint16_within [OF assms]])
  fix slen :: u16 and p' :: packet
  assume rd: "readable p'"
  have slen: "unat slen < 2 ^ 31" using unat_u16_less [of slen] by simp
  have room: "unat (pk_pos p') + unat slen \<le> unat (pk_remaining_length p')"
    if "\<not> pk_pos p' + ucast slen > pk_remaining_length p'"
    using that read_check(1) [OF rd slen] unfolding ucast_u16_of_nat by simp
  have "reads_within p' (Inr (x, p'\<lparr>pk_pos := pk_pos p' + ucast slen\<rparr>))"
    if "\<not> pk_pos p' + ucast slen > pk_remaining_length p'" for x :: mqtt__string
    unfolding ucast_u16_of_nat by (rule reads_within_advance [OF rd room [OF that]])
  moreover have "\<exists>bytes. payload_range p' (unat (pk_pos p')) (unat slen) = Inr bytes"
    if "\<not> pk_pos p' + ucast slen > pk_remaining_length p'"
    using room [OF that] rd by (auto simp: payload_range_def readable_def)
  ultimately show "reads_within p' (case (slen, p') of (slen, p) \<Rightarrow>
       if slen = 0 then Inr (empty_string, p)
       else if pk_pos p + ucast slen > pk_remaining_length p
       then Inl (Rc MOSQ_ERR_PROTOCOL)
       else if alloc (unat slen + 1) then
         seq (payload_range p (unat (pk_pos p)) (unat slen)) (\<lambda>bytes.
           Inr (\<lparr>ms_v = Some (bytes @ [0]), ms_len = slen\<rparr>,
                p\<lparr>pk_pos := pk_pos p + ucast slen\<rparr>))
       else Inl (Rc MOSQ_ERR_NOMEM))"
    using rd by auto
qed

lemma read_binary_buffer:
  assumes "packet__read_binary alloc p = Inr (s, p')" and "ms_len s \<noteq> 0"
  shows "\<exists>bytes. ms_v s = Some (bytes @ [0]) \<and> length bytes = unat (ms_len s)"
  using assms
  by (auto simp: packet__read_binary_def fault_simps empty_string_def payload_range_def
      split: if_splits)

lemma read_string_within [within_intros]:
  assumes "readable p"
  shows "reads_within p (packet__read_string alloc p)"
  unfolding packet__read_string_def
proof (rule reads_within_seq [OF read_binary_within [OF assms]])
  fix s :: mqtt__string and p' :: packet
  assume r: "packet__read_binary alloc p = Inr (s, p')" and rd: "readable p'"
  have "mosquitto_validate_utf8 (ms_v s) (int (unat (ms_len s))) \<noteq> Inl Trap" if len: "ms_len s \<noteq> 0"
  proof -
    obtain bytes where "ms_v s = Some (bytes @ [0])" "length bytes = unat (ms_len s)"
      using read_binary_buffer [OF r len] by blast
    then show ?thesis
      using utf8_loop_no_trap [of "unat (ms_len s)" "bytes @ [0]"]
      by (simp add: mosquitto_validate_utf8_def nth_append)
  qed
  then show "reads_within p' (case (s, p') of (s, p) \<Rightarrow>
       if ms_len s = 0 then Inr (s, p)
       else (case mosquitto_validate_utf8 (ms_v s) (int (unat (ms_len s))) of
              Inl Trap \<Rightarrow> Inl Trap
            | Inl (Rc e) \<Rightarrow> Inl (Rc MOSQ_ERR_MALFORMED_UTF8)
            | Inr _ \<Rightarrow> Inr (s, p)))"
    using rd by (auto split: sum.splits fault.splits)
qed

section \<open>Properties\<close>

text \<open>
  What \<open>packet__write_string\<close> writes, \<open>packet__read_string\<close> reads back: the same string
  and the position behind it, for every string the validator accepts, wherever it stands
  in a packet with room for it.
\<close>

theorem string_roundtrip:
  assumes "string_ok alloc s" and "fits (2 + unat (ms_len s)) p"
  shows "\<exists>p'. packet__write_string s p = Inr p' \<and>
    packet__read_string alloc (reader_at (pk_pos p) p') = Inr (s, reader_at (pk_pos p') p')"
  using string_codec.roundtrip [of alloc s p] assms string_bytes_length [of alloc s]
  by (simp add: string_ok_def enc_string_def)

theorem string_roundtrip_witness:
  "\<exists>p'. packet__write_string \<lparr>ms_v = Some [97, 47, 98, 0], ms_len = 3\<rparr> (packet_of (replicate 9 0)) = Inr p' \<and>
    packet__read_string (\<lambda>_. True) (reader_at 0 p') =
      Inr (\<lparr>ms_v = Some [97, 47, 98, 0], ms_len = 3\<rparr>, reader_at (pk_pos p') p')"
proof -
  have "mosquitto_validate_utf8 (Some [97, 47, 98, 0]) 3 = Inr ()"
    by (simp add: mosquitto_validate_utf8_def numeral_3_eq_3 utf8_step_def utf8_lead_def utf8_reject_iff)
  then have "string_ok (\<lambda>_. True) \<lparr>ms_v = Some [97, 47, 98, 0], ms_len = 3\<rparr>"
    by (simp add: string_ok_def binary_ok_def)
  moreover have "fits (2 + unat (3 :: u16)) (packet_of (replicate 9 0))"
    by (simp add: fits_def packet_of_def)
  ultimately show ?thesis
    using string_roundtrip [of "\<lambda>_. True" "\<lparr>ms_v = Some [97, 47, 98, 0], ms_len = 3\<rparr>"
        "packet_of (replicate 9 0)"]
    by (simp add: packet_of_def)
qed

text \<open>
  C26: a number below \<open>2^28\<close> written as a variable byte integer is read back, and the
  reader accepts nothing else: whatever it accepts is the one shortest form of the value,
  with the byte count that \<open>packet__varint_bytes\<close> predicts.
\<close>

theorem varint_canonical:
  assumes "readable p" and "packet__read_varint p = Inr (w, b, p')"
  shows "w < 268435456 \<and> holds (enc_varint (unat w)) p \<and> unat b = packet__varint_bytes w \<and>
    p' = skip (packet__varint_bytes w) p"
  using read_varint_canonical [OF assms(2,1)] by (simp add: varint_ok_def varint_bytes_enc)

theorem varint_canonical_witness:
  "packet__read_varint (packet_of [0xAC, 2]) = Inr (300, 2, skip 2 (packet_of [0xAC, 2])) \<and>
   unat (2 :: u8) = packet__varint_bytes 300"
proof
  have enc: "enc_varint (unat (300 :: u32)) = [0xAC, 2]" by (simp add: enc_varint.simps)
  have h: "holds [0xAC, 2] (packet_of [0xAC, 2])" by (rule holds_packet_of) simp
  then show eq: "packet__read_varint (packet_of [0xAC, 2]) = Inr (300, 2, skip 2 (packet_of [0xAC, 2]))"
    using read_varint_holds [of 300 "packet_of [0xAC, 2]"] unfolding enc
    by (simp add: varint_ok_def flip: numeral_2_eq_2)
  from varint_canonical [OF holds_readable [OF h] eq] show "unat (2 :: u8) = packet__varint_bytes 300"
    by blast
qed

text \<open>
  C32: the readers of fields never look outside the buffer of a packet and never move
  the position past its end, whatever the bytes are: each either gives a value and moves on
  inside the packet or refuses with an error code.
\<close>

theorem readers_stay_inside:
  assumes "readable p" and "unat n < 2 ^ 31"
  shows "reads_within p (packet__read_byte p) \<and> reads_within p (packet__read_bytes n p) \<and>
    reads_within p (packet__read_uint16 p) \<and> reads_within p (packet__read_uint32 p) \<and>
    reads_within p (read_varint_value p) \<and> reads_within p (packet__read_binary alloc p) \<and>
    reads_within p (packet__read_string alloc p)"
  using assms by (intro conjI within_intros)

theorem readers_stay_inside_witness:
  "reads_within (packet_of [0, 5, 97]) (packet__read_byte (packet_of [0, 5, 97])) \<and>
    reads_within (packet_of [0, 5, 97]) (packet__read_string (\<lambda>_. True) (packet_of [0, 5, 97]))"
  using readers_stay_inside [of "packet_of [0, 5, 97]" 1 "\<lambda>_. True"]
  by (simp add: readable_def packet_of_def)

end
