(* ===== verification/Property.thy ===== *)
theory Property
  imports Field_Codecs
begin

text \<open>
  \<open>lib/property_mosq.c\<close>: the properties of MQTT 5 packets. A list of properties is a list of
  records, in the order of the \<open>next\<close> pointers. The members of the union \<open>value\<close> are fields of
  their own: every function picks the member by the identifier, and always the same one, so
  that no member is read after another one has been written. An identifier is an \<open>int\<close>, as
  in the code, because the functions meet values outside the enumeration.
\<close>

section \<open>Commands and identifiers\<close>

abbreviation (input) CMD_CONNECT :: int where
  "CMD_CONNECT \<equiv> 16"

abbreviation (input) CMD_CONNACK :: int where
  "CMD_CONNACK \<equiv> 32"

abbreviation (input) CMD_PUBLISH :: int where
  "CMD_PUBLISH \<equiv> 48"

abbreviation (input) CMD_PUBACK :: int where
  "CMD_PUBACK \<equiv> 64"

abbreviation (input) CMD_PUBREC :: int where
  "CMD_PUBREC \<equiv> 80"

abbreviation (input) CMD_PUBREL :: int where
  "CMD_PUBREL \<equiv> 96"

abbreviation (input) CMD_PUBCOMP :: int where
  "CMD_PUBCOMP \<equiv> 112"

abbreviation (input) CMD_SUBSCRIBE :: int where
  "CMD_SUBSCRIBE \<equiv> 128"

abbreviation (input) CMD_SUBACK :: int where
  "CMD_SUBACK \<equiv> 144"

abbreviation (input) CMD_UNSUBSCRIBE :: int where
  "CMD_UNSUBSCRIBE \<equiv> 160"

abbreviation (input) CMD_UNSUBACK :: int where
  "CMD_UNSUBACK \<equiv> 176"

abbreviation (input) CMD_PINGREQ :: int where
  "CMD_PINGREQ \<equiv> 192"

abbreviation (input) CMD_PINGRESP :: int where
  "CMD_PINGRESP \<equiv> 208"

abbreviation (input) CMD_DISCONNECT :: int where
  "CMD_DISCONNECT \<equiv> 224"

abbreviation (input) CMD_AUTH :: int where
  "CMD_AUTH \<equiv> 240"

abbreviation (input) CMD_WILL :: int where
  "CMD_WILL \<equiv> 256"

abbreviation (input) MQTT_PROP_PAYLOAD_FORMAT_INDICATOR :: int where
  "MQTT_PROP_PAYLOAD_FORMAT_INDICATOR \<equiv> 1"

abbreviation (input) MQTT_PROP_MESSAGE_EXPIRY_INTERVAL :: int where
  "MQTT_PROP_MESSAGE_EXPIRY_INTERVAL \<equiv> 2"

abbreviation (input) MQTT_PROP_CONTENT_TYPE :: int where
  "MQTT_PROP_CONTENT_TYPE \<equiv> 3"

abbreviation (input) MQTT_PROP_RESPONSE_TOPIC :: int where
  "MQTT_PROP_RESPONSE_TOPIC \<equiv> 8"

abbreviation (input) MQTT_PROP_CORRELATION_DATA :: int where
  "MQTT_PROP_CORRELATION_DATA \<equiv> 9"

abbreviation (input) MQTT_PROP_SUBSCRIPTION_IDENTIFIER :: int where
  "MQTT_PROP_SUBSCRIPTION_IDENTIFIER \<equiv> 11"

abbreviation (input) MQTT_PROP_SESSION_EXPIRY_INTERVAL :: int where
  "MQTT_PROP_SESSION_EXPIRY_INTERVAL \<equiv> 17"

abbreviation (input) MQTT_PROP_ASSIGNED_CLIENT_IDENTIFIER :: int where
  "MQTT_PROP_ASSIGNED_CLIENT_IDENTIFIER \<equiv> 18"

abbreviation (input) MQTT_PROP_SERVER_KEEP_ALIVE :: int where
  "MQTT_PROP_SERVER_KEEP_ALIVE \<equiv> 19"

abbreviation (input) MQTT_PROP_AUTHENTICATION_METHOD :: int where
  "MQTT_PROP_AUTHENTICATION_METHOD \<equiv> 21"

abbreviation (input) MQTT_PROP_AUTHENTICATION_DATA :: int where
  "MQTT_PROP_AUTHENTICATION_DATA \<equiv> 22"

abbreviation (input) MQTT_PROP_REQUEST_PROBLEM_INFORMATION :: int where
  "MQTT_PROP_REQUEST_PROBLEM_INFORMATION \<equiv> 23"

abbreviation (input) MQTT_PROP_WILL_DELAY_INTERVAL :: int where
  "MQTT_PROP_WILL_DELAY_INTERVAL \<equiv> 24"

abbreviation (input) MQTT_PROP_REQUEST_RESPONSE_INFORMATION :: int where
  "MQTT_PROP_REQUEST_RESPONSE_INFORMATION \<equiv> 25"

abbreviation (input) MQTT_PROP_RESPONSE_INFORMATION :: int where
  "MQTT_PROP_RESPONSE_INFORMATION \<equiv> 26"

abbreviation (input) MQTT_PROP_SERVER_REFERENCE :: int where
  "MQTT_PROP_SERVER_REFERENCE \<equiv> 28"

abbreviation (input) MQTT_PROP_REASON_STRING :: int where
  "MQTT_PROP_REASON_STRING \<equiv> 31"

abbreviation (input) MQTT_PROP_RECEIVE_MAXIMUM :: int where
  "MQTT_PROP_RECEIVE_MAXIMUM \<equiv> 33"

abbreviation (input) MQTT_PROP_TOPIC_ALIAS_MAXIMUM :: int where
  "MQTT_PROP_TOPIC_ALIAS_MAXIMUM \<equiv> 34"

abbreviation (input) MQTT_PROP_TOPIC_ALIAS :: int where
  "MQTT_PROP_TOPIC_ALIAS \<equiv> 35"

abbreviation (input) MQTT_PROP_MAXIMUM_QOS :: int where
  "MQTT_PROP_MAXIMUM_QOS \<equiv> 36"

abbreviation (input) MQTT_PROP_RETAIN_AVAILABLE :: int where
  "MQTT_PROP_RETAIN_AVAILABLE \<equiv> 37"

abbreviation (input) MQTT_PROP_USER_PROPERTY :: int where
  "MQTT_PROP_USER_PROPERTY \<equiv> 38"

abbreviation (input) MQTT_PROP_MAXIMUM_PACKET_SIZE :: int where
  "MQTT_PROP_MAXIMUM_PACKET_SIZE \<equiv> 39"

abbreviation (input) MQTT_PROP_WILDCARD_SUB_AVAILABLE :: int where
  "MQTT_PROP_WILDCARD_SUB_AVAILABLE \<equiv> 40"

abbreviation (input) MQTT_PROP_SUBSCRIPTION_ID_AVAILABLE :: int where
  "MQTT_PROP_SUBSCRIPTION_ID_AVAILABLE \<equiv> 41"

abbreviation (input) MQTT_PROP_SHARED_SUB_AVAILABLE :: int where
  "MQTT_PROP_SHARED_SUB_AVAILABLE \<equiv> 42"

datatype mqtt5_property_type =
    MQTT_PROP_TYPE_BYTE
  | MQTT_PROP_TYPE_INT16
  | MQTT_PROP_TYPE_INT32
  | MQTT_PROP_TYPE_VARINT
  | MQTT_PROP_TYPE_BINARY
  | MQTT_PROP_TYPE_STRING
  | MQTT_PROP_TYPE_STRING_PAIR

text \<open>
  The cases that the \<open>switch\<close> statements of the file share: which member of the union an
  identifier stands for, \<open>None\<close> for the default case.
\<close>

definition prop_type :: "int \<Rightarrow> mqtt5_property_type option" where
  "prop_type identifier =
     (if identifier \<in> {MQTT_PROP_PAYLOAD_FORMAT_INDICATOR, MQTT_PROP_REQUEST_PROBLEM_INFORMATION,
           MQTT_PROP_REQUEST_RESPONSE_INFORMATION, MQTT_PROP_MAXIMUM_QOS,
           MQTT_PROP_RETAIN_AVAILABLE, MQTT_PROP_WILDCARD_SUB_AVAILABLE,
           MQTT_PROP_SUBSCRIPTION_ID_AVAILABLE, MQTT_PROP_SHARED_SUB_AVAILABLE}
      then Some MQTT_PROP_TYPE_BYTE
      else if identifier \<in> {MQTT_PROP_SERVER_KEEP_ALIVE, MQTT_PROP_RECEIVE_MAXIMUM,
           MQTT_PROP_TOPIC_ALIAS_MAXIMUM, MQTT_PROP_TOPIC_ALIAS}
      then Some MQTT_PROP_TYPE_INT16
      else if identifier \<in> {MQTT_PROP_MESSAGE_EXPIRY_INTERVAL, MQTT_PROP_SESSION_EXPIRY_INTERVAL,
           MQTT_PROP_WILL_DELAY_INTERVAL, MQTT_PROP_MAXIMUM_PACKET_SIZE}
      then Some MQTT_PROP_TYPE_INT32
      else if identifier = MQTT_PROP_SUBSCRIPTION_IDENTIFIER then Some MQTT_PROP_TYPE_VARINT
      else if identifier \<in> {MQTT_PROP_CONTENT_TYPE, MQTT_PROP_RESPONSE_TOPIC,
           MQTT_PROP_ASSIGNED_CLIENT_IDENTIFIER, MQTT_PROP_AUTHENTICATION_METHOD,
           MQTT_PROP_RESPONSE_INFORMATION, MQTT_PROP_SERVER_REFERENCE, MQTT_PROP_REASON_STRING}
      then Some MQTT_PROP_TYPE_STRING
      else if identifier \<in> {MQTT_PROP_AUTHENTICATION_DATA, MQTT_PROP_CORRELATION_DATA}
      then Some MQTT_PROP_TYPE_BINARY
      else if identifier = MQTT_PROP_USER_PROPERTY then Some MQTT_PROP_TYPE_STRING_PAIR
      else None)"

record mosquitto_property =
  pr_i8 :: u8
  pr_i16 :: u16
  pr_i32 :: u32
  pr_varint :: u32
  pr_bin :: mqtt__string
  pr_s :: mqtt__string
  pr_name :: mqtt__string
  pr_identifier :: int
  pr_client_generated :: bool

text \<open>Memory from \<open>calloc\<close>, and the size that is asked for on a 64-bit machine.\<close>

definition zero_property :: mosquitto_property where
  "zero_property = \<lparr>pr_i8 = 0, pr_i16 = 0, pr_i32 = 0, pr_varint = 0, pr_bin = empty_string,
     pr_s = empty_string, pr_name = empty_string, pr_identifier = 0, pr_client_generated = False\<rparr>"

definition sizeof_property :: nat where
  "sizeof_property = 48"

section \<open>Reading\<close>

definition property__read ::
  "(nat \<Rightarrow> bool) \<Rightarrow> u32 \<Rightarrow> packet \<Rightarrow> fault + (mosquitto_property \<times> u32 \<times> packet)" where
  "property__read alloc len p =
     seq (packet__read_varint p) (\<lambda>(property_identifier, _, p).
       let len = len - 1;
           prop = zero_property\<lparr>pr_identifier := uint property_identifier\<rparr>
       in case prop_type (uint property_identifier) of
            Some MQTT_PROP_TYPE_BYTE \<Rightarrow>
              seq (packet__read_byte p) (\<lambda>(byte, p). Inr (prop\<lparr>pr_i8 := byte\<rparr>, len - 1, p))
          | Some MQTT_PROP_TYPE_INT16 \<Rightarrow>
              seq (packet__read_uint16 p) (\<lambda>(uint16, p). Inr (prop\<lparr>pr_i16 := uint16\<rparr>, len - 2, p))
          | Some MQTT_PROP_TYPE_INT32 \<Rightarrow>
              seq (packet__read_uint32 p) (\<lambda>(uint32, p). Inr (prop\<lparr>pr_i32 := uint32\<rparr>, len - 4, p))
          | Some MQTT_PROP_TYPE_VARINT \<Rightarrow>
              seq (packet__read_varint p) (\<lambda>(varint, byte_count, p).
                Inr (prop\<lparr>pr_varint := varint\<rparr>, len - ucast byte_count, p))
          | Some MQTT_PROP_TYPE_STRING \<Rightarrow>
              seq (packet__read_string alloc p) (\<lambda>(str1, p).
                Inr (prop\<lparr>pr_s := str1\<rparr>, len - 2 - ucast (ms_len str1), p))
          | Some MQTT_PROP_TYPE_BINARY \<Rightarrow>
              seq (packet__read_binary alloc p) (\<lambda>(str1, p).
                Inr (prop\<lparr>pr_bin := str1\<rparr>, len - 2 - ucast (ms_len str1), p))
          | Some MQTT_PROP_TYPE_STRING_PAIR \<Rightarrow>
              seq (packet__read_string alloc p) (\<lambda>(str1, p).
                let len = len - 2 - ucast (ms_len str1)
                in seq (packet__read_string alloc p) (\<lambda>(str2, p).
                     Inr (prop\<lparr>pr_name := str1, pr_s := str2\<rparr>, len - 2 - ucast (ms_len str2), p)))
          | None \<Rightarrow> Inl (Rc MOSQ_ERR_MALFORMED_PACKET))"

section \<open>Checks\<close>

definition mosquitto_property_check_command :: "int \<Rightarrow> int \<Rightarrow> mosq_err_t" where
  "mosquitto_property_check_command command identifier =
     (if identifier \<in> {MQTT_PROP_PAYLOAD_FORMAT_INDICATOR, MQTT_PROP_MESSAGE_EXPIRY_INTERVAL,
           MQTT_PROP_CONTENT_TYPE, MQTT_PROP_RESPONSE_TOPIC, MQTT_PROP_CORRELATION_DATA} then
        if command \<noteq> CMD_PUBLISH \<and> command \<noteq> CMD_WILL then MOSQ_ERR_PROTOCOL else MOSQ_ERR_SUCCESS
      else if identifier = MQTT_PROP_SUBSCRIPTION_IDENTIFIER then
        if command \<noteq> CMD_PUBLISH \<and> command \<noteq> CMD_SUBSCRIBE then MOSQ_ERR_PROTOCOL
        else MOSQ_ERR_SUCCESS
      else if identifier = MQTT_PROP_SESSION_EXPIRY_INTERVAL then
        if command \<noteq> CMD_CONNECT \<and> command \<noteq> CMD_CONNACK \<and> command \<noteq> CMD_DISCONNECT
        then MOSQ_ERR_PROTOCOL else MOSQ_ERR_SUCCESS
      else if identifier \<in> {MQTT_PROP_AUTHENTICATION_METHOD, MQTT_PROP_AUTHENTICATION_DATA} then
        if command \<noteq> CMD_CONNECT \<and> command \<noteq> CMD_CONNACK \<and> command \<noteq> CMD_AUTH
        then MOSQ_ERR_PROTOCOL else MOSQ_ERR_SUCCESS
      else if identifier \<in> {MQTT_PROP_ASSIGNED_CLIENT_IDENTIFIER, MQTT_PROP_SERVER_KEEP_ALIVE,
           MQTT_PROP_RESPONSE_INFORMATION, MQTT_PROP_MAXIMUM_QOS, MQTT_PROP_RETAIN_AVAILABLE,
           MQTT_PROP_WILDCARD_SUB_AVAILABLE, MQTT_PROP_SUBSCRIPTION_ID_AVAILABLE,
           MQTT_PROP_SHARED_SUB_AVAILABLE} then
        if command \<noteq> CMD_CONNACK then MOSQ_ERR_PROTOCOL else MOSQ_ERR_SUCCESS
      else if identifier = MQTT_PROP_WILL_DELAY_INTERVAL then
        if command \<noteq> CMD_WILL then MOSQ_ERR_PROTOCOL else MOSQ_ERR_SUCCESS
      else if identifier \<in> {MQTT_PROP_REQUEST_PROBLEM_INFORMATION,
           MQTT_PROP_REQUEST_RESPONSE_INFORMATION} then
        if command \<noteq> CMD_CONNECT then MOSQ_ERR_PROTOCOL else MOSQ_ERR_SUCCESS
      else if identifier = MQTT_PROP_SERVER_REFERENCE then
        if command \<noteq> CMD_CONNACK \<and> command \<noteq> CMD_DISCONNECT then MOSQ_ERR_PROTOCOL
        else MOSQ_ERR_SUCCESS
      else if identifier = MQTT_PROP_REASON_STRING then
        if command = CMD_CONNECT \<or> command = CMD_PUBLISH \<or> command = CMD_SUBSCRIBE \<or>
          command = CMD_UNSUBSCRIBE then MOSQ_ERR_PROTOCOL else MOSQ_ERR_SUCCESS
      else if identifier \<in> {MQTT_PROP_RECEIVE_MAXIMUM, MQTT_PROP_TOPIC_ALIAS_MAXIMUM,
           MQTT_PROP_MAXIMUM_PACKET_SIZE} then
        if command \<noteq> CMD_CONNECT \<and> command \<noteq> CMD_CONNACK then MOSQ_ERR_PROTOCOL
        else MOSQ_ERR_SUCCESS
      else if identifier = MQTT_PROP_TOPIC_ALIAS then
        if command \<noteq> CMD_PUBLISH then MOSQ_ERR_PROTOCOL else MOSQ_ERR_SUCCESS
      else if identifier = MQTT_PROP_USER_PROPERTY then MOSQ_ERR_SUCCESS
      else MOSQ_ERR_PROTOCOL)"

text \<open>The tests on the value at the head of the loop of \<open>mosquitto_property_check_all\<close>.\<close>

definition check_value :: "mosquitto_property \<Rightarrow> mosq_err_t" where
  "check_value p =
     (if pr_identifier p \<in> {MQTT_PROP_REQUEST_PROBLEM_INFORMATION,
           MQTT_PROP_REQUEST_RESPONSE_INFORMATION, MQTT_PROP_MAXIMUM_QOS,
           MQTT_PROP_RETAIN_AVAILABLE, MQTT_PROP_WILDCARD_SUB_AVAILABLE,
           MQTT_PROP_SUBSCRIPTION_ID_AVAILABLE, MQTT_PROP_SHARED_SUB_AVAILABLE} then
        if pr_i8 p > 1 then MOSQ_ERR_PROTOCOL else MOSQ_ERR_SUCCESS
      else if pr_identifier p = MQTT_PROP_MAXIMUM_PACKET_SIZE then
        if pr_i32 p = 0 then MOSQ_ERR_PROTOCOL else MOSQ_ERR_SUCCESS
      else if pr_identifier p \<in> {MQTT_PROP_RECEIVE_MAXIMUM, MQTT_PROP_TOPIC_ALIAS} then
        if pr_i16 p = 0 then MOSQ_ERR_PROTOCOL else MOSQ_ERR_SUCCESS
      else MOSQ_ERR_SUCCESS)"

fun has_duplicate :: "mosquitto_property \<Rightarrow> mosquitto_property list \<Rightarrow> bool" where
  "has_duplicate p [] = False"
| "has_duplicate p (t # tail) =
     (if pr_identifier p = pr_identifier t \<and> pr_identifier p \<noteq> MQTT_PROP_USER_PROPERTY then True
      else has_duplicate p tail)"

fun mosquitto_property_check_all :: "int \<Rightarrow> mosquitto_property list \<Rightarrow> mosq_err_t" where
  "mosquitto_property_check_all command [] = MOSQ_ERR_SUCCESS"
| "mosquitto_property_check_all command (p # rest) =
     (if check_value p \<noteq> MOSQ_ERR_SUCCESS then check_value p
      else if mosquitto_property_check_command command (pr_identifier p) \<noteq> MOSQ_ERR_SUCCESS
      then mosquitto_property_check_command command (pr_identifier p)
      else if has_duplicate p rest then MOSQ_ERR_DUPLICATE_PROPERTY
      else mosquitto_property_check_all command rest)"

section \<open>Reading a list\<close>

text \<open>
  The loop of \<open>property__read_all\<close>. \<open>n\<close> bounds the rounds: a round that succeeds moves the
  position on, so that the number of bytes of the packet is enough
  (\<open>read_all_loop_within\<close> shows that the bound is never met on a readable packet).
\<close>

fun read_all_loop ::
  "nat \<Rightarrow> (nat \<Rightarrow> bool) \<Rightarrow> u32 \<Rightarrow> mosquitto_property list \<Rightarrow> packet \<Rightarrow>
   fault + (mosquitto_property list \<times> packet)" where
  "read_all_loop 0 alloc proplen properties p = Inl Trap"
| "read_all_loop (Suc n) alloc proplen properties p =
     (if proplen > 0 then
        if \<not> alloc sizeof_property then Inl (Rc MOSQ_ERR_NOMEM)
        else seq (property__read alloc proplen p) (\<lambda>(prop, proplen, p).
          read_all_loop n alloc proplen (properties @ [prop]) p)
      else Inr (properties, p))"

definition property__read_all ::
  "(nat \<Rightarrow> bool) \<Rightarrow> int \<Rightarrow> packet \<Rightarrow> fault + (mosquitto_property list \<times> packet)" where
  "property__read_all alloc command p =
     seq (packet__read_varint p) (\<lambda>(proplen, _, p).
       seq (read_all_loop (unat (pk_remaining_length p) + 1) alloc proplen [] p) (\<lambda>(properties, p).
         let rc = mosquitto_property_check_all command properties
         in if rc \<noteq> MOSQ_ERR_SUCCESS then Inl (Rc rc) else Inr (properties, p)))"

section \<open>Releasing\<close>

text \<open>The buffers that are handed to \<open>mosquitto__free\<close>.\<close>

definition property__free :: "mosquitto_property \<Rightarrow> u8 list option list" where
  "property__free p =
     (case prop_type (pr_identifier p) of
        Some MQTT_PROP_TYPE_STRING \<Rightarrow> [ms_v (pr_s p)]
      | Some MQTT_PROP_TYPE_BINARY \<Rightarrow> [ms_v (pr_bin p)]
      | Some MQTT_PROP_TYPE_STRING_PAIR \<Rightarrow> [ms_v (pr_name p), ms_v (pr_s p)]
      | _ \<Rightarrow> [])"

fun mosquitto_property_free_all :: "mosquitto_property list \<Rightarrow> u8 list option list" where
  "mosquitto_property_free_all [] = []"
| "mosquitto_property_free_all (p # rest) = property__free p @ mosquitto_property_free_all rest"

section \<open>Lengths\<close>

definition property__get_length :: "mosquitto_property \<Rightarrow> u32" where
  "property__get_length p =
     (case prop_type (pr_identifier p) of
        Some MQTT_PROP_TYPE_BYTE \<Rightarrow> 2
      | Some MQTT_PROP_TYPE_INT16 \<Rightarrow> 3
      | Some MQTT_PROP_TYPE_INT32 \<Rightarrow> 5
      | Some MQTT_PROP_TYPE_VARINT \<Rightarrow>
          if pr_varint p < 128 then 2 else if pr_varint p < 16384 then 3
          else if pr_varint p < 2097152 then 4 else if pr_varint p < 268435456 then 5 else 0
      | Some MQTT_PROP_TYPE_BINARY \<Rightarrow> 3 + ucast (ms_len (pr_bin p))
      | Some MQTT_PROP_TYPE_STRING \<Rightarrow> 3 + ucast (ms_len (pr_s p))
      | Some MQTT_PROP_TYPE_STRING_PAIR \<Rightarrow> 5 + ucast (ms_len (pr_s p)) + ucast (ms_len (pr_name p))
      | None \<Rightarrow> 0)"

definition property__get_length_all :: "mosquitto_property list \<Rightarrow> u32" where
  "property__get_length_all properties = foldl (\<lambda>len p. len + property__get_length p) 0 properties"

definition property__get_remaining_length :: "mosquitto_property list \<Rightarrow> u32" where
  "property__get_remaining_length props =
     (let proplen = property__get_length_all props;
          varbytes = word_of_nat (packet__varint_bytes proplen)
      in proplen + varbytes)"

section \<open>Writing\<close>

definition property__write :: "mosquitto_property \<Rightarrow> packet \<Rightarrow> fault + packet" where
  "property__write prop p =
     seq (packet__write_varint (word_of_int (pr_identifier prop)) p) (\<lambda>p.
       case prop_type (pr_identifier prop) of
         Some MQTT_PROP_TYPE_BYTE \<Rightarrow> packet__write_byte (pr_i8 prop) p
       | Some MQTT_PROP_TYPE_INT16 \<Rightarrow> packet__write_uint16 (pr_i16 prop) p
       | Some MQTT_PROP_TYPE_INT32 \<Rightarrow> packet__write_uint32 (pr_i32 prop) p
       | Some MQTT_PROP_TYPE_VARINT \<Rightarrow> packet__write_varint (pr_varint prop) p
       | Some MQTT_PROP_TYPE_STRING \<Rightarrow> packet__write_string (pr_s prop) p
       | Some MQTT_PROP_TYPE_BINARY \<Rightarrow>
           seq (packet__write_uint16 (ms_len (pr_bin prop)) p) (\<lambda>p.
             packet__write_bytes (case ms_v (pr_bin prop) of None \<Rightarrow> [] | Some v \<Rightarrow> v)
               (ucast (ms_len (pr_bin prop))) p)
       | Some MQTT_PROP_TYPE_STRING_PAIR \<Rightarrow>
           seq (packet__write_string (pr_name prop) p) (\<lambda>p. packet__write_string (pr_s prop) p)
       | None \<Rightarrow> Inl (Rc MOSQ_ERR_INVAL))"

fun write_all_loop :: "mosquitto_property list \<Rightarrow> packet \<Rightarrow> fault + packet" where
  "write_all_loop [] p = Inr p"
| "write_all_loop (prop # rest) p = seq (property__write prop p) (\<lambda>p. write_all_loop rest p)"

definition property__write_all :: "mosquitto_property list \<Rightarrow> bool \<Rightarrow> packet \<Rightarrow> fault + packet" where
  "property__write_all properties write_len p =
     (if write_len then
        seq (packet__write_varint (property__get_length_all properties) p) (\<lambda>p.
          write_all_loop properties p)
      else write_all_loop properties p)"

section \<open>Names\<close>

definition mosquitto_property_identifier_to_string :: "int \<Rightarrow> string option" where
  "mosquitto_property_identifier_to_string identifier =
     (if identifier = MQTT_PROP_PAYLOAD_FORMAT_INDICATOR then Some ''payload-format-indicator''
      else if identifier = MQTT_PROP_MESSAGE_EXPIRY_INTERVAL then Some ''message-expiry-interval''
      else if identifier = MQTT_PROP_CONTENT_TYPE then Some ''content-type''
      else if identifier = MQTT_PROP_RESPONSE_TOPIC then Some ''response-topic''
      else if identifier = MQTT_PROP_CORRELATION_DATA then Some ''correlation-data''
      else if identifier = MQTT_PROP_SUBSCRIPTION_IDENTIFIER then Some ''subscription-identifier''
      else if identifier = MQTT_PROP_SESSION_EXPIRY_INTERVAL then Some ''session-expiry-interval''
      else if identifier = MQTT_PROP_ASSIGNED_CLIENT_IDENTIFIER then Some ''assigned-client-identifier''
      else if identifier = MQTT_PROP_SERVER_KEEP_ALIVE then Some ''server-keep-alive''
      else if identifier = MQTT_PROP_AUTHENTICATION_METHOD then Some ''authentication-method''
      else if identifier = MQTT_PROP_AUTHENTICATION_DATA then Some ''authentication-data''
      else if identifier = MQTT_PROP_REQUEST_PROBLEM_INFORMATION then Some ''request-problem-information''
      else if identifier = MQTT_PROP_WILL_DELAY_INTERVAL then Some ''will-delay-interval''
      else if identifier = MQTT_PROP_REQUEST_RESPONSE_INFORMATION then Some ''request-response-information''
      else if identifier = MQTT_PROP_RESPONSE_INFORMATION then Some ''response-information''
      else if identifier = MQTT_PROP_SERVER_REFERENCE then Some ''server-reference''
      else if identifier = MQTT_PROP_REASON_STRING then Some ''reason-string''
      else if identifier = MQTT_PROP_RECEIVE_MAXIMUM then Some ''receive-maximum''
      else if identifier = MQTT_PROP_TOPIC_ALIAS_MAXIMUM then Some ''topic-alias-maximum''
      else if identifier = MQTT_PROP_TOPIC_ALIAS then Some ''topic-alias''
      else if identifier = MQTT_PROP_MAXIMUM_QOS then Some ''maximum-qos''
      else if identifier = MQTT_PROP_RETAIN_AVAILABLE then Some ''retain-available''
      else if identifier = MQTT_PROP_USER_PROPERTY then Some ''user-property''
      else if identifier = MQTT_PROP_MAXIMUM_PACKET_SIZE then Some ''maximum-packet-size''
      else if identifier = MQTT_PROP_WILDCARD_SUB_AVAILABLE then Some ''wildcard-subscription-available''
      else if identifier = MQTT_PROP_SUBSCRIPTION_ID_AVAILABLE then Some ''subscription-identifier-available''
      else if identifier = MQTT_PROP_SHARED_SUB_AVAILABLE then Some ''shared-subscription-available''
      else None)"

text \<open>\<open>strcasecmp\<close> compares with the letters in lower case.\<close>

definition lower :: "char \<Rightarrow> char" where
  "lower c = (if 65 \<le> (of_char c :: nat) \<and> (of_char c :: nat) \<le> 90 then char_of (of_char c + 32 :: nat) else c)"

definition same_name :: "string \<Rightarrow> string \<Rightarrow> bool" where
  "same_name s t \<longleftrightarrow> map lower s = map lower t"

definition mosquitto_string_to_property_info ::
  "string option \<Rightarrow> fault + (int \<times> mqtt5_property_type)" where
  "mosquitto_string_to_property_info propname =
     (case propname of
        None \<Rightarrow> Inl (Rc MOSQ_ERR_INVAL)
      | Some s \<Rightarrow>
          if same_name s ''payload-format-indicator''
          then Inr (MQTT_PROP_PAYLOAD_FORMAT_INDICATOR, MQTT_PROP_TYPE_BYTE)
          else if same_name s ''message-expiry-interval''
          then Inr (MQTT_PROP_MESSAGE_EXPIRY_INTERVAL, MQTT_PROP_TYPE_INT32)
          else if same_name s ''content-type''
          then Inr (MQTT_PROP_CONTENT_TYPE, MQTT_PROP_TYPE_STRING)
          else if same_name s ''response-topic''
          then Inr (MQTT_PROP_RESPONSE_TOPIC, MQTT_PROP_TYPE_STRING)
          else if same_name s ''correlation-data''
          then Inr (MQTT_PROP_CORRELATION_DATA, MQTT_PROP_TYPE_BINARY)
          else if same_name s ''subscription-identifier''
          then Inr (MQTT_PROP_SUBSCRIPTION_IDENTIFIER, MQTT_PROP_TYPE_VARINT)
          else if same_name s ''session-expiry-interval''
          then Inr (MQTT_PROP_SESSION_EXPIRY_INTERVAL, MQTT_PROP_TYPE_INT32)
          else if same_name s ''assigned-client-identifier''
          then Inr (MQTT_PROP_ASSIGNED_CLIENT_IDENTIFIER, MQTT_PROP_TYPE_STRING)
          else if same_name s ''server-keep-alive''
          then Inr (MQTT_PROP_SERVER_KEEP_ALIVE, MQTT_PROP_TYPE_INT16)
          else if same_name s ''authentication-method''
          then Inr (MQTT_PROP_AUTHENTICATION_METHOD, MQTT_PROP_TYPE_STRING)
          else if same_name s ''authentication-data''
          then Inr (MQTT_PROP_AUTHENTICATION_DATA, MQTT_PROP_TYPE_BINARY)
          else if same_name s ''request-problem-information''
          then Inr (MQTT_PROP_REQUEST_PROBLEM_INFORMATION, MQTT_PROP_TYPE_BYTE)
          else if same_name s ''will-delay-interval''
          then Inr (MQTT_PROP_WILL_DELAY_INTERVAL, MQTT_PROP_TYPE_INT32)
          else if same_name s ''request-response-information''
          then Inr (MQTT_PROP_REQUEST_RESPONSE_INFORMATION, MQTT_PROP_TYPE_BYTE)
          else if same_name s ''response-information''
          then Inr (MQTT_PROP_RESPONSE_INFORMATION, MQTT_PROP_TYPE_STRING)
          else if same_name s ''server-reference''
          then Inr (MQTT_PROP_SERVER_REFERENCE, MQTT_PROP_TYPE_STRING)
          else if same_name s ''reason-string''
          then Inr (MQTT_PROP_REASON_STRING, MQTT_PROP_TYPE_STRING)
          else if same_name s ''receive-maximum''
          then Inr (MQTT_PROP_RECEIVE_MAXIMUM, MQTT_PROP_TYPE_INT16)
          else if same_name s ''topic-alias-maximum''
          then Inr (MQTT_PROP_TOPIC_ALIAS_MAXIMUM, MQTT_PROP_TYPE_INT16)
          else if same_name s ''topic-alias''
          then Inr (MQTT_PROP_TOPIC_ALIAS, MQTT_PROP_TYPE_INT16)
          else if same_name s ''maximum-qos''
          then Inr (MQTT_PROP_MAXIMUM_QOS, MQTT_PROP_TYPE_BYTE)
          else if same_name s ''retain-available''
          then Inr (MQTT_PROP_RETAIN_AVAILABLE, MQTT_PROP_TYPE_BYTE)
          else if same_name s ''user-property''
          then Inr (MQTT_PROP_USER_PROPERTY, MQTT_PROP_TYPE_STRING_PAIR)
          else if same_name s ''maximum-packet-size''
          then Inr (MQTT_PROP_MAXIMUM_PACKET_SIZE, MQTT_PROP_TYPE_INT32)
          else if same_name s ''wildcard-subscription-available''
          then Inr (MQTT_PROP_WILDCARD_SUB_AVAILABLE, MQTT_PROP_TYPE_BYTE)
          else if same_name s ''subscription-identifier-available''
          then Inr (MQTT_PROP_SUBSCRIPTION_ID_AVAILABLE, MQTT_PROP_TYPE_BYTE)
          else if same_name s ''shared-subscription-available''
          then Inr (MQTT_PROP_SHARED_SUB_AVAILABLE, MQTT_PROP_TYPE_BYTE)
          else Inl (Rc MOSQ_ERR_INVAL))"

end
