(* ===== verification/Property_Build.thy ===== *)
theory Property_Build
  imports Property
begin

text \<open>
  The interface of \<open>lib/property_mosq.c\<close> for programs: building a list of properties
  (\<open>mosquitto_property_add_...\<close>), looking values up (\<open>mosquitto_property_read_...\<close>) and copying.
  The argument \<open>proplist\<close> of the builders is \<open>None\<close> for a NULL pointer to the list. A C string
  is the list of its bytes before the terminating zero. A pointer to a property of a list is
  the rest of the list from there on, so that \<open>[]\<close> is NULL. Out parameters that may be NULL
  are booleans saying whether the caller wants the value.
\<close>

section \<open>Building\<close>

definition property__add :: "mosquitto_property list \<Rightarrow> mosquitto_property \<Rightarrow> mosquitto_property list" where
  "property__add proplist prop = proplist @ [prop]"

definition new_property :: "int \<Rightarrow> mosquitto_property" where
  "new_property identifier =
     zero_property\<lparr>pr_client_generated := True, pr_identifier := identifier\<rparr>"

definition mosquitto_property_add_byte ::
  "(nat \<Rightarrow> bool) \<Rightarrow> mosquitto_property list option \<Rightarrow> int \<Rightarrow> u8 \<Rightarrow> fault + mosquitto_property list" where
  "mosquitto_property_add_byte alloc proplist identifier value =
     (case proplist of
        None \<Rightarrow> Inl (Rc MOSQ_ERR_INVAL)
      | Some props \<Rightarrow>
          if prop_type identifier \<noteq> Some MQTT_PROP_TYPE_BYTE then Inl (Rc MOSQ_ERR_INVAL)
          else if \<not> alloc sizeof_property then Inl (Rc MOSQ_ERR_NOMEM)
          else Inr (property__add props ((new_property identifier)\<lparr>pr_i8 := value\<rparr>)))"

definition mosquitto_property_add_int16 ::
  "(nat \<Rightarrow> bool) \<Rightarrow> mosquitto_property list option \<Rightarrow> int \<Rightarrow> u16 \<Rightarrow> fault + mosquitto_property list" where
  "mosquitto_property_add_int16 alloc proplist identifier value =
     (case proplist of
        None \<Rightarrow> Inl (Rc MOSQ_ERR_INVAL)
      | Some props \<Rightarrow>
          if prop_type identifier \<noteq> Some MQTT_PROP_TYPE_INT16 then Inl (Rc MOSQ_ERR_INVAL)
          else if \<not> alloc sizeof_property then Inl (Rc MOSQ_ERR_NOMEM)
          else Inr (property__add props ((new_property identifier)\<lparr>pr_i16 := value\<rparr>)))"

definition mosquitto_property_add_int32 ::
  "(nat \<Rightarrow> bool) \<Rightarrow> mosquitto_property list option \<Rightarrow> int \<Rightarrow> u32 \<Rightarrow> fault + mosquitto_property list" where
  "mosquitto_property_add_int32 alloc proplist identifier value =
     (case proplist of
        None \<Rightarrow> Inl (Rc MOSQ_ERR_INVAL)
      | Some props \<Rightarrow>
          if prop_type identifier \<noteq> Some MQTT_PROP_TYPE_INT32 then Inl (Rc MOSQ_ERR_INVAL)
          else if \<not> alloc sizeof_property then Inl (Rc MOSQ_ERR_NOMEM)
          else Inr (property__add props ((new_property identifier)\<lparr>pr_i32 := value\<rparr>)))"

definition mosquitto_property_add_varint ::
  "(nat \<Rightarrow> bool) \<Rightarrow> mosquitto_property list option \<Rightarrow> int \<Rightarrow> u32 \<Rightarrow> fault + mosquitto_property list" where
  "mosquitto_property_add_varint alloc proplist identifier value =
     (case proplist of
        None \<Rightarrow> Inl (Rc MOSQ_ERR_INVAL)
      | Some props \<Rightarrow>
          if value > 268435455 then Inl (Rc MOSQ_ERR_INVAL)
          else if identifier \<noteq> MQTT_PROP_SUBSCRIPTION_IDENTIFIER then Inl (Rc MOSQ_ERR_INVAL)
          else if \<not> alloc sizeof_property then Inl (Rc MOSQ_ERR_NOMEM)
          else Inr (property__add props ((new_property identifier)\<lparr>pr_varint := value\<rparr>)))"

text \<open>\<open>value\<close> is the memory at the pointer; the buffer made has no terminating zero.\<close>

definition mosquitto_property_add_binary ::
  "(nat \<Rightarrow> bool) \<Rightarrow> mosquitto_property list option \<Rightarrow> int \<Rightarrow> u8 list \<Rightarrow> u16 \<Rightarrow>
   fault + mosquitto_property list" where
  "mosquitto_property_add_binary alloc proplist identifier value len =
     (case proplist of
        None \<Rightarrow> Inl (Rc MOSQ_ERR_INVAL)
      | Some props \<Rightarrow>
          if prop_type identifier \<noteq> Some MQTT_PROP_TYPE_BINARY then Inl (Rc MOSQ_ERR_INVAL)
          else if \<not> alloc sizeof_property then Inl (Rc MOSQ_ERR_NOMEM)
          else if len = 0 then Inr (property__add props (new_property identifier))
          else if \<not> alloc (unat len) then Inl (Rc MOSQ_ERR_NOMEM)
          else if \<not> unat len \<le> length value then Inl Trap
          else Inr (property__add props ((new_property identifier)
                 \<lparr>pr_bin := \<lparr>ms_v = Some (take (unat len) value), ms_len = len\<rparr>\<rparr>)))"

text \<open>\<open>mosquitto_validate_utf8(value, (int)n)\<close> on a C string, true for an error.\<close>

definition utf8_refused :: "u8 list \<Rightarrow> nat \<Rightarrow> fault + bool" where
  "utf8_refused value n =
     (case mosquitto_validate_utf8 (Some (value @ [0])) (sint (word_of_nat n :: u32)) of
        Inl Trap \<Rightarrow> Inl Trap
      | Inl (Rc e) \<Rightarrow> Inr True
      | Inr _ \<Rightarrow> Inr False)"

definition mosquitto_property_add_string ::
  "(nat \<Rightarrow> bool) \<Rightarrow> mosquitto_property list option \<Rightarrow> int \<Rightarrow> u8 list option \<Rightarrow>
   fault + mosquitto_property list" where
  "mosquitto_property_add_string alloc proplist identifier value =
     (case proplist of
        None \<Rightarrow> Inl (Rc MOSQ_ERR_INVAL)
      | Some props \<Rightarrow>
          let slen = (case value of None \<Rightarrow> 0 | Some s \<Rightarrow> length s)
          in seq (case value of None \<Rightarrow> Inr False | Some s \<Rightarrow> utf8_refused s slen) (\<lambda>refused.
            if refused then Inl (Rc MOSQ_ERR_MALFORMED_UTF8)
            else if prop_type identifier \<noteq> Some MQTT_PROP_TYPE_STRING then Inl (Rc MOSQ_ERR_INVAL)
            else if \<not> alloc sizeof_property then Inl (Rc MOSQ_ERR_NOMEM)
            else (case value of
                Some s \<Rightarrow>
                  if slen > 0 then
                    if \<not> alloc (slen + 1) then Inl (Rc MOSQ_ERR_NOMEM)
                    else Inr (property__add props ((new_property identifier)
                           \<lparr>pr_s := \<lparr>ms_v = Some (s @ [0]), ms_len = word_of_nat slen\<rparr>\<rparr>))
                  else Inr (property__add props (new_property identifier))
              | None \<Rightarrow> Inr (property__add props (new_property identifier)))))"

text \<open>
  The pair: \<open>slen_value\<close> is 0 when the value is validated. The copies are made in order,
  the name first.
\<close>

definition dup_string :: "(nat \<Rightarrow> bool) \<Rightarrow> u8 list option \<Rightarrow> fault + mqtt__string" where
  "dup_string alloc value =
     (case value of
        None \<Rightarrow> Inr empty_string
      | Some s \<Rightarrow>
          if \<not> alloc (length s + 1) then Inl (Rc MOSQ_ERR_NOMEM)
          else Inr \<lparr>ms_v = Some (s @ [0]), ms_len = word_of_nat (length s)\<rparr>)"

definition mosquitto_property_add_string_pair ::
  "(nat \<Rightarrow> bool) \<Rightarrow> mosquitto_property list option \<Rightarrow> int \<Rightarrow> u8 list option \<Rightarrow> u8 list option \<Rightarrow>
   fault + mosquitto_property list" where
  "mosquitto_property_add_string_pair alloc proplist identifier name value =
     (case proplist of
        None \<Rightarrow> Inl (Rc MOSQ_ERR_INVAL)
      | Some props \<Rightarrow>
          if identifier \<noteq> MQTT_PROP_USER_PROPERTY then Inl (Rc MOSQ_ERR_INVAL)
          else
            let slen_name = (case name of None \<Rightarrow> 0 | Some s \<Rightarrow> length s); slen_value = 0
            in seq (case name of None \<Rightarrow> Inr False | Some s \<Rightarrow> utf8_refused s slen_name) (\<lambda>refused.
              if refused then Inl (Rc MOSQ_ERR_MALFORMED_UTF8)
              else seq (case value of None \<Rightarrow> Inr False | Some s \<Rightarrow> utf8_refused s slen_value) (\<lambda>refused.
                if refused then Inl (Rc MOSQ_ERR_MALFORMED_UTF8)
                else if \<not> alloc sizeof_property then Inl (Rc MOSQ_ERR_NOMEM)
                else seq (dup_string alloc name) (\<lambda>pname.
                  seq (dup_string alloc value) (\<lambda>pvalue.
                    Inr (property__add props
                      ((new_property identifier)\<lparr>pr_name := pname, pr_s := pvalue\<rparr>)))))))"

section \<open>Looking up\<close>

fun get_property_loop :: "bool \<Rightarrow> mosquitto_property list \<Rightarrow> int \<Rightarrow> bool \<Rightarrow> mosquitto_property list" where
  "get_property_loop is_first [] identifier skip_first = []"
| "get_property_loop is_first (p # rest) identifier skip_first =
     (if pr_identifier p = identifier then
        if \<not> is_first \<or> \<not> skip_first then p # rest
        else get_property_loop False rest identifier skip_first
      else get_property_loop is_first rest identifier skip_first)"

definition property__get_property ::
  "mosquitto_property list \<Rightarrow> int \<Rightarrow> bool \<Rightarrow> mosquitto_property list" where
  "property__get_property proplist identifier skip_first =
     get_property_loop True proplist identifier skip_first"

definition mosquitto_property_identifier :: "mosquitto_property list \<Rightarrow> int" where
  "mosquitto_property_identifier property = (case property of [] \<Rightarrow> 0 | p # _ \<Rightarrow> pr_identifier p)"

definition mosquitto_property_next :: "mosquitto_property list \<Rightarrow> mosquitto_property list" where
  "mosquitto_property_next proplist = (case proplist of [] \<Rightarrow> [] | _ # rest \<Rightarrow> rest)"

text \<open>
  The result of the lookups: the pointer, with the value that is stored through the out
  parameter, or nothing.
\<close>

definition mosquitto_property_read_byte ::
  "mosquitto_property list \<Rightarrow> int \<Rightarrow> bool \<Rightarrow> (u8 \<times> mosquitto_property list) option" where
  "mosquitto_property_read_byte proplist identifier skip_first =
     (case property__get_property proplist identifier skip_first of
        [] \<Rightarrow> None
      | p # rest \<Rightarrow>
          if prop_type (pr_identifier p) \<noteq> Some MQTT_PROP_TYPE_BYTE then None
          else Some (pr_i8 p, p # rest))"

definition mosquitto_property_read_int16 ::
  "mosquitto_property list \<Rightarrow> int \<Rightarrow> bool \<Rightarrow> (u16 \<times> mosquitto_property list) option" where
  "mosquitto_property_read_int16 proplist identifier skip_first =
     (case property__get_property proplist identifier skip_first of
        [] \<Rightarrow> None
      | p # rest \<Rightarrow>
          if prop_type (pr_identifier p) \<noteq> Some MQTT_PROP_TYPE_INT16 then None
          else Some (pr_i16 p, p # rest))"

definition mosquitto_property_read_int32 ::
  "mosquitto_property list \<Rightarrow> int \<Rightarrow> bool \<Rightarrow> (u32 \<times> mosquitto_property list) option" where
  "mosquitto_property_read_int32 proplist identifier skip_first =
     (case property__get_property proplist identifier skip_first of
        [] \<Rightarrow> None
      | p # rest \<Rightarrow>
          if prop_type (pr_identifier p) \<noteq> Some MQTT_PROP_TYPE_INT32 then None
          else Some (pr_i32 p, p # rest))"

definition mosquitto_property_read_varint ::
  "mosquitto_property list \<Rightarrow> int \<Rightarrow> bool \<Rightarrow> (u32 \<times> mosquitto_property list) option" where
  "mosquitto_property_read_varint proplist identifier skip_first =
     (case property__get_property proplist identifier skip_first of
        [] \<Rightarrow> None
      | p # rest \<Rightarrow>
          if pr_identifier p \<noteq> MQTT_PROP_SUBSCRIPTION_IDENTIFIER then None
          else Some (pr_varint p, p # rest))"

text \<open>
  The copy a caller gets: \<open>calloc(1, len+1)\<close> and \<open>memcpy\<close> of \<open>len\<close> bytes, which for \<open>len = 0\<close>
  does not touch the pointer.
\<close>

definition copy_out :: "(nat \<Rightarrow> bool) \<Rightarrow> mqtt__string \<Rightarrow> fault + u8 list" where
  "copy_out alloc s =
     (if \<not> alloc (unat (ms_len s) + 1) then Inl (Rc MOSQ_ERR_NOMEM)
      else case ms_v s of
             None \<Rightarrow> if ms_len s = 0 then Inr [0] else Inl Trap
           | Some v \<Rightarrow>
               if unat (ms_len s) \<le> length v then Inr (take (unat (ms_len s)) v @ [0]) else Inl Trap)"

text \<open>The error codes inside these three only mark a failed allocation: the code returns NULL.\<close>

definition mosquitto_property_read_binary ::
  "(nat \<Rightarrow> bool) \<Rightarrow> mosquitto_property list \<Rightarrow> int \<Rightarrow> bool \<Rightarrow> bool \<Rightarrow> bool \<Rightarrow>
   fault + ((u8 list \<times> u16) option \<times> mosquitto_property list) option" where
  "mosquitto_property_read_binary alloc proplist identifier value len skip_first =
     (if proplist = [] \<or> value \<noteq> len then Inr None
      else case property__get_property proplist identifier skip_first of
             [] \<Rightarrow> Inr None
           | p # rest \<Rightarrow>
               if prop_type (pr_identifier p) \<noteq> Some MQTT_PROP_TYPE_BINARY then Inr None
               else if value then
                 (case copy_out alloc (pr_bin p) of
                    Inl Trap \<Rightarrow> Inl Trap
                  | Inl (Rc e) \<Rightarrow> Inr None
                  | Inr b \<Rightarrow> Inr (Some (Some (b, ms_len (pr_bin p)), p # rest)))
               else Inr (Some (None, p # rest)))"

definition mosquitto_property_read_string ::
  "(nat \<Rightarrow> bool) \<Rightarrow> mosquitto_property list \<Rightarrow> int \<Rightarrow> bool \<Rightarrow> bool \<Rightarrow>
   fault + (u8 list option \<times> mosquitto_property list) option" where
  "mosquitto_property_read_string alloc proplist identifier value skip_first =
     (case property__get_property proplist identifier skip_first of
        [] \<Rightarrow> Inr None
      | p # rest \<Rightarrow>
          if prop_type (pr_identifier p) \<noteq> Some MQTT_PROP_TYPE_STRING then Inr None
          else if value then
            (case copy_out alloc (pr_s p) of
               Inl Trap \<Rightarrow> Inl Trap
             | Inl (Rc e) \<Rightarrow> Inr None
             | Inr b \<Rightarrow> Inr (Some (Some b, p # rest)))
          else Inr (Some (None, p # rest)))"

definition mosquitto_property_read_string_pair ::
  "(nat \<Rightarrow> bool) \<Rightarrow> mosquitto_property list \<Rightarrow> int \<Rightarrow> bool \<Rightarrow> bool \<Rightarrow> bool \<Rightarrow>
   fault + (u8 list option \<times> u8 list option \<times> mosquitto_property list) option" where
  "mosquitto_property_read_string_pair alloc proplist identifier name value skip_first =
     (case property__get_property proplist identifier skip_first of
        [] \<Rightarrow> Inr None
      | p # rest \<Rightarrow>
          if pr_identifier p \<noteq> MQTT_PROP_USER_PROPERTY then Inr None
          else
            (case (if name then map_sum id Some (copy_out alloc (pr_name p)) else Inr None) of
               Inl Trap \<Rightarrow> Inl Trap
             | Inl (Rc e) \<Rightarrow> Inr None
             | Inr n \<Rightarrow>
                 (case (if value then map_sum id Some (copy_out alloc (pr_s p)) else Inr None) of
                    Inl Trap \<Rightarrow> Inl Trap
                  | Inl (Rc e) \<Rightarrow> Inr None
                  | Inr v \<Rightarrow> Inr (Some (n, v, p # rest)))))"

section \<open>Copying\<close>

text \<open>\<open>strdup\<close>: up to the zero that ends the string; NULL is not allowed.\<close>

definition strdup :: "(nat \<Rightarrow> bool) \<Rightarrow> u8 list option \<Rightarrow> fault + u8 list option" where
  "strdup alloc s =
     (case s of
        None \<Rightarrow> Inl Trap
      | Some v \<Rightarrow>
          if 0 \<notin> set v then Inl Trap
          else let d = takeWhile (\<lambda>b. b \<noteq> 0) v @ [0]
               in if alloc (length d) then Inr (Some d) else Inl (Rc MOSQ_ERR_NOMEM))"

definition copy_property :: "(nat \<Rightarrow> bool) \<Rightarrow> mosquitto_property \<Rightarrow> fault + mosquitto_property" where
  "copy_property alloc src =
     (if \<not> alloc sizeof_property then Inl (Rc MOSQ_ERR_NOMEM)
      else
        let pnew = zero_property\<lparr>pr_identifier := pr_identifier src\<rparr>
        in case prop_type (pr_identifier src) of
             Some MQTT_PROP_TYPE_BYTE \<Rightarrow> Inr (pnew\<lparr>pr_i8 := pr_i8 src\<rparr>)
           | Some MQTT_PROP_TYPE_INT16 \<Rightarrow> Inr (pnew\<lparr>pr_i16 := pr_i16 src\<rparr>)
           | Some MQTT_PROP_TYPE_INT32 \<Rightarrow> Inr (pnew\<lparr>pr_i32 := pr_i32 src\<rparr>)
           | Some MQTT_PROP_TYPE_VARINT \<Rightarrow> Inr (pnew\<lparr>pr_varint := pr_varint src\<rparr>)
           | Some MQTT_PROP_TYPE_STRING \<Rightarrow>
               seq (strdup alloc (ms_v (pr_s src))) (\<lambda>v.
                 Inr (pnew\<lparr>pr_s := \<lparr>ms_v = v, ms_len = ms_len (pr_s src)\<rparr>\<rparr>))
           | Some MQTT_PROP_TYPE_BINARY \<Rightarrow>
               let n = unat (ms_len (pr_bin src)); v = (case ms_v (pr_bin src) of None \<Rightarrow> [] | Some v \<Rightarrow> v)
               in if \<not> alloc n then Inl (Rc MOSQ_ERR_NOMEM)
                  else if \<not> n \<le> length v then Inl Trap
                  else Inr (pnew\<lparr>pr_bin := \<lparr>ms_v = Some (take n v), ms_len = ms_len (pr_bin src)\<rparr>\<rparr>)
           | Some MQTT_PROP_TYPE_STRING_PAIR \<Rightarrow>
               seq (strdup alloc (ms_v (pr_s src))) (\<lambda>v.
                 seq (strdup alloc (ms_v (pr_name src))) (\<lambda>nm.
                   Inr (pnew\<lparr>pr_s := \<lparr>ms_v = v, ms_len = ms_len (pr_s src)\<rparr>,
                             pr_name := \<lparr>ms_v = nm, ms_len = ms_len (pr_name src)\<rparr>\<rparr>)))
           | None \<Rightarrow> Inl (Rc MOSQ_ERR_INVAL))"

fun copy_loop ::
  "(nat \<Rightarrow> bool) \<Rightarrow> mosquitto_property list \<Rightarrow> mosquitto_property list \<Rightarrow> fault + mosquitto_property list" where
  "copy_loop alloc dest [] = Inr dest"
| "copy_loop alloc dest (src # rest) =
     seq (copy_property alloc src) (\<lambda>pnew. copy_loop alloc (dest @ [pnew]) rest)"

text \<open>\<open>dest\<close> says whether the pointer for the result is given; \<open>None\<close> leaves it untouched.\<close>

definition mosquitto_property_copy_all ::
  "(nat \<Rightarrow> bool) \<Rightarrow> bool \<Rightarrow> mosquitto_property list \<Rightarrow> fault + mosquitto_property list option" where
  "mosquitto_property_copy_all alloc dest src =
     (if src = [] then Inr None
      else if \<not> dest then Inl (Rc MOSQ_ERR_INVAL)
      else seq (copy_loop alloc [] src) (\<lambda>props. Inr (Some props)))"

end
