(* ===== verification/Property_Laws.thy ===== *)
theory Property_Laws
  imports Property_Build
begin

text \<open>
  What the property functions promise: a property is a packet codec, a list of properties
  survives the way through a packet, the reader consumes exactly the declared length,
  the checks mean what the specification says, names and identifiers correspond.
\<close>

section \<open>Properties as a codec\<close>

text \<open>
  The properties a packet can carry: the member that the identifier selects, with a value
  its reader can produce, and everything else zero.
\<close>

definition prop_ok :: "(nat \<Rightarrow> bool) \<Rightarrow> mosquitto_property \<Rightarrow> bool" where
  "prop_ok alloc p \<longleftrightarrow>
     (let z = zero_property\<lparr>pr_identifier := pr_identifier p\<rparr>
      in case prop_type (pr_identifier p) of
           Some MQTT_PROP_TYPE_BYTE \<Rightarrow> p = z\<lparr>pr_i8 := pr_i8 p\<rparr>
         | Some MQTT_PROP_TYPE_INT16 \<Rightarrow> p = z\<lparr>pr_i16 := pr_i16 p\<rparr>
         | Some MQTT_PROP_TYPE_INT32 \<Rightarrow> p = z\<lparr>pr_i32 := pr_i32 p\<rparr>
         | Some MQTT_PROP_TYPE_VARINT \<Rightarrow> p = z\<lparr>pr_varint := pr_varint p\<rparr> \<and> varint_ok (pr_varint p)
         | Some MQTT_PROP_TYPE_STRING \<Rightarrow> p = z\<lparr>pr_s := pr_s p\<rparr> \<and> string_ok alloc (pr_s p)
         | Some MQTT_PROP_TYPE_BINARY \<Rightarrow> p = z\<lparr>pr_bin := pr_bin p\<rparr> \<and> binary_ok alloc (pr_bin p)
         | Some MQTT_PROP_TYPE_STRING_PAIR \<Rightarrow>
             p = z\<lparr>pr_name := pr_name p, pr_s := pr_s p\<rparr> \<and>
             string_ok alloc (pr_name p) \<and> string_ok alloc (pr_s p)
         | None \<Rightarrow> False)"

definition enc_body :: "mosquitto_property \<Rightarrow> u8 list" where
  "enc_body p =
     (case prop_type (pr_identifier p) of
        Some MQTT_PROP_TYPE_BYTE \<Rightarrow> enc_byte (pr_i8 p)
      | Some MQTT_PROP_TYPE_INT16 \<Rightarrow> enc_uint16 (pr_i16 p)
      | Some MQTT_PROP_TYPE_INT32 \<Rightarrow> enc_uint32 (pr_i32 p)
      | Some MQTT_PROP_TYPE_VARINT \<Rightarrow> enc_varint (unat (pr_varint p))
      | Some MQTT_PROP_TYPE_STRING \<Rightarrow> enc_string (pr_s p)
      | Some MQTT_PROP_TYPE_BINARY \<Rightarrow> enc_string (pr_bin p)
      | Some MQTT_PROP_TYPE_STRING_PAIR \<Rightarrow> enc_string (pr_name p) @ enc_string (pr_s p)
      | None \<Rightarrow> [])"

definition enc_prop :: "mosquitto_property \<Rightarrow> u8 list" where
  "enc_prop p = word_of_int (pr_identifier p) # enc_body p"

lemma prop_type_range: "prop_type i \<noteq> None \<Longrightarrow> 1 \<le> i \<and> i \<le> 42"
  by (auto simp: prop_type_def split: if_splits)

lemma prop_id_word:
  assumes "prop_type i \<noteq> None"
  shows "uint (word_of_int i :: u32) = i" "enc_varint (unat (word_of_int i :: u32)) = [word_of_int i]"
    "varint_ok (word_of_int i)"
proof -
  have r: "1 \<le> i" "i \<le> 42" using prop_type_range [OF assms] by auto
  then show u: "uint (word_of_int i :: u32) = i" by (simp add: uint_word_of_int)
  then have n: "unat (word_of_int i :: u32) = nat i" by (simp add: unat_eq_nat_uint)
  have "(word_of_nat (nat i) :: u8) = word_of_int i" using r by simp
  with n r show "enc_varint (unat (word_of_int i :: u32)) = [word_of_int i]"
    by (simp add: enc_varint.simps)
  show "varint_ok (word_of_int i)" using n r by (simp add: varint_ok_def word_less_nat_alt)
qed

lemma read_identifier:
  assumes "prop_type i \<noteq> None" and "holds (word_of_int i # bs) p"
  shows "packet__read_varint p = Inr (word_of_int i, 1, skip 1 p)" and "holds bs (skip 1 p)"
proof -
  have "holds [word_of_int i] p" "holds bs (skip 1 p)"
    using holds_append [of "[word_of_int i]" bs p] assms(2) by auto
  then show "packet__read_varint p = Inr (word_of_int i, 1, skip 1 p)" "holds bs (skip 1 p)"
    using read_varint_holds [OF prop_id_word(3) [OF assms(1)]] prop_id_word(2) [OF assms(1)] by auto
qed

lemma prop_type_cases:
  assumes "prop_ok alloc p"
  obtains (byte) v i where "prop_type i = Some MQTT_PROP_TYPE_BYTE"
      "p = zero_property\<lparr>pr_identifier := i, pr_i8 := v\<rparr>"
  | (int16) v i where "prop_type i = Some MQTT_PROP_TYPE_INT16"
      "p = zero_property\<lparr>pr_identifier := i, pr_i16 := v\<rparr>"
  | (int32) v i where "prop_type i = Some MQTT_PROP_TYPE_INT32"
      "p = zero_property\<lparr>pr_identifier := i, pr_i32 := v\<rparr>"
  | (varint) v i where "prop_type i = Some MQTT_PROP_TYPE_VARINT" "varint_ok v"
      "p = zero_property\<lparr>pr_identifier := i, pr_varint := v\<rparr>"
  | (str) v i where "prop_type i = Some MQTT_PROP_TYPE_STRING" "string_ok alloc v"
      "p = zero_property\<lparr>pr_identifier := i, pr_s := v\<rparr>"
  | (binary) v i where "prop_type i = Some MQTT_PROP_TYPE_BINARY" "binary_ok alloc v"
      "p = zero_property\<lparr>pr_identifier := i, pr_bin := v\<rparr>"
  | (str_pair) v w i where "prop_type i = Some MQTT_PROP_TYPE_STRING_PAIR" "string_ok alloc v" "string_ok alloc w"
      "p = zero_property\<lparr>pr_identifier := i, pr_name := v, pr_s := w\<rparr>"
  using assms
  by (auto simp: prop_ok_def Let_def split: option.splits mqtt5_property_type.splits)

lemma string_ok_length:
  "string_ok alloc s \<Longrightarrow> length (enc_string s) = 2 + unat (ms_len s)"
  "binary_ok alloc s \<Longrightarrow> length (enc_string s) = 2 + unat (ms_len s)"
  using string_bytes_length [of alloc s] by (auto simp: enc_string_def string_ok_def)

lemma ucast_of_len: "(ucast (n :: u16) :: u32) = of_nat (unat n)"
  by (rule ucast_u16_of_nat)

lemma property_read_holds:
  assumes "prop_ok alloc x" and "holds (enc_prop x) p"
  shows "property__read alloc len p =
    Inr (x, len - word_of_nat (length (enc_prop x)), skip (length (enc_prop x)) p)"
  using assms(1)
proof (cases rule: prop_type_cases)
  case (byte v i)
  have h: "holds (word_of_int i # enc_byte v) p" using assms(2) byte by (simp add: enc_prop_def enc_body_def zero_property_def)
  have t: "prop_type i \<noteq> None" using byte by simp
  show ?thesis
    using byte prop_id_word [OF t] read_identifier [OF t h] byte_codec.get_enc [of v "skip 1 p"]
    by (simp add: property__read_def Let_def enc_prop_def enc_body_def zero_property_def enc_byte_def)
next
  case (int16 v i)
  have h: "holds (word_of_int i # enc_uint16 v) p" using assms(2) int16 by (simp add: enc_prop_def enc_body_def zero_property_def)
  have t: "prop_type i \<noteq> None" using int16 by simp
  show ?thesis
    using int16 prop_id_word [OF t] read_identifier [OF t h] uint16_codec.get_enc [of v "skip 1 p"]
    by (simp add: property__read_def Let_def enc_prop_def enc_body_def zero_property_def numeral_3_eq_3)
next
  case (int32 v i)
  have h: "holds (word_of_int i # enc_uint32 v) p" using assms(2) int32 by (simp add: enc_prop_def enc_body_def zero_property_def)
  have t: "prop_type i \<noteq> None" using int32 by simp
  show ?thesis
    using int32 prop_id_word [OF t] read_identifier [OF t h] uint32_codec.get_enc [of v "skip 1 p"]
    by (simp add: property__read_def Let_def enc_prop_def enc_body_def zero_property_def eval_nat_numeral)
next
  case (varint v i)
  have h: "holds (word_of_int i # enc_varint (unat v)) p" using assms(2) varint by (simp add: enc_prop_def enc_body_def zero_property_def)
  have t: "prop_type i \<noteq> None" using varint by simp
  show ?thesis
    using varint prop_id_word [OF t] read_identifier [OF t h] read_varint_holds [of v "skip 1 p"]
      ucast_word_of_nat_u32 [of "length (enc_varint (unat v))"] varint_ok_length [of v]
    by (simp add: property__read_def Let_def enc_prop_def enc_body_def zero_property_def)
next
  case (str v i)
  have h: "holds (word_of_int i # enc_string v) p" using assms(2) str by (simp add: enc_prop_def enc_body_def zero_property_def)
  have t: "prop_type i \<noteq> None" using str by simp
  show ?thesis
    using str prop_id_word [OF t] read_identifier [OF t h] string_codec.get_enc [of alloc v "skip 1 p"] string_ok_length [of alloc v]
    by (simp add: property__read_def Let_def enc_prop_def enc_body_def zero_property_def)
next
  case (binary v i)
  have h: "holds (word_of_int i # enc_string v) p" using assms(2) binary by (simp add: enc_prop_def enc_body_def zero_property_def)
  have t: "prop_type i \<noteq> None" using binary by simp
  show ?thesis
    using binary prop_id_word [OF t] read_identifier [OF t h] binary_codec.get_enc [of alloc v "skip 1 p"] string_ok_length [of alloc v]
    by (simp add: property__read_def Let_def enc_prop_def enc_body_def zero_property_def)
next
  case (str_pair v w i)
  have h: "holds (word_of_int i # enc_string v @ enc_string w) p"
    using assms(2) str_pair by (simp add: enc_prop_def enc_body_def zero_property_def)
  have t: "prop_type i \<noteq> None" using str_pair by simp
  show ?thesis
    using str_pair prop_id_word [OF t] read_identifier [OF t h]
      string_codec.get_prefix [of alloc v "enc_string w" "skip 1 p"]
      string_codec.get_enc [of alloc w "skip (1 + length (enc_string v)) p"] string_ok_length [of alloc]
    by (simp add: property__read_def Let_def enc_prop_def enc_body_def zero_property_def)
qed

text \<open>A writer that puts its bytes, followed by one that puts others.\<close>

lemma seq_emit:
  assumes "fits (length (as @ bs)) p" and "w p = Inr (emit as p)"
    and "\<And>q. fits (length bs) q \<Longrightarrow> w' q = Inr (emit bs q)"
  shows "seq (w p) w' = Inr (emit (as @ bs) p)"
  using assms fits_append [OF assms(1)] emit_append [OF assms(1)] by auto

lemma write_binary_eq:
  "seq (packet__write_uint16 (ms_len s) p) (\<lambda>p.
     packet__write_bytes (case ms_v s of None \<Rightarrow> [] | Some v \<Rightarrow> v) (ucast (ms_len s)) p) =
   packet__write_string s p"
  by (simp add: packet__write_string_def)

lemma write_pair_emit:
  assumes "string_ok alloc v" "string_ok alloc w" "fits (length (enc_string v @ enc_string w)) q"
  shows "seq (packet__write_string v q) (packet__write_string w) = Inr (emit (enc_string v @ enc_string w) q)"
  using assms(3) fits_append [OF assms(3)] string_codec.put_enc assms(1,2) by (intro seq_emit) auto

lemma property_write_emit:
  assumes "prop_ok alloc x" and "fits (length (enc_prop x)) p"
  shows "property__write x p = Inr (emit (enc_prop x) p)"
proof -
  let ?i = "pr_identifier x"
  have t: "prop_type ?i \<noteq> None" using assms(1) by (auto simp: prop_ok_def Let_def split: option.splits)
  have e: "enc_prop x = [word_of_int ?i] @ enc_body x" by (simp add: enc_prop_def)
  have w: "packet__write_varint (word_of_int ?i) p = Inr (emit [word_of_int ?i] p)"
    using varint_codec.put_enc [OF prop_id_word(3) [OF t], of p] prop_id_word(2) [OF t] assms(2)
      fits_append [of "[word_of_int ?i]" "enc_body x" p]
    by (simp add: e)
  show ?thesis
    unfolding property__write_def write_binary_eq e
  proof (rule seq_emit)
    show "fits (length ([word_of_int ?i] @ enc_body x)) p" using assms(2) by (simp add: e)
    show "packet__write_varint (word_of_int ?i) p = Inr (emit [word_of_int ?i] p)" by (rule w)
    fix q
    assume f: "fits (length (enc_body x)) q"
    show "(case prop_type ?i of
         Some MQTT_PROP_TYPE_BYTE \<Rightarrow> packet__write_byte (pr_i8 x) q
       | Some MQTT_PROP_TYPE_INT16 \<Rightarrow> packet__write_uint16 (pr_i16 x) q
       | Some MQTT_PROP_TYPE_INT32 \<Rightarrow> packet__write_uint32 (pr_i32 x) q
       | Some MQTT_PROP_TYPE_VARINT \<Rightarrow> packet__write_varint (pr_varint x) q
       | Some MQTT_PROP_TYPE_STRING \<Rightarrow> packet__write_string (pr_s x) q
       | Some MQTT_PROP_TYPE_BINARY \<Rightarrow> packet__write_string (pr_bin x) q
       | Some MQTT_PROP_TYPE_STRING_PAIR \<Rightarrow>
           seq (packet__write_string (pr_name x) q) (\<lambda>p. packet__write_string (pr_s x) p)
       | None \<Rightarrow> Inl (Rc MOSQ_ERR_INVAL)) = Inr (emit (enc_body x) q)"
      using assms(1)
      by (cases rule: prop_type_cases; use f in
          \<open>simp add: enc_body_def zero_property_def byte_codec.put_enc uint16_codec.put_enc
            uint32_codec.put_enc varint_codec.put_enc string_codec.put_enc binary_codec.put_enc
            write_pair_emit del: length_enc_uint16 length_enc_uint32 length_append\<close>)
  qed
qed

definition read_property_value ::
  "(nat \<Rightarrow> bool) \<Rightarrow> packet \<Rightarrow> fault + (mosquitto_property \<times> packet)" where
  "read_property_value alloc p = seq (property__read alloc 0 p) (\<lambda>(x, _, p). Inr (x, p))"

interpretation prop_codec: packet_codec property__write "read_property_value alloc"
  enc_prop "prop_ok alloc" for alloc
  by unfold_locales (auto simp: read_property_value_def property_read_holds intro: property_write_emit)

section \<open>Lists of properties\<close>

definition enc_props :: "mosquitto_property list \<Rightarrow> u8 list" where
  "enc_props xs = concat (map enc_prop xs)"

lemma enc_props_simps [simp]:
  "enc_props [] = []" "enc_props (x # xs) = enc_prop x @ enc_props xs"
  by (simp_all add: enc_props_def)

lemma write_all_emit:
  "list_all (prop_ok alloc) xs \<Longrightarrow> fits (length (enc_props xs)) p \<Longrightarrow>
   write_all_loop xs p = Inr (emit (enc_props xs) p)"
proof (induction xs arbitrary: p)
  case (Cons x xs)
  then show ?case
    using fits_append [of "enc_prop x" "enc_props xs" p] by (auto intro!: seq_emit property_write_emit)
qed simp

lemma length_enc_prop:
  assumes "prop_ok alloc x"
  shows "property__get_length x = word_of_nat (length (enc_prop x))"
  using assms
  by (cases rule: prop_type_cases)
    (simp_all add: property__get_length_def enc_prop_def enc_body_def zero_property_def enc_byte_def
      string_ok_length enc_varint_length varint_ok_def word_less_nat_alt)

lemma length_enc_props:
  "list_all (prop_ok alloc) xs \<Longrightarrow> property__get_length_all xs = word_of_nat (length (enc_props xs))"
proof -
  have "list_all (prop_ok alloc) xs \<Longrightarrow>
    foldl (\<lambda>len p. len + property__get_length p) n xs = n + word_of_nat (length (enc_props xs))" for n
    by (induction xs arbitrary: n) (simp_all add: length_enc_prop [of alloc])
  then show "list_all (prop_ok alloc) xs \<Longrightarrow> ?thesis"
    by (simp add: property__get_length_all_def)
qed

lemma enc_prop_pos: "0 < length (enc_prop x)"
  by (simp add: enc_prop_def)

lemma read_all_loop_holds:
  assumes "alloc sizeof_property"
  shows "list_all (prop_ok alloc) xs \<Longrightarrow> holds (enc_props xs) p \<Longrightarrow> length xs < n \<Longrightarrow>
    length (enc_props xs) < 2 ^ 32 \<Longrightarrow>
    read_all_loop n alloc (word_of_nat (length (enc_props xs))) acc p =
      Inr (acc @ xs, skip (length (enc_props xs)) p)"
proof (induction xs arbitrary: n acc p)
  case Nil
  then show ?case by (cases n) auto
next
  case (Cons x xs)
  obtain m where n: "n = Suc m" "length xs < m" using Cons.prems(3) by (cases n) auto
  have ok: "prop_ok alloc x" "list_all (prop_ok alloc) xs" using Cons.prems(1) by auto
  have h: "holds (enc_prop x) p" "holds (enc_props xs) (skip (length (enc_prop x)) p)"
    using holds_append [of "enc_prop x" "enc_props xs" p] Cons.prems(2) by auto
  have "unat (word_of_nat (length (enc_props (x # xs))) :: u32) = length (enc_props (x # xs))"
    using Cons.prems(4) by (simp add: unsigned_of_nat take_bit_nat_eq_self del: of_nat_add)
  then have "(word_of_nat (length (enc_props (x # xs))) :: u32) > 0"
    using enc_prop_pos [of x] by (simp add: word_less_nat_alt)
  moreover have "read_all_loop m alloc (word_of_nat (length (enc_props xs))) (acc @ [x])
      (skip (length (enc_prop x)) p) = Inr (acc @ x # xs, skip (length (enc_props (x # xs))) p)"
    using Cons.IH [OF ok(2) h(2) n(2)] Cons.prems(4) by simp
  ultimately show ?case
    using property_read_holds [OF ok(1) h(1)] assms by (simp add: n)
qed

lemma length_enc_props_ge: "length xs \<le> length (enc_props xs)"
  by (induction xs) (auto simp: enc_prop_def)

definition enc_prop_list :: "mosquitto_property list \<Rightarrow> u8 list" where
  "enc_prop_list xs = enc_varint (length (enc_props xs)) @ enc_props xs"

lemma write_all_list_emit:
  assumes "list_all (prop_ok alloc) xs" "length (enc_props xs) < 268435456"
    and "fits (length (enc_prop_list xs)) p"
  shows "property__write_all xs True p = Inr (emit (enc_prop_list xs) p)"
proof -
  let ?n = "length (enc_props xs)"
  have u: "unat (word_of_nat ?n :: u32) = ?n"
    using assms(2) by (simp add: unsigned_of_nat take_bit_nat_eq_self)
  have v: "varint_ok (word_of_nat ?n)" using assms(2) u by (simp add: varint_ok_def word_less_nat_alt)
  have f: "fits (length (enc_varint ?n)) p"
    using fits_append [of "enc_varint ?n" "enc_props xs" p] assms(3) by (simp add: enc_prop_list_def)
  have "seq (packet__write_varint (word_of_nat ?n) p) (write_all_loop xs) =
      Inr (emit (enc_varint ?n @ enc_props xs) p)"
  proof (rule seq_emit)
    show "packet__write_varint (word_of_nat ?n) p = Inr (emit (enc_varint ?n) p)"
      using varint_codec.put_enc [OF v, of p] f u by simp
  qed (use assms(3) in \<open>auto simp: enc_prop_list_def intro: write_all_emit [OF assms(1)]\<close>)
  then show ?thesis
    by (simp add: property__write_all_def length_enc_props [OF assms(1)] enc_prop_list_def)
qed

lemma read_all_list_holds:
  assumes "list_all (prop_ok alloc) xs" "length (enc_props xs) < 268435456"
    and "alloc sizeof_property" and "mosquitto_property_check_all command xs = MOSQ_ERR_SUCCESS"
    and "holds (enc_prop_list xs) p"
  shows "property__read_all alloc command p = Inr (xs, skip (length (enc_prop_list xs)) p)"
proof -
  let ?n = "length (enc_props xs)" and ?p = "skip (length (enc_varint (length (enc_props xs)))) p"
  have u: "unat (word_of_nat ?n :: u32) = ?n"
    using assms(2) by (simp add: unsigned_of_nat take_bit_nat_eq_self)
  have v: "varint_ok (word_of_nat ?n)" using assms(2) u by (simp add: varint_ok_def word_less_nat_alt)
  have h: "holds (enc_varint ?n) p" "holds (enc_props xs) ?p"
    using holds_append [of "enc_varint ?n" "enc_props xs" p] assms(5) by (auto simp: enc_prop_list_def)
  have "packet__read_varint p = Inr (word_of_nat ?n, word_of_nat (length (enc_varint ?n)), ?p)"
    using read_varint_holds [OF v, of p] h(1) u by simp
  moreover have "length xs < unat (pk_remaining_length ?p) + 1"
    using holds_room [OF h(2)] length_enc_props_ge [of xs] by simp
  ultimately show ?thesis
    using read_all_loop_holds [OF assms(3,1) h(2), of "unat (pk_remaining_length ?p) + 1" "[]"] assms(2,4)
    by (simp add: property__read_all_def enc_prop_list_def)
qed

section \<open>The reader consumes what is declared\<close>

definition advances :: "nat \<Rightarrow> packet \<Rightarrow> packet \<Rightarrow> bool" where
  "advances n p p' \<longleftrightarrow> p' = skip n p \<and> readable p' \<and> unat (pk_pos p') = unat (pk_pos p) + n"

lemma advances_trans: "advances m p p' \<Longrightarrow> advances n p' p'' \<Longrightarrow> advances (m + n) p p''"
  by (auto simp: advances_def)

lemma advances_refl [simp]: "advances 0 p p \<longleftrightarrow> readable p"
  by (simp add: advances_def)

lemma advances_readable: "advances n p p' \<Longrightarrow> readable p'"
  by (auto simp: advances_def)

lemma advances_bound: "advances n p p' \<Longrightarrow> n < 2 ^ 31 \<and> n \<le> unat (pk_remaining_length p)"
  by (auto simp: advances_def readable_def skip_def)

lemma within_advances:
  assumes "reads_within p (Inr (x, skip n p))" and "n < 2 ^ 31"
  shows "advances n p (skip n p)"
proof -
  obtain k where k: "skip n p = skip k p" "readable (skip n p)" "unat (pk_pos (skip n p)) = unat (pk_pos p) + k"
    using assms(1) by (auto simp: reads_within_def)
  have "k < 2 ^ 31" using k(2,3) by (auto simp: readable_def skip_def)
  moreover have "(word_of_nat n :: u32) = word_of_nat k"
    using arg_cong [OF k(1), of pk_pos] by (simp add: skip_def)
  ultimately have "k = n"
    using assms(2) by (simp add: of_nat_eq_iff word_unat_eq_iff unsigned_of_nat take_bit_nat_eq_self)
  with k show ?thesis by (simp add: advances_def)
qed

lemma read_advances:
  assumes "reads_within p r" and "r = Inr (x, p')" and "p' = skip n p" and "n < 2 ^ 31"
  shows "advances n p p'"
  using within_advances [of p x n] assms by simp

lemma read_byte_advances:
  "readable p \<Longrightarrow> packet__read_byte p = Inr (b, p') \<Longrightarrow> advances 1 p p'"
  by (rule read_advances [OF read_byte_within])
    (auto simp: packet__read_byte_def fault_simps skip_def split: if_splits)

lemma read_uint16_advances:
  "readable p \<Longrightarrow> packet__read_uint16 p = Inr (w, p') \<Longrightarrow> advances 2 p p'"
  by (rule read_advances [OF read_uint16_within])
    (auto simp: packet__read_uint16_def fault_simps skip_def split: if_splits)

lemma read_uint32_loop_pos:
  "read_uint32_loop n v p = Inr (w, p') \<Longrightarrow> p' = skip n p"
  by (induction n arbitrary: v p) (fastforce simp: fault_simps skip_def ac_simps)+

lemma read_uint32_advances:
  "readable p \<Longrightarrow> packet__read_uint32 p = Inr (w, p') \<Longrightarrow> advances 4 p p'"
  by (rule read_advances [OF read_uint32_within])
    (auto simp: packet__read_uint32_def dest: read_uint32_loop_pos split: if_splits)

lemma read_varint_advances:
  assumes "readable p" and "packet__read_varint p = Inr (w, b, p')"
  shows "advances (unat b) p p'" and "unat b = length (enc_varint (unat w))"
proof -
  note c = read_varint_canonical [OF assms(2,1)]
  then show "unat b = length (enc_varint (unat w))" by simp
  have "reads_within p (Inr (w, skip (unat b) p))" using c reads_within_holds by metis
  then show "advances (unat b) p p'"
    using c within_advances [of p w "unat b"] unat_u8_less [of b] by simp
qed

lemma read_binary_pos:
  "packet__read_binary alloc p = Inr (s, p') \<Longrightarrow> p' = skip (2 + unat (ms_len s)) p"
  by (auto simp: packet__read_binary_def packet__read_uint16_def fault_simps skip_def empty_string_def
      split: if_splits)

lemma read_binary_advances:
  assumes "readable p" and "packet__read_binary alloc p = Inr (s, p')"
  shows "advances (2 + unat (ms_len s)) p p'"
  using read_advances [OF read_binary_within [OF assms(1)] assms(2) read_binary_pos [OF assms(2)]]
    unat_u16_less [of "ms_len s"] by simp

lemma read_string_binary:
  "packet__read_string alloc p = Inr (s, p') \<Longrightarrow> packet__read_binary alloc p = Inr (s, p')"
  by (auto simp: packet__read_string_def fault_simps split: if_splits sum.splits fault.splits)

lemma read_string_advances:
  "readable p \<Longrightarrow> packet__read_string alloc p = Inr (s, p') \<Longrightarrow> advances (2 + unat (ms_len s)) p p'"
  using read_binary_advances read_string_binary by blast

lemmas reader_advances = read_byte_advances read_uint16_advances read_uint32_advances
  read_binary_advances read_string_advances

lemma within_no_trap: "reads_within p r \<Longrightarrow> r \<noteq> Inl Trap"
  by (auto simp: reads_within_def)

lemma read_varint_no_trap: "readable p \<Longrightarrow> packet__read_varint p \<noteq> Inl Trap"
  using read_varint_loop_no_trap [of p 4 0 0 1] by (simp add: packet__read_varint_def)

lemmas reader_no_trap = within_no_trap [OF read_byte_within] within_no_trap [OF read_uint16_within]
  within_no_trap [OF read_uint32_within] within_no_trap [OF read_binary_within]
  within_no_trap [OF read_string_within] read_varint_no_trap

lemma property_read_no_trap:
  assumes "readable p"
  shows "property__read alloc len p \<noteq> Inl Trap"
proof
  assume t: "property__read alloc len p = Inl Trap"
  then obtain w b q where v: "packet__read_varint p = Inr (w, b, q)"
    using read_varint_no_trap [OF assms] by (auto simp: property__read_def fault_simps)
  have q: "readable q" using read_varint_advances(1) [OF assms v] by (rule advances_readable)
  show False
    using t v reader_no_trap [OF q] advances_readable [OF read_string_advances [OF q]]
      within_no_trap [OF read_string_within]
    by (auto simp: property__read_def Let_def fault_simps split: option.splits mqtt5_property_type.splits)
qed

lemma property_read_advances:
  assumes rd: "readable p" and ok: "property__read alloc len p = Inr (x, len', p')"
  shows "\<exists>n. 0 < n \<and> advances n p p' \<and> len' = len - word_of_nat n"
proof -
  obtain w b q where v: "packet__read_varint p = Inr (w, b, q)"
    using ok by (auto simp: property__read_def fault_simps)
  note adv = read_varint_advances [OF rd v]
  have q: "readable q" using adv(1) by (rule advances_readable)
  have t: "prop_type (uint w) \<noteq> None"
  proof
    assume "prop_type (uint w) = None"
    then show False using ok by (simp add: property__read_def v)
  qed
  then have "uint w \<le> 42" using prop_type_range by blast
  then have "unat w < 128" using unat_eq_nat_uint [of w] by linarith
  then have b: "unat b = 1" using adv(2) by (simp add: enc_varint_length [of "unat w"])
  have "\<exists>n. advances n q p' \<and> len' = len - 1 - word_of_nat n"
  proof (cases "the (prop_type (uint w))")
    case MQTT_PROP_TYPE_BYTE
    with t have T: "prop_type (uint w) = Some MQTT_PROP_TYPE_BYTE" by auto
    obtain y where "packet__read_byte q = Inr (y, p')" "len' = len - 1 - 1"
      using ok by (auto simp: property__read_def v T fault_simps)
    then show ?thesis
      using read_byte_advances [OF q] by (intro exI [of _ "1"]) simp
  next
    case MQTT_PROP_TYPE_INT16
    with t have T: "prop_type (uint w) = Some MQTT_PROP_TYPE_INT16" by auto
    obtain y where "packet__read_uint16 q = Inr (y, p')" "len' = len - 1 - 2"
      using ok by (auto simp: property__read_def v T fault_simps)
    then show ?thesis
      using read_uint16_advances [OF q] by (intro exI [of _ "2"]) simp
  next
    case MQTT_PROP_TYPE_INT32
    with t have T: "prop_type (uint w) = Some MQTT_PROP_TYPE_INT32" by auto
    obtain y where "packet__read_uint32 q = Inr (y, p')" "len' = len - 1 - 4"
      using ok by (auto simp: property__read_def v T fault_simps)
    then show ?thesis
      using read_uint32_advances [OF q] by (intro exI [of _ "4"]) simp
  next
    case MQTT_PROP_TYPE_VARINT
    with t have T: "prop_type (uint w) = Some MQTT_PROP_TYPE_VARINT" by auto
    obtain y c where "packet__read_varint q = Inr (y, c, p')" "len' = len - 1 - ucast c"
      using ok by (auto simp: property__read_def v T Let_def fault_simps)
    then show ?thesis
      using read_varint_advances(1) [OF q] by (intro exI [of _ "unat c"]) simp
  next
    case MQTT_PROP_TYPE_BINARY
    with t have T: "prop_type (uint w) = Some MQTT_PROP_TYPE_BINARY" by auto
    obtain y where "packet__read_binary alloc q = Inr (y, p')" "len' = len - 1 - 2 - ucast (ms_len y)"
      using ok by (auto simp: property__read_def v T Let_def fault_simps)
    then show ?thesis
      using read_binary_advances [OF q] by (intro exI [of _ "2 + unat (ms_len y)"]) simp
  next
    case MQTT_PROP_TYPE_STRING
    with t have T: "prop_type (uint w) = Some MQTT_PROP_TYPE_STRING" by auto
    obtain y where "packet__read_string alloc q = Inr (y, p')" "len' = len - 1 - 2 - ucast (ms_len y)"
      using ok by (auto simp: property__read_def v T Let_def fault_simps)
    then show ?thesis
      using read_string_advances [OF q] by (intro exI [of _ "2 + unat (ms_len y)"]) simp
  next
    case MQTT_PROP_TYPE_STRING_PAIR
    with t have T: "prop_type (uint w) = Some MQTT_PROP_TYPE_STRING_PAIR" by auto
    obtain y z q' where r: "packet__read_string alloc q = Inr (y, q')"
        "packet__read_string alloc q' = Inr (z, p')"
        "len' = len - 1 - 2 - ucast (ms_len y) - 2 - ucast (ms_len z)"
      using ok by (auto simp: property__read_def v T Let_def fault_simps)
    note a = read_string_advances [OF q r(1)]
    show ?thesis
      using advances_trans [OF a read_string_advances [OF advances_readable [OF a] r(2)]] r(3)
      by (intro exI [of _ "2 + unat (ms_len y) + (2 + unat (ms_len z))"]) simp
  qed
  then obtain n where n: "advances n q p'" "len' = len - 1 - word_of_nat n" by blast
  have "advances (Suc n) p p'" using advances_trans [OF adv(1) n(1)] b by simp
  moreover have "len' = len - word_of_nat (Suc n)" using n(2) by simp
  ultimately show ?thesis by blast
qed

lemma advances_remaining: "advances n p p' \<Longrightarrow> pk_remaining_length p' = pk_remaining_length p"
  by (auto simp: advances_def skip_def)

lemma read_all_loop_within:
  "readable p \<Longrightarrow> unat (pk_remaining_length p) < unat (pk_pos p) + n \<Longrightarrow>
   read_all_loop n alloc len acc p \<noteq> Inl Trap \<and>
   (\<forall>xs p'. read_all_loop n alloc len acc p = Inr (xs, p') \<longrightarrow>
      (\<exists>k. advances k p p' \<and> len = word_of_nat k))"
proof (induction n arbitrary: len acc p)
  case 0
  then show ?case by (simp add: readable_def)
next
  case (Suc n)
  show ?case
  proof (cases "len = 0")
    case True
    then show ?thesis using Suc.prems by (auto intro!: exI [of _ 0])
  next
    case False
    have step: "read_all_loop n alloc len' acc' q \<noteq> Inl Trap \<and>
        (\<forall>xs p'. read_all_loop n alloc len' acc' q = Inr (xs, p') \<longrightarrow>
           (\<exists>k. advances k p p' \<and> len = word_of_nat k))"
      if rd: "property__read alloc len p = Inr (x, len', q)" for x len' acc' q
    proof -
      obtain k where k: "0 < k" "advances k p q" "len' = len - word_of_nat k"
        using property_read_advances [OF Suc.prems(1) rd] by blast
      have "unat (pk_remaining_length q) < unat (pk_pos q) + n"
        using k(1,2) Suc.prems(2) unfolding advances_remaining [OF k(2)] by (auto simp: advances_def)
      note IH = Suc.IH [OF advances_readable [OF k(2)] this, of len' acc']
      have "\<exists>m. advances m p p' \<and> len = word_of_nat m" if "advances j q p'" "len' = word_of_nat j" for j p'
        using advances_trans [OF k(2) that(1)] k(3) that(2)
        by (intro exI [of _ "k + j"]) (auto simp: algebra_simps)
      with IH show ?thesis by blast
    qed
    show ?thesis
    proof (cases "property__read alloc len p")
      case (Inl e)
      then have "e \<noteq> Trap" using property_read_no_trap [OF Suc.prems(1), of alloc len] by auto
      then show ?thesis using Inl False by (simp add: word_gt_0)
    next
      case (Inr r)
      obtain x len' q where "r = (x, len', q)" by (cases r)
      then show ?thesis using Inr False step [of x len' q "acc @ [x]"] by (simp add: word_gt_0)
    qed
  qed
qed

section \<open>What the checks accept\<close>

lemma has_duplicate_iff:
  "has_duplicate p xs \<longleftrightarrow>
     pr_identifier p \<noteq> MQTT_PROP_USER_PROPERTY \<and> pr_identifier p \<in> pr_identifier ` set xs"
  by (induction xs) auto

definition unique_ids :: "mosquitto_property list \<Rightarrow> bool" where
  "unique_ids xs \<longleftrightarrow> distinct (filter (\<lambda>i. i \<noteq> MQTT_PROP_USER_PROPERTY) (map pr_identifier xs))"

lemma check_all_success_iff:
  "mosquitto_property_check_all command xs = MOSQ_ERR_SUCCESS \<longleftrightarrow>
     (\<forall>x \<in> set xs. check_value x = MOSQ_ERR_SUCCESS \<and>
        mosquitto_property_check_command command (pr_identifier x) = MOSQ_ERR_SUCCESS) \<and>
     unique_ids xs"
  by (induction xs) (auto simp: has_duplicate_iff unique_ids_def)

section \<open>Copies\<close>

lemma utf8_text_nonzero: "list_all mqtt_char cps \<Longrightarrow> 0 \<notin> set (utf8_text cps)"
  by (induction cps) (auto simp: utf8_text_def dest: utf8_encode_nonzero)

lemma string_ok_nonzero:
  assumes "string_ok alloc s" and "ms_len s \<noteq> 0"
  shows "ms_v s = Some (string_bytes s @ [0])" and "0 \<notin> set (string_bytes s)"
proof -
  obtain v where v: "ms_v s = Some v" using assms by (auto simp: string_ok_def binary_ok_def split: option.splits)
  then show b: "ms_v s = Some (string_bytes s @ [0])"
    using string_bytes_buffer [of alloc s v] assms(1) by (simp add: string_ok_def)
  have len: "length (string_bytes s) = unat (ms_len s)"
    using string_bytes_length [of alloc s] assms(1) by (simp add: string_ok_def)
  have "utf8_loop (unat (ms_len s)) (string_bytes s @ [0]) = Inr ()"
    using assms b by (auto simp: string_ok_def mosquitto_validate_utf8_def split: if_splits)
  then obtain cps where "list_all mqtt_char cps" "take (unat (ms_len s)) (string_bytes s @ [0]) = utf8_text cps"
    using utf8_loop_sound [of "unat (ms_len s)" "string_bytes s @ [0]"] len by (auto simp: nth_append)
  then show "0 \<notin> set (string_bytes s)" using utf8_text_nonzero len by auto
qed

lemma strdup_string:
  assumes "string_ok alloc s" and "ms_len s \<noteq> 0" and "alloc (unat (ms_len s) + 1)"
  shows "strdup alloc (ms_v s) = Inr (ms_v s)"
proof -
  have "takeWhile (\<lambda>b. b \<noteq> 0) (string_bytes s @ [0]) = string_bytes s"
    using string_ok_nonzero(2) [OF assms(1,2)] by (subst takeWhile_append2) auto
  moreover have "length (string_bytes s) = unat (ms_len s)"
    using string_bytes_length [of alloc s] assms(1) by (simp add: string_ok_def)
  ultimately show ?thesis
    using string_ok_nonzero(1) [OF assms(1,2)] assms(3) by (simp add: strdup_def)
qed

text \<open>
  What a copy looks like, and when one can be made: \<open>strdup\<close> needs a string, so that the
  empty strings, whose pointer is NULL, must not occur.
\<close>

definition copied :: "mosquitto_property \<Rightarrow> mosquitto_property" where
  "copied p =
     (if prop_type (pr_identifier p) = Some MQTT_PROP_TYPE_BINARY
      then p\<lparr>pr_bin := \<lparr>ms_v = Some (string_bytes (pr_bin p)), ms_len = ms_len (pr_bin p)\<rparr>\<rparr> else p)"

definition no_empty_string :: "mosquitto_property \<Rightarrow> bool" where
  "no_empty_string p \<longleftrightarrow>
     (case prop_type (pr_identifier p) of
        Some MQTT_PROP_TYPE_STRING \<Rightarrow> ms_len (pr_s p) \<noteq> 0
      | Some MQTT_PROP_TYPE_STRING_PAIR \<Rightarrow> ms_len (pr_s p) \<noteq> 0 \<and> ms_len (pr_name p) \<noteq> 0
      | _ \<Rightarrow> True)"

lemma copy_property_ok:
  assumes "prop_ok (\<lambda>_. True) p" and "no_empty_string p"
  shows "copy_property (\<lambda>_. True) p = Inr (copied p)"
  using assms(1)
proof (cases rule: prop_type_cases)
  case (binary v i)
  then have "length (string_bytes v) = unat (ms_len v)" by (intro string_bytes_length)
  then show ?thesis
    using binary
    by (auto simp: copy_property_def copied_def zero_property_def string_bytes_def Let_def split: option.splits)
qed (use assms(2) in \<open>simp_all add: copy_property_def copied_def zero_property_def Let_def
      no_empty_string_def strdup_string\<close>)

lemma copy_loop_ok:
  "list_all (prop_ok (\<lambda>_. True)) xs \<Longrightarrow> list_all no_empty_string xs \<Longrightarrow>
   copy_loop (\<lambda>_. True) acc xs = Inr (acc @ map copied xs)"
  by (induction xs arbitrary: acc) (auto simp: copy_property_ok)

section \<open>Properties\<close>

text \<open>
  C29: a list of properties written into a packet by \<open>property__write_all\<close>, the length in
  front, is read back by \<open>property__read_all\<close>: the same properties in the same order, and
  the position behind the last one. This holds for every list whose members their readers
  can produce, that passes the checks for the command and fits into the packet.
\<close>

theorem properties_roundtrip:
  assumes "list_all (prop_ok alloc) xs" and "mosquitto_property_check_all command xs = MOSQ_ERR_SUCCESS"
    and "length (enc_props xs) < 268435456" and "fits (length (enc_prop_list xs)) p"
    and "alloc sizeof_property"
  shows "\<exists>p'. property__write_all xs True p = Inr p' \<and>
    property__read_all alloc command (reader_at (pk_pos p) p') = Inr (xs, reader_at (pk_pos p') p')"
  using write_all_list_emit [OF assms(1,3,4)]
    read_all_list_holds [OF assms(1,3,5,2) holds_emit [OF assms(4)]] skip_emit [of "enc_prop_list xs" p]
  by auto

definition sample_alias :: mosquitto_property where
  "sample_alias = zero_property\<lparr>pr_identifier := 35, pr_i16 := 7\<rparr>"

theorem properties_roundtrip_witness:
  "\<exists>p'. property__write_all [sample_alias] True (packet_of (replicate 20 0)) = Inr p' \<and>
    property__read_all (\<lambda>_. True) CMD_PUBLISH (reader_at 0 p') = Inr ([sample_alias], reader_at (pk_pos p') p')"
proof -
  have e: "enc_prop sample_alias = [35, 0, 7]"
    by (simp add: enc_prop_def enc_body_def sample_alias_def zero_property_def prop_type_def enc_uint16_def)
  have "list_all (prop_ok (\<lambda>_. True)) [sample_alias]"
    by (simp add: prop_ok_def sample_alias_def zero_property_def prop_type_def Let_def)
  moreover have "mosquitto_property_check_all CMD_PUBLISH [sample_alias] = MOSQ_ERR_SUCCESS"
    by (simp add: sample_alias_def check_value_def mosquitto_property_check_command_def)
  moreover have "length (enc_props [sample_alias]) < 268435456" by (simp add: e)
  moreover have "fits (length (enc_prop_list [sample_alias])) (packet_of (replicate 20 0))"
    by (simp add: enc_prop_list_def e enc_varint.simps [of "Suc (Suc (Suc 0))"] fits_def packet_of_def)
  ultimately show ?thesis
    using properties_roundtrip [of "\<lambda>_. True" "[sample_alias]" CMD_PUBLISH "packet_of (replicate 20 0)"]
    by (simp add: packet_of_def)
qed

lemma read_all_exact:
  assumes "readable p"
  shows "property__read_all alloc command p \<noteq> Inl Trap \<and>
    (\<forall>xs p'. property__read_all alloc command p = Inr (xs, p') \<longrightarrow>
       (\<exists>proplen b q. packet__read_varint p = Inr (proplen, b, q) \<and> advances (unat proplen) q p') \<and>
       mosquitto_property_check_all command xs = MOSQ_ERR_SUCCESS)"
proof (cases "packet__read_varint p")
  case (Inl e)
  then show ?thesis
    using read_varint_no_trap [OF assms] by (simp add: property__read_all_def)
next
  case Inr_read: (Inr r)
  obtain w b q where r: "r = (w, b, q)" by (cases r)
  have q: "readable q" using read_varint_advances(1) [OF assms] Inr_read r advances_readable by blast
  have "unat (pk_remaining_length q) < unat (pk_pos q) + (unat (pk_remaining_length q) + 1)" by simp
  note loop = read_all_loop_within [OF q this, of alloc w "[]"]
  have k: "unat w = k" if "advances k q p'" "w = word_of_nat k" for k p'
    using advances_bound [OF that(1)] that(2) by (simp add: unsigned_of_nat take_bit_nat_eq_self)
  show ?thesis
  proof (cases "read_all_loop (unat (pk_remaining_length q) + 1) alloc w [] q")
    case (Inl e)
    then show ?thesis using loop Inr_read r by (auto simp: property__read_all_def)
  next
    case (Inr l)
    obtain ys q' where l: "l = (ys, q')" by (cases l)
    then obtain j where "advances j q q'" "w = word_of_nat j" using loop Inr by blast
    then have "advances (unat w) q q'" using k by simp
    then show ?thesis using Inr l Inr_read r by (auto simp: property__read_all_def Let_def split: if_splits)
  qed
qed

text \<open>
  C30: reading the properties of a packet never looks outside it and always ends, and when
  it succeeds the bytes consumed are exactly the length declared in front of them: the
  counter \<open>proplen\<close>, which wraps when a property is longer than what is left, cannot make a
  wrong length pass. The result satisfies the checks for the command.
\<close>

theorem properties_read_exact:
  assumes "readable p"
  shows "property__read_all alloc command p \<noteq> Inl Trap \<and>
    (\<forall>xs p'. property__read_all alloc command p = Inr (xs, p') \<longrightarrow>
       (\<exists>proplen b q. packet__read_varint p = Inr (proplen, b, q) \<and> advances (unat proplen) q p') \<and>
       mosquitto_property_check_all command xs = MOSQ_ERR_SUCCESS)"
  using assms by (rule read_all_exact)

theorem properties_read_exact_witness:
  "property__read_all (\<lambda>_. True) CMD_PUBLISH (packet_of [3, 35, 0]) \<noteq> Inl Trap"
  using properties_read_exact [of "packet_of [3, 35, 0]" "\<lambda>_. True" CMD_PUBLISH]
  by (simp add: readable_def packet_of_def)



text \<open>
  C35: a copy of properties that were read from a packet has the same identifiers and
  values, provided that no string among them is empty; an empty one was read as a NULL
  pointer, which \<open>mosquitto_property_copy_all\<close> hands to \<open>strdup\<close>.
\<close>

theorem properties_copy:
  assumes "xs \<noteq> []" and "list_all (prop_ok (\<lambda>_. True)) xs" and "list_all no_empty_string xs"
  shows "mosquitto_property_copy_all (\<lambda>_. True) True xs = Inr (Some (map copied xs))"
  using copy_loop_ok [OF assms(2,3), of "[]"] assms(1) by (simp add: mosquitto_property_copy_all_def)

theorem properties_copy_witness:
  "mosquitto_property_copy_all (\<lambda>_. True) True [sample_alias] = Inr (Some [sample_alias])"
  using properties_copy [of "[sample_alias]"]
  by (simp add: prop_ok_def sample_alias_def zero_property_def prop_type_def Let_def copied_def no_empty_string_def)



text \<open>
  The value of a string pair is not validated: \<open>mosquitto_property_add_string_pair\<close>
  takes every byte string for it, although the name is checked, because the validator is
  called with length 0.
\<close>

theorem string_pair_value_unchecked:
  "mosquitto_property_add_string_pair (\<lambda>_. True) (Some []) MQTT_PROP_USER_PROPERTY None (Some value) =
     Inr [(new_property MQTT_PROP_USER_PROPERTY)
            \<lparr>pr_s := \<lparr>ms_v = Some (value @ [0]), ms_len = word_of_nat (length value)\<rparr>\<rparr>]"
proof -
  have "(new_property MQTT_PROP_USER_PROPERTY)\<lparr>pr_name := empty_string\<rparr> = new_property MQTT_PROP_USER_PROPERTY"
    by (simp add: new_property_def zero_property_def)
  then show ?thesis
    by (simp add: mosquitto_property_add_string_pair_def utf8_refused_def mosquitto_validate_utf8_def
        dup_string_def property__add_def)
qed

end
