(* ===== verification/Property_Names.thy ===== *)
theory Property_Names
  imports Property
begin

text \<open>
  The tables of names in \<open>lib/property_mosq.c\<close>: names, identifiers and types agree.
\<close>

text \<open>
  Names and identifiers correspond: every identifier the switch statements know has a
  name, and the name, in upper or lower case, leads back to the identifier and to the type
  that reading, writing and the builders use for it.
\<close>

theorem property_names:
  "(mosquitto_property_identifier_to_string i = None \<longleftrightarrow> prop_type i = None) \<and>
   (\<forall>s t. mosquitto_property_identifier_to_string i = Some s \<longrightarrow> same_name t s \<longrightarrow>
      (\<exists>ty. mosquitto_string_to_property_info (Some t) = Inr (i, ty) \<and> prop_type i = Some ty))"
proof
  show "mosquitto_property_identifier_to_string i = None \<longleftrightarrow> prop_type i = None"
    by (auto simp: mosquitto_property_identifier_to_string_def prop_type_def)
  show "\<forall>s t. mosquitto_property_identifier_to_string i = Some s \<longrightarrow> same_name t s \<longrightarrow>
      (\<exists>ty. mosquitto_string_to_property_info (Some t) = Inr (i, ty) \<and> prop_type i = Some ty)"
    unfolding mosquitto_property_identifier_to_string_def
    by (auto simp: mosquitto_string_to_property_info_def same_name_def lower_def prop_type_def
        split: if_splits)
qed

theorem property_names_witness:
  "\<exists>ty. mosquitto_string_to_property_info (Some ''TOPIC-alias'') = Inr (35, ty)"
proof -
  have "mosquitto_property_identifier_to_string 35 = Some ''topic-alias''"
    by (simp add: mosquitto_property_identifier_to_string_def)
  moreover have "same_name ''TOPIC-alias'' ''topic-alias''"
    by code_simp
  ultimately show ?thesis using property_names [of 35] by blast
qed

end
