(* ===== verification/Topic.thy ===== *)
theory Topic
  imports Prelude
begin

text \<open>
  \<open>lib/util_topic.c\<close>: the checks of topic names and topic filters and the test whether a
  topic matches a filter. A C string is the list of its characters before the NUL, which
  \<open>peek\<close> gives at the end of the list. The definitions are the character loops of the code;
  the reference definitions \<open>levels\<close>, \<open>filter_ok\<close> and \<open>topic_match\<close> are what the MQTT
  specification says level by level.
\<close>

section \<open>Strings\<close>

abbreviation NUL :: char where
  "NUL \<equiv> CHR 0x00"

definition peek :: "string \<Rightarrow> char" where
  "peek s = (case s of [] \<Rightarrow> NUL | c # _ \<Rightarrow> c)"

lemma peek_simps [simp]: "peek [] = NUL" "peek (c # s) = c"
  by (simp_all add: peek_def)

definition TOPIC_HIERARCHY_LIMIT :: nat where
  "TOPIC_HIERARCHY_LIMIT = 200"

definition is_wildcard :: "char \<Rightarrow> bool" where
  "is_wildcard c \<longleftrightarrow> c = CHR ''+'' \<or> c = CHR ''#''"

section \<open>Topic names\<close>

text \<open>The loop: \<open>None\<close> for a wildcard, otherwise \<open>len\<close> and \<open>hier_count\<close> at the end.\<close>

fun pub_check_loop :: "nat \<Rightarrow> nat \<Rightarrow> string \<Rightarrow> (nat \<times> nat) option" where
  "pub_check_loop len hier_count [] = Some (len, hier_count)"
| "pub_check_loop len hier_count (c # str) =
     (if c = CHR ''+'' \<or> c = CHR ''#'' then None
      else pub_check_loop (len + 1) (if c = CHR ''/'' then hier_count + 1 else hier_count) str)"

definition mosquitto_pub_topic_check :: "string option \<Rightarrow> mosq_err_t" where
  "mosquitto_pub_topic_check str =
     (case str of
        None \<Rightarrow> MOSQ_ERR_INVAL
      | Some str \<Rightarrow>
          (case pub_check_loop 0 0 str of
             None \<Rightarrow> MOSQ_ERR_INVAL
           | Some (len, hier_count) \<Rightarrow>
               if len > 65535 then MOSQ_ERR_INVAL
               else if hier_count > TOPIC_HIERARCHY_LIMIT then MOSQ_ERR_INVAL
               else MOSQ_ERR_SUCCESS))"

text \<open>The variant with a length: \<open>str\<close> is the memory at the pointer, \<open>i\<close> the position.\<close>

fun pub_check2_loop :: "nat \<Rightarrow> nat \<Rightarrow> nat \<Rightarrow> string \<Rightarrow> fault + nat" where
  "pub_check2_loop 0 i hier_count str = Inr hier_count"
| "pub_check2_loop (Suc n) i hier_count str =
     (if \<not> i < length str then Inl Trap
      else if str ! i = CHR ''+'' \<or> str ! i = CHR ''#'' then Inl (Rc MOSQ_ERR_INVAL)
      else pub_check2_loop n (i + 1) (if str ! i = CHR ''/'' then hier_count + 1 else hier_count) str)"

definition mosquitto_pub_topic_check2 :: "string option \<Rightarrow> nat \<Rightarrow> fault + unit" where
  "mosquitto_pub_topic_check2 str len =
     (case str of
        None \<Rightarrow> Inl (Rc MOSQ_ERR_INVAL)
      | Some str \<Rightarrow>
          if len > 65535 then Inl (Rc MOSQ_ERR_INVAL)
          else seq (pub_check2_loop len 0 0 str) (\<lambda>hier_count.
            if hier_count > TOPIC_HIERARCHY_LIMIT then Inl (Rc MOSQ_ERR_INVAL) else Inr ()))"

section \<open>Topic filters\<close>

fun sub_check_loop :: "char \<Rightarrow> nat \<Rightarrow> nat \<Rightarrow> string \<Rightarrow> (nat \<times> nat) option" where
  "sub_check_loop c len hier_count [] = Some (len, hier_count)"
| "sub_check_loop c len hier_count (s # str) =
     (if s = CHR ''+'' then
        if (c \<noteq> NUL \<and> c \<noteq> CHR ''/'') \<or> (peek str \<noteq> NUL \<and> peek str \<noteq> CHR ''/'') then None
        else sub_check_loop s (len + 1) hier_count str
      else if s = CHR ''#'' then
        if (c \<noteq> NUL \<and> c \<noteq> CHR ''/'') \<or> peek str \<noteq> NUL then None
        else sub_check_loop s (len + 1) hier_count str
      else sub_check_loop s (len + 1) (if s = CHR ''/'' then hier_count + 1 else hier_count) str)"

definition mosquitto_sub_topic_check :: "string option \<Rightarrow> mosq_err_t" where
  "mosquitto_sub_topic_check str =
     (case str of
        None \<Rightarrow> MOSQ_ERR_INVAL
      | Some str \<Rightarrow>
          (case sub_check_loop NUL 0 0 str of
             None \<Rightarrow> MOSQ_ERR_INVAL
           | Some (len, hier_count) \<Rightarrow>
               if len > 65535 then MOSQ_ERR_INVAL
               else if hier_count > TOPIC_HIERARCHY_LIMIT then MOSQ_ERR_INVAL
               else MOSQ_ERR_SUCCESS))"

fun sub_check2_loop :: "nat \<Rightarrow> nat \<Rightarrow> char \<Rightarrow> nat \<Rightarrow> string \<Rightarrow> fault + nat" where
  "sub_check2_loop 0 i c hier_count str = Inr hier_count"
| "sub_check2_loop (Suc n) i c hier_count str =
     (if \<not> i < length str then Inl Trap
      else if str ! i = CHR ''+'' then
        if c \<noteq> NUL \<and> c \<noteq> CHR ''/'' then Inl (Rc MOSQ_ERR_INVAL)
        else if n > 0 \<and> \<not> i + 1 < length str then Inl Trap
        else if n > 0 \<and> str ! (i + 1) \<noteq> CHR ''/'' then Inl (Rc MOSQ_ERR_INVAL)
        else sub_check2_loop n (i + 1) (str ! i) hier_count str
      else if str ! i = CHR ''#'' then
        if (c \<noteq> NUL \<and> c \<noteq> CHR ''/'') \<or> n > 0 then Inl (Rc MOSQ_ERR_INVAL)
        else sub_check2_loop n (i + 1) (str ! i) hier_count str
      else sub_check2_loop n (i + 1) (str ! i)
             (if str ! i = CHR ''/'' then hier_count + 1 else hier_count) str)"

definition mosquitto_sub_topic_check2 :: "string option \<Rightarrow> nat \<Rightarrow> fault + unit" where
  "mosquitto_sub_topic_check2 str len =
     (case str of
        None \<Rightarrow> Inl (Rc MOSQ_ERR_INVAL)
      | Some str \<Rightarrow>
          if len > 65535 then Inl (Rc MOSQ_ERR_INVAL)
          else seq (sub_check2_loop len 0 NUL 0 str) (\<lambda>hier_count.
            if hier_count > TOPIC_HIERARCHY_LIMIT then Inl (Rc MOSQ_ERR_INVAL) else Inr ()))"

section \<open>Matching\<close>

text \<open>
  The inner loops of \<open>mosquitto_topic_matches_sub2\<close>: to the end of the level, to the end of
  the topic, and the search for a \<open>#\<close> that is not the last character of the filter.
\<close>

fun skip_level :: "string \<Rightarrow> fault + string" where
  "skip_level [] = Inr []"
| "skip_level (c # topic) =
     (if c = CHR ''/'' then Inr (c # topic)
      else if c = CHR ''+'' \<or> c = CHR ''#'' then Inl (Rc MOSQ_ERR_INVAL)
      else skip_level topic)"

fun skip_topic :: "string \<Rightarrow> fault + unit" where
  "skip_topic [] = Inr ()"
| "skip_topic (c # topic) =
     (if c = CHR ''+'' \<or> c = CHR ''#'' then Inl (Rc MOSQ_ERR_INVAL) else skip_topic topic)"

fun bad_hash :: "string \<Rightarrow> bool" where
  "bad_hash [] = False"
| "bad_hash (c # sub) = (if c = CHR ''#'' \<and> peek sub \<noteq> NUL then True else bad_hash sub)"

text \<open>
  The main loop. \<open>prev\<close> is \<open>sub[-1]\<close>, \<open>None\<close> while \<open>spos\<close> is 0; \<open>result\<close> is the value of
  the out parameter when the code returns success, and is false in every error case.
\<close>

fun match_loop :: "char option \<Rightarrow> string \<Rightarrow> string \<Rightarrow> fault + bool" where
  "match_loop prev [] topic = seq (skip_topic topic) (\<lambda>_. Inr False)"
| "match_loop prev (s # sub) topic =
     (if peek topic = CHR ''+'' \<or> peek topic = CHR ''#'' then Inl (Rc MOSQ_ERR_INVAL)
      else if s \<noteq> peek topic \<or> peek topic = NUL then
        if s = CHR ''+'' then
          if prev \<noteq> None \<and> prev \<noteq> Some (CHR ''/'') then Inl (Rc MOSQ_ERR_INVAL)
          else if peek sub \<noteq> NUL \<and> peek sub \<noteq> CHR ''/'' then Inl (Rc MOSQ_ERR_INVAL)
          else seq (skip_level topic) (\<lambda>topic.
            if peek topic = NUL \<and> peek sub = NUL then Inr True
            else match_loop (Some s) sub topic)
        else if s = CHR ''#'' then
          if prev \<noteq> None \<and> prev \<noteq> Some (CHR ''/'') then Inl (Rc MOSQ_ERR_INVAL)
          else if peek sub \<noteq> NUL then Inl (Rc MOSQ_ERR_INVAL)
          else seq (skip_topic topic) (\<lambda>_. Inr True)
        else if peek topic = NUL \<and> prev = Some (CHR ''+'') \<and> s = CHR ''/'' \<and> peek sub = CHR ''#''
        then Inr True
        else if bad_hash (s # sub) then Inl (Rc MOSQ_ERR_INVAL)
        else Inr False
      else if peek (tl topic) = NUL \<and> peek sub = CHR ''/'' \<and> peek (tl sub) = CHR ''#'' \<and>
        peek (tl (tl sub)) = NUL
      then Inr True
      else if peek sub = NUL \<and> peek (tl topic) = NUL then Inr True
      else if peek (tl topic) = NUL \<and> peek sub = CHR ''+'' \<and> peek (tl sub) = NUL then
        if s \<noteq> CHR ''/'' then Inl (Rc MOSQ_ERR_INVAL) else Inr True
      else match_loop (Some s) sub (tl topic))"

definition mosquitto_topic_matches_sub2 :: "string option \<Rightarrow> string option \<Rightarrow> fault + bool" where
  "mosquitto_topic_matches_sub2 sub topic =
     (case (sub, topic) of
        (Some sub, Some topic) \<Rightarrow>
          if peek sub = NUL \<or> peek topic = NUL then Inl (Rc MOSQ_ERR_INVAL)
          else if (peek sub = CHR ''$'' \<and> peek topic \<noteq> CHR ''$'') \<or>
                  (peek topic = CHR ''$'' \<and> peek sub \<noteq> CHR ''$'')
          then Inr False
          else match_loop None sub topic
      | _ \<Rightarrow> Inl (Rc MOSQ_ERR_INVAL))"

definition mosquitto_topic_matches_sub :: "string option \<Rightarrow> string option \<Rightarrow> fault + bool" where
  "mosquitto_topic_matches_sub sub topic = mosquitto_topic_matches_sub2 sub topic"

section \<open>The reference: levels\<close>

fun levels :: "string \<Rightarrow> string list" where
  "levels [] = [[]]"
| "levels (c # s) =
     (if c = CHR ''/'' then [] # levels s
      else (c # hd (levels s)) # tl (levels s))"

fun levels_match :: "string list \<Rightarrow> string list \<Rightarrow> bool" where
  "levels_match [] ts = (ts = [])"
| "levels_match (s # ss) ts =
     (if s = ''#'' \<and> ss = [] then True
      else case ts of [] \<Rightarrow> False | t # ts \<Rightarrow> (s = ''+'' \<or> s = t) \<and> levels_match ss ts)"

text \<open>A filter does not cross between ordinary topics and those that start with \<open>$\<close>.\<close>

definition topic_match :: "string \<Rightarrow> string \<Rightarrow> bool" where
  "topic_match sub topic \<longleftrightarrow>
     (peek sub = CHR ''$'') = (peek topic = CHR ''$'') \<and> levels_match (levels sub) (levels topic)"

fun filter_ok :: "string list \<Rightarrow> bool" where
  "filter_ok [] = True"
| "filter_ok (l # ls) =
     ((CHR ''+'' \<in> set l \<longrightarrow> l = ''+'') \<and> (CHR ''#'' \<in> set l \<longrightarrow> l = ''#'' \<and> ls = []) \<and> filter_ok ls)"

definition name_ok :: "string \<Rightarrow> bool" where
  "name_ok topic \<longleftrightarrow> list_all (\<lambda>c. \<not> is_wildcard c) topic"

definition c_string :: "string \<Rightarrow> bool" where
  "c_string s \<longleftrightarrow> NUL \<notin> set s"

lemma levels_ne [simp]: "levels s \<noteq> []"
  by (induction s) auto

lemma levels_sep: "levels (CHR ''/'' # s) = [] # levels s"
  by simp

lemma length_levels: "length (levels s) = Suc (count_list s (CHR ''/''))"
  by (induction s) auto

section \<open>The checks against the reference\<close>

lemma pub_check_loop_eq:
  "pub_check_loop len h str =
     (if name_ok str then Some (len + length str, h + count_list str (CHR ''/'')) else None)"
  by (induction len h str rule: pub_check_loop.induct) (auto simp: name_ok_def is_wildcard_def)

lemma pub_check2_loop_eq:
  "i + n \<le> length str \<Longrightarrow> pub_check2_loop n i h str =
     (if name_ok (take n (drop i str)) then Inr (h + count_list (take n (drop i str)) (CHR ''/''))
      else Inl (Rc MOSQ_ERR_INVAL))"
proof (induction n i h str rule: pub_check2_loop.induct)
  case (2 n i h str)
  then have "take (Suc n) (drop i str) = str ! i # take n (drop (i + 1) str)"
    by (simp add: Cons_nth_drop_Suc [symmetric])
  with 2 show ?case by (auto simp: name_ok_def is_wildcard_def)
qed (simp add: name_ok_def)

text \<open>
  The state of the filter check: the character before, and what the rest of its level
  may look like then.
\<close>

definition level_rest_ok :: "char \<Rightarrow> string \<Rightarrow> bool" where
  "level_rest_ok c str \<longleftrightarrow>
     (if c = NUL \<or> c = CHR ''/'' then filter_ok (levels str)
      else CHR ''+'' \<notin> set (hd (levels str)) \<and> CHR ''#'' \<notin> set (hd (levels str)) \<and>
        filter_ok (tl (levels str)))"

lemma levels_Cons_hd: "\<exists>l ls. levels s = l # ls"
  by (cases "levels s") auto

lemma peek_NUL [simp]: "c_string s \<Longrightarrow> peek s = NUL \<longleftrightarrow> s = []"
  by (cases s) (auto simp: c_string_def)

lemma c_string_Cons [simp]: "c_string (c # s) \<longleftrightarrow> c \<noteq> NUL \<and> c_string s"
  by (auto simp: c_string_def)

lemma level_rest_ok_plus: 
  "level_rest_ok c (CHR ''+'' # sub) \<longleftrightarrow> (c = NUL \<or> c = CHR ''/'') \<and> (sub = [] \<or> peek sub = CHR ''/'') \<and> level_rest_ok (CHR ''+'') sub"
  using levels_Cons_hd [of sub]
  by (cases sub) (auto simp: level_rest_ok_def)

lemma level_rest_ok_sharp: 
  "level_rest_ok c (CHR ''#'' # sub) \<longleftrightarrow> (c = NUL \<or> c = CHR ''/'') \<and> sub = []"
  using levels_Cons_hd [of sub]
  by (cases sub) (auto simp: level_rest_ok_def)

lemma level_rest_ok_iff:
  "\<not> is_wildcard s \<Longrightarrow> s \<noteq> NUL \<Longrightarrow> level_rest_ok c (s # sub) \<longleftrightarrow> level_rest_ok s sub"
  using levels_Cons_hd [of sub]
  by (auto simp: level_rest_ok_def is_wildcard_def)

lemmas level_rest_ok_char = level_rest_ok_iff [THEN iffD1]

lemma sub_check_loop_eq:
  "c_string str \<Longrightarrow> sub_check_loop c len h str =
     (if level_rest_ok c str then Some (len + length str, h + count_list str (CHR ''/'')) else None)"
proof (induction str arbitrary: c len h)
  case (Cons s str)
  then have IH: "sub_check_loop c len h str =
     (if level_rest_ok c str then Some (len + length str, h + count_list str (CHR ''/'')) else None)" for c len h
    by simp
  have nul: "s \<noteq> NUL" "c_string str" using Cons.prems by simp_all
  consider "s = CHR ''+''" | "s = CHR ''#''" | "\<not> is_wildcard s" by (auto simp: is_wildcard_def)
  then show ?case
  proof cases
    case 1
    then show ?thesis using nul by (auto simp: IH level_rest_ok_plus)
  next
    case 2
    then show ?thesis using nul by (cases "str = []") (auto simp: level_rest_ok_sharp)
  next
    case 3
    then have "s \<noteq> CHR ''+''" "s \<noteq> CHR ''#''" by (auto simp: is_wildcard_def)
    then show ?thesis using 3 nul by (simp add: IH level_rest_ok_iff)
  qed
qed (auto simp: level_rest_ok_def)

text \<open>The check with a length agrees with the check of the string of that length.\<close>

lemma sub_check2_loop_eq:
  "c_string str \<Longrightarrow> i + n = length str \<Longrightarrow>
   sub_check2_loop n i c h str =
     (case sub_check_loop c len h (drop i str) of
        None \<Rightarrow> Inl (Rc MOSQ_ERR_INVAL) | Some (_, h) \<Rightarrow> Inr h)"
proof (induction n arbitrary: i c h len)
  case (Suc n)
  define x rest where "x = str ! i" and "rest = drop (i + 1) str"
  have lt: "i + 1 < length str \<longleftrightarrow> n > 0" "i < length str" using Suc.prems(2) by auto
  have d: "drop i str = x # rest" using lt by (simp add: Cons_nth_drop_Suc x_def rest_def)
  have nul: "str ! (i + 1) \<noteq> NUL" if "n > 0"
    using that lt Suc.prems(1) nth_mem [of "i + 1" str] unfolding c_string_def by metis
  have pk: "peek rest = (if n = 0 then NUL else str ! (i + 1))"
    using lt Suc.prems(2) by (auto simp: peek_def rest_def Cons_nth_drop_Suc [symmetric])
  have IH: "sub_check2_loop n (i + 1) c h str =
     (case sub_check_loop c len h rest of None \<Rightarrow> Inl (Rc MOSQ_ERR_INVAL) | Some (_, h) \<Rightarrow> Inr h)" for c h len
    using Suc.IH [OF Suc.prems(1), of "i + 1"] Suc.prems(2) by (simp add: rest_def)
  show ?case
  proof (cases "n = 0")
    case True
    then have "rest = []" using Suc.prems(2) by (simp add: rest_def)
    then show ?thesis using lt True unfolding d by (simp add: x_def)
  next
    case False
    then show ?thesis using lt nul pk unfolding d by (simp add: IH [simplified] x_def)
  qed
qed simp

section \<open>Matching against the reference\<close>

lemma skip_level_eq: "name_ok topic \<Longrightarrow> skip_level topic = Inr (dropWhile (\<lambda>c. c \<noteq> CHR ''/'') topic)"
  by (induction topic) (auto simp: name_ok_def is_wildcard_def)

lemma skip_topic_eq: "name_ok topic \<Longrightarrow> skip_topic topic = Inr ()"
  by (induction topic) (auto simp: name_ok_def is_wildcard_def)

lemma name_ok_dropWhile: "name_ok topic \<Longrightarrow> name_ok (dropWhile P topic)"
  by (auto simp: name_ok_def list_all_iff dest: set_dropWhileD)

lemma c_string_dropWhile: "c_string s \<Longrightarrow> c_string (dropWhile P s)"
  by (auto simp: c_string_def dest: set_dropWhileD)

lemma name_ok_Cons [simp]: "name_ok (c # s) \<longleftrightarrow> \<not> is_wildcard c \<and> name_ok s"
  by (simp add: name_ok_def)

lemma sub_check_loop_hash: "sub_check_loop c len h str \<noteq> None \<Longrightarrow> \<not> bad_hash str"
  by (induction c len h str rule: sub_check_loop.induct) (auto split: if_splits)

lemma level_rest_ok_hash: "c_string str \<Longrightarrow> level_rest_ok c str \<Longrightarrow> \<not> bad_hash str"
  using sub_check_loop_hash [of c 0 0 str] sub_check_loop_eq [of str c 0 0] by simp

lemma levels_eq_single [simp]: "levels s = [[]] \<longleftrightarrow> s = []"
  by (cases s) auto

lemma levels_dropWhile:
  "levels s = takeWhile (\<lambda>c. c \<noteq> CHR ''/'') s #
     (case dropWhile (\<lambda>c. c \<noteq> CHR ''/'') s of [] \<Rightarrow> [] | _ # s \<Rightarrow> levels s)"
  by (induction s) auto

text \<open>What the loop decides in the middle of a level: the rest of it is compared literally.\<close>

definition level_start :: "char option \<Rightarrow> bool" where
  "level_start prev \<longleftrightarrow> prev = None \<or> prev = Some (CHR ''/'')"

definition rest_match :: "char option \<Rightarrow> string \<Rightarrow> string \<Rightarrow> bool" where
  "rest_match prev sub topic =
     (if level_start prev then levels_match (levels sub) (levels topic)
      else hd (levels sub) = hd (levels topic) \<and> levels_match (tl (levels sub)) (tl (levels topic)))"

definition prev_char :: "char option \<Rightarrow> char" where
  "prev_char prev = (case prev of None \<Rightarrow> NUL | Some c \<Rightarrow> c)"

lemma rest_match_char:
  "s \<noteq> CHR ''+'' \<Longrightarrow> s \<noteq> CHR ''#'' \<Longrightarrow> s \<noteq> NUL \<Longrightarrow>
    rest_match prev (s # sub) (s # topic) = rest_match (Some s) sub topic"
  using levels_Cons_hd [of sub] levels_Cons_hd [of topic]
  by (auto simp: rest_match_def level_start_def)

lemma levels_match_Nil: "levels_match ls [] \<longleftrightarrow> ls = [] \<or> ls = [''#'']"
  by (cases ls) auto

lemma levels_eq_hash: "levels s = [''#''] \<longleftrightarrow> s = ''#''"
proof
  assume "levels s = [''#'']"
  then show "s = ''#''"
    using levels_Cons_hd [of "tl s"] by (cases s) (auto split: if_splits simp flip: levels_eq_single)
qed simp

lemma rest_match_differ:
  "s \<noteq> CHR ''+'' \<Longrightarrow> s \<noteq> CHR ''#'' \<Longrightarrow> s \<noteq> NUL \<Longrightarrow> s \<noteq> peek topic \<Longrightarrow>
    rest_match prev (s # sub) topic \<longleftrightarrow> topic = [] \<and> s = CHR ''/'' \<and> sub = ''#''"
  using levels_Cons_hd [of sub]
  by (cases topic) (auto simp: rest_match_def levels_match_Nil levels_eq_hash)



lemma not_wild_peek: "name_ok topic \<Longrightarrow> \<not> (peek topic = CHR ''+'' \<or> peek topic = CHR ''#'')"
  by (cases topic) (auto simp: is_wildcard_def)

declare match_loop.simps [simp del]

text \<open>One round of the loop on valid input, by the first character of the filter.\<close>

lemma match_loop_plus:
  assumes "c_string sub" "c_string topic" "name_ok topic" "level_start prev"
    and "sub = [] \<or> peek sub = CHR ''/''"
  shows "match_loop prev (CHR ''+'' # sub) topic =
    (let rest = dropWhile (\<lambda>c. c \<noteq> CHR ''/'') topic
     in if rest = [] \<and> sub = [] then Inr True else match_loop (Some (CHR ''+'')) sub rest)"
proof -
  have t: "\<not> (peek topic = CHR ''+'' \<or> peek topic = CHR ''#'')" "CHR ''+'' \<noteq> peek topic"
    using not_wild_peek [OF assms(3)] by auto
  have p: "\<not> (prev \<noteq> None \<and> prev \<noteq> Some (CHR ''/''))" using assms(4) by (auto simp: level_start_def)
  have q: "\<not> (peek sub \<noteq> NUL \<and> peek sub \<noteq> CHR ''/'')" using assms(5) by auto
  show ?thesis
    unfolding match_loop.simps(2) if_not_P [OF t(1)] if_not_P [OF p] if_not_P [OF q]
    using t(2) assms(1,2,3) by (simp add: skip_level_eq c_string_dropWhile Let_def)
qed

lemma match_loop_sharp:
  assumes "name_ok topic" "level_start prev"
  shows "match_loop prev ''#'' topic = Inr True"
  using assms not_wild_peek [OF assms(1)] by (subst match_loop.simps) (auto simp: skip_topic_eq level_start_def)

lemma match_loop_differ:
  assumes "name_ok topic" "\<not> is_wildcard s" "s \<noteq> peek topic" "\<not> bad_hash (s # sub)"
  shows "match_loop prev (s # sub) topic = 
    Inr (peek topic = NUL \<and> prev = Some (CHR ''+'') \<and> s = CHR ''/'' \<and> peek sub = CHR ''#'')"
  using assms not_wild_peek [OF assms(1)] by (subst match_loop.simps) (simp add: is_wildcard_def)

lemma match_loop_same:
  assumes "c_string sub" "c_string topic" "\<not> is_wildcard s" "s \<noteq> NUL"
  shows "match_loop prev (s # sub) (s # topic) = 
    (if topic = [] \<and> (sub = ''/#'' \<or> sub = []) then Inr True
     else if topic = [] \<and> sub = ''+'' then
       if s \<noteq> CHR ''/'' then Inl (Rc MOSQ_ERR_INVAL) else Inr True
     else match_loop (Some s) sub topic)"
proof -
  have "peek sub = CHR ''/'' \<and> peek (tl sub) = CHR ''#'' \<and> peek (tl (tl sub)) = NUL \<longleftrightarrow> sub = ''/#''"
    "peek sub = CHR ''+'' \<and> peek (tl sub) = NUL \<longleftrightarrow> sub = ''+''"
    using assms(1) by (auto simp: peek_def split: list.splits)
  then show ?thesis
    using assms by (subst match_loop.simps) (auto simp: is_wildcard_def)
qed


lemma rest_match_plus:
  assumes "level_start prev" and "sub = [] \<or> peek sub = CHR ''/''"
  shows "rest_match prev (CHR ''+'' # sub) topic =
    rest_match (Some (CHR ''+'')) sub (dropWhile (\<lambda>c. c \<noteq> CHR ''/'') topic)"
proof -
  let ?t = "dropWhile (\<lambda>c. c \<noteq> CHR ''/'') topic"
  have top: "?t = [] \<or> peek ?t = CHR ''/''"
    using hd_dropWhile [of "\<lambda>c. c \<noteq> CHR ''/''" topic] by (cases ?t) auto
  obtain ls where ls: "levels sub = [] # ls" using assms(2) by (cases sub) auto
  obtain ts where ts: "levels ?t = [] # ts" using top by (cases ?t) auto
  have lt: "levels topic = takeWhile (\<lambda>c. c \<noteq> CHR ''/'') topic # ts"
  proof (cases ?t)
    case Nil
    then show ?thesis using levels_dropWhile [of topic] ts unfolding Nil by simp
  next
    case (Cons c cs)
    then have "c = CHR ''/''" using top by simp
    then have "ts = levels cs" using ts Cons by simp
    then show ?thesis using levels_dropWhile [of topic] Cons by simp
  qed
  show ?thesis
    using assms(1) unfolding rest_match_def lt ts levels.simps(2) ls
    by (simp add: level_start_def)
qed

lemma peek_after_sep:
  assumes "level_rest_ok c (CHR ''/'' # sub)" "c_string sub"
  shows "peek sub = CHR ''#'' \<longleftrightarrow> sub = ''#''"
proof (cases sub)
  case (Cons x xs)
  have "level_rest_ok (CHR ''/'') sub"
    by (rule level_rest_ok_char [OF _ _ assms(1)]) (simp_all add: is_wildcard_def)
  then show ?thesis
    using Cons level_rest_ok_sharp [of "CHR ''/''" xs] by auto
qed simp

lemma match_loop_eq:
  "c_string sub \<Longrightarrow> c_string topic \<Longrightarrow> name_ok topic \<Longrightarrow> level_rest_ok (prev_char prev) sub \<Longrightarrow>
   prev \<noteq> Some NUL \<Longrightarrow>
   (topic = [] \<longrightarrow> sub \<noteq> [] \<and> (sub = ''/#'' \<longrightarrow> prev = Some (CHR ''+''))) \<Longrightarrow>
   (prev = Some (CHR ''+'') \<longrightarrow> sub = [] \<or> peek sub = CHR ''/'') \<Longrightarrow>
   match_loop prev sub topic = Inr (rest_match prev sub topic)"
proof (induction sub arbitrary: prev topic)
  case Nil
  then show ?case
    using levels_Cons_hd [of topic] levels_eq_single [of topic]
    by (auto simp: match_loop.simps skip_topic_eq rest_match_def levels_match_Nil simp del: levels_eq_single)
next
  case (Cons s sub)
  note prems = Cons.prems
  have start: "level_start prev \<longleftrightarrow> prev_char prev = NUL \<or> prev_char prev = CHR ''/''"
    using prems(5) by (auto simp: level_start_def prev_char_def split: option.splits)
  have sub: "c_string sub" "s \<noteq> NUL" using prems(1) by auto
  consider (plus) "s = CHR ''+''" | (sharp) "s = CHR ''#''"
    | (differ) "\<not> is_wildcard s" "s \<noteq> peek topic" | (same) t where "\<not> is_wildcard s" "topic = s # t"
    using sub(2) by (cases topic) (auto simp: is_wildcard_def)
  then show ?case
  proof cases
    case plus
    let ?t = "dropWhile (\<lambda>c. c \<noteq> CHR ''/'') topic"
    have ok: "level_start prev" "sub = [] \<or> peek sub = CHR ''/''" "level_rest_ok (CHR ''+'') sub"
      using prems(4) unfolding plus level_rest_ok_plus start by auto
    have "match_loop (Some (CHR ''+'')) sub ?t = Inr (rest_match (Some (CHR ''+'')) sub ?t)"
      if "?t \<noteq> [] \<or> sub \<noteq> []"
      using ok that prems(2,3) sub
      by (intro Cons.IH c_string_dropWhile name_ok_dropWhile) (auto simp: prev_char_def)
    moreover have "rest_match (Some (CHR ''+'')) [] []" by (simp add: rest_match_def)
    ultimately show ?thesis
      unfolding plus match_loop_plus [OF sub(1) prems(2,3) ok(1,2)] rest_match_plus [OF ok(1,2), of topic]
      by (cases "?t = [] \<and> sub = []") (auto simp: Let_def simp del: dropWhile_eq_Nil_conv)
  next
    case sharp
    have "level_start prev" "sub = []"
      using prems(4) unfolding sharp level_rest_ok_sharp start by auto
    then show ?thesis
      using sharp match_loop_sharp [OF prems(3)] by (auto simp: rest_match_def)
  next
    case differ
    have "\<not> bad_hash (s # sub)" using prems(1,4) by (rule level_rest_ok_hash)
    note loop = match_loop_differ [OF prems(3) differ this, of prev]
    have "rest_match prev (s # sub) topic \<longleftrightarrow> topic = [] \<and> s = CHR ''/'' \<and> sub = ''#''"
      using rest_match_differ [of s topic prev sub] differ sub(2) by (simp add: is_wildcard_def)
    moreover have "peek sub = CHR ''#'' \<longleftrightarrow> sub = ''#''" if "s = CHR ''/''"
      using peek_after_sep [of "prev_char prev" sub] prems(4) sub(1) that by simp
    ultimately show ?thesis
      unfolding loop using prems(6) peek_NUL [OF prems(2)] by blast
  next
    case (same t)
    have t: "c_string t" "name_ok t" using prems(2,3) same by auto
    have rest: "level_rest_ok s sub" using level_rest_ok_char [OF same(1) sub(2) prems(4)] .
    have lv: "rest_match prev (s # sub) topic = rest_match (Some s) sub t"
      using same sub rest_match_char by (auto simp: is_wildcard_def)
    have "match_loop (Some s) sub t = Inr (rest_match (Some s) sub t)"
      if "\<not> (t = [] \<and> (sub = ''/#'' \<or> sub = []))"
      using that rest t sub same by (intro Cons.IH) (auto simp: prev_char_def is_wildcard_def)
    moreover have "s = CHR ''/''" if "sub = ''+''"
      using rest that sub(2) by (auto simp: level_rest_ok_def split: if_splits)
    ultimately show ?thesis
      using match_loop_same [OF sub(1) t(1) same(1) sub(2)] lv same(2)
      by (auto simp: rest_match_def level_start_def)
  qed
qed

section \<open>The checks and the matcher together\<close>

lemma pub_check_name_ok: "mosquitto_pub_topic_check (Some topic) = MOSQ_ERR_SUCCESS \<Longrightarrow> name_ok topic"
  by (simp add: mosquitto_pub_topic_check_def pub_check_loop_eq split: if_splits)

lemma sub_check_filter_ok:
  "c_string sub \<Longrightarrow> mosquitto_sub_topic_check (Some sub) = MOSQ_ERR_SUCCESS \<Longrightarrow> filter_ok (levels sub)"
  by (simp add: mosquitto_sub_topic_check_def sub_check_loop_eq level_rest_ok_def split: if_splits)

lemma levels_chars: "c \<in> set l \<Longrightarrow> l \<in> set (levels s) \<Longrightarrow> c \<in> set s"
proof (induction s arbitrary: l)
  case (Cons d s)
  obtain l0 ls where "levels s = l0 # ls" using levels_Cons_hd by blast
  then show ?case using Cons.prems Cons.IH [of l] Cons.IH [of l0] by (auto split: if_splits)
qed simp

lemma name_ok_levels: "name_ok topic \<Longrightarrow> ''+'' \<notin> set (levels topic) \<and> ''#'' \<notin> set (levels topic)"
proof -
  assume "name_ok topic"
  then have "CHR ''+'' \<notin> set topic" "CHR ''#'' \<notin> set topic" by (auto simp: name_ok_def list_all_iff is_wildcard_def)
  then show ?thesis
    using levels_chars [of "CHR ''+''" "''+''" topic] levels_chars [of "CHR ''#''" "''#''" topic] by auto
qed

lemma matcher_decides:
  assumes "c_string sub" and "c_string topic" and "sub \<noteq> []" and "topic \<noteq> []"
    and "mosquitto_sub_topic_check (Some sub) = MOSQ_ERR_SUCCESS"
    and "mosquitto_pub_topic_check (Some topic) = MOSQ_ERR_SUCCESS"
  shows "mosquitto_topic_matches_sub (Some sub) (Some topic) = Inr (topic_match sub topic)"
proof -
  have "name_ok topic"
    using assms(6) by (simp add: mosquitto_pub_topic_check_def pub_check_loop_eq split: if_splits)
  moreover have "level_rest_ok NUL sub"
    using assms(5) by (simp add: mosquitto_sub_topic_check_def sub_check_loop_eq [OF assms(1)] split: if_splits)
  ultimately have "match_loop None sub topic = Inr (rest_match None sub topic)"
    using assms(1-4) by (intro match_loop_eq) (simp_all add: prev_char_def)
  then show ?thesis
    using assms(1-4)
    by (auto simp: mosquitto_topic_matches_sub_def mosquitto_topic_matches_sub2_def topic_match_def
        rest_match_def level_start_def)
qed

section \<open>Properties\<close>

text \<open>
  C24: for a filter and a topic that pass the checks, \<open>mosquitto_topic_matches_sub\<close> decides
  exactly the match the MQTT specification defines on levels: \<open>+\<close> stands for one level, a
  final \<open>#\<close> for any number of them including none, everything else for itself, and a
  filter that does not start with \<open>$\<close> never matches a topic that does.
\<close>

theorem topic_matches_sub_iff:
  assumes "c_string sub" and "c_string topic" and "sub \<noteq> []" and "topic \<noteq> []"
    and "mosquitto_sub_topic_check (Some sub) = MOSQ_ERR_SUCCESS"
    and "mosquitto_pub_topic_check (Some topic) = MOSQ_ERR_SUCCESS"
  shows "mosquitto_topic_matches_sub (Some sub) (Some topic) = Inr (topic_match sub topic)"
  using assms by (rule matcher_decides)

theorem topic_matches_sub_iff_witness:
  "mosquitto_topic_matches_sub (Some ''a/+/#'') (Some ''a/b'') = Inr True"
proof -
  have "mosquitto_topic_matches_sub (Some ''a/+/#'') (Some ''a/b'') = Inr (topic_match ''a/+/#'' ''a/b'')"
    by (rule topic_matches_sub_iff)
      (simp_all add: c_string_def mosquitto_sub_topic_check_def mosquitto_pub_topic_check_def
        TOPIC_HIERARCHY_LIMIT_def)
  then show ?thesis by (simp add: topic_match_def)
qed

text \<open>
  C33: a filter passes \<open>mosquitto_sub_topic_check\<close> exactly when every \<open>+\<close> and every \<open>#\<close>
  fills a level of its own, \<open>#\<close> only the last one, it is at most 65535 bytes long and has
  at most 201 levels; the variant with an explicit length decides the same.
\<close>

theorem sub_topic_check_iff:
  assumes "c_string str"
  shows "mosquitto_sub_topic_check (Some str) =
      (if filter_ok (levels str) \<and> length str \<le> 65535 \<and> length (levels str) \<le> 201
       then MOSQ_ERR_SUCCESS else MOSQ_ERR_INVAL) \<and>
    (mosquitto_sub_topic_check2 (Some str) (length str) = Inr () \<longleftrightarrow>
       mosquitto_sub_topic_check (Some str) = MOSQ_ERR_SUCCESS)"
  using sub_check2_loop_eq [OF assms, of 0 "length str" NUL 0 0]
  by (auto simp: mosquitto_sub_topic_check_def mosquitto_sub_topic_check2_def fault_simps
      sub_check_loop_eq [OF assms] level_rest_ok_def TOPIC_HIERARCHY_LIMIT_def length_levels)

theorem sub_topic_check_iff_witness:
  "mosquitto_sub_topic_check (Some ''a+/b'') = MOSQ_ERR_INVAL"
  using sub_topic_check_iff [of "''a+/b''"] by (simp add: c_string_def)

end
