(* ===== verification/Broker_State.thy ===== *)
theory Broker_State
  imports Property Topic
begin

text \<open>
  The state of the broker that \<open>src/database.c\<close> works on: the configuration values it reads,
  stored messages, client messages, the message data of a client, the client itself and the
  database. Linked lists are lists in the order of their \<open>next\<close> pointers. The address of a
  node is a number (\<open>cm_addr\<close> of a client message, the key of a stored message in
  \<open>db_msg_store\<close>), so that a pointer that outlives its node is a number that is not found.

  An operation of the broker is a function into \<open>(int \<times> state) option\<close>: the return code
  and the state after it, or \<open>None\<close> for an execution that follows a NULL or dangling
  pointer or fails an \<open>assert\<close>. \<open>time_t\<close>, \<open>long\<close> and the counters of type \<open>int\<close> are
  integers; \<open>unsigned long\<close> and the message ids are words. A \<open>qos\<close> of type \<open>uint8_t\<close> is
  only copied and compared, so that a number models it.
\<close>

named_theorems broker_simps \<open>fields of the broker state\<close>

section \<open>Enumerations\<close>

datatype mosquitto__protocol =
  mosq_p_invalid | mosq_p_mqtt31 | mosq_p_mqtt311 | mosq_p_mqtts | mosq_p_mqtt5

datatype mosquitto_msg_direction = mosq_md_in | mosq_md_out

datatype mosquitto_msg_state =
    mosq_ms_invalid
  | mosq_ms_publish_qos0
  | mosq_ms_publish_qos1
  | mosq_ms_wait_for_puback
  | mosq_ms_publish_qos2
  | mosq_ms_wait_for_pubrec
  | mosq_ms_resend_pubrel
  | mosq_ms_wait_for_pubrel
  | mosq_ms_resend_pubcomp
  | mosq_ms_wait_for_pubcomp
  | mosq_ms_send_pubrec
  | mosq_ms_queued

datatype mosquitto_client_state =
    mosq_cs_new
  | mosq_cs_connected
  | mosq_cs_disconnecting
  | mosq_cs_active
  | mosq_cs_connect_pending
  | mosq_cs_connect_srv
  | mosq_cs_disconnect_ws
  | mosq_cs_disconnected
  | mosq_cs_socks5_new
  | mosq_cs_socks5_start
  | mosq_cs_socks5_request
  | mosq_cs_socks5_reply
  | mosq_cs_socks5_auth_ok
  | mosq_cs_socks5_userpass_reply
  | mosq_cs_socks5_send_userpass
  | mosq_cs_expiring
  | mosq_cs_duplicate
  | mosq_cs_disconnect_with_will
  | mosq_cs_disused
  | mosq_cs_authenticating
  | mosq_cs_reauthenticating

datatype mosquitto_msg_origin = mosq_mo_client | mosq_mo_broker

datatype mosquitto_bridge_start_type = bst_automatic | bst_lazy | bst_manual | bst_once

abbreviation INVALID_SOCKET :: int where
  "INVALID_SOCKET \<equiv> -1"

section \<open>Records\<close>

record mosquitto__config =
  cfg_allow_duplicate_messages :: bool
  cfg_check_retain_source :: bool
  cfg_max_inflight_bytes :: int
  cfg_max_queued_bytes :: int
  cfg_max_queued_messages :: int
  cfg_queue_qos0_messages :: bool
  cfg_retain_available :: bool
  cfg_upgrade_outgoing_qos :: bool

record mosquitto_msg_store =
  ms_db_id :: "64 word"
  ms_source_id :: string
  ms_source_username :: "string option"
  ms_dest_ids :: "string option list"
  ms_ref_count :: int
  ms_topic :: "string option"
  ms_properties :: "mosquitto_property list"
  ms_payload :: "u8 list"
  ms_message_expiry_time :: int
  ms_payloadlen :: u32
  ms_origin :: mosquitto_msg_origin
  ms_source_mid :: u16
  ms_mid :: u16
  ms_qos :: nat
  ms_retain :: bool

record mosquitto_client_msg =
  cm_addr :: nat
  cm_store :: nat
  cm_properties :: "mosquitto_property list"
  cm_timestamp :: int
  cm_mid :: u16
  cm_qos :: nat
  cm_retain :: bool
  cm_direction :: mosquitto_msg_direction
  cm_state :: mosquitto_msg_state
  cm_dup :: bool

record mosquitto_msg_data =
  md_inflight :: "mosquitto_client_msg list"
  md_queued :: "mosquitto_client_msg list"
  md_msg_bytes :: int
  md_msg_bytes12 :: int
  md_msg_count :: int
  md_msg_count12 :: int
  md_inflight_quota :: int
  md_inflight_maximum :: int

record mosquitto__bridge =
  br_clean_start :: bool
  br_clean_start_local :: bool
  br_start_type :: mosquitto_bridge_start_type
  br_threshold :: int
  br_lazy_reconnect :: bool

text \<open>
  The packets a client was sent, in the place of the queue \<open>out_packet\<close>: what \<open>send__publish\<close>,
  \<open>send__pubrel\<close> and \<open>send__pubrec\<close> were called with when they reported success.
\<close>

datatype sent =
    Sent_publish (sent_mid: u16) (sent_topic: "string option") (sent_payload: "u8 list") (sent_qos: nat)
      (sent_retain: bool) (sent_dup: bool) (sent_props: "mosquitto_property list") (sent_expiry: int)
  | Sent_pubrel u16
  | Sent_pubrec u16

record mosquitto =
  ctx_sock :: int
  ctx_protocol :: mosquitto__protocol
  ctx_id :: "string option"
  ctx_username :: "string option"
  ctx_last_mid :: u16
  ctx_state :: mosquitto_client_state
  ctx_out_packet_count :: int
  ctx_clean_start :: bool
  ctx_is_dropping :: bool
  ctx_bridge :: "mosquitto__bridge option"
  ctx_msgs_in :: mosquitto_msg_data
  ctx_msgs_out :: mosquitto_msg_data
  ctx_max_qos :: nat
  ctx_aliases :: "(string option \<times> u16) list"
  ctx_sent :: "sent list"

record mosquitto_db =
  db_last_db_id :: "64 word"
  db_msg_store :: "(nat \<times> mosquitto_msg_store) list"
  db_now_s :: int
  db_now_real_s :: int
  db_msg_store_count :: int
  db_msg_store_bytes :: "64 word"
  db_persistence_changes :: int
  db_config :: mosquitto__config

record broker =
  bk_db :: mosquitto_db
  bk_ctx :: mosquitto

text \<open>The message data of a direction.\<close>

definition msgs_of :: "mosquitto_msg_direction \<Rightarrow> mosquitto \<Rightarrow> mosquitto_msg_data" where
  "msgs_of dir ctx = (case dir of mosq_md_out \<Rightarrow> ctx_msgs_out ctx | mosq_md_in \<Rightarrow> ctx_msgs_in ctx)"

definition set_msgs :: "mosquitto_msg_direction \<Rightarrow> mosquitto_msg_data \<Rightarrow> mosquitto \<Rightarrow> mosquitto" where
  "set_msgs dir md ctx =
     (case dir of mosq_md_out \<Rightarrow> ctx\<lparr>ctx_msgs_out := md\<rparr> | mosq_md_in \<Rightarrow> ctx\<lparr>ctx_msgs_in := md\<rparr>)"

lemma msgs_of_set_msgs [simp]:
  "msgs_of d (set_msgs d' md ctx) = (if d = d' then md else msgs_of d ctx)"
  by (cases d; cases d') (auto simp: msgs_of_def set_msgs_def)

section \<open>Clients (\<open>lib/util_mosq.c\<close>)\<close>

text \<open>The message id and the client with the id used up.\<close>

definition mosquitto__mid_generate :: "mosquitto \<Rightarrow> u16 \<times> mosquitto" where
  "mosquitto__mid_generate mosq =
     (let last_mid = ctx_last_mid mosq + 1;
          last_mid = (if last_mid = 0 then last_mid + 1 else last_mid)
      in (last_mid, mosq\<lparr>ctx_last_mid := last_mid\<rparr>))"

definition increment_quota :: "mosquitto_msg_data \<Rightarrow> mosquitto_msg_data" where
  "increment_quota md =
     (if md_inflight_quota md < md_inflight_maximum md
      then md\<lparr>md_inflight_quota := md_inflight_quota md + 1\<rparr> else md)"

definition decrement_quota :: "mosquitto_msg_data \<Rightarrow> mosquitto_msg_data" where
  "decrement_quota md =
     (if md_inflight_quota md > 0 then md\<lparr>md_inflight_quota := md_inflight_quota md - 1\<rparr> else md)"

definition util__increment_receive_quota :: "mosquitto \<Rightarrow> mosquitto" where
  "util__increment_receive_quota mosq = mosq\<lparr>ctx_msgs_in := increment_quota (ctx_msgs_in mosq)\<rparr>"

definition util__increment_send_quota :: "mosquitto \<Rightarrow> mosquitto" where
  "util__increment_send_quota mosq = mosq\<lparr>ctx_msgs_out := increment_quota (ctx_msgs_out mosq)\<rparr>"

definition util__decrement_receive_quota :: "mosquitto \<Rightarrow> mosquitto" where
  "util__decrement_receive_quota mosq = mosq\<lparr>ctx_msgs_in := decrement_quota (ctx_msgs_in mosq)\<rparr>"

definition util__decrement_send_quota :: "mosquitto \<Rightarrow> mosquitto" where
  "util__decrement_send_quota mosq = mosq\<lparr>ctx_msgs_out := decrement_quota (ctx_msgs_out mosq)\<rparr>"

definition mosquitto__set_state :: "mosquitto \<Rightarrow> mosquitto_client_state \<Rightarrow> mosquitto" where
  "mosquitto__set_state mosq state =
     (if ctx_state mosq \<noteq> mosq_cs_disused then mosq\<lparr>ctx_state := state\<rparr> else mosq)"

definition mosquitto__get_state :: "mosquitto \<Rightarrow> mosquitto_client_state" where
  "mosquitto__get_state mosq = ctx_state mosq"

section \<open>Topic aliases (\<open>lib/alias_mosq.c\<close>)\<close>

text \<open>
  The array of aliases; a topic is NULL when copying it failed. \<open>dup\<close> and \<open>grow\<close> say whether
  \<open>strdup\<close> and \<open>realloc\<close> succeed.
\<close>

fun alias_replace ::
  "bool \<Rightarrow> string \<Rightarrow> u16 \<Rightarrow> (string option \<times> u16) list \<Rightarrow> (mosq_err_t \<times> (string option \<times> u16) list) option" where
  "alias_replace dup topic alias [] = None"
| "alias_replace dup topic alias ((t, a) # aliases) =
     (if a = alias then
        if dup then Some (MOSQ_ERR_SUCCESS, (Some topic, a) # aliases)
        else Some (MOSQ_ERR_NOMEM, (None, a) # aliases)
      else map_option (\<lambda>(rc, as). (rc, (t, a) # as)) (alias_replace dup topic alias aliases))"

definition alias__add :: "bool \<Rightarrow> bool \<Rightarrow> mosquitto \<Rightarrow> string \<Rightarrow> u16 \<Rightarrow> mosq_err_t \<times> mosquitto" where
  "alias__add grow dup mosq topic alias =
     (case alias_replace dup topic alias (ctx_aliases mosq) of
        Some (rc, aliases) \<Rightarrow> (rc, mosq\<lparr>ctx_aliases := aliases\<rparr>)
      | None \<Rightarrow>
          if \<not> grow then (MOSQ_ERR_NOMEM, mosq)
          else if \<not> dup then (MOSQ_ERR_NOMEM, mosq)
          else (MOSQ_ERR_SUCCESS, mosq\<lparr>ctx_aliases := ctx_aliases mosq @ [(Some topic, alias)]\<rparr>))"

fun alias_lookup :: "(string option \<times> u16) list \<Rightarrow> u16 \<Rightarrow> string option option" where
  "alias_lookup [] alias = None"
| "alias_lookup ((t, a) # aliases) alias = (if a = alias then Some t else alias_lookup aliases alias)"

definition alias__find :: "bool \<Rightarrow> mosquitto \<Rightarrow> u16 \<Rightarrow> fault + string" where
  "alias__find dup mosq alias =
     (case alias_lookup (ctx_aliases mosq) alias of
        None \<Rightarrow> Inl (Rc MOSQ_ERR_INVAL)
      | Some None \<Rightarrow> Inl Trap
      | Some (Some t) \<Rightarrow> if dup then Inr t else Inl (Rc MOSQ_ERR_NOMEM))"

definition alias__free_all :: "mosquitto \<Rightarrow> mosquitto" where
  "alias__free_all mosq = mosq\<lparr>ctx_aliases := []\<rparr>"

end
