(* ===== verification/Message_Store.thy ===== *)
theory Message_Store
  imports Broker_State
begin

text \<open>
  \<open>src/database.c\<close>, the stored messages and the lists of client messages that refer to them:
  adding, removing and counting references, taking a client message out of a list and
  moving the first queued one into flight, and the tests whether a client takes more.
\<close>

section \<open>Lists of nodes with addresses\<close>

definition find_msg :: "nat \<Rightarrow> mosquitto_client_msg list \<Rightarrow> mosquitto_client_msg option" where
  "find_msg a ms = find (\<lambda>m. cm_addr m = a) ms"

definition delete_msg :: "nat \<Rightarrow> mosquitto_client_msg list \<Rightarrow> mosquitto_client_msg list" where
  "delete_msg a ms = filter (\<lambda>m. cm_addr m \<noteq> a) ms"

definition update_msg ::
  "nat \<Rightarrow> (mosquitto_client_msg \<Rightarrow> mosquitto_client_msg) \<Rightarrow> mosquitto_client_msg list \<Rightarrow>
   mosquitto_client_msg list" where
  "update_msg a f ms = map (\<lambda>m. if cm_addr m = a then f m else m) ms"

definition store_at :: "mosquitto_db \<Rightarrow> nat \<Rightarrow> mosquitto_msg_store option" where
  "store_at db a = map_of (db_msg_store db) a"

definition update_store ::
  "nat \<Rightarrow> (mosquitto_msg_store \<Rightarrow> mosquitto_msg_store) \<Rightarrow> mosquitto_db \<Rightarrow> mosquitto_db" where
  "update_store a f db =
     db\<lparr>db_msg_store := map (\<lambda>(b, s). (b, if b = a then f s else s)) (db_msg_store db)\<rparr>"

section \<open>Stored messages\<close>

definition db__msg_store_add :: "nat \<Rightarrow> mosquitto_msg_store \<Rightarrow> mosquitto_db \<Rightarrow> mosquitto_db" where
  "db__msg_store_add a store db = db\<lparr>db_msg_store := (a, store) # db_msg_store db\<rparr>"

definition db__msg_store_remove :: "nat \<Rightarrow> mosquitto_db \<Rightarrow> mosquitto_db option" where
  "db__msg_store_remove a db =
     (case store_at db a of
        None \<Rightarrow> None
      | Some store \<Rightarrow>
          Some (db\<lparr>db_msg_store := filter (\<lambda>(b, s). b \<noteq> a) (db_msg_store db),
                   db_msg_store_count := db_msg_store_count db - 1,
                   db_msg_store_bytes := db_msg_store_bytes db - ucast (ms_payloadlen store)\<rparr>))"

text \<open>The loops over the list take the nodes that are there at the start, in order.\<close>

fun store_clean_loop :: "nat list \<Rightarrow> mosquitto_db \<Rightarrow> mosquitto_db option" where
  "store_clean_loop [] db = Some db"
| "store_clean_loop (a # as) db = Option.bind (db__msg_store_remove a db) (store_clean_loop as)"

definition db__msg_store_clean :: "mosquitto_db \<Rightarrow> mosquitto_db option" where
  "db__msg_store_clean db = store_clean_loop (map fst (db_msg_store db)) db"

definition db__msg_store_ref_inc :: "nat \<Rightarrow> mosquitto_db \<Rightarrow> mosquitto_db option" where
  "db__msg_store_ref_inc a db =
     (case store_at db a of
        None \<Rightarrow> None
      | Some store \<Rightarrow> Some (update_store a (\<lambda>s. s\<lparr>ms_ref_count := ms_ref_count s + 1\<rparr>) db))"

definition db__msg_store_ref_dec :: "nat \<Rightarrow> mosquitto_db \<Rightarrow> mosquitto_db option" where
  "db__msg_store_ref_dec a db =
     (case store_at db a of
        None \<Rightarrow> None
      | Some store \<Rightarrow>
          let db = update_store a (\<lambda>s. s\<lparr>ms_ref_count := ms_ref_count s - 1\<rparr>) db
          in if ms_ref_count store - 1 = 0 then db__msg_store_remove a db else Some db)"

fun store_compact_loop :: "nat list \<Rightarrow> mosquitto_db \<Rightarrow> mosquitto_db option" where
  "store_compact_loop [] db = Some db"
| "store_compact_loop (a # as) db =
     (case store_at db a of
        None \<Rightarrow> None
      | Some store \<Rightarrow>
          if ms_ref_count store < 1
          then Option.bind (db__msg_store_remove a db) (store_compact_loop as)
          else store_compact_loop as db)"

definition db__msg_store_compact :: "mosquitto_db \<Rightarrow> mosquitto_db option" where
  "db__msg_store_compact db = store_compact_loop (map fst (db_msg_store db)) db"

section \<open>Client messages\<close>

text \<open>
  \<open>db__message_remove\<close> on the item at address \<open>a\<close>, which its callers have found in
  \<open>inflight\<close>. The item is freed at the end, so that the result has it nowhere.
\<close>

definition db__message_remove ::
  "mosquitto_msg_data \<Rightarrow> nat \<Rightarrow> mosquitto_db \<Rightarrow> (mosquitto_msg_data \<times> mosquitto_db) option" where
  "db__message_remove md a db =
     (case find_msg a (md_inflight md) of
        None \<Rightarrow> None
      | Some item \<Rightarrow>
          (case store_at db (cm_store item) of
            None \<Rightarrow> None
          | Some store \<Rightarrow>
              let md = md\<lparr>md_inflight := delete_msg a (md_inflight md)\<rparr>;
                  md = md\<lparr>md_msg_count := md_msg_count md - 1,
                          md_msg_bytes := md_msg_bytes md - uint (ms_payloadlen store)\<rparr>;
                  md = (if cm_qos item > 0
                        then md\<lparr>md_msg_count12 := md_msg_count12 md - 1,
                                md_msg_bytes12 := md_msg_bytes12 md - uint (ms_payloadlen store)\<rparr>
                        else md)
              in map_option (\<lambda>db. (md, db)) (db__msg_store_ref_dec (cm_store item) db)))"

definition db__message_dequeue_first :: "mosquitto_msg_data \<Rightarrow> mosquitto_msg_data option" where
  "db__message_dequeue_first md =
     (case md_queued md of
        [] \<Rightarrow> None
      | msg # queued \<Rightarrow>
          let md = md\<lparr>md_queued := queued, md_inflight := md_inflight md @ [msg]\<rparr>
          in Some (if md_inflight_quota md > 0
                   then md\<lparr>md_inflight_quota := md_inflight_quota md - 1\<rparr> else md))"

section \<open>Limits\<close>

definition db__ready_for_flight :: "mosquitto__config \<Rightarrow> mosquitto \<Rightarrow> mosquitto_msg_direction \<Rightarrow> nat \<Rightarrow> bool" where
  "db__ready_for_flight cfg context dir qos =
     (let msgs = msgs_of dir context
      in if md_inflight_maximum msgs = 0 \<and> cfg_max_inflight_bytes cfg = 0 then True
         else if qos = 0 then
           if cfg_max_queued_messages cfg = 0 \<and> cfg_max_inflight_bytes cfg = 0 then True
           else
             let valid_bytes = (md_msg_bytes msgs - cfg_max_inflight_bytes cfg < cfg_max_queued_bytes cfg);
                 valid_count =
                   (case dir of
                      mosq_md_out \<Rightarrow> ctx_out_packet_count context < cfg_max_queued_messages cfg
                    | mosq_md_in \<Rightarrow> md_msg_count msgs - md_inflight_maximum msgs < cfg_max_queued_messages cfg)
             in if cfg_max_queued_messages cfg = 0 then valid_bytes
                else if cfg_max_queued_bytes cfg = 0 then valid_count
                else valid_bytes \<and> valid_count
         else
           let valid_bytes = (md_msg_bytes12 msgs < cfg_max_inflight_bytes cfg);
               valid_count = (md_inflight_quota msgs > 0)
           in if md_inflight_maximum msgs = 0 then valid_bytes
              else if cfg_max_inflight_bytes cfg = 0 then valid_count
              else valid_bytes \<and> valid_count)"

definition db__ready_for_queue :: "mosquitto__config \<Rightarrow> mosquitto \<Rightarrow> nat \<Rightarrow> mosquitto_msg_data \<Rightarrow> bool" where
  "db__ready_for_queue cfg context qos msg_data =
     (if cfg_max_queued_messages cfg = 0 \<and> cfg_max_queued_bytes cfg = 0 then True
      else if qos = 0 \<and> \<not> cfg_queue_qos0_messages cfg then False
      else
        let source_bytes = md_msg_bytes12 msg_data;
            source_count = md_msg_count12 msg_data;
            adjust_bytes = (if ctx_sock context = INVALID_SOCKET then 0 else cfg_max_inflight_bytes cfg);
            adjust_count = (if ctx_sock context = INVALID_SOCKET then 0 else md_inflight_maximum msg_data);
            valid_bytes = (source_bytes - adjust_bytes < cfg_max_queued_bytes cfg);
            valid_count = (source_count - adjust_count < cfg_max_queued_messages cfg)
        in if cfg_max_queued_bytes cfg = 0 then valid_count
           else if cfg_max_queued_messages cfg = 0 then valid_bytes
           else valid_bytes \<and> valid_count)"

end
