(* ===== verification/Database.thy ===== *)
theory Database
  imports Message_Store
begin

text \<open>
  \<open>src/database.c\<close>, the flow of messages to and from one client: inserting a message into
  flight or queue, sending what is due, acknowledgements, reconnection and deletion. The
  state is a \<open>broker\<close>: the database and the client the operation is called for (the tests
  for a NULL client at the head of the functions have no counterpart).

  What the network does is a parameter of type \<open>net\<close>: the return codes of \<open>send__publish\<close>,
  \<open>send__pubrel\<close> and \<open>send__pubrec\<close> for a client and a packet. A packet that was sent is
  appended to \<open>ctx_sent\<close>. Logging and the counters of \<open>$SYS\<close> are left out.

  \<open>DL_FOREACH_SAFE\<close> visits the nodes that are in the list at its start, in order: the loops
  below take their addresses.
\<close>

section \<open>Sending\<close>

record net =
  net_publish :: "mosquitto \<Rightarrow> sent \<Rightarrow> int"
  net_pubrel :: "mosquitto \<Rightarrow> u16 \<Rightarrow> int"
  net_pubrec :: "mosquitto \<Rightarrow> u16 \<Rightarrow> int"

definition send__publish :: "net \<Rightarrow> sent \<Rightarrow> mosquitto \<Rightarrow> int \<times> mosquitto" where
  "send__publish net p ctx =
     (let rc = net_publish net ctx p
      in (rc, if rc = 0 then ctx\<lparr>ctx_sent := ctx_sent ctx @ [p]\<rparr> else ctx))"

definition send__pubrel :: "net \<Rightarrow> u16 \<Rightarrow> mosquitto \<Rightarrow> int \<times> mosquitto" where
  "send__pubrel net mid ctx =
     (let rc = net_pubrel net ctx mid
      in (rc, if rc = 0 then ctx\<lparr>ctx_sent := ctx_sent ctx @ [Sent_pubrel mid]\<rparr> else ctx))"

definition send__pubrec :: "net \<Rightarrow> u16 \<Rightarrow> mosquitto \<Rightarrow> int \<times> mosquitto" where
  "send__pubrec net mid ctx =
     (let rc = net_pubrec net ctx mid
      in (rc, if rc = 0 then ctx\<lparr>ctx_sent := ctx_sent ctx @ [Sent_pubrec mid]\<rparr> else ctx))"

section \<open>Client messages of the broker state\<close>

definition publish_state :: "nat \<Rightarrow> mosquitto_msg_state \<Rightarrow> mosquitto_msg_state" where
  "publish_state qos old =
     (if qos = 0 then mosq_ms_publish_qos0 else if qos = 1 then mosq_ms_publish_qos1
      else if qos = 2 then mosq_ms_publish_qos2 else old)"

text \<open>\<open>tail->field = ...\<close> for the node at \<open>a\<close>, in whichever list of the direction it is.\<close>

definition set_msg ::
  "mosquitto_msg_direction \<Rightarrow> nat \<Rightarrow> (mosquitto_client_msg \<Rightarrow> mosquitto_client_msg) \<Rightarrow> broker \<Rightarrow> broker" where
  "set_msg dir a f bk =
     (let md = msgs_of dir (bk_ctx bk)
      in bk\<lparr>bk_ctx := set_msgs dir (md\<lparr>md_inflight := update_msg a f (md_inflight md),
                                        md_queued := update_msg a f (md_queued md)\<rparr>) (bk_ctx bk)\<rparr>)"

definition remove_msg :: "mosquitto_msg_direction \<Rightarrow> nat \<Rightarrow> broker \<Rightarrow> broker option" where
  "remove_msg dir a bk =
     map_option (\<lambda>(md, db). bk\<lparr>bk_db := db, bk_ctx := set_msgs dir md (bk_ctx bk)\<rparr>)
       (db__message_remove (msgs_of dir (bk_ctx bk)) a (bk_db bk))"

definition dequeue_first :: "mosquitto_msg_direction \<Rightarrow> broker \<Rightarrow> broker option" where
  "dequeue_first dir bk =
     map_option (\<lambda>md. bk\<lparr>bk_ctx := set_msgs dir md (bk_ctx bk)\<rparr>)
       (db__message_dequeue_first (msgs_of dir (bk_ctx bk)))"

section \<open>Writing what is in flight\<close>

definition is_publish_state :: "mosquitto_msg_state \<Rightarrow> bool" where
  "is_publish_state st \<longleftrightarrow>
     st = mosq_ms_publish_qos0 \<or> st = mosq_ms_publish_qos1 \<or> st = mosq_ms_publish_qos2"

definition write_inflight_out_single :: "net \<Rightarrow> nat \<Rightarrow> broker \<Rightarrow> (int \<times> broker) option" where
  "write_inflight_out_single net a bk =
     (case find_msg a (md_inflight (ctx_msgs_out (bk_ctx bk))) of
        None \<Rightarrow> None
      | Some msg \<Rightarrow>
      (case store_at (bk_db bk) (cm_store msg) of
         None \<Rightarrow> None
       | Some store \<Rightarrow>
           if ms_message_expiry_time store \<noteq> 0 \<and> db_now_real_s (bk_db bk) > ms_message_expiry_time store then
             map_option (\<lambda>bk. (0, bk)) (remove_msg mosq_md_out a
               (if cm_direction msg = mosq_md_out \<and> cm_qos msg > 0
                then bk\<lparr>bk_ctx := util__increment_send_quota (bk_ctx bk)\<rparr> else bk))
           else
             let expiry_interval =
                   (if ms_message_expiry_time store \<noteq> 0
                    then ms_message_expiry_time store - db_now_real_s (bk_db bk) else 0);
                 p = Sent_publish (cm_mid msg) (ms_topic store) (ms_payload store) (cm_qos msg)
                       (cm_retain msg) (cm_dup msg) (cm_properties msg @ ms_properties store) expiry_interval;
                 published = (\<lambda>st. set_msg mosq_md_out a (\<lambda>m. m\<lparr>cm_timestamp := db_now_s (bk_db bk),
                     cm_dup := True, cm_state := st\<rparr>))
             in (case cm_state msg of
                  mosq_ms_publish_qos0 \<Rightarrow>
                    let (rc, ctx) = send__publish net p (bk_ctx bk); bk = bk\<lparr>bk_ctx := ctx\<rparr>
                    in if rc = 0 \<or> rc = err_code MOSQ_ERR_OVERSIZE_PACKET
                       then map_option (\<lambda>bk. (0, bk)) (remove_msg mosq_md_out a bk)
                       else Some (rc, bk)
                | mosq_ms_publish_qos1 \<Rightarrow>
                    let (rc, ctx) = send__publish net p (bk_ctx bk); bk = bk\<lparr>bk_ctx := ctx\<rparr>
                    in if rc = 0 then Some (0, published mosq_ms_wait_for_puback bk)
                       else if rc = err_code MOSQ_ERR_OVERSIZE_PACKET
                       then map_option (\<lambda>bk. (0, bk)) (remove_msg mosq_md_out a bk)
                       else Some (rc, bk)
                | mosq_ms_publish_qos2 \<Rightarrow>
                    let (rc, ctx) = send__publish net p (bk_ctx bk); bk = bk\<lparr>bk_ctx := ctx\<rparr>
                    in if rc = 0 then Some (0, published mosq_ms_wait_for_pubrec bk)
                       else if rc = err_code MOSQ_ERR_OVERSIZE_PACKET
                       then map_option (\<lambda>bk. (0, bk)) (remove_msg mosq_md_out a bk)
                       else Some (rc, bk)
                | mosq_ms_resend_pubrel \<Rightarrow>
                    let (rc, ctx) = send__pubrel net (cm_mid msg) (bk_ctx bk); bk = bk\<lparr>bk_ctx := ctx\<rparr>
                    in if rc = 0
                       then Some (0, set_msg mosq_md_out a (\<lambda>m. m\<lparr>cm_state := mosq_ms_wait_for_pubcomp\<rparr>) bk)
                       else Some (rc, bk)
                | _ \<Rightarrow> Some (0, bk))))"

fun write_inflight_loop :: "net \<Rightarrow> nat list \<Rightarrow> broker \<Rightarrow> (int \<times> broker) option" where
  "write_inflight_loop net [] bk = Some (0, bk)"
| "write_inflight_loop net (a # as) bk =
     (case write_inflight_out_single net a bk of
        None \<Rightarrow> None
      | Some (rc, bk) \<Rightarrow> if rc \<noteq> 0 then Some (rc, bk) else write_inflight_loop net as bk)"

definition db__message_write_inflight_out_all :: "net \<Rightarrow> broker \<Rightarrow> (int \<times> broker) option" where
  "db__message_write_inflight_out_all net bk =
     (if ctx_state (bk_ctx bk) \<noteq> mosq_cs_active \<or> ctx_sock (bk_ctx bk) = INVALID_SOCKET then Some (0, bk)
      else write_inflight_loop net (map cm_addr (md_inflight (ctx_msgs_out (bk_ctx bk)))) bk)"

text \<open>
  The messages from \<open>tail\<close> on, where \<open>tail\<close> goes backwards from the end over messages that
  wait to be published, down to the head of the list at most.
\<close>

definition pending_tail :: "mosquitto_client_msg list \<Rightarrow> mosquitto_client_msg list" where
  "pending_tail ms =
     (let pub = rev (takeWhile (\<lambda>m. is_publish_state (cm_state m)) (rev (tl ms)))
      in if length pub = length (tl ms) then ms else pub)"

definition db__message_write_inflight_out_latest :: "net \<Rightarrow> broker \<Rightarrow> (int \<times> broker) option" where
  "db__message_write_inflight_out_latest net bk =
     (let ctx = bk_ctx bk; inflight = md_inflight (ctx_msgs_out ctx)
      in if ctx_state ctx \<noteq> mosq_cs_active \<or> ctx_sock ctx = INVALID_SOCKET \<or> inflight = [] then Some (0, bk)
         else if length inflight = 1 then write_inflight_out_single net (cm_addr (hd inflight)) bk
         else write_inflight_loop net (map cm_addr (pending_tail inflight)) bk)"

section \<open>Moving queued messages into flight\<close>

fun write_queued_out_loop :: "nat list \<Rightarrow> broker \<Rightarrow> (int \<times> broker) option" where
  "write_queued_out_loop [] bk = Some (0, bk)"
| "write_queued_out_loop (a # as) bk =
     (let md = ctx_msgs_out (bk_ctx bk)
      in if md_inflight_maximum md \<noteq> 0 \<and> md_inflight_quota md = 0 then Some (0, bk)
         else
           case dequeue_first mosq_md_out
                  (set_msg mosq_md_out a (\<lambda>m. m\<lparr>cm_state := publish_state (cm_qos m) (cm_state m)\<rparr>) bk) of
             None \<Rightarrow> None
           | Some bk \<Rightarrow> write_queued_out_loop as bk)"

definition db__message_write_queued_out :: "broker \<Rightarrow> (int \<times> broker) option" where
  "db__message_write_queued_out bk =
     (if ctx_state (bk_ctx bk) \<noteq> mosq_cs_active then Some (0, bk)
      else write_queued_out_loop (map cm_addr (md_queued (ctx_msgs_out (bk_ctx bk)))) bk)"

fun write_queued_in_loop :: "net \<Rightarrow> nat list \<Rightarrow> broker \<Rightarrow> (int \<times> broker) option" where
  "write_queued_in_loop net [] bk = Some (0, bk)"
| "write_queued_in_loop net (a # as) bk =
     (if md_inflight_maximum (ctx_msgs_out (bk_ctx bk)) \<noteq> 0 \<and>
         md_inflight_quota (ctx_msgs_in (bk_ctx bk)) = 0 then Some (0, bk)
      else
        (case find_msg a (md_queued (ctx_msgs_in (bk_ctx bk))) of
           None \<Rightarrow> None
         | Some msg \<Rightarrow>
             if cm_qos msg = 2 then
               (case dequeue_first mosq_md_in
                       (set_msg mosq_md_in a (\<lambda>m. m\<lparr>cm_state := mosq_ms_send_pubrec\<rparr>) bk) of
                  None \<Rightarrow> None
                | Some bk \<Rightarrow>
                    let (rc, ctx) = send__pubrec net (cm_mid msg) (bk_ctx bk); bk = bk\<lparr>bk_ctx := ctx\<rparr>
                    in if rc = 0
                       then write_queued_in_loop net as
                              (set_msg mosq_md_in a (\<lambda>m. m\<lparr>cm_state := mosq_ms_wait_for_pubrel\<rparr>) bk)
                       else Some (rc, bk))
             else write_queued_in_loop net as bk))"

definition db__message_write_queued_in :: "net \<Rightarrow> broker \<Rightarrow> (int \<times> broker) option" where
  "db__message_write_queued_in net bk =
     (if ctx_state (bk_ctx bk) \<noteq> mosq_cs_active then Some (0, bk)
      else write_queued_in_loop net (map cm_addr (md_queued (ctx_msgs_in (bk_ctx bk)))) bk)"

end
