(* ===== verification/Database_Ops.thy ===== *)
theory Database_Ops
  imports Database
begin

text \<open>
  The operations of \<open>src/database.c\<close> that the packet handlers call, built from the writing and
  queueing steps of \<open>Database\<close>.
\<close>

section \<open>Acknowledged messages\<close>

text \<open>
  The first loop of \<open>db__message_delete_outgoing\<close>: \<open>Inl ()\<close> is the protocol error, otherwise
  \<open>msg_index\<close> and the message to remove, if there is one.
\<close>

fun delete_scan ::
  "u16 \<Rightarrow> mosquitto_msg_state \<Rightarrow> nat \<Rightarrow> mosquitto_client_msg list \<Rightarrow> int \<Rightarrow> unit + (int \<times> nat option)" where
  "delete_scan mid expect_state qos [] msg_index = Inr (msg_index, None)"
| "delete_scan mid expect_state qos (tail # rest) msg_index =
     (let msg_index = msg_index + 1
      in if cm_mid tail = mid then
           if cm_qos tail \<noteq> qos then Inl ()
           else if qos = 2 \<and> cm_state tail \<noteq> expect_state then Inl ()
           else Inr (msg_index - 1, Some (cm_addr tail))
         else delete_scan mid expect_state qos rest msg_index)"

fun delete_outgoing_queue :: "nat list \<Rightarrow> int \<Rightarrow> broker \<Rightarrow> broker option" where
  "delete_outgoing_queue [] msg_index bk = Some bk"
| "delete_outgoing_queue (a # as) msg_index bk =
     (let md = ctx_msgs_out (bk_ctx bk)
      in if md_inflight_maximum md \<noteq> 0 \<and> msg_index \<ge> md_inflight_maximum md then Some bk
         else
           case dequeue_first mosq_md_out (set_msg mosq_md_out a
                  (\<lambda>m. m\<lparr>cm_timestamp := db_now_s (bk_db bk),
                          cm_state := publish_state (cm_qos m) (cm_state m)\<rparr>) bk) of
             None \<Rightarrow> None
           | Some bk \<Rightarrow> delete_outgoing_queue as (msg_index + 1) bk)"

definition db__message_delete_outgoing ::
  "net \<Rightarrow> u16 \<Rightarrow> mosquitto_msg_state \<Rightarrow> nat \<Rightarrow> broker \<Rightarrow> (int \<times> broker) option" where
  "db__message_delete_outgoing net mid expect_state qos bk =
     (case delete_scan mid expect_state qos (md_inflight (ctx_msgs_out (bk_ctx bk))) 0 of
        Inl _ \<Rightarrow> Some (err_code MOSQ_ERR_PROTOCOL, bk)
      | Inr (msg_index, found) \<Rightarrow>
          (case (case found of None \<Rightarrow> Some bk | Some a \<Rightarrow> remove_msg mosq_md_out a bk) of
             None \<Rightarrow> None
           | Some bk \<Rightarrow>
               (case delete_outgoing_queue (map cm_addr (md_queued (ctx_msgs_out (bk_ctx bk)))) msg_index bk of
                  None \<Rightarrow> None
                | Some bk \<Rightarrow>
                    db__message_write_inflight_out_latest net
                      (bk\<lparr>bk_db := (bk_db bk)\<lparr>db_persistence_changes := db_persistence_changes (bk_db bk) + 1\<rparr>\<rparr>))))"

definition db__message_update_outgoing ::
  "u16 \<Rightarrow> mosquitto_msg_state \<Rightarrow> nat \<Rightarrow> broker \<Rightarrow> int \<times> broker" where
  "db__message_update_outgoing mid state qos bk =
     (case find (\<lambda>m. cm_mid m = mid) (md_inflight (ctx_msgs_out (bk_ctx bk))) of
        None \<Rightarrow> (err_code MOSQ_ERR_NOT_FOUND, bk)
      | Some tail \<Rightarrow>
          if cm_qos tail \<noteq> qos then (err_code MOSQ_ERR_PROTOCOL, bk)
          else (0, set_msg mosq_md_out (cm_addr tail)
                     (\<lambda>m. m\<lparr>cm_state := state, cm_timestamp := db_now_s (bk_db bk)\<rparr>) bk))"

definition db__message_remove_incoming :: "u16 \<Rightarrow> broker \<Rightarrow> (int \<times> broker) option" where
  "db__message_remove_incoming mid bk =
     (case find (\<lambda>m. cm_mid m = mid) (md_inflight (ctx_msgs_in (bk_ctx bk))) of
        None \<Rightarrow> Some (err_code MOSQ_ERR_NOT_FOUND, bk)
      | Some tail \<Rightarrow>
          (case store_at (bk_db bk) (cm_store tail) of
             None \<Rightarrow> None
           | Some store \<Rightarrow>
               if ms_qos store \<noteq> 2 then Some (err_code MOSQ_ERR_PROTOCOL, bk)
               else map_option (\<lambda>bk. (0, bk)) (remove_msg mosq_md_in (cm_addr tail) bk)))"

section \<open>Inserting\<close>

definition sizeof_client_msg :: nat where
  "sizeof_client_msg = 64"

text \<open>
  What becomes of a new message: its state and the return code so far, or a return code
  to leave with and whether the message is dropped because of a full queue.
\<close>

definition insert_state ::
  "mosquitto__config \<Rightarrow> mosquitto \<Rightarrow> mosquitto_msg_direction \<Rightarrow> nat \<Rightarrow> (int \<times> bool) + (mosquitto_msg_state \<times> int)" where
  "insert_state cfg context dir qos =
     (if ctx_sock context \<noteq> INVALID_SOCKET then
        if db__ready_for_flight cfg context dir qos then
          (case dir of
             mosq_md_out \<Rightarrow> Inr (publish_state qos mosq_ms_invalid, 0)
           | mosq_md_in \<Rightarrow> if qos = 2 then Inr (mosq_ms_wait_for_pubrel, 0) else Inl (1, False))
        else if qos \<noteq> 0 \<and> db__ready_for_queue cfg context qos (msgs_of dir context)
        then Inr (mosq_ms_queued, 2)
        else Inl (2, True)
      else if db__ready_for_queue cfg context qos (msgs_of dir context) then Inr (mosq_ms_queued, 0)
      else Inl (2, True))"

text \<open>
  Whether a client id is among those a message was sent to. An entry is NULL when copying
  the id failed; \<open>strcmp\<close> follows it.
\<close>

fun dest_id_seen :: "string \<Rightarrow> string option list \<Rightarrow> bool option" where
  "dest_id_seen cid [] = Some False"
| "dest_id_seen cid (None # ids) = None"
| "dest_id_seen cid (Some i # ids) = (if i = cid then Some True else dest_id_seen cid ids)"

text \<open>The tests before that: a message already sent to this client, and clients that are away.\<close>

definition insert_refused ::
  "mosquitto__config \<Rightarrow> mosquitto \<Rightarrow> mosquitto_msg_direction \<Rightarrow> nat \<Rightarrow> bool \<Rightarrow> mosquitto_msg_store \<Rightarrow>
   int option option" where
  "insert_refused cfg context dir qos retain store =
     (case ctx_id context of
        None \<Rightarrow> Some (Some 0)
      | Some cid \<Rightarrow>
          (case (if ctx_protocol context \<noteq> mosq_p_mqtt5 \<and> \<not> cfg_allow_duplicate_messages cfg \<and>
                   dir = mosq_md_out \<and> \<not> retain
                 then dest_id_seen cid (ms_dest_ids store) else Some False) of
             None \<Rightarrow> None
           | Some True \<Rightarrow> Some (Some 0)
           | Some False \<Rightarrow>
               if ctx_sock context = INVALID_SOCKET \<and> qos = 0 \<and> \<not> cfg_queue_qos0_messages cfg \<and>
                 (case ctx_bridge context of None \<Rightarrow> True | Some b \<Rightarrow> br_start_type b \<noteq> bst_lazy)
               then Some (Some 2)
               else if ctx_sock context = INVALID_SOCKET \<and>
                 (case ctx_bridge context of None \<Rightarrow> False | Some b \<Rightarrow> br_clean_start_local b)
               then Some (Some 2)
               else Some None))"

text \<open>Appending the new message and counting it; \<open>qos\<close> is the argument, not that of the message.\<close>

definition append_msg :: "mosquitto_client_msg \<Rightarrow> nat \<Rightarrow> int \<Rightarrow> mosquitto_msg_data \<Rightarrow> mosquitto_msg_data" where
  "append_msg msg qos len md =
     (let md = (if cm_state msg = mosq_ms_queued then md\<lparr>md_queued := md_queued md @ [msg]\<rparr>
                else md\<lparr>md_inflight := md_inflight md @ [msg]\<rparr>);
          md = md\<lparr>md_msg_count := md_msg_count md + 1, md_msg_bytes := md_msg_bytes md + len\<rparr>
      in if qos > 0
         then md\<lparr>md_msg_count12 := md_msg_count12 md + 1, md_msg_bytes12 := md_msg_bytes12 md + len\<rparr>
         else md)"

text \<open>The end of the insertion: the quota, and what can be sent now.\<close>

definition insert_finish ::
  "net \<Rightarrow> mosquitto_msg_direction \<Rightarrow> bool \<Rightarrow> mosquitto_client_msg \<Rightarrow> int \<Rightarrow> broker \<Rightarrow> (int \<times> broker) option" where
  "insert_finish net dir update msg rc bk =
     (let ctx = bk_ctx bk;
          ctx = (case ctx_bridge ctx of
                   None \<Rightarrow> ctx
                 | Some b \<Rightarrow>
                     if br_start_type b = bst_lazy \<and> ctx_sock ctx = INVALID_SOCKET \<and>
                       md_msg_count (ctx_msgs_out ctx) \<ge> br_threshold b
                     then ctx\<lparr>ctx_bridge := Some (b\<lparr>br_lazy_reconnect := True\<rparr>)\<rparr> else ctx);
          ctx = (if dir = mosq_md_out \<and> cm_qos msg > 0 then util__decrement_send_quota ctx else ctx);
          bk = bk\<lparr>bk_ctx := ctx\<rparr>
      in if dir = mosq_md_out \<and> update then
           (case db__message_write_inflight_out_latest net bk of
              None \<Rightarrow> None
            | Some (rc, bk) \<Rightarrow> if rc \<noteq> 0 then Some (rc, bk) else db__message_write_queued_out bk)
         else Some (rc, bk))"

text \<open>
  \<open>addr\<close> is the address that \<open>malloc\<close> gives for the new client message, \<open>stored\<close> the address
  of the stored message.
\<close>

definition db__message_insert ::
  "(nat \<Rightarrow> bool) \<Rightarrow> net \<Rightarrow> nat \<Rightarrow> u16 \<Rightarrow> mosquitto_msg_direction \<Rightarrow> nat \<Rightarrow> bool \<Rightarrow> nat \<Rightarrow>
   mosquitto_property list \<Rightarrow> bool \<Rightarrow> broker \<Rightarrow> (int \<times> broker) option" where
  "db__message_insert alloc net addr mid dir qos retain stored properties update bk =
     (let context = bk_ctx bk; cfg = db_config (bk_db bk)
      in case store_at (bk_db bk) stored of
           None \<Rightarrow> None
         | Some store \<Rightarrow>
      (case insert_refused cfg context dir qos retain store of
         None \<Rightarrow> None
       | Some (Some rc) \<Rightarrow> Some (rc, bk)
       | Some None \<Rightarrow>
      (case insert_state cfg context dir qos of
         Inl (rc, dropping) \<Rightarrow>
           Some (rc, if dropping then bk\<lparr>bk_ctx := context\<lparr>ctx_is_dropping := True\<rparr>\<rparr> else bk)
       | Inr (state, rc) \<Rightarrow>
           if state = mosq_ms_invalid then None
           else
             let db = bk_db bk;
                 db = (if state = mosq_ms_queued
                       then db\<lparr>db_persistence_changes := db_persistence_changes db + 1\<rparr> else db);
                 bk = bk\<lparr>bk_db := db\<rparr>
             in if \<not> alloc sizeof_client_msg then Some (err_code MOSQ_ERR_NOMEM, bk)
                else
             (case db__msg_store_ref_inc stored db of
                None \<Rightarrow> None
              | Some db \<Rightarrow>
                  let msg = \<lparr>cm_addr = addr, cm_store = stored, cm_properties = properties,
                         cm_timestamp = db_now_s db, cm_mid = mid,
                         cm_qos = (if qos > ctx_max_qos context then ctx_max_qos context else qos),
                         cm_retain = retain, cm_direction = dir, cm_state = state, cm_dup = False\<rparr>;
                      md = append_msg msg qos (uint (ms_payloadlen store)) (msgs_of dir context);
                      bk = bk\<lparr>bk_db := db, bk_ctx := set_msgs dir md context\<rparr>
                  in if \<not> cfg_allow_duplicate_messages cfg \<and> dir = mosq_md_out \<and> \<not> retain then
                       let cid = (case ctx_id context of None \<Rightarrow> [] | Some i \<Rightarrow> i)
                       in if \<not> alloc (8 * (length (ms_dest_ids store) + 1)) then Some (err_code MOSQ_ERR_NOMEM, bk)
                          else if \<not> alloc (length cid + 1) then
                            Some (err_code MOSQ_ERR_NOMEM, bk\<lparr>bk_db := update_store stored
                              (\<lambda>s. s\<lparr>ms_dest_ids := ms_dest_ids s @ [None]\<rparr>) (bk_db bk)\<rparr>)
                          else insert_finish net dir update msg rc
                                 (bk\<lparr>bk_db := update_store stored
                                       (\<lambda>s. s\<lparr>ms_dest_ids := ms_dest_ids s @ [Some cid]\<rparr>) (bk_db bk)\<rparr>)
                     else insert_finish net dir update msg rc bk))))"

section \<open>Deleting the messages of a client\<close>

fun delete_list_loop :: "mosquitto_client_msg list \<Rightarrow> mosquitto_db \<Rightarrow> mosquitto_db option" where
  "delete_list_loop [] db = Some db"
| "delete_list_loop (tail # rest) db =
     Option.bind (db__msg_store_ref_dec (cm_store tail) db) (delete_list_loop rest)"

text \<open>Both lists of one direction, and the counters; the quota stays.\<close>

definition clear_msgs :: "mosquitto_msg_direction \<Rightarrow> broker \<Rightarrow> broker option" where
  "clear_msgs dir bk =
     (let md = msgs_of dir (bk_ctx bk)
      in Option.bind (delete_list_loop (md_inflight md) (bk_db bk)) (\<lambda>db.
         Option.bind (delete_list_loop (md_queued md) db) (\<lambda>db.
           Some (bk\<lparr>bk_db := db,
             bk_ctx := set_msgs dir (md\<lparr>md_inflight := [], md_queued := [], md_msg_bytes := 0,
               md_msg_bytes12 := 0, md_msg_count := 0, md_msg_count12 := 0\<rparr>) (bk_ctx bk)\<rparr>))))"

definition db__messages_delete :: "bool \<Rightarrow> broker \<Rightarrow> (int \<times> broker) option" where
  "db__messages_delete force_free bk =
     (let ctx = bk_ctx bk;
          in_too = (force_free \<or> ctx_clean_start ctx \<or>
            (case ctx_bridge ctx of None \<Rightarrow> False | Some b \<Rightarrow> br_clean_start b));
          out_too = (force_free \<or>
            (case ctx_bridge ctx of None \<Rightarrow> ctx_clean_start ctx | Some b \<Rightarrow> br_clean_start_local b))
      in Option.bind (if in_too then clear_msgs mosq_md_in bk else Some bk) (\<lambda>bk.
         Option.bind (if out_too then clear_msgs mosq_md_out bk else Some bk) (\<lambda>bk. Some (0, bk))))"

section \<open>Storing\<close>

text \<open>
  \<open>db__message_store(source, stored, ...)\<close> for the stored message \<open>store\<close> that its caller has
  allocated at \<open>addr\<close>; it enters the list here, or is freed on an error.
\<close>

definition db__message_store ::
  "(nat \<Rightarrow> bool) \<Rightarrow> mosquitto option \<Rightarrow> nat \<Rightarrow> mosquitto_msg_store \<Rightarrow> int \<Rightarrow> 64 word \<Rightarrow>
   mosquitto_msg_origin \<Rightarrow> mosquitto_db \<Rightarrow> mosq_err_t \<times> mosquitto_db" where
  "db__message_store alloc source addr store message_expiry_interval store_id origin db =
     (let source_id = (case source of Some ctx \<Rightarrow> (case ctx_id ctx of Some i \<Rightarrow> i | None \<Rightarrow> []) | None \<Rightarrow> []);
          source_username = (case source of Some ctx \<Rightarrow> ctx_username ctx | None \<Rightarrow> None)
      in if \<not> alloc (length source_id + 1) then (MOSQ_ERR_NOMEM, db)
         else if (case source_username of Some u \<Rightarrow> \<not> alloc (length u + 1) | None \<Rightarrow> False)
         then (MOSQ_ERR_NOMEM, db)
         else
           let db = db\<lparr>db_msg_store_count := db_msg_store_count db + 1,
                       db_msg_store_bytes := db_msg_store_bytes db + ucast (ms_payloadlen store)\<rparr>;
               db = (if store_id = 0 then db\<lparr>db_last_db_id := db_last_db_id db + 1\<rparr> else db);
               store = store\<lparr>ms_source_id := source_id, ms_mid := 0, ms_origin := origin,
                  ms_source_username := (case source_username of Some u \<Rightarrow> Some u | None \<Rightarrow> ms_source_username store),
                  ms_message_expiry_time :=
                    (if message_expiry_interval > 0 then db_now_real_s db + message_expiry_interval else 0),
                  ms_dest_ids := [],
                  ms_db_id := (if store_id = 0 then db_last_db_id db else store_id)\<rparr>
           in (MOSQ_ERR_SUCCESS, db__msg_store_add addr store db))"

text \<open>The stored message with a client's message id, in flight first.\<close>

fun store_find_loop :: "u16 \<Rightarrow> mosquitto_db \<Rightarrow> mosquitto_client_msg list \<Rightarrow> nat option option" where
  "store_find_loop mid db [] = Some None"
| "store_find_loop mid db (tail # rest) =
     (case store_at db (cm_store tail) of
        None \<Rightarrow> None
      | Some store \<Rightarrow> if ms_source_mid store = mid then Some (Some (cm_store tail))
                      else store_find_loop mid db rest)"

definition db__message_store_find :: "u16 \<Rightarrow> broker \<Rightarrow> (int \<times> nat option) option" where
  "db__message_store_find mid bk =
     (case store_find_loop mid (bk_db bk) (md_inflight (ctx_msgs_in (bk_ctx bk))) of
        None \<Rightarrow> None
      | Some (Some a) \<Rightarrow> Some (0, Some a)
      | Some None \<Rightarrow>
          (case store_find_loop mid (bk_db bk) (md_queued (ctx_msgs_in (bk_ctx bk))) of
             None \<Rightarrow> None
           | Some (Some a) \<Rightarrow> Some (0, Some a)
           | Some None \<Rightarrow> Some (1, None)))"

section \<open>Reconnection\<close>

definition reset_counts :: "mosquitto_msg_data \<Rightarrow> mosquitto_msg_data" where
  "reset_counts md = md\<lparr>md_msg_bytes := 0, md_msg_bytes12 := 0, md_msg_count := 0, md_msg_count12 := 0,
     md_inflight_quota := md_inflight_maximum md\<rparr>"

definition count_msg :: "mosquitto_msg_store \<Rightarrow> nat \<Rightarrow> mosquitto_msg_data \<Rightarrow> mosquitto_msg_data" where
  "count_msg store qos md =
     (let md = md\<lparr>md_msg_count := md_msg_count md + 1,
                  md_msg_bytes := md_msg_bytes md + uint (ms_payloadlen store)\<rparr>
      in if qos > 0
         then md\<lparr>md_msg_count12 := md_msg_count12 md + 1,
                 md_msg_bytes12 := md_msg_bytes12 md + uint (ms_payloadlen store)\<rparr>
         else md)"

definition map_msgs ::
  "mosquitto_msg_direction \<Rightarrow> (mosquitto_msg_data \<Rightarrow> mosquitto_msg_data) \<Rightarrow> broker \<Rightarrow> broker" where
  "map_msgs dir f bk = bk\<lparr>bk_ctx := set_msgs dir (f (msgs_of dir (bk_ctx bk))) (bk_ctx bk)\<rparr>"

definition resend_state :: "mosquitto_client_msg \<Rightarrow> mosquitto_msg_state" where
  "resend_state m =
     (if cm_qos m = 2 \<and> cm_state m = mosq_ms_wait_for_pubcomp then mosq_ms_resend_pubrel
      else publish_state (cm_qos m) (cm_state m))"

fun reset_out_inflight :: "nat list \<Rightarrow> broker \<Rightarrow> broker option" where
  "reset_out_inflight [] bk = Some bk"
| "reset_out_inflight (a # as) bk =
     (case find_msg a (md_inflight (ctx_msgs_out (bk_ctx bk))) of
        None \<Rightarrow> None
      | Some msg \<Rightarrow>
          (case store_at (bk_db bk) (cm_store msg) of
             None \<Rightarrow> None
           | Some store \<Rightarrow>
               let bk = map_msgs mosq_md_out (count_msg store (cm_qos msg)) bk;
                   bk = (if cm_qos msg > 0 then bk\<lparr>bk_ctx := util__decrement_send_quota (bk_ctx bk)\<rparr> else bk)
               in reset_out_inflight as (set_msg mosq_md_out a (\<lambda>m. m\<lparr>cm_state := resend_state m\<rparr>) bk)))"

text \<open>The second loop is the same in both directions.\<close>

fun reset_queued :: "mosquitto_msg_direction \<Rightarrow> nat list \<Rightarrow> broker \<Rightarrow> broker option" where
  "reset_queued dir [] bk = Some bk"
| "reset_queued dir (a # as) bk =
     (case find_msg a (md_queued (msgs_of dir (bk_ctx bk))) of
        None \<Rightarrow> None
      | Some msg \<Rightarrow>
          (case store_at (bk_db bk) (cm_store msg) of
             None \<Rightarrow> None
           | Some store \<Rightarrow>
               let bk = map_msgs dir (count_msg store (cm_qos msg)) bk
               in if db__ready_for_flight (db_config (bk_db bk)) (bk_ctx bk) dir (cm_qos msg) then
                    (case dequeue_first dir (set_msg dir a
                            (\<lambda>m. m\<lparr>cm_state := publish_state (cm_qos m) (cm_state m)\<rparr>) bk) of
                       None \<Rightarrow> None
                     | Some bk \<Rightarrow> reset_queued dir as bk)
                  else reset_queued dir as bk))"

definition reconnect_reset_outgoing :: "broker \<Rightarrow> broker option" where
  "reconnect_reset_outgoing bk =
     (let bk = map_msgs mosq_md_out reset_counts bk
      in Option.bind (reset_out_inflight (map cm_addr (md_inflight (ctx_msgs_out (bk_ctx bk)))) bk) (\<lambda>bk.
           reset_queued mosq_md_out (map cm_addr (md_queued (ctx_msgs_out (bk_ctx bk)))) bk))"

fun reset_in_inflight :: "nat list \<Rightarrow> broker \<Rightarrow> broker option" where
  "reset_in_inflight [] bk = Some bk"
| "reset_in_inflight (a # as) bk =
     (case find_msg a (md_inflight (ctx_msgs_in (bk_ctx bk))) of
        None \<Rightarrow> None
      | Some msg \<Rightarrow>
          (case store_at (bk_db bk) (cm_store msg) of
             None \<Rightarrow> None
           | Some store \<Rightarrow>
               let bk = map_msgs mosq_md_in (count_msg store (cm_qos msg)) bk;
                   bk = (if cm_qos msg > 0 then bk\<lparr>bk_ctx := util__decrement_receive_quota (bk_ctx bk)\<rparr> else bk)
               in if cm_qos msg \<noteq> 2 then Option.bind (remove_msg mosq_md_in a bk) (reset_in_inflight as)
                  else reset_in_inflight as bk))"

definition reconnect_reset_incoming :: "broker \<Rightarrow> broker option" where
  "reconnect_reset_incoming bk =
     (let bk = map_msgs mosq_md_in reset_counts bk
      in Option.bind (reset_in_inflight (map cm_addr (md_inflight (ctx_msgs_in (bk_ctx bk)))) bk) (\<lambda>bk.
           reset_queued mosq_md_in (map cm_addr (md_queued (ctx_msgs_in (bk_ctx bk)))) bk))"

definition db__message_reconnect_reset :: "broker \<Rightarrow> (int \<times> broker) option" where
  "db__message_reconnect_reset bk =
     Option.bind (reconnect_reset_outgoing bk) (\<lambda>bk.
       map_option (\<lambda>bk. (0, bk)) (reconnect_reset_incoming bk))"

section \<open>Releasing queued messages\<close>

text \<open>
  The second loop of \<open>db__message_release_incoming\<close>. The first hands messages to the subscribers
  and is a step of the whole broker.
\<close>

fun release_queued :: "net \<Rightarrow> nat list \<Rightarrow> int \<Rightarrow> broker \<Rightarrow> broker option" where
  "release_queued net [] msg_index bk = Some bk"
| "release_queued net (a # as) msg_index bk =
     (let md = ctx_msgs_in (bk_ctx bk)
      in if md_inflight_maximum md \<noteq> 0 \<and> msg_index \<ge> md_inflight_maximum md then Some bk
         else
           (case find_msg a (md_queued md) of
              None \<Rightarrow> None
            | Some tail \<Rightarrow>
                let bk = set_msg mosq_md_in a (\<lambda>m. m\<lparr>cm_timestamp := db_now_s (bk_db bk)\<rparr>) bk
                in if cm_qos tail = 2 then
                     let (rc, ctx) = send__pubrec net (cm_mid tail) (bk_ctx bk);
                         bk = set_msg mosq_md_in a (\<lambda>m. m\<lparr>cm_state := mosq_ms_wait_for_pubrel\<rparr>)
                                (bk\<lparr>bk_ctx := ctx\<rparr>)
                     in (case dequeue_first mosq_md_in bk of
                           None \<Rightarrow> None
                         | Some bk \<Rightarrow> release_queued net as (msg_index + 1) bk)
                   else release_queued net as (msg_index + 1) bk))"

end
