(* ===== verification/Store_Inv.thy ===== *)
theory Store_Inv
  imports Database_Ops
begin

text \<open>
  The invariant of the stored messages: their reference counts. \<open>rs\<close> lists the stored messages
  that client messages refer to, once for each reference; \<open>E a\<close> counts the references to \<open>a\<close>
  from elsewhere (the retain tree, a caller that is handing the message out). The list of
  clients a message went to has no NULL in it (\<open>dest_id_seen\<close> would follow it). Every operation
  that takes or gives a reference keeps the invariant for the new list, and the steps that
  follow a pointer never meet one that is gone.
\<close>

section \<open>Counting references\<close>

lemma count_list_append [simp]: "count_list (xs @ ys) a = count_list xs a + count_list ys a"
  by (induction xs) auto

lemma count_list_remove1: "a \<in> set xs \<Longrightarrow> count_list (remove1 a xs) b = count_list xs b - (if a = b then 1 else 0)"
  by (induction xs) (auto dest: count_notin)

lemma count_list_pos: "0 < count_list xs a \<longleftrightarrow> a \<in> set xs"
  by (simp add: count_list_0_iff zero_less_iff_neq_zero)

definition plen :: "mosquitto_db \<Rightarrow> nat \<Rightarrow> int" where
  "plen db a = (case store_at db a of None \<Rightarrow> 0 | Some s \<Rightarrow> uint (ms_payloadlen s))"

definition store_bytes :: "(nat \<times> mosquitto_msg_store) list \<Rightarrow> 64 word" where
  "store_bytes sts = sum_list (map (\<lambda>(a, s). ucast (ms_payloadlen s)) sts)"

definition stores_ok :: "(nat \<Rightarrow> int) \<Rightarrow> mosquitto_db \<Rightarrow> nat list \<Rightarrow> bool" where
  "stores_ok E db rs \<longleftrightarrow>
     distinct (map fst (db_msg_store db)) \<and>
     (\<forall>a s. store_at db a = Some s \<longrightarrow> ms_ref_count s = int (count_list rs a) + E a \<and> None \<notin> set (ms_dest_ids s)) \<and>
     (\<forall>a. a \<in> set rs \<or> E a \<noteq> 0 \<longrightarrow> store_at db a \<noteq> None) \<and> (\<forall>a. 0 \<le> E a) \<and>
     db_msg_store_count db = int (length (db_msg_store db)) \<and>
     db_msg_store_bytes db = store_bytes (db_msg_store db)"

text \<open>What the operations on stored messages leave alone.\<close>

definition stores_from :: "mosquitto_db \<Rightarrow> mosquitto_db \<Rightarrow> bool" where
  "stores_from db db' \<longleftrightarrow> (\<forall>a s'. store_at db' a = Some s' \<longrightarrow> (\<exists>s. store_at db a = Some s \<and> ms_topic s' = ms_topic s))"

definition db_frame :: "mosquitto_db \<Rightarrow> mosquitto_db \<Rightarrow> bool" where
  "db_frame db db' \<longleftrightarrow> db_config db' = db_config db \<and> db_now_s db' = db_now_s db \<and>
     db_now_real_s db' = db_now_real_s db \<and> stores_from db db'"

lemma stores_from_refl [simp]: "stores_from db db"
  by (simp add: stores_from_def)

lemma stores_from_same [simp]: "db_msg_store db' = db_msg_store db \<Longrightarrow> stores_from db db'"
  by (simp add: stores_from_def store_at_def)

lemma stores_from_trans: "stores_from a b \<Longrightarrow> stores_from b c \<Longrightarrow> stores_from a c"
  unfolding stores_from_def by metis

lemma db_frame_refl [simp]: "db_frame db db"
  by (simp add: db_frame_def)

lemma db_frame_trans: "db_frame a b \<Longrightarrow> db_frame b c \<Longrightarrow> db_frame a c"
  using stores_from_trans by (auto simp: db_frame_def)

lemma stores_ok_count:
  "stores_ok E db rs \<Longrightarrow> (\<And>a. count_list rs' a = count_list rs a) \<Longrightarrow> stores_ok E db rs'"
  by (simp add: stores_ok_def count_list_pos [symmetric])

section \<open>Updates\<close>

lemma store_at_update [simp]:
  "store_at (update_store a f db) b = (if b = a then map_option f (store_at db a) else store_at db b)"
proof -
  have "map_of (map (\<lambda>(b, s). (b, if b = a then f s else s)) xs) b =
    (if b = a then map_option f (map_of xs a) else map_of xs b)" for xs
    by (induction xs) auto
  then show ?thesis by (simp add: store_at_def update_store_def)
qed

lemma update_store_simps [simp]:
  "map fst (db_msg_store (update_store a f db)) = map fst (db_msg_store db)"
  "length (db_msg_store (update_store a f db)) = length (db_msg_store db)"
  "db_msg_store_count (update_store a f db) = db_msg_store_count db"
  "db_msg_store_bytes (update_store a f db) = db_msg_store_bytes db"
  "db_config (update_store a f db) = db_config db"
  by (auto simp: update_store_def)

lemma db_frame_update [simp]: "(\<And>s. ms_topic (f s) = ms_topic s) \<Longrightarrow> db_frame db (update_store a f db)"
  by (auto simp: db_frame_def stores_from_def) (simp_all add: update_store_def)

lemma store_bytes_update:
  "(\<And>s. ms_payloadlen (f s) = ms_payloadlen s) \<Longrightarrow>
   store_bytes (db_msg_store (update_store a f db)) = store_bytes (db_msg_store db)"
proof -
  assume f: "\<And>s. ms_payloadlen (f s) = ms_payloadlen s"
  have "store_bytes (map (\<lambda>(b, s). (b, if b = a then f s else s)) xs) = store_bytes xs" for xs
    by (induction xs) (auto simp: store_bytes_def f)
  then show ?thesis by (simp add: update_store_def)
qed

lemma plen_update:
  "(\<And>s. ms_payloadlen (f s) = ms_payloadlen s) \<Longrightarrow> plen (update_store a f db) b = plen db b"
  by (auto simp: plen_def split: option.splits)

lemma filter_fst_map_of:
  "map_of (filter (\<lambda>(b, s). b \<noteq> a) xs) b = (if b = a then None else map_of xs b)"
  by (induction xs) auto

lemma store_bytes_filter:
  "distinct (map fst xs) \<Longrightarrow> map_of xs a = Some s \<Longrightarrow>
   store_bytes (filter (\<lambda>(b, s). b \<noteq> a) xs) = store_bytes xs - ucast (ms_payloadlen s) \<and>
   int (length (filter (\<lambda>(b, s). b \<noteq> a) xs)) = int (length xs) - 1"
proof (induction xs)
  case (Cons x xs)
  show ?case
  proof (cases "fst x = a")
    case True
    then have "filter (\<lambda>(b, s). b \<noteq> a) xs = xs"
      using Cons.prems(1) by (auto simp: filter_id_conv rev_image_eqI)
    then show ?thesis using True Cons.prems by (auto simp: store_bytes_def)
  next
    case False
    then show ?thesis using Cons by (cases x) (auto simp: store_bytes_def)
  qed
qed simp

lemma distinct_fst_filter: "distinct (map fst xs) \<Longrightarrow> distinct (map fst (filter P xs))"
  by (induction xs) auto

lemma store_remove_ok:
  assumes "stores_ok E db rs" and "store_at db a = Some s" and "a \<notin> set rs" and "E a = 0"
  shows "\<exists>db'. db__msg_store_remove a db = Some db' \<and> stores_ok E db' rs \<and>
    (\<forall>b. store_at db' b = (if b = a then None else store_at db b)) \<and> db_frame db db'"
proof -
  define db' where "db' = the (db__msg_store_remove a db)"
  have db': "db__msg_store_remove a db = Some db'"
    using assms(2) by (simp add: db'_def db__msg_store_remove_def)
  have at: "store_at db' b = (if b = a then None else store_at db b)" for b
    using assms(2) by (simp add: db'_def db__msg_store_remove_def store_at_def filter_fst_map_of)
  have "stores_ok E db' rs"
    using assms store_bytes_filter [of "db_msg_store db" a s]
    unfolding stores_ok_def at
    by (auto simp: db'_def db__msg_store_remove_def store_at_def intro: distinct_fst_filter)
  moreover have "db_frame db db'" using assms(2) at by (auto simp: db_frame_def stores_from_def)
    (simp_all add: db'_def db__msg_store_remove_def)
  ultimately show ?thesis using db' at by blast
qed

section \<open>Taking and giving references\<close>

lemma ref_inc_ok:
  assumes "stores_ok E db rs" and "store_at db a \<noteq> None"
  shows "\<exists>db'. db__msg_store_ref_inc a db = Some db' \<and> stores_ok E db' (a # rs) \<and>
    (\<forall>b. plen db' b = plen db b) \<and> db_frame db db' \<and>
    (\<forall>b. store_at db' b = (if b = a then map_option (\<lambda>s. s\<lparr>ms_ref_count := ms_ref_count s + 1\<rparr>) (store_at db a)
                          else store_at db b))"
  using assms
  by (auto simp: db__msg_store_ref_inc_def stores_ok_def plen_update store_bytes_update)

text \<open>A reference given back: by a client message, or by the outside.\<close>

lemma ref_dec_gen:
  assumes ok: "stores_ok E db rs" and at: "store_at db a \<noteq> None"
    and cnt: "\<And>b. int (count_list rs' b) + E' b = int (count_list rs b) + E b - (if b = a then 1 else 0)"
    and "\<And>b. 0 \<le> E' b" and sub: "set rs' \<subseteq> set rs" "\<And>b. E' b \<noteq> 0 \<Longrightarrow> E b \<noteq> 0"
  shows "\<exists>db'. db__msg_store_ref_dec a db = Some db' \<and> stores_ok E' db' rs' \<and>
    (\<forall>b. b \<in> set rs' \<or> E' b \<noteq> 0 \<longrightarrow> plen db' b = plen db b) \<and> db_frame db db'"
proof -
  obtain s where s: "store_at db a = Some s" using at by auto
  define db1 where "db1 = update_store a (\<lambda>s. s\<lparr>ms_ref_count := ms_ref_count s - 1\<rparr>) db"
  have ok1: "stores_ok E' db1 rs'"
    using ok assms(4) sub s cnt unfolding stores_ok_def db1_def
    by (auto simp: store_bytes_update)
  have p1: "plen db1 b = plen db b" for b by (simp add: db1_def plen_update)
  have f1: "db_frame db db1" by (simp add: db1_def)
  show ?thesis
  proof (cases "ms_ref_count s - 1 = 0")
    case True
    have "int (count_list rs' a) + E' a = 0" using True ok s cnt [of a] by (auto simp: stores_ok_def)
    then have z: "a \<notin> set rs'" "E' a = 0" using assms(4) [of a] by (auto simp: count_list_pos [symmetric])
    obtain db' where db': "db__msg_store_remove a db1 = Some db'" "stores_ok E' db' rs'" "db_frame db1 db'"
      "\<forall>b. store_at db' b = (if b = a then None else store_at db1 b)"
      using store_remove_ok [OF ok1 _ z] s by (auto simp: db1_def)
    have "plen db' b = plen db b" if "b \<in> set rs' \<or> E' b \<noteq> 0" for b
      using that z db'(4) p1 [of b] by (auto simp: plen_def)
    then show ?thesis
      using True s db' f1 by (auto simp: db__msg_store_ref_dec_def db1_def [symmetric] intro: db_frame_trans)
  next
    case False
    then show ?thesis using s ok1 p1 f1 by (auto simp: db__msg_store_ref_dec_def db1_def [symmetric])
  qed
qed

lemma stores_okD:
  assumes "stores_ok E db rs"
  shows "a \<in> set rs \<Longrightarrow> store_at db a \<noteq> None" "E a \<noteq> 0 \<Longrightarrow> store_at db a \<noteq> None" "0 \<le> E a"
  using assms by (auto simp: stores_ok_def)

lemma ref_dec_ok:
  assumes ok: "stores_ok E db rs" and a: "a \<in> set rs"
  shows "\<exists>db'. db__msg_store_ref_dec a db = Some db' \<and> stores_ok E db' (remove1 a rs) \<and>
    (\<forall>b \<in> set (remove1 a rs). plen db' b = plen db b) \<and> db_frame db db'"
proof -
  have "0 < count_list rs a" using a by (simp add: count_list_pos)
  then have "int (count_list (remove1 a rs) b) + E b = int (count_list rs b) + E b - (if b = a then 1 else 0)" for b
    by (simp add: count_list_remove1 [OF a])
  then show ?thesis
    using ref_dec_gen [OF ok stores_okD(1) [OF ok a], of "remove1 a rs" E] stores_okD(3) [OF ok]
      set_remove1_subset [of a rs] by blast
qed

lemma ref_dec_extern_ok:
  assumes ok: "stores_ok E db rs" and a: "0 < E a"
  shows "\<exists>db'. db__msg_store_ref_dec a db = Some db' \<and> stores_ok (E(a := E a - 1)) db' rs \<and>
    (\<forall>b \<in> set rs. plen db' b = plen db b) \<and> db_frame db db'"
proof -
  let ?E = "E(a := E a - 1)"
  have "store_at db a \<noteq> None" using stores_okD(2) [OF ok, of a] a by simp
  moreover have "int (count_list rs b) + ?E b = int (count_list rs b) + E b - (if b = a then 1 else 0)"
    "0 \<le> ?E b" "?E b \<noteq> 0 \<Longrightarrow> E b \<noteq> 0" for b
    using a stores_okD(3) [OF ok, of b] by (auto split: if_splits)
  ultimately show ?thesis
    using ref_dec_gen [OF ok, of a rs ?E] by blast
qed

end
