(* ===== verification/Broker_Inv.thy ===== *)
theory Broker_Inv
  imports Store_Inv
begin

text \<open>
  The invariant of the broker state around one client: references counted, no client message
  twice, the counters of both directions equal to what is in the lists, and the quotas in
  their range. Each step of the operations keeps it; the compound operations follow in
  \<open>Broker_Safety\<close>.
\<close>

section \<open>The invariant\<close>

definition md_msgs :: "mosquitto_msg_data \<Rightarrow> mosquitto_client_msg list" where
  "md_msgs md = md_inflight md @ md_queued md"

definition md_refs :: "mosquitto_msg_data \<Rightarrow> nat list" where
  "md_refs md = map cm_store (md_msgs md)"

definition quota_ok :: "mosquitto_msg_data \<Rightarrow> bool" where
  "quota_ok md \<longleftrightarrow> 0 \<le> md_inflight_quota md \<and> md_inflight_quota md \<le> md_inflight_maximum md"

definition counts_ok :: "(nat \<Rightarrow> int) \<Rightarrow> mosquitto_msg_data \<Rightarrow> bool" where
  "counts_ok len md \<longleftrightarrow>
     (let ms = md_msgs md; ms12 = filter (\<lambda>m. cm_qos m > 0) ms
      in md_msg_count md = int (length ms) \<and>
         md_msg_bytes md = (\<Sum>m\<leftarrow>ms. len (cm_store m)) \<and>
         md_msg_count12 md = int (length ms12) \<and>
         md_msg_bytes12 md = (\<Sum>m\<leftarrow>ms12. len (cm_store m)))"

definition unique_msgs :: "mosquitto_msg_data \<Rightarrow> bool" where
  "unique_msgs md \<longleftrightarrow> distinct (map cm_addr (md_msgs md))"

definition ctx_refs :: "mosquitto \<Rightarrow> nat list" where
  "ctx_refs ctx = md_refs (ctx_msgs_in ctx) @ md_refs (ctx_msgs_out ctx)"

text \<open>\<open>safe_inv\<close> is what keeps every pointer valid, \<open>count_inv\<close> adds the bookkeeping.\<close>

definition safe_inv :: "(nat \<Rightarrow> int) \<Rightarrow> broker \<Rightarrow> bool" where
  "safe_inv E bk \<longleftrightarrow>
     stores_ok E (bk_db bk) (ctx_refs (bk_ctx bk)) \<and>
     unique_msgs (ctx_msgs_in (bk_ctx bk)) \<and> unique_msgs (ctx_msgs_out (bk_ctx bk)) \<and>
     quota_ok (ctx_msgs_in (bk_ctx bk)) \<and> quota_ok (ctx_msgs_out (bk_ctx bk))"

definition count_inv :: "broker \<Rightarrow> bool" where
  "count_inv bk \<longleftrightarrow>
     counts_ok (plen (bk_db bk)) (ctx_msgs_in (bk_ctx bk)) \<and>
     counts_ok (plen (bk_db bk)) (ctx_msgs_out (bk_ctx bk))"

text \<open>One direction, and the rest of the references.\<close>

definition other_dir :: "mosquitto_msg_direction \<Rightarrow> mosquitto_msg_direction" where
  "other_dir d = (case d of mosq_md_in \<Rightarrow> mosq_md_out | mosq_md_out \<Rightarrow> mosq_md_in)"

lemma msgs_of_simps [simp]:
  "msgs_of mosq_md_in ctx = ctx_msgs_in ctx" "msgs_of mosq_md_out ctx = ctx_msgs_out ctx"
  by (simp_all add: msgs_of_def)

lemma other_dir_neq [simp]: "other_dir d \<noteq> d" "d \<noteq> other_dir d"
  by (cases d; simp add: other_dir_def)+

lemma ctx_refs_count:
  "count_list (ctx_refs ctx) a = count_list (md_refs (msgs_of d ctx) @ md_refs (msgs_of (other_dir d) ctx)) a"
  by (cases d) (simp_all add: ctx_refs_def other_dir_def)

lemma safe_inv_dir:
  "safe_inv E bk \<longleftrightarrow>
     stores_ok E (bk_db bk) (md_refs (msgs_of d (bk_ctx bk)) @ md_refs (msgs_of (other_dir d) (bk_ctx bk))) \<and>
     unique_msgs (msgs_of d (bk_ctx bk)) \<and> unique_msgs (msgs_of (other_dir d) (bk_ctx bk)) \<and>
     quota_ok (msgs_of d (bk_ctx bk)) \<and> quota_ok (msgs_of (other_dir d) (bk_ctx bk))"
proof -
  have "stores_ok E (bk_db bk) (ctx_refs (bk_ctx bk)) \<longleftrightarrow>
    stores_ok E (bk_db bk) (md_refs (msgs_of d (bk_ctx bk)) @ md_refs (msgs_of (other_dir d) (bk_ctx bk)))"
    using ctx_refs_count [of "bk_ctx bk" _ d] stores_ok_count by metis
  then show ?thesis by (cases d) (auto simp: safe_inv_def other_dir_def)
qed

lemma count_inv_dir:
  "count_inv bk \<longleftrightarrow> counts_ok (plen (bk_db bk)) (msgs_of d (bk_ctx bk)) \<and>
     counts_ok (plen (bk_db bk)) (msgs_of (other_dir d) (bk_ctx bk))"
  by (cases d) (auto simp: count_inv_def other_dir_def)

section \<open>Lists of client messages\<close>

lemma find_msg_Some: "find_msg a ms = Some m \<Longrightarrow> m \<in> set ms \<and> cm_addr m = a"
  by (auto simp: find_msg_def find_Some_iff)

lemma find_msg_in: "a \<in> cm_addr ` set ms \<Longrightarrow> \<exists>m. find_msg a ms = Some m"
  by (auto simp: find_msg_def find_None_iff simp flip: not_None_eq)

lemma find_msg_unique: "distinct (map cm_addr ms) \<Longrightarrow> m \<in> set ms \<Longrightarrow> find_msg (cm_addr m) ms = Some m"
proof -
  assume d: "distinct (map cm_addr ms)" "m \<in> set ms"
  obtain m' where m': "find_msg (cm_addr m) ms = Some m'" using find_msg_in [of "cm_addr m" ms] d by auto
  then have "m' \<in> set ms" "cm_addr m' = cm_addr m" by (auto dest: find_msg_Some)
  then have "m' = m" using d by (auto simp: distinct_map dest: inj_onD)
  with m' show ?thesis by simp
qed

lemma delete_msg_remove1:
  "distinct (map cm_addr ms) \<Longrightarrow> find_msg a ms = Some m \<Longrightarrow> delete_msg a ms = remove1 m ms"
proof (induction ms)
  case (Cons x ms)
  show ?case
  proof (cases "cm_addr x = a")
    case True
    then have "delete_msg a ms = ms"
      using Cons.prems(1) by (auto simp: delete_msg_def filter_id_conv dest: image_eqI [OF sym])
    then show ?thesis using True Cons.prems(2) by (simp add: delete_msg_def find_msg_def)
  next
    case False
    then show ?thesis
      using Cons by (auto simp: delete_msg_def find_msg_def dest: find_msg_Some [unfolded find_msg_def])
  qed
qed (simp add: find_msg_def)

lemma map_remove1: "x \<in> set xs \<Longrightarrow> count_list (map f (remove1 x xs)) a = count_list (remove1 (f x) (map f xs)) a"
proof (induction xs)
  case (Cons y xs)
  have "f x \<in> set (map f xs)" if "x \<in> set xs" using that by simp
  then have "x \<in> set xs \<Longrightarrow> 0 < count_list (map f xs) (f x)" by (simp only: count_list_pos)
  then show ?case using Cons by (auto simp: count_list_remove1)
qed simp

lemma sum_list_remove1: "x \<in> set xs \<Longrightarrow> (\<Sum>y\<leftarrow>remove1 x xs. f y) = (\<Sum>y\<leftarrow>xs. f y) - (f x :: int)"
  by (induction xs) auto

lemma update_msg_map:
  "(\<And>m. g (f m) = g m) \<Longrightarrow> map g (update_msg a f ms) = map g ms"
  by (auto simp: update_msg_def)

lemma update_msg_append [simp]: "update_msg a f (xs @ ys) = update_msg a f xs @ update_msg a f ys"
  by (simp add: update_msg_def)

text \<open>Updates that keep address, stored message and qos.\<close>

definition keeps_msg :: "(mosquitto_client_msg \<Rightarrow> mosquitto_client_msg) \<Rightarrow> bool" where
  "keeps_msg f \<longleftrightarrow> (\<forall>m. cm_addr (f m) = cm_addr m \<and> cm_store (f m) = cm_store m \<and> cm_qos (f m) = cm_qos m)"

lemma update_msg_filter12:
  "keeps_msg f \<Longrightarrow>
   map cm_store (filter (\<lambda>m. cm_qos m > 0) (update_msg a f ms)) = map cm_store (filter (\<lambda>m. cm_qos m > 0) ms)"
  by (induction ms) (auto simp: update_msg_def keeps_msg_def)

lemma sum_list_store: "(\<Sum>m\<leftarrow>ms. len (cm_store m)) = sum_list (map len (map cm_store ms))"
  by (simp add: comp_def)

lemma counts_ok_store:
  "counts_ok len md \<longleftrightarrow>
     (let rs = md_refs md; rs12 = map cm_store (filter (\<lambda>m. cm_qos m > 0) (md_msgs md))
      in md_msg_count md = int (length rs) \<and> md_msg_bytes md = sum_list (map len rs) \<and>
         md_msg_count12 md = int (length rs12) \<and> md_msg_bytes12 md = sum_list (map len rs12))"
  by (simp add: counts_ok_def md_refs_def Let_def comp_def)

lemma counts_ok_cong:
  "(\<And>a. a \<in> set (md_refs md) \<Longrightarrow> len' a = len a) \<Longrightarrow> counts_ok len md \<Longrightarrow> counts_ok len' md"
proof -
  assume l: "\<And>a. a \<in> set (md_refs md) \<Longrightarrow> len' a = len a" and c: "counts_ok len md"
  have "map len' (md_refs md) = map len (md_refs md)" using l by simp
  moreover have "map len' (map cm_store (filter (\<lambda>m. cm_qos m > 0) (md_msgs md))) =
      map len (map cm_store (filter (\<lambda>m. cm_qos m > 0) (md_msgs md)))"
    using l by (auto simp: md_refs_def)
  ultimately show ?thesis using c unfolding counts_ok_store Let_def by metis
qed

section \<open>Steps on the message data\<close>

text \<open>Changing a message without touching what is counted.\<close>

definition set_md :: "nat \<Rightarrow> (mosquitto_client_msg \<Rightarrow> mosquitto_client_msg) \<Rightarrow> mosquitto_msg_data \<Rightarrow> mosquitto_msg_data" where
  "set_md a f md = md\<lparr>md_inflight := update_msg a f (md_inflight md), md_queued := update_msg a f (md_queued md)\<rparr>"

lemma set_md_facts:
  assumes "keeps_msg f"
  shows "md_refs (set_md a f md) = md_refs md" "unique_msgs (set_md a f md) = unique_msgs md"
    "quota_ok (set_md a f md) = quota_ok md" "counts_ok len (set_md a f md) = counts_ok len md"
    "map cm_addr (md_queued (set_md a f md)) = map cm_addr (md_queued md)"
    "map cm_addr (md_inflight (set_md a f md)) = map cm_addr (md_inflight md)"
    "md_inflight_maximum (set_md a f md) = md_inflight_maximum md"
    "md_inflight_quota (set_md a f md) = md_inflight_quota md"
proof -
  have m: "md_msgs (set_md a f md) = update_msg a f (md_msgs md)" by (simp add: md_msgs_def set_md_def)
  have k: "\<And>m. cm_store (f m) = cm_store m" "\<And>m. cm_addr (f m) = cm_addr m" using assms by (auto simp: keeps_msg_def)
  show r: "md_refs (set_md a f md) = md_refs md" by (simp add: md_refs_def m update_msg_map k)
  show "unique_msgs (set_md a f md) = unique_msgs md" by (simp add: unique_msgs_def m update_msg_map k)
  show "quota_ok (set_md a f md) = quota_ok md" by (simp add: quota_ok_def set_md_def)
  have "md_msg_count (set_md a f md) = md_msg_count md" "md_msg_bytes (set_md a f md) = md_msg_bytes md"
    "md_msg_count12 (set_md a f md) = md_msg_count12 md" "md_msg_bytes12 (set_md a f md) = md_msg_bytes12 md"
    by (simp_all add: set_md_def)
  then show "counts_ok len (set_md a f md) = counts_ok len md"
    unfolding counts_ok_store r by (simp add: m update_msg_filter12 [OF assms])
  show "map cm_addr (md_queued (set_md a f md)) = map cm_addr (md_queued md)"
    "map cm_addr (md_inflight (set_md a f md)) = map cm_addr (md_inflight md)"
    by (simp_all add: set_md_def update_msg_map k)
qed (simp_all add: set_md_def)

lemma dequeue_facts:
  assumes "md_queued md \<noteq> []"
  shows "\<exists>md'. db__message_dequeue_first md = Some md' \<and>
    md_inflight md' = md_inflight md @ [hd (md_queued md)] \<and> md_queued md' = tl (md_queued md) \<and>
    md_refs md' = md_refs md \<and> (unique_msgs md' = unique_msgs md) \<and> (quota_ok md \<longrightarrow> quota_ok md') \<and>
    (counts_ok len md' = counts_ok len md) \<and> md_inflight_maximum md' = md_inflight_maximum md"
  using assms
  by (cases "md_queued md")
    (auto simp: db__message_dequeue_first_def Let_def md_refs_def md_msgs_def unique_msgs_def quota_ok_def
      counts_ok_def)

lemma quota_facts:
  "md_refs (increment_quota md) = md_refs md" "md_refs (decrement_quota md) = md_refs md"
  "unique_msgs (increment_quota md) = unique_msgs md" "unique_msgs (decrement_quota md) = unique_msgs md"
  "quota_ok md \<Longrightarrow> quota_ok (increment_quota md)" "quota_ok md \<Longrightarrow> quota_ok (decrement_quota md)"
  "counts_ok len (increment_quota md) = counts_ok len md" "counts_ok len (decrement_quota md) = counts_ok len md"
  "md_inflight (increment_quota md) = md_inflight md" "md_queued (increment_quota md) = md_queued md"
  "md_inflight (decrement_quota md) = md_inflight md" "md_queued (decrement_quota md) = md_queued md"
  by (auto simp: increment_quota_def decrement_quota_def md_refs_def md_msgs_def unique_msgs_def quota_ok_def
      counts_ok_def)

end
