(* ===== verification/Broker_Steps.thy ===== *)
theory Broker_Steps
  imports Broker_Inv
begin

text \<open>
  The steps that the operations of \<open>database.c\<close> are made of keep the invariant of
  \<open>Broker_Inv\<close>: changing a client message, sending, the quotas, moving the head of the queue
  into flight and removing a message. \<open>broker_inv True\<close> has the counters in it,
  \<open>broker_inv False\<close> leaves them out.
\<close>

named_theorems broker_steps \<open>what changing a client message keeps\<close>

definition broker_inv :: "bool \<Rightarrow> (nat \<Rightarrow> int) \<Rightarrow> broker \<Rightarrow> bool" where
  "broker_inv c E bk \<longleftrightarrow> safe_inv E bk \<and> (c \<longrightarrow> count_inv bk)"

abbreviation inflight_addrs :: "mosquitto_msg_direction \<Rightarrow> broker \<Rightarrow> nat list" where
  "inflight_addrs d bk \<equiv> map cm_addr (md_inflight (msgs_of d (bk_ctx bk)))"

abbreviation queued_addrs :: "mosquitto_msg_direction \<Rightarrow> broker \<Rightarrow> nat list" where
  "queued_addrs d bk \<equiv> map cm_addr (md_queued (msgs_of d (bk_ctx bk)))"

text \<open>What a step in one direction leaves alone.\<close>

text \<open>What identifies a client, and what its packets do not change while they are handled.\<close>

definition identity ::
  "mosquitto \<Rightarrow> string option \<times> nat \<times> mosquitto_client_state \<times> mosquitto__protocol \<times> (string option \<times> u16) list" where
  "identity ctx = (ctx_id ctx, ctx_max_qos ctx, ctx_state ctx, ctx_protocol ctx, ctx_aliases ctx)"

lemma identity_simps [simp]:
  "identity (ctx\<lparr>ctx_msgs_in := md\<rparr>) = identity ctx" "identity (ctx\<lparr>ctx_msgs_out := md\<rparr>) = identity ctx"
  "identity (ctx\<lparr>ctx_sent := xs\<rparr>) = identity ctx" "identity (ctx\<lparr>ctx_is_dropping := b\<rparr>) = identity ctx"
  "identity (ctx\<lparr>ctx_last_mid := mid\<rparr>) = identity ctx" "identity (ctx\<lparr>ctx_bridge := br\<rparr>) = identity ctx"
  by (simp_all add: identity_def)

lemma identity_set_msgs [simp]: "identity (set_msgs d md ctx) = identity ctx"
  by (simp add: set_msgs_def split: mosquitto_msg_direction.split)

definition dir_frame :: "mosquitto_msg_direction \<Rightarrow> broker \<Rightarrow> broker \<Rightarrow> bool" where
  "dir_frame d bk bk' \<longleftrightarrow>
     msgs_of (other_dir d) (bk_ctx bk') = msgs_of (other_dir d) (bk_ctx bk) \<and>
     db_frame (bk_db bk) (bk_db bk') \<and> identity (bk_ctx bk') = identity (bk_ctx bk) \<and>
     md_inflight_maximum (msgs_of d (bk_ctx bk')) = md_inflight_maximum (msgs_of d (bk_ctx bk))"

lemma dir_frame_refl [simp]: "dir_frame d bk bk"
  by (simp add: dir_frame_def)

lemma dir_frame_trans: "dir_frame d a b \<Longrightarrow> dir_frame d b c \<Longrightarrow> dir_frame d a c"
  by (auto simp: dir_frame_def intro: db_frame_trans)

lemma other_dir_simps [simp]: "other_dir mosq_md_in = mosq_md_out" "other_dir mosq_md_out = mosq_md_in"
  by (simp_all add: other_dir_def)

section \<open>Replacing parts of the state\<close>

lemma broker_inv_dir:
  "broker_inv c E bk \<longleftrightarrow>
     (let md = msgs_of d (bk_ctx bk); md' = msgs_of (other_dir d) (bk_ctx bk); len = plen (bk_db bk)
      in stores_ok E (bk_db bk) (md_refs md @ md_refs md') \<and>
         unique_msgs md \<and> unique_msgs md' \<and> quota_ok md \<and> quota_ok md' \<and>
         (c \<longrightarrow> counts_ok len md \<and> counts_ok len md'))"
  unfolding broker_inv_def safe_inv_dir [of E bk d] count_inv_dir [of bk d] Let_def by blast

lemma inv_set_msgs:
  assumes "broker_inv c E bk" and "md_refs md = md_refs (msgs_of d (bk_ctx bk))"
    and "unique_msgs md" and "quota_ok md"
    and "c \<Longrightarrow> counts_ok (plen (bk_db bk)) (msgs_of d (bk_ctx bk)) \<Longrightarrow> counts_ok (plen (bk_db bk)) md"
  shows "broker_inv c E (bk\<lparr>bk_ctx := set_msgs d md (bk_ctx bk)\<rparr>)"
  using assms unfolding broker_inv_dir [where d = d] by (simp add: Let_def)

lemma inv_ctx:
  "ctx_msgs_in ctx = ctx_msgs_in (bk_ctx bk) \<Longrightarrow> ctx_msgs_out ctx = ctx_msgs_out (bk_ctx bk) \<Longrightarrow>
   broker_inv c E bk \<Longrightarrow> broker_inv c E (bk\<lparr>bk_ctx := ctx\<rparr>)"
  by (simp add: broker_inv_def safe_inv_def count_inv_def ctx_refs_def)

lemma inv_db:
  assumes "db_msg_store db = db_msg_store (bk_db bk)"
    "db_msg_store_count db = db_msg_store_count (bk_db bk)"
    "db_msg_store_bytes db = db_msg_store_bytes (bk_db bk)"
    and "broker_inv c E bk"
  shows "broker_inv c E (bk\<lparr>bk_db := db\<rparr>)"
proof -
  have "store_at db = store_at (bk_db bk)" using assms(1) by (simp add: store_at_def [abs_def])
  moreover from this have "plen db = plen (bk_db bk)" by (simp add: plen_def [abs_def])
  ultimately show ?thesis
    using assms by (simp add: broker_inv_def safe_inv_def count_inv_def stores_ok_def)
qed

lemma set_msgs_simps [simp]:
  "ctx_msgs_in (set_msgs mosq_md_in md ctx) = md" "ctx_msgs_out (set_msgs mosq_md_out md ctx) = md"
  "ctx_msgs_in (set_msgs mosq_md_out md ctx) = ctx_msgs_in ctx"
  "ctx_msgs_out (set_msgs mosq_md_in md ctx) = ctx_msgs_out ctx"
  by (simp_all add: set_msgs_def)

lemma set_msgs_fields [simp]:
  "ctx_state (set_msgs d md ctx) = ctx_state ctx" "ctx_sock (set_msgs d md ctx) = ctx_sock ctx"
  "ctx_bridge (set_msgs d md ctx) = ctx_bridge ctx" "ctx_id (set_msgs d md ctx) = ctx_id ctx"
  "ctx_max_qos (set_msgs d md ctx) = ctx_max_qos ctx" "ctx_sent (set_msgs d md ctx) = ctx_sent ctx"
  "ctx_clean_start (set_msgs d md ctx) = ctx_clean_start ctx"
  by (cases d; simp add: set_msgs_def)+

section \<open>Changing a client message\<close>

lemma set_msg_eq:
  "set_msg d a f bk = bk\<lparr>bk_ctx := set_msgs d (set_md a f (msgs_of d (bk_ctx bk))) (bk_ctx bk)\<rparr>"
  by (simp add: set_msg_def set_md_def Let_def)

lemma set_msg_step [broker_steps]:
  assumes "keeps_msg f"
  shows "broker_inv c E (set_msg d a f bk) \<longleftrightarrow> broker_inv c E bk"
    "inflight_addrs d' (set_msg d a f bk) = inflight_addrs d' bk"
    "queued_addrs d' (set_msg d a f bk) = queued_addrs d' bk"
    "dir_frame d bk (set_msg d a f bk)" "bk_db (set_msg d a f bk) = bk_db bk"
proof -
  show "broker_inv c E (set_msg d a f bk) \<longleftrightarrow> broker_inv c E bk"
    unfolding broker_inv_dir [where d = d] by (simp add: set_msg_eq set_md_facts [OF assms] Let_def)
qed (auto simp: set_msg_eq set_md_facts [OF assms] dir_frame_def)

lemmas set_msg_lists [broker_steps] =
  set_msg_step(2,3) [where d' = mosq_md_in, simplified] set_msg_step(2,3) [where d' = mosq_md_out, simplified]

lemma keeps_msg_simps [simp]:
  "keeps_msg (\<lambda>m. m\<lparr>cm_state := g m\<rparr>)" "keeps_msg (\<lambda>m. m\<lparr>cm_timestamp := h m\<rparr>)"
  "keeps_msg (\<lambda>m. m\<lparr>cm_timestamp := h m, cm_state := g m\<rparr>)"
  "keeps_msg (\<lambda>m. m\<lparr>cm_state := g m, cm_timestamp := h m\<rparr>)"
  "keeps_msg (\<lambda>m. m\<lparr>cm_timestamp := h m, cm_dup := b, cm_state := g m\<rparr>)"
  by (simp_all add: keeps_msg_def)

section \<open>Sending and quotas\<close>

lemma send_msgs [simp]:
  "ctx_msgs_in (snd (send__publish net p ctx)) = ctx_msgs_in ctx"
  "ctx_msgs_out (snd (send__publish net p ctx)) = ctx_msgs_out ctx"
  "ctx_msgs_in (snd (send__pubrel net mid ctx)) = ctx_msgs_in ctx"
  "ctx_msgs_out (snd (send__pubrel net mid ctx)) = ctx_msgs_out ctx"
  "ctx_msgs_in (snd (send__pubrec net mid ctx)) = ctx_msgs_in ctx"
  "ctx_msgs_out (snd (send__pubrec net mid ctx)) = ctx_msgs_out ctx"
  by (simp_all add: send__publish_def send__pubrel_def send__pubrec_def Let_def)

lemma map_msgs_eq: "util__increment_send_quota ctx = set_msgs mosq_md_out (increment_quota (ctx_msgs_out ctx)) ctx"
  "util__decrement_send_quota ctx = set_msgs mosq_md_out (decrement_quota (ctx_msgs_out ctx)) ctx"
  "util__increment_receive_quota ctx = set_msgs mosq_md_in (increment_quota (ctx_msgs_in ctx)) ctx"
  "util__decrement_receive_quota ctx = set_msgs mosq_md_in (decrement_quota (ctx_msgs_in ctx)) ctx"
  by (simp_all add: util__increment_send_quota_def util__decrement_send_quota_def
      util__increment_receive_quota_def util__decrement_receive_quota_def set_msgs_def)

lemma inv_quota:
  assumes "broker_inv c E bk"
  shows "broker_inv c E (bk\<lparr>bk_ctx := util__increment_send_quota (bk_ctx bk)\<rparr>)"
    "broker_inv c E (bk\<lparr>bk_ctx := util__decrement_send_quota (bk_ctx bk)\<rparr>)"
    "broker_inv c E (bk\<lparr>bk_ctx := util__increment_receive_quota (bk_ctx bk)\<rparr>)"
    "broker_inv c E (bk\<lparr>bk_ctx := util__decrement_receive_quota (bk_ctx bk)\<rparr>)"
proof -
  have "unique_msgs (msgs_of d (bk_ctx bk))" "quota_ok (msgs_of d (bk_ctx bk))" for d
    using assms unfolding broker_inv_dir [where d = d] by (auto simp: Let_def)
  from this [of mosq_md_out] this [of mosq_md_in]
  show "broker_inv c E (bk\<lparr>bk_ctx := util__increment_send_quota (bk_ctx bk)\<rparr>)"
    "broker_inv c E (bk\<lparr>bk_ctx := util__decrement_send_quota (bk_ctx bk)\<rparr>)"
    "broker_inv c E (bk\<lparr>bk_ctx := util__increment_receive_quota (bk_ctx bk)\<rparr>)"
    "broker_inv c E (bk\<lparr>bk_ctx := util__decrement_receive_quota (bk_ctx bk)\<rparr>)"
    unfolding map_msgs_eq by (auto intro!: inv_set_msgs assms simp: quota_facts)
qed

section \<open>Queue to flight\<close>

lemma dequeue_step:
  assumes inv: "broker_inv c E bk" and q: "queued_addrs d bk = a # as"
  shows "\<exists>bk'. dequeue_first d bk = Some bk' \<and> broker_inv c E bk' \<and>
    inflight_addrs d bk' = inflight_addrs d bk @ [a] \<and> queued_addrs d bk' = as \<and> dir_frame d bk bk' \<and>
    bk_db bk' = bk_db bk"
proof -
  let ?md = "msgs_of d (bk_ctx bk)"
  have ne: "md_queued ?md \<noteq> []" using q by auto
  obtain md' where md': "db__message_dequeue_first ?md = Some md'"
    "md_inflight md' = md_inflight ?md @ [hd (md_queued ?md)]" "md_queued md' = tl (md_queued ?md)"
    "md_refs md' = md_refs ?md" "unique_msgs md' = unique_msgs ?md" "quota_ok ?md \<longrightarrow> quota_ok md'"
    "counts_ok (plen (bk_db bk)) md' = counts_ok (plen (bk_db bk)) ?md"
    "md_inflight_maximum md' = md_inflight_maximum ?md"
    using dequeue_facts [OF ne, of "plen (bk_db bk)"] by blast
  let ?bk = "bk\<lparr>bk_ctx := set_msgs d md' (bk_ctx bk)\<rparr>"
  have "dequeue_first d bk = Some ?bk" by (simp add: dequeue_first_def md'(1))
  moreover have "broker_inv c E ?bk"
    using inv md'(4-7) unfolding broker_inv_dir [where d = d] by (simp add: Let_def)
  moreover have "inflight_addrs d ?bk = inflight_addrs d bk @ [a]" "queued_addrs d ?bk = as"
    using q by (auto simp: md')
  moreover have "dir_frame d bk ?bk" by (simp add: dir_frame_def md')
  ultimately show ?thesis by (intro exI [of _ ?bk]) simp
qed

section \<open>Removing a message\<close>

lemma counts_remove1:
  assumes m: "m \<in> set (md_inflight md)" and c: "counts_ok len md"
    and md': "md_msgs md' = remove1 m (md_inflight md) @ md_queued md"
    "md_msg_count md' = md_msg_count md - 1" "md_msg_bytes md' = md_msg_bytes md - len (cm_store m)"
    "md_msg_count12 md' = md_msg_count12 md - (if cm_qos m > 0 then 1 else 0)"
    "md_msg_bytes12 md' = md_msg_bytes12 md - (if cm_qos m > 0 then len (cm_store m) else 0)"
  shows "counts_ok len md'"
proof -
  have f: "filter P (remove1 m xs) = (if P m then remove1 m (filter P xs) else filter P xs)" for P xs
    by (induction xs) auto
  have p: "0 < length (md_inflight md)" using m by (auto simp: length_pos_if_in_set)
  have p12: "cm_qos m > 0 \<Longrightarrow> 0 < length (filter (\<lambda>m. cm_qos m > 0) (md_inflight md))"
    using m by (metis (mono_tags, lifting) filter_empty_conv length_greater_0_conv)
  show ?thesis
    using m c p p12 unfolding counts_ok_def Let_def md'
    by (auto simp: f sum_list_remove1 length_remove1 md_msgs_def of_nat_diff Suc_leI)
qed

lemma message_remove_facts:
  assumes "find_msg a (md_inflight md) = Some m" and "store_at db (cm_store m) = Some s"
    and "db__msg_store_ref_dec (cm_store m) db = Some db'"
  shows "\<exists>md'. db__message_remove md a db = Some (md', db') \<and>
    md_inflight md' = delete_msg a (md_inflight md) \<and> md_queued md' = md_queued md \<and>
    md_msg_count md' = md_msg_count md - 1 \<and> md_msg_bytes md' = md_msg_bytes md - plen db (cm_store m) \<and>
    md_msg_count12 md' = md_msg_count12 md - (if cm_qos m > 0 then 1 else 0) \<and>
    md_msg_bytes12 md' = md_msg_bytes12 md - (if cm_qos m > 0 then plen db (cm_store m) else 0) \<and>
    md_inflight_quota md' = md_inflight_quota md \<and> md_inflight_maximum md' = md_inflight_maximum md"
  using assms by (auto simp: db__message_remove_def Let_def plen_def)

lemma remove_full:
  fixes bk :: broker and d :: mosquitto_msg_direction
  assumes inv: "broker_inv c E bk" and a: "a \<in> set (inflight_addrs d bk)"
  defines "md \<equiv> msgs_of d (bk_ctx bk)" and "other \<equiv> msgs_of (other_dir d) (bk_ctx bk)"
  shows "\<exists>m md' db'. find_msg a (md_inflight md) = Some m \<and>
    remove_msg d a bk = Some (bk\<lparr>bk_db := db', bk_ctx := set_msgs d md' (bk_ctx bk)\<rparr>) \<and>
    broker_inv c E (bk\<lparr>bk_db := db', bk_ctx := set_msgs d md' (bk_ctx bk)\<rparr>) \<and>
    md_inflight md' = delete_msg a (md_inflight md) \<and> md_queued md' = md_queued md \<and>
    md_msg_count md' = md_msg_count md - 1 \<and> md_msg_bytes md' = md_msg_bytes md - plen (bk_db bk) (cm_store m) \<and>
    md_msg_count12 md' = md_msg_count12 md - (if cm_qos m > 0 then 1 else 0) \<and>
    md_msg_bytes12 md' = md_msg_bytes12 md - (if cm_qos m > 0 then plen (bk_db bk) (cm_store m) else 0) \<and>
    md_inflight_quota md' = md_inflight_quota md \<and> md_inflight_maximum md' = md_inflight_maximum md \<and>
    (\<forall>b \<in> set (md_refs md' @ md_refs other). plen db' b = plen (bk_db bk) b) \<and> db_frame (bk_db bk) db'"
proof -
  let ?md = "msgs_of d (bk_ctx bk)" and ?other = "msgs_of (other_dir d) (bk_ctx bk)" and ?db = "bk_db bk"
  have ok: "stores_ok E ?db (md_refs ?md @ md_refs ?other)" and u: "unique_msgs ?md" "unique_msgs ?other"
    and qt: "quota_ok ?md" "quota_ok ?other"
    and cn: "c \<Longrightarrow> counts_ok (plen ?db) ?md" "c \<Longrightarrow> counts_ok (plen ?db) ?other"
    using inv unfolding broker_inv_dir [where d = d] by (auto simp: Let_def)
  obtain m where m: "find_msg a (md_inflight ?md) = Some m" using find_msg_in [of a "md_inflight ?md"] a by auto
  have ms: "m \<in> set (md_inflight ?md)" using find_msg_Some [OF m] by simp
  have d: "delete_msg a (md_inflight ?md) = remove1 m (md_inflight ?md)"
    using delete_msg_remove1 [OF _ m] u(1) by (simp add: unique_msgs_def md_msgs_def)
  have r: "cm_store m \<in> set (md_refs ?md @ md_refs ?other)" using ms by (auto simp: md_refs_def md_msgs_def)
  obtain s where s: "store_at ?db (cm_store m) = Some s" using stores_okD(1) [OF ok r] by auto
  obtain db' where db': "db__msg_store_ref_dec (cm_store m) ?db = Some db'"
    "stores_ok E db' (remove1 (cm_store m) (md_refs ?md @ md_refs ?other))"
    "\<forall>b \<in> set (remove1 (cm_store m) (md_refs ?md @ md_refs ?other)). plen db' b = plen ?db b" "db_frame ?db db'"
    using ref_dec_ok [OF ok r] by auto
  obtain md' where rem: "db__message_remove ?md a ?db = Some (md', db')"
    and md': "md_inflight md' = remove1 m (md_inflight ?md)" "md_queued md' = md_queued ?md"
      "md_msg_count md' = md_msg_count ?md - 1" "md_msg_bytes md' = md_msg_bytes ?md - plen ?db (cm_store m)"
      "md_msg_count12 md' = md_msg_count12 ?md - (if cm_qos m > 0 then 1 else 0)"
      "md_msg_bytes12 md' = md_msg_bytes12 ?md - (if cm_qos m > 0 then plen ?db (cm_store m) else 0)"
      "md_inflight_quota md' = md_inflight_quota ?md" "md_inflight_maximum md' = md_inflight_maximum ?md"
    using message_remove_facts [OF m s db'(1)] unfolding d by blast
  let ?bk = "bk\<lparr>bk_db := db', bk_ctx := set_msgs d md' (bk_ctx bk)\<rparr>"
  have "count_list (md_refs md' @ md_refs ?other) b =
      count_list (remove1 (cm_store m) (md_refs ?md @ md_refs ?other)) b" for b
    using map_remove1 [of m "md_msgs ?md" cm_store b] ms r
    by (simp add: md_refs_def md_msgs_def md' remove1_append count_list_remove1)
  from stores_ok_count [OF db'(2) this] have ok': "stores_ok E db' (md_refs md' @ md_refs ?other)" .
  have sub: "set (md_refs md' @ md_refs ?other) \<subseteq> set (remove1 (cm_store m) (md_refs ?md @ md_refs ?other))"
    using \<open>\<And>b. count_list (md_refs md' @ md_refs ?other) b =
      count_list (remove1 (cm_store m) (md_refs ?md @ md_refs ?other)) b\<close>
    by (metis count_list_pos subsetI)
  have "distinct (map cm_addr (remove1 m (md_inflight ?md)))" if "distinct (map cm_addr (md_inflight ?md))"
    using that d by (metis delete_msg_def distinct_map_filter)
  then have u': "unique_msgs md'"
    using u(1) set_remove1_subset [of m "md_inflight ?md"] by (auto simp: unique_msgs_def md_msgs_def md')
  have "c \<Longrightarrow> counts_ok (plen ?db) md'"
    by (rule counts_remove1 [OF ms]) (simp_all add: cn md' md_msgs_def)
  then have "c \<Longrightarrow> counts_ok (plen db') md'" "c \<Longrightarrow> counts_ok (plen db') ?other"
    using counts_ok_cong [of md' "plen db'" "plen ?db"] counts_ok_cong [of ?other "plen db'" "plen ?db"]
      cn(2) sub db'(3) by auto
  then have "broker_inv c E ?bk"
    unfolding broker_inv_dir [where d = d] using ok' u' u(2) qt by (simp add: Let_def quota_ok_def md')
  moreover have "remove_msg d a bk = Some ?bk" by (simp add: remove_msg_def rem)
  moreover have "\<forall>b \<in> set (md_refs md' @ md_refs ?other). plen db' b = plen ?db b"
    using sub db'(3) by blast
  ultimately show ?thesis
    unfolding md_def other_def
    using m md' d db'(4)
    by (intro exI [of _ m] exI [of _ md'] exI [of _ db'] conjI) simp_all
qed

lemma remove_step:
  assumes "broker_inv c E bk" and "a \<in> set (inflight_addrs d bk)"
  shows "\<exists>bk'. remove_msg d a bk = Some bk' \<and> broker_inv c E bk' \<and>
    inflight_addrs d bk' = filter (\<lambda>b. b \<noteq> a) (inflight_addrs d bk) \<and>
    queued_addrs d bk' = queued_addrs d bk \<and> dir_frame d bk bk'"
  using remove_full [OF assms] by (auto simp: dir_frame_def delete_msg_def filter_map comp_def)

end
