(* ===== verification/Broker_Safety.thy ===== *)
theory Broker_Safety
  imports Broker_Steps
begin

text \<open>
  The operations of \<open>Database\<close> and \<open>Database_Ops\<close> never follow a pointer that is gone and keep
  the invariant: writing what is in flight, moving queued messages into flight, and the
  acknowledgements.
\<close>

section \<open>Results of operations\<close>

text \<open>The operation ends, the invariant holds after it, and the rest of the state is left alone.\<close>

definition runs :: "bool \<Rightarrow> (nat \<Rightarrow> int) \<Rightarrow> mosquitto_msg_direction \<Rightarrow> broker \<Rightarrow> (int \<times> broker) option \<Rightarrow> bool" where
  "runs c E d bk r \<longleftrightarrow> (\<exists>rc bk'. r = Some (rc, bk') \<and> broker_inv c E bk' \<and> dir_frame d bk bk')"

definition same_lists :: "mosquitto_msg_direction \<Rightarrow> broker \<Rightarrow> broker \<Rightarrow> bool" where
  "same_lists d bk bk' \<longleftrightarrow> inflight_addrs d bk' = inflight_addrs d bk \<and>
     queued_addrs d bk' = queued_addrs d bk \<and> dir_frame d bk bk'"

lemma same_lists_refl [simp]: "same_lists d bk bk"
  by (simp add: same_lists_def)

lemma same_lists_trans: "same_lists d a b \<Longrightarrow> same_lists d b e \<Longrightarrow> same_lists d a e"
  by (auto simp: same_lists_def intro: dir_frame_trans)

lemma same_lists_set_msg [simp]: "keeps_msg f \<Longrightarrow> same_lists d bk (set_msg d a f bk)"
  by (simp add: same_lists_def set_msg_step)

lemma same_lists_ctx:
  "ctx_msgs_in ctx = ctx_msgs_in (bk_ctx bk) \<Longrightarrow> ctx_msgs_out ctx = ctx_msgs_out (bk_ctx bk) \<Longrightarrow>
   identity ctx = identity (bk_ctx bk) \<Longrightarrow> same_lists d bk (bk\<lparr>bk_ctx := ctx\<rparr>)"
  by (cases d) (simp_all add: same_lists_def dir_frame_def)

lemma same_lists_quota [simp]:
  "same_lists mosq_md_out bk (bk\<lparr>bk_ctx := util__increment_send_quota (bk_ctx bk)\<rparr>)"
  "same_lists mosq_md_out bk (bk\<lparr>bk_ctx := util__decrement_send_quota (bk_ctx bk)\<rparr>)"
  "same_lists mosq_md_in bk (bk\<lparr>bk_ctx := util__increment_receive_quota (bk_ctx bk)\<rparr>)"
  "same_lists mosq_md_in bk (bk\<lparr>bk_ctx := util__decrement_receive_quota (bk_ctx bk)\<rparr>)"
  by (auto simp: same_lists_def dir_frame_def map_msgs_eq quota_facts increment_quota_def decrement_quota_def
      util__increment_send_quota_def util__decrement_send_quota_def util__increment_receive_quota_def util__decrement_receive_quota_def)

lemma runs_trans: "dir_frame d bk bk' \<Longrightarrow> runs c E d bk' r \<Longrightarrow> runs c E d bk r"
  by (auto simp: runs_def intro: dir_frame_trans)

lemma runs_Some: "broker_inv c E bk' \<Longrightarrow> dir_frame d bk bk' \<Longrightarrow> runs c E d bk (Some (rc, bk'))"
  by (simp add: runs_def)

section \<open>Writing one message\<close>

definition single_ok :: "bool \<Rightarrow> (nat \<Rightarrow> int) \<Rightarrow> nat \<Rightarrow> broker \<Rightarrow> (int \<times> broker) option \<Rightarrow> bool" where
  "single_ok c E a bk r \<longleftrightarrow>
     (\<exists>rc bk'. r = Some (rc, bk') \<and> broker_inv c E bk' \<and> dir_frame mosq_md_out bk bk' \<and>
        queued_addrs mosq_md_out bk' = queued_addrs mosq_md_out bk \<and>
        filter (\<lambda>b. b \<noteq> a) (inflight_addrs mosq_md_out bk') = filter (\<lambda>b. b \<noteq> a) (inflight_addrs mosq_md_out bk))"

lemma single_Some:
  "broker_inv c E bk' \<Longrightarrow> same_lists mosq_md_out bk bk' \<Longrightarrow> single_ok c E a bk (Some (rc, bk'))"
  by (simp add: single_ok_def same_lists_def)

lemma single_remove:
  assumes "broker_inv c E bk'" and "same_lists mosq_md_out bk bk'" and "a \<in> set (inflight_addrs mosq_md_out bk)"
  shows "single_ok c E a bk (map_option (\<lambda>bk. (0, bk)) (remove_msg mosq_md_out a bk'))"
proof -
  have "a \<in> set (inflight_addrs mosq_md_out bk')" using assms by (simp add: same_lists_def)
  from remove_step [OF assms(1) this] obtain bk2 where bk2: "remove_msg mosq_md_out a bk' = Some bk2"
    "broker_inv c E bk2" "inflight_addrs mosq_md_out bk2 = filter (\<lambda>b. b \<noteq> a) (inflight_addrs mosq_md_out bk')"
    "queued_addrs mosq_md_out bk2 = queued_addrs mosq_md_out bk'" "dir_frame mosq_md_out bk' bk2" by blast
  have "filter (\<lambda>b. b \<noteq> a) (inflight_addrs mosq_md_out bk2) =
        filter (\<lambda>b. b \<noteq> a) (inflight_addrs mosq_md_out bk)"
    unfolding bk2(3) using assms(2) by (simp add: same_lists_def)
  moreover have "dir_frame mosq_md_out bk bk2"
    using assms(2) bk2(5) by (auto simp: same_lists_def intro: dir_frame_trans)
  moreover have "queued_addrs mosq_md_out bk2 = queued_addrs mosq_md_out bk"
    using assms(2) bk2(4) by (simp add: same_lists_def)
  ultimately show ?thesis
    using bk2(1,2) unfolding single_ok_def by (intro exI [of _ 0] exI [of _ bk2]) simp
qed

lemma broker_inv_lookup:
  assumes inv: "broker_inv c E bk" and "a \<in> set (map cm_addr (md_inflight md) @ map cm_addr (md_queued md))"
    and md: "md = msgs_of d (bk_ctx bk)"
  shows "\<exists>m s. m \<in> set (md_msgs md) \<and> cm_addr m = a \<and> store_at (bk_db bk) (cm_store m) = Some s"
proof -
  obtain m where m: "m \<in> set (md_msgs md)" "cm_addr m = a" using assms(2) by (auto simp: md_msgs_def)
  have "stores_ok E (bk_db bk) (md_refs md @ md_refs (msgs_of (other_dir d) (bk_ctx bk)))"
    using inv unfolding broker_inv_dir [where d = d] md by (simp add: Let_def)
  from stores_okD(1) [OF this, of "cm_store m"] m show ?thesis by (auto simp: md_refs_def)
qed

lemma inflight_lookup:
  assumes inv: "broker_inv c E bk" and a: "a \<in> set (inflight_addrs d bk)"
  shows "\<exists>m s. find_msg a (md_inflight (msgs_of d (bk_ctx bk))) = Some m \<and> cm_addr m = a \<and>
    store_at (bk_db bk) (cm_store m) = Some s"
proof -
  let ?md = "msgs_of d (bk_ctx bk)"
  obtain m where m: "find_msg a (md_inflight ?md) = Some m" using find_msg_in [of a "md_inflight ?md"] a by auto
  have u: "distinct (map cm_addr (md_msgs ?md))"
    using inv unfolding broker_inv_dir [where d = d] by (simp add: Let_def unique_msgs_def)
  have mm: "m \<in> set (md_msgs ?md)" "cm_addr m = a" using find_msg_Some [OF m] by (auto simp: md_msgs_def)
  obtain m' s where "m' \<in> set (md_msgs ?md)" "cm_addr m' = a" "store_at (bk_db bk) (cm_store m') = Some s"
    using broker_inv_lookup [OF inv _ refl, of a d] a by auto
  moreover from this mm u have "m' = m" by (auto simp: distinct_map dest: inj_onD)
  ultimately show ?thesis using m mm by auto
qed

lemma queued_lookup:
  assumes inv: "broker_inv c E bk" and a: "a \<in> set (queued_addrs d bk)"
  shows "\<exists>m s. find_msg a (md_queued (msgs_of d (bk_ctx bk))) = Some m \<and> cm_addr m = a \<and>
    store_at (bk_db bk) (cm_store m) = Some s"
proof -
  let ?md = "msgs_of d (bk_ctx bk)"
  obtain m where m: "find_msg a (md_queued ?md) = Some m" using find_msg_in [of a "md_queued ?md"] a by auto
  have u: "distinct (map cm_addr (md_msgs ?md))"
    using inv unfolding broker_inv_dir [where d = d] by (simp add: Let_def unique_msgs_def)
  have mm: "m \<in> set (md_msgs ?md)" "cm_addr m = a" using find_msg_Some [OF m] by (auto simp: md_msgs_def)
  obtain m' s where "m' \<in> set (md_msgs ?md)" "cm_addr m' = a" "store_at (bk_db bk) (cm_store m') = Some s"
    using broker_inv_lookup [OF inv _ refl, of a d] a by auto
  moreover from this mm u have "m' = m" by (auto simp: distinct_map dest: inj_onD)
  ultimately show ?thesis using m mm by auto
qed

lemma sent_identity [simp]:
  "identity (snd (send__publish net p ctx)) = identity ctx" "identity (snd (send__pubrel net mid ctx)) = identity ctx"
  "identity (snd (send__pubrec net mid ctx)) = identity ctx"
  by (simp_all add: send__publish_def send__pubrel_def send__pubrec_def Let_def)

lemma sent_keeps:
  assumes "broker_inv c E bk"
  shows "broker_inv c E (bk\<lparr>bk_ctx := snd (send__publish net p (bk_ctx bk))\<rparr>)"
    "same_lists d bk (bk\<lparr>bk_ctx := snd (send__publish net p (bk_ctx bk))\<rparr>)"
    "broker_inv c E (bk\<lparr>bk_ctx := snd (send__pubrel net mid (bk_ctx bk))\<rparr>)"
    "same_lists d bk (bk\<lparr>bk_ctx := snd (send__pubrel net mid (bk_ctx bk))\<rparr>)"
    "broker_inv c E (bk\<lparr>bk_ctx := snd (send__pubrec net mid (bk_ctx bk))\<rparr>)"
    "same_lists d bk (bk\<lparr>bk_ctx := snd (send__pubrec net mid (bk_ctx bk))\<rparr>)"
  using assms by (simp_all add: inv_ctx same_lists_ctx)

lemma write_single_ok:
  assumes inv: "broker_inv c E bk" and a: "a \<in> set (inflight_addrs mosq_md_out bk)"
  shows "single_ok c E a bk (write_inflight_out_single net a bk)"
proof -
  obtain m s where m: "find_msg a (md_inflight (ctx_msgs_out (bk_ctx bk))) = Some m"
    "store_at (bk_db bk) (cm_store m) = Some s"
    using inflight_lookup [OF inv a] by auto
  have send: "single_ok c E a bk
     (let (rc, ctx) = send__publish net p (bk_ctx bk); bk = bk\<lparr>bk_ctx := ctx\<rparr>
      in if rc = 0 \<or> rc = k then map_option (\<lambda>bk. (0, bk)) (remove_msg mosq_md_out a bk) else Some (rc, bk))"
    "keeps_msg f \<Longrightarrow> single_ok c E a bk
     (let (rc, ctx) = send__publish net p (bk_ctx bk); bk = bk\<lparr>bk_ctx := ctx\<rparr>
      in if rc = 0 then Some (0, set_msg mosq_md_out a f bk)
         else if rc = k then map_option (\<lambda>bk. (0, bk)) (remove_msg mosq_md_out a bk) else Some (rc, bk))"
    "keeps_msg f \<Longrightarrow> single_ok c E a bk
     (let (rc, ctx) = send__pubrel net mid (bk_ctx bk); bk = bk\<lparr>bk_ctx := ctx\<rparr>
      in if rc = 0 then Some (0, set_msg mosq_md_out a f bk) else Some (rc, bk))" for p k f mid
    using sent_keeps [OF inv] a
    by (auto simp: Let_def split_beta broker_steps
        intro!: single_Some single_remove intro: same_lists_trans [OF _ same_lists_set_msg])
  have exp: "single_ok c E a bk (map_option (\<lambda>bk. (0, bk)) (remove_msg mosq_md_out a
      (if b then bk\<lparr>bk_ctx := util__increment_send_quota (bk_ctx bk)\<rparr> else bk)))" for b
    using inv_quota(1) [OF inv] inv a by (cases b) (auto intro!: single_remove)
  have split: "single_ok c E a bk r \<Longrightarrow> single_ok c E a bk r' \<Longrightarrow> single_ok c E a bk (if b then r else r')" for b r r'
    by simp
  have st: "single_ok c E a bk (Some (0, bk))" using inv by (simp add: single_Some)
  show ?thesis
    unfolding write_inflight_out_single_def m option.case
    by (unfold Let_def, rule split, rule exp, cases "cm_state m")
      (simp_all only: mosquitto_msg_state.case st send [unfolded Let_def] keeps_msg_simps)
qed

section \<open>Writing what is in flight\<close>

lemma write_loop_ok:
  "broker_inv c E bk \<Longrightarrow> distinct as \<Longrightarrow> set as \<subseteq> set (inflight_addrs mosq_md_out bk) \<Longrightarrow>
   runs c E mosq_md_out bk (write_inflight_loop net as bk)"
proof (induction as arbitrary: bk)
  case (Cons a as)
  obtain rc bk' where bk': "write_inflight_out_single net a bk = Some (rc, bk')" "broker_inv c E bk'"
    "dir_frame mosq_md_out bk bk'"
    "filter (\<lambda>b. b \<noteq> a) (inflight_addrs mosq_md_out bk') = filter (\<lambda>b. b \<noteq> a) (inflight_addrs mosq_md_out bk)"
    using write_single_ok [OF Cons.prems(1), of a net] Cons.prems(3) unfolding single_ok_def by auto
  have "set as \<subseteq> set (filter (\<lambda>b. b \<noteq> a) (inflight_addrs mosq_md_out bk))" using Cons.prems(2,3) by auto
  then have "set as \<subseteq> set (inflight_addrs mosq_md_out bk')" unfolding bk'(4) [symmetric] by auto
  then have "runs c E mosq_md_out bk' (write_inflight_loop net as bk')"
    using Cons.IH [OF bk'(2)] Cons.prems(2) by simp
  from runs_trans [OF bk'(3) this] show ?case
    using bk' by (auto intro: runs_Some)
qed (simp add: runs_Some)

lemma inflight_distinct: "broker_inv c E bk \<Longrightarrow> distinct (inflight_addrs d bk)"
  "broker_inv c E bk \<Longrightarrow> distinct (queued_addrs d bk)"
  unfolding broker_inv_dir [where d = d] by (auto simp: Let_def unique_msgs_def md_msgs_def)

lemma write_all_ok:
  "broker_inv c E bk \<Longrightarrow> runs c E mosq_md_out bk (db__message_write_inflight_out_all net bk)"
  unfolding db__message_write_inflight_out_all_def
  using write_loop_ok inflight_distinct(1) [of c E bk mosq_md_out] by (simp add: runs_Some)

text \<open>The messages from the last one back: a suffix of the list, never empty.\<close>

lemma pending_tail_suffix: "ms \<noteq> [] \<Longrightarrow> \<exists>pre. ms = pre @ pending_tail ms"
proof -
  assume "ms \<noteq> []"
  have t: "xs = rev (dropWhile P (rev xs)) @ rev (takeWhile P (rev xs))" for P :: "mosquitto_client_msg \<Rightarrow> bool" and xs
    by (metis rev_append rev_rev_ident takeWhile_dropWhile_id)
  let ?P = "\<lambda>m. is_publish_state (cm_state m)"
  have "ms = (hd ms # rev (dropWhile ?P (rev (tl ms)))) @ rev (takeWhile ?P (rev (tl ms)))"
    using t [of "tl ms" ?P] \<open>ms \<noteq> []\<close> by (metis append_Cons list.collapse)
  then have "\<exists>pre. ms = pre @ rev (takeWhile ?P (rev (tl ms)))" by (rule exI)
  moreover have "\<exists>pre. ms = pre @ ms" by (rule exI [of _ "[]"]) simp
  ultimately show ?thesis unfolding pending_tail_def Let_def by (auto simp only: split: if_split)
qed

lemma write_latest_ok:
  assumes inv: "broker_inv c E bk"
  shows "runs c E mosq_md_out bk (db__message_write_inflight_out_latest net bk)"
proof (cases "md_inflight (ctx_msgs_out (bk_ctx bk)) = []")
  case True
  then show ?thesis using inv by (simp add: db__message_write_inflight_out_latest_def runs_Some)
next
  case False
  let ?ms = "md_inflight (ctx_msgs_out (bk_ctx bk))"
  obtain pre where pre: "?ms = pre @ pending_tail ?ms" using pending_tail_suffix [OF False] by blast
  have e: "inflight_addrs mosq_md_out bk = map cm_addr pre @ map cm_addr (pending_tail ?ms)"
    using arg_cong [OF pre, of "map cm_addr"] by simp
  have "distinct (map cm_addr (pending_tail ?ms))" "set (map cm_addr (pending_tail ?ms)) \<subseteq> set (inflight_addrs mosq_md_out bk)"
    using inflight_distinct(1) [OF inv, of mosq_md_out] unfolding e by auto
  then have l: "runs c E mosq_md_out bk (write_inflight_loop net (map cm_addr (pending_tail ?ms)) bk)"
    using write_loop_ok [OF inv] by blast
  have "single_ok c E (cm_addr (hd ?ms)) bk (write_inflight_out_single net (cm_addr (hd ?ms)) bk)"
    using write_single_ok [OF inv] False by simp
  then have "runs c E mosq_md_out bk (write_inflight_out_single net (cm_addr (hd ?ms)) bk)"
    by (auto simp: single_ok_def runs_def)
  then show ?thesis
    using l inv by (simp add: db__message_write_inflight_out_latest_def Let_def runs_Some)
qed

section \<open>Moving queued messages into flight\<close>

lemma set_dequeue:
  assumes inv: "broker_inv c E bk" and "queued_addrs d bk = a # as" and "keeps_msg f"
  shows "\<exists>bk'. dequeue_first d (set_msg d b f bk) = Some bk' \<and> broker_inv c E bk' \<and>
    inflight_addrs d bk' = inflight_addrs d bk @ [a] \<and> queued_addrs d bk' = as \<and> dir_frame d bk bk' \<and>
    bk_db bk' = bk_db bk"
proof -
  have "broker_inv c E (set_msg d b f bk)" "queued_addrs d (set_msg d b f bk) = a # as"
    using assms by (simp_all add: broker_steps)
  from dequeue_step [OF this] obtain bk' where "dequeue_first d (set_msg d b f bk) = Some bk'" "broker_inv c E bk'"
    "inflight_addrs d bk' = inflight_addrs d bk @ [a]" "queued_addrs d bk' = as"
    "dir_frame d (set_msg d b f bk) bk'" "bk_db bk' = bk_db bk"
    by (auto simp: broker_steps assms(3))
  then show ?thesis using dir_frame_trans [OF set_msg_step(4) [OF assms(3)]] by blast
qed

lemma write_queued_out_loop_ok:
  "broker_inv c E bk \<Longrightarrow> as = queued_addrs mosq_md_out bk \<Longrightarrow>
   runs c E mosq_md_out bk (write_queued_out_loop as bk)"
proof (induction as arbitrary: bk)
  case (Cons a as)
  let ?f = "\<lambda>m. m\<lparr>cm_state := publish_state (cm_qos m) (cm_state m)\<rparr>"
  obtain bk' where bk': "dequeue_first mosq_md_out (set_msg mosq_md_out a ?f bk) = Some bk'"
    "broker_inv c E bk'" "queued_addrs mosq_md_out bk' = as" "dir_frame mosq_md_out bk bk'"
    using set_dequeue [OF Cons.prems(1) Cons.prems(2) [symmetric], of ?f a] by auto
  show ?case
    using runs_trans [OF bk'(4) Cons.IH [OF bk'(2)]] bk'(1,3) Cons.prems(1)
    by (simp add: Let_def runs_Some)
qed (simp add: runs_Some)

lemma write_queued_out_ok:
  "broker_inv c E bk \<Longrightarrow> runs c E mosq_md_out bk (db__message_write_queued_out bk)"
  by (simp add: db__message_write_queued_out_def write_queued_out_loop_ok runs_Some)

text \<open>
  The other loops over a queue skip messages, so that the addresses that are left are a
  suffix of the queue.
\<close>

lemma dequeue_suffix:
  assumes inv: "broker_inv c E bk" and q: "queued_addrs d bk = pre @ a # as" and "keeps_msg f"
  shows "\<exists>bk' pre'. dequeue_first d (set_msg d a f bk) = Some bk' \<and> broker_inv c E bk' \<and>
    queued_addrs d bk' = pre' @ as \<and> dir_frame d bk bk' \<and> bk_db bk' = bk_db bk \<and>
    set (inflight_addrs d bk) \<subseteq> set (inflight_addrs d bk')"
proof (cases pre)
  case Nil
  then have "queued_addrs d bk = a # as" using q by simp
  from set_dequeue [OF inv this assms(3), of a] show ?thesis by (metis append_Nil set_append sup_ge1)
next
  case (Cons p ps)
  then have "queued_addrs d bk = p # (ps @ a # as)" using q by simp
  from set_dequeue [OF inv this assms(3), of a] obtain bk' where
    "dequeue_first d (set_msg d a f bk) = Some bk'" "broker_inv c E bk'"
    "inflight_addrs d bk' = inflight_addrs d bk @ [p]"
    "queued_addrs d bk' = (ps @ [a]) @ as" "dir_frame d bk bk'" "bk_db bk' = bk_db bk" by auto
  then show ?thesis by (metis set_append sup_ge1)
qed

lemma write_queued_in_loop_ok:
  "broker_inv c E bk \<Longrightarrow> queued_addrs mosq_md_in bk = pre @ as \<Longrightarrow>
   runs c E mosq_md_in bk (write_queued_in_loop net as bk)"
proof (induction as arbitrary: bk pre)
  case (Cons a as)
  obtain m s where m: "find_msg a (md_queued (ctx_msgs_in (bk_ctx bk))) = Some m"
    using queued_lookup [OF Cons.prems(1), of a mosq_md_in] unfolding Cons.prems(2) by auto
  have skip: "runs c E mosq_md_in bk (write_queued_in_loop net as bk)"
    using Cons.IH [of bk "pre @ [a]"] Cons.prems by simp
  let ?f = "\<lambda>m. m\<lparr>cm_state := mosq_ms_send_pubrec\<rparr>"
  obtain bk' pre' where bk': "dequeue_first mosq_md_in (set_msg mosq_md_in a ?f bk) = Some bk'"
    "broker_inv c E bk'" "queued_addrs mosq_md_in bk' = pre' @ as" "dir_frame mosq_md_in bk bk'"
    using dequeue_suffix [OF Cons.prems, of ?f] by auto
  obtain rc ctx where send: "send__pubrec net (cm_mid m) (bk_ctx bk') = (rc, ctx)" by fastforce
  let ?bk = "bk'\<lparr>bk_ctx := ctx\<rparr>" and ?g = "\<lambda>m. m\<lparr>cm_state := mosq_ms_wait_for_pubrel\<rparr>"
  have k: "broker_inv c E ?bk" "same_lists mosq_md_in bk' ?bk"
    using sent_keeps(5,6) [OF bk'(2), where net = net and mid = "cm_mid m"] send by auto
  have f1: "dir_frame mosq_md_in bk ?bk"
    using bk'(4) k(2) by (auto simp: same_lists_def intro: dir_frame_trans)
  have f2: "dir_frame mosq_md_in bk (set_msg mosq_md_in a ?g ?bk)"
    by (rule dir_frame_trans [OF f1 set_msg_step(4)]) simp
  have "runs c E mosq_md_in (set_msg mosq_md_in a ?g ?bk) (write_queued_in_loop net as (set_msg mosq_md_in a ?g ?bk))"
    using Cons.IH [of "set_msg mosq_md_in a ?g ?bk" pre'] k bk'(3) by (simp add: broker_steps same_lists_def)
  then have go: "runs c E mosq_md_in bk (write_queued_in_loop net as (set_msg mosq_md_in a ?g ?bk))"
    by (rule runs_trans [OF f2])
  show ?case
    using m skip go f1 k(1) Cons.prems(1) by (simp add: bk'(1) send Let_def runs_Some)
qed (simp add: runs_Some)

lemma write_queued_in_ok:
  "broker_inv c E bk \<Longrightarrow> runs c E mosq_md_in bk (db__message_write_queued_in net bk)"
  using write_queued_in_loop_ok [of c E bk "[]"] by (simp add: db__message_write_queued_in_def runs_Some)

section \<open>Acknowledgements\<close>

lemma delete_scan_found:
  "delete_scan mid st qos ms i = Inr (j, Some a) \<Longrightarrow> a \<in> cm_addr ` set ms"
  by (induction mid st qos ms i rule: delete_scan.induct) (auto simp: Let_def split: if_splits)

lemma delete_outgoing_queue_ok:
  "broker_inv c E bk \<Longrightarrow> as = queued_addrs mosq_md_out bk \<Longrightarrow>
   \<exists>bk'. delete_outgoing_queue as i bk = Some bk' \<and> broker_inv c E bk' \<and> dir_frame mosq_md_out bk bk'"
proof (induction as arbitrary: bk i)
  case (Cons a as)
  let ?f = "\<lambda>m. m\<lparr>cm_timestamp := db_now_s (bk_db bk), cm_state := publish_state (cm_qos m) (cm_state m)\<rparr>"
  obtain bk' where bk': "dequeue_first mosq_md_out (set_msg mosq_md_out a ?f bk) = Some bk'"
    "broker_inv c E bk'" "queued_addrs mosq_md_out bk' = as" "dir_frame mosq_md_out bk bk'"
    using set_dequeue [OF Cons.prems(1) Cons.prems(2) [symmetric], of ?f a] by auto
  obtain bk2 where "delete_outgoing_queue as (i + 1) bk' = Some bk2" "broker_inv c E bk2" "dir_frame mosq_md_out bk' bk2"
    using Cons.IH [OF bk'(2) bk'(3) [symmetric]] by blast
  then show ?case
    using bk' Cons.prems(1) by (auto simp: Let_def intro: dir_frame_trans)
qed simp

lemma delete_outgoing_ok:
  assumes inv: "broker_inv c E bk"
  shows "runs c E mosq_md_out bk (db__message_delete_outgoing net mid st qos bk)"
proof (cases "delete_scan mid st qos (md_inflight (ctx_msgs_out (bk_ctx bk))) 0")
  case (Inl u)
  then show ?thesis using inv by (simp add: db__message_delete_outgoing_def runs_Some)
next
  case (Inr r)
  obtain i found where r: "r = (i, found)" by fastforce
  let ?rem = "case found of None \<Rightarrow> Some bk | Some a \<Rightarrow> remove_msg mosq_md_out a bk"
  obtain bk1 where bk1: "?rem = Some bk1" "broker_inv c E bk1" "dir_frame mosq_md_out bk bk1"
  proof (cases found)
    case None
    then show ?thesis using that [of bk] inv by simp
  next
    case (Some a)
    then have "a \<in> set (inflight_addrs mosq_md_out bk)" using delete_scan_found [of mid st qos _ 0 i a] Inr r by simp
    from remove_step [OF inv this] show ?thesis using that Some by auto
  qed
  obtain bk2 where bk2: "delete_outgoing_queue (queued_addrs mosq_md_out bk1) i bk1 = Some bk2" "broker_inv c E bk2"
    "dir_frame mosq_md_out bk1 bk2"
    using delete_outgoing_queue_ok [OF bk1(2) refl] by blast
  let ?bk = "bk2\<lparr>bk_db := (bk_db bk2)\<lparr>db_persistence_changes := db_persistence_changes (bk_db bk2) + 1\<rparr>\<rparr>"
  have "broker_inv c E ?bk" by (rule inv_db) (simp_all add: bk2(2))
  moreover have "dir_frame mosq_md_out bk2 ?bk" by (simp add: dir_frame_def db_frame_def)
  ultimately have "runs c E mosq_md_out bk (db__message_write_inflight_out_latest net ?bk)"
    using bk1(3) bk2(3) by (meson dir_frame_trans runs_trans write_latest_ok)
  then show ?thesis
    using Inr bk1(1) bk2(1) by (simp add: db__message_delete_outgoing_def r)
qed

lemma update_outgoing_ok:
  "broker_inv c E bk \<Longrightarrow> runs c E mosq_md_out bk (Some (db__message_update_outgoing mid st qos bk))"
  by (auto simp: db__message_update_outgoing_def set_msg_step split: option.split intro!: runs_Some)

lemma remove_incoming_ok:
  assumes inv: "broker_inv c E bk"
  shows "runs c E mosq_md_in bk (db__message_remove_incoming mid bk)"
proof (cases "find (\<lambda>m. cm_mid m = mid) (md_inflight (ctx_msgs_in (bk_ctx bk)))")
  case None
  then show ?thesis using inv by (simp add: db__message_remove_incoming_def runs_Some)
next
  case (Some m)
  then have mi: "m \<in> set (md_inflight (ctx_msgs_in (bk_ctx bk)))" by (auto simp: find_Some_iff)
  then have a: "cm_addr m \<in> set (inflight_addrs mosq_md_in bk)" by simp
  have "stores_ok E (bk_db bk) (md_refs (ctx_msgs_in (bk_ctx bk)) @ md_refs (ctx_msgs_out (bk_ctx bk)))"
    using inv unfolding broker_inv_dir [where d = mosq_md_in] by (simp add: Let_def)
  from stores_okD(1) [OF this, of "cm_store m"] mi obtain s where "store_at (bk_db bk) (cm_store m) = Some s"
    by (auto simp: md_refs_def md_msgs_def)
  then show ?thesis
    using Some remove_step [OF inv a] inv by (auto simp: db__message_remove_incoming_def runs_def)
qed

end
