(* ===== verification/Broker_Ops_Safety.thy ===== *)
theory Broker_Ops_Safety
  imports Broker_Safety
begin

text \<open>
  Inserting, deleting, storing, reconnecting and publishing keep the invariant of the broker,
  and never follow a pointer that is gone.
\<close>

section \<open>Inserting\<close>

lemma counts_append:
  assumes "counts_ok len md" and "0 < cm_qos msg \<longleftrightarrow> 0 < qos"
  shows "counts_ok len (append_msg msg qos (len (cm_store msg)) md)"
  using assms unfolding counts_ok_def append_msg_def Let_def
  by (auto simp: md_msgs_def)

lemma append_facts:
  "md_inflight_maximum (append_msg msg qos l md) = md_inflight_maximum md"
  "quota_ok (append_msg msg qos l md) = quota_ok md"
  "count_list (md_refs (append_msg msg qos l md)) a = count_list (cm_store msg # md_refs md) a"
  "cm_addr msg \<notin> cm_addr ` set (md_msgs md) \<Longrightarrow> unique_msgs md \<Longrightarrow> unique_msgs (append_msg msg qos l md)"
  by (auto simp: append_msg_def Let_def quota_ok_def md_refs_def md_msgs_def unique_msgs_def)

lemma append_step:
  assumes inv: "broker_inv c E bk" and s: "store_at (bk_db bk) (cm_store msg) = Some s"
    and fresh: "cm_addr msg \<notin> cm_addr ` set (md_msgs (msgs_of d (bk_ctx bk)))"
    and q: "c \<Longrightarrow> 0 < cm_qos msg \<longleftrightarrow> 0 < qos"
    and inc: "db__msg_store_ref_inc (cm_store msg) (bk_db bk) = Some db'"
  defines "bk' \<equiv> bk\<lparr>bk_db := db', bk_ctx := set_msgs d (append_msg msg qos (uint (ms_payloadlen s)) (msgs_of d (bk_ctx bk))) (bk_ctx bk)\<rparr>"
  shows "broker_inv c E bk' \<and> dir_frame d bk bk' \<and> store_at db' (cm_store msg) \<noteq> None"
proof -
  let ?md = "msgs_of d (bk_ctx bk)" and ?other = "msgs_of (other_dir d) (bk_ctx bk)" and ?db = "bk_db bk"
  let ?md' = "append_msg msg qos (uint (ms_payloadlen s)) ?md"
  have ok: "stores_ok E ?db (md_refs ?md @ md_refs ?other)" and u: "unique_msgs ?md" "unique_msgs ?other"
    and qt: "quota_ok ?md" "quota_ok ?other"
    and cn: "c \<Longrightarrow> counts_ok (plen ?db) ?md" "c \<Longrightarrow> counts_ok (plen ?db) ?other"
    using inv unfolding broker_inv_dir [where d = d] by (auto simp: Let_def)
  have db': "stores_ok E db' (cm_store msg # md_refs ?md @ md_refs ?other)" "\<And>b. plen db' b = plen ?db b"
    "db_frame ?db db'" "store_at db' (cm_store msg) \<noteq> None"
    using ref_inc_ok [OF ok, of "cm_store msg"] s inc by auto
  have "stores_ok E db' (md_refs ?md' @ md_refs ?other)"
    by (rule stores_ok_count [OF db'(1)]) (simp add: append_facts(3))
  moreover have "c \<Longrightarrow> counts_ok (plen db') ?md'" "c \<Longrightarrow> counts_ok (plen db') ?other"
  proof -
    assume c
    have e: "plen db' = plen ?db" using db'(2) by (rule ext)
    have "counts_ok (plen ?db) (append_msg msg qos (plen ?db (cm_store msg)) ?md)"
      by (rule counts_append [OF cn(1) [OF \<open>c\<close>] q [OF \<open>c\<close>]])
    then show "counts_ok (plen db') ?md'" unfolding e using s by (simp add: plen_def)
    show "counts_ok (plen db') ?other" unfolding e by (rule cn(2) [OF \<open>c\<close>])
  qed
  ultimately have "broker_inv c E bk'"
    unfolding broker_inv_dir [where d = d] bk'_def using u qt append_facts(4) [OF fresh u(1)]
    by (simp add: Let_def append_facts)
  then show ?thesis using db' by (simp add: bk'_def dir_frame_def append_facts)
qed

lemma stores_ok_update:
  assumes ok: "stores_ok E db rs"
    and "\<And>s. ms_ref_count (f s) = ms_ref_count s" "\<And>s. ms_payloadlen (f s) = ms_payloadlen s"
    "\<And>s. None \<notin> set (ms_dest_ids s) \<Longrightarrow> None \<notin> set (ms_dest_ids (f s))"
  shows "stores_ok E (update_store a f db) rs"
  using assms unfolding stores_ok_def by (auto simp: store_bytes_update)

lemma inv_dest_ids:
  fixes a :: nat and cid :: string
  assumes inv: "broker_inv c E bk"
  defines "bk' \<equiv> bk\<lparr>bk_db := update_store a (\<lambda>s. s\<lparr>ms_dest_ids := ms_dest_ids s @ [Some cid]\<rparr>) (bk_db bk)\<rparr>"
  shows "broker_inv c E bk' \<and> dir_frame d bk bk'"
proof -
  let ?f = "\<lambda>s. s\<lparr>ms_dest_ids := ms_dest_ids s @ [Some cid]\<rparr>"
  have "plen (update_store a ?f (bk_db bk)) = plen (bk_db bk)" by (rule ext, rule plen_update) simp
  moreover have "stores_ok E (update_store a ?f (bk_db bk)) (ctx_refs (bk_ctx bk))"
    by (rule stores_ok_update) (use inv in \<open>auto simp: broker_inv_def safe_inv_def\<close>)
  ultimately show ?thesis
    using inv by (auto simp: bk'_def broker_inv_def safe_inv_def count_inv_def dir_frame_def)
qed

lemma insert_finish_ok:
  assumes inv: "broker_inv c E bk"
  shows "runs c E d bk (insert_finish net d update msg rc bk)"
proof -
  define ctx1 where "ctx1 = (case ctx_bridge (bk_ctx bk) of
                   None \<Rightarrow> bk_ctx bk
                 | Some b \<Rightarrow>
                     if br_start_type b = bst_lazy \<and> ctx_sock (bk_ctx bk) = INVALID_SOCKET \<and>
                       md_msg_count (ctx_msgs_out (bk_ctx bk)) \<ge> br_threshold b
                     then (bk_ctx bk)\<lparr>ctx_bridge := Some (b\<lparr>br_lazy_reconnect := True\<rparr>)\<rparr> else bk_ctx bk)"
  define ctx2 where "ctx2 = (if d = mosq_md_out \<and> cm_qos msg > 0 then util__decrement_send_quota ctx1 else ctx1)"
  let ?bk1 = "bk\<lparr>bk_ctx := ctx1\<rparr>" and ?bk2 = "bk\<lparr>bk_ctx := ctx2\<rparr>"
  have m: "ctx_msgs_in ctx1 = ctx_msgs_in (bk_ctx bk)" "ctx_msgs_out ctx1 = ctx_msgs_out (bk_ctx bk)"
    "identity ctx1 = identity (bk_ctx bk)"
    by (auto simp: ctx1_def split: option.split)
  have i1: "broker_inv c E ?bk1" using m(1,2) inv by (rule inv_ctx)
  have "same_lists d bk ?bk1" using m by (rule same_lists_ctx)
  then have f1: "dir_frame d bk ?bk1" by (simp add: same_lists_def)
  have i2: "broker_inv c E ?bk2" using inv_quota(2) [OF i1] i1 by (simp add: ctx2_def)
  have "d = mosq_md_out \<Longrightarrow> dir_frame d ?bk1 (?bk1\<lparr>bk_ctx := util__decrement_send_quota (bk_ctx ?bk1)\<rparr>)"
    using same_lists_quota(2) [of ?bk1] unfolding same_lists_def by simp
  then have f2: "dir_frame d bk ?bk2"
    using f1 dir_frame_trans [OF f1] by (auto simp: ctx2_def)
  have w: "runs c E d bk (case db__message_write_inflight_out_latest net ?bk2 of
      None \<Rightarrow> None
    | Some (rc, bk) \<Rightarrow> if rc \<noteq> 0 then Some (rc, bk) else db__message_write_queued_out bk)"
    if "d = mosq_md_out"
    using write_latest_ok [OF i2, of net] f2 write_queued_out_ok [of c E] that
    by (fastforce simp: runs_def intro: dir_frame_trans)
  have "insert_finish net d update msg rc bk =
    (if d = mosq_md_out \<and> update then
       (case db__message_write_inflight_out_latest net ?bk2 of
          None \<Rightarrow> None
        | Some (rc, bk) \<Rightarrow> if rc \<noteq> 0 then Some (rc, bk) else db__message_write_queued_out bk)
     else Some (rc, ?bk2))"
    by (simp only: insert_finish_def Let_def ctx1_def ctx2_def)
  then show ?thesis using w f2 i2 by (simp add: runs_Some)
qed

lemma dest_id_seen_Some: "None \<notin> set ids \<Longrightarrow> dest_id_seen cid ids = Some (Some cid \<in> set ids)"
  by (induction cid ids rule: dest_id_seen.induct) auto

lemma insert_refused_Some: "None \<notin> set (ms_dest_ids store) \<Longrightarrow> insert_refused cfg ctx dir qos retain store \<noteq> None"
  by (simp add: insert_refused_def dest_id_seen_Some split: option.split bool.split)

lemma insert_refused_id: "insert_refused cfg ctx dir qos retain store = Some None \<Longrightarrow> \<exists>i. ctx_id ctx = Some i"
  by (cases "ctx_id ctx") (simp_all add: insert_refused_def)

lemma insert_state_valid:
  "qos \<le> 2 \<Longrightarrow> insert_state cfg ctx dir qos = Inr (st, rc) \<Longrightarrow> st \<noteq> mosq_ms_invalid"
  by (auto simp: insert_state_def publish_state_def split: if_splits mosquitto_msg_direction.splits)

lemma insert_ok:
  assumes inv: "broker_inv c E bk" and s: "store_at (bk_db bk) stored = Some store"
    and fresh: "addr \<notin> cm_addr ` set (md_msgs (msgs_of dir (bk_ctx bk)))"
    and q2: "qos \<le> 2" and q: "c \<Longrightarrow> 0 < qos \<Longrightarrow> 0 < ctx_max_qos (bk_ctx bk)"
    and dup: "\<And>cid. ctx_id (bk_ctx bk) = Some cid \<Longrightarrow> alloc (length cid + 1)"
  shows "runs c E dir bk (db__message_insert alloc net addr mid dir qos retain stored properties update bk)"
proof -
  let ?cfg = "db_config (bk_db bk)" and ?ctx = "bk_ctx bk"
  have "None \<notin> set (ms_dest_ids store)"
    using inv s by (auto simp: broker_inv_def safe_inv_def stores_ok_def)
  then obtain ref where ref: "insert_refused ?cfg ?ctx dir qos retain store = Some ref"
    using insert_refused_Some by blast
  show ?thesis
  proof (cases "ref = None \<and> (\<exists>st rc. insert_state ?cfg ?ctx dir qos = Inr (st, rc)) \<and> alloc sizeof_client_msg")
    case False
    have drop: "broker_inv c E (bk\<lparr>bk_ctx := ?ctx\<lparr>ctx_is_dropping := True\<rparr>\<rparr>)"
      "dir_frame dir bk (bk\<lparr>bk_ctx := ?ctx\<lparr>ctx_is_dropping := True\<rparr>\<rparr>)"
      using inv same_lists_ctx [of "?ctx\<lparr>ctx_is_dropping := True\<rparr>" bk dir]
      by (auto simp: same_lists_def intro: inv_ctx)
    have per: "broker_inv c E (bk\<lparr>bk_db := (bk_db bk)\<lparr>db_persistence_changes := n\<rparr>\<rparr>)"
      "dir_frame dir bk (bk\<lparr>bk_db := (bk_db bk)\<lparr>db_persistence_changes := n\<rparr>\<rparr>)" for n
      using inv by (auto intro: inv_db simp: dir_frame_def db_frame_def)
    show ?thesis
      using False inv drop per insert_state_valid [OF q2, of ?cfg ?ctx dir]
      by (auto simp: db__message_insert_def s ref Let_def runs_Some split: option.split sum.split)
  next
    case True
    then obtain st rc where st: "insert_state ?cfg ?ctx dir qos = Inr (st, rc)" "ref = None" by blast
    have stv: "st \<noteq> mosq_ms_invalid" by (rule insert_state_valid [OF q2 st(1)])
    define db1 where "db1 = (if st = mosq_ms_queued
                       then (bk_db bk)\<lparr>db_persistence_changes := db_persistence_changes (bk_db bk) + 1\<rparr> else bk_db bk)"
    let ?bk1 = "bk\<lparr>bk_db := db1\<rparr>"
    have i1: "broker_inv c E ?bk1" by (rule inv_db) (simp_all add: db1_def inv)
    have f1: "dir_frame dir bk ?bk1" by (simp add: db1_def dir_frame_def db_frame_def)
    have s1: "store_at db1 stored = Some store" using s by (simp add: db1_def store_at_def)
    define msg where "msg = \<lparr>cm_addr = addr, cm_store = stored, cm_properties = properties,
                         cm_timestamp = db_now_s db1, cm_mid = mid,
                         cm_qos = (if qos > ctx_max_qos ?ctx then ctx_max_qos ?ctx else qos),
                         cm_retain = retain, cm_direction = dir, cm_state = st, cm_dup = False\<rparr>"
    have m: "cm_store msg = stored" "cm_addr msg = addr" by (simp_all add: msg_def)
    define db2 where "db2 = the (db__msg_store_ref_inc stored db1)"
    have db2: "db__msg_store_ref_inc stored db1 = Some db2"
      using s1 by (simp add: db2_def db__msg_store_ref_inc_def)
    have t2: "db_now_s db2 = db_now_s db1"
      using db2 s1 by (auto simp: db__msg_store_ref_inc_def update_store_def)
    let ?bk2 = "?bk1\<lparr>bk_db := db2, bk_ctx := set_msgs dir (append_msg msg qos (uint (ms_payloadlen store)) (msgs_of dir ?ctx)) ?ctx\<rparr>"
    have 2: "broker_inv c E ?bk2" "dir_frame dir ?bk1 ?bk2"
      using append_step [OF i1, of msg store dir qos db2] s1 fresh q db2 by (auto simp: msg_def)
    have f2: "dir_frame dir bk ?bk2" by (rule dir_frame_trans [OF f1 2(2)])
    define cid where "cid = (case ctx_id ?ctx of None \<Rightarrow> [] | Some i \<Rightarrow> i)"
    let ?bk3 = "?bk2\<lparr>bk_db := update_store stored (\<lambda>s. s\<lparr>ms_dest_ids := ms_dest_ids s @ [Some cid]\<rparr>) (bk_db ?bk2)\<rparr>"
    have 3: "broker_inv c E ?bk3" "dir_frame dir ?bk2 ?bk3" using inv_dest_ids [OF 2(1), of stored cid dir] by auto
    have fin: "runs c E dir bk (insert_finish net dir update msg rc ?bk2)"
      "runs c E dir bk (insert_finish net dir update msg rc ?bk3)"
      by (rule runs_trans [OF f2 insert_finish_ok [OF 2(1)]],
          rule runs_trans [OF dir_frame_trans [OF f2 3(2)] insert_finish_ok [OF 3(1)]])
    have "\<exists>i. ctx_id ?ctx = Some i" using insert_refused_id ref st(2) by blast
    then have al: "alloc (length cid + 1)" using dup by (auto simp: cid_def)
    have eq: "db__message_insert alloc net addr mid dir qos retain stored properties update bk =
      (if \<not> cfg_allow_duplicate_messages ?cfg \<and> dir = mosq_md_out \<and> \<not> retain then
         if \<not> alloc (8 * (length (ms_dest_ids store) + 1)) then Some (err_code MOSQ_ERR_NOMEM, ?bk2)
         else insert_finish net dir update msg rc ?bk3
       else insert_finish net dir update msg rc ?bk2)"
      using True al stv
      unfolding db__message_insert_def Let_def s ref st option.case sum.case prod.case
        db1_def [symmetric] cid_def [symmetric]
      by (simp add: db2 t2 msg_def db1_def [symmetric])
    show ?thesis
      unfolding eq
      by (simp only: if_distrib [of "runs c E dir bk"] fin runs_Some [OF 2(1) f2] if_cancel)
  qed
qed

section \<open>Deleting and storing\<close>

lemma delete_list_ok:
  "stores_ok E db (map cm_store ms @ rs) \<Longrightarrow>
   \<exists>db'. delete_list_loop ms db = Some db' \<and> stores_ok E db' rs \<and> (\<forall>b \<in> set rs. plen db' b = plen db b) \<and>
     db_frame db db'"
proof (induction ms arbitrary: db)
  case (Cons m ms)
  obtain db1 where 1: "db__msg_store_ref_dec (cm_store m) db = Some db1" "stores_ok E db1 (map cm_store ms @ rs)"
    "\<forall>b \<in> set (map cm_store ms @ rs). plen db1 b = plen db b" "db_frame db db1"
    using ref_dec_ok [OF Cons.prems, of "cm_store m"] by auto
  obtain db2 where "delete_list_loop ms db1 = Some db2" "stores_ok E db2 rs" "\<forall>b \<in> set rs. plen db2 b = plen db1 b"
    "db_frame db1 db2"
    using Cons.IH [OF 1(2)] by blast
  then show ?case using 1 by (auto intro: db_frame_trans)
qed simp

lemma clear_msgs_ok:
  assumes inv: "broker_inv c E bk"
  shows "\<exists>bk'. clear_msgs d bk = Some bk' \<and> broker_inv c E bk' \<and> dir_frame d bk bk' \<and>
    inflight_addrs d bk' = [] \<and> queued_addrs d bk' = []"
proof -
  let ?md = "msgs_of d (bk_ctx bk)" and ?other = "msgs_of (other_dir d) (bk_ctx bk)" and ?db = "bk_db bk"
  have ok: "stores_ok E ?db (map cm_store (md_inflight ?md) @ map cm_store (md_queued ?md) @ md_refs ?other)"
    and r: "unique_msgs ?other" "quota_ok ?md" "quota_ok ?other" "c \<Longrightarrow> counts_ok (plen ?db) ?other"
    using inv unfolding broker_inv_dir [where d = d] by (auto simp: Let_def md_refs_def md_msgs_def)
  obtain db1 where 1: "delete_list_loop (md_inflight ?md) ?db = Some db1"
    "stores_ok E db1 (map cm_store (md_queued ?md) @ md_refs ?other)"
    "\<forall>b \<in> set (map cm_store (md_queued ?md) @ md_refs ?other). plen db1 b = plen ?db b" "db_frame ?db db1"
    using delete_list_ok [OF ok] by blast
  obtain db2 where 2: "delete_list_loop (md_queued ?md) db1 = Some db2" "stores_ok E db2 (md_refs ?other)"
    "\<forall>b \<in> set (md_refs ?other). plen db2 b = plen db1 b" "db_frame db1 db2"
    using delete_list_ok [OF 1(2)] by blast
  have "c \<Longrightarrow> counts_ok (plen db2) ?other"
    by (rule counts_ok_cong [OF _ r(4)]) (use 1(3) 2(3) in auto)
  then have inv': "broker_inv c E (bk\<lparr>bk_db := db2,
      bk_ctx := set_msgs d (?md\<lparr>md_inflight := [], md_queued := [], md_msg_bytes := 0, md_msg_bytes12 := 0,
        md_msg_count := 0, md_msg_count12 := 0\<rparr>) (bk_ctx bk)\<rparr>)" (is "broker_inv c E ?bk")
    unfolding broker_inv_dir [where d = d] using 2(2) r
    by (simp add: Let_def md_refs_def md_msgs_def unique_msgs_def quota_ok_def counts_ok_def)
  have "clear_msgs d bk = Some ?bk" by (simp add: clear_msgs_def Let_def 1(1) 2(1))
  with inv' show ?thesis
    using db_frame_trans [OF 1(4) 2(4)] by (intro exI [of _ ?bk]) (simp add: dir_frame_def)
qed

definition ends_well :: "bool \<Rightarrow> (nat \<Rightarrow> int) \<Rightarrow> (int \<times> broker) option \<Rightarrow> bool" where
  "ends_well c E r \<longleftrightarrow> (\<exists>rc bk'. r = Some (rc, bk') \<and> broker_inv c E bk')"

lemma runs_ends_well: "runs c E d bk r \<Longrightarrow> ends_well c E r"
  by (auto simp: runs_def ends_well_def)

lemma messages_delete_ok:
  assumes inv: "broker_inv c E bk"
  shows "ends_well c E (db__messages_delete force_free bk)"
proof -
  have 1: "\<exists>bk1. (if b then clear_msgs mosq_md_in bk else Some bk) = Some bk1 \<and> broker_inv c E bk1" for b
    using clear_msgs_ok [OF inv, of mosq_md_in] inv by auto
  have 2: "\<exists>bk2. (if b then clear_msgs mosq_md_out bk1 else Some bk1) = Some bk2 \<and> broker_inv c E bk2"
    if "broker_inv c E bk1" for b bk1
    using clear_msgs_ok [OF that, of mosq_md_out] that by auto
  have "ends_well c E (Option.bind (if b then clear_msgs mosq_md_in bk else Some bk) (\<lambda>bk.
         Option.bind (if b' then clear_msgs mosq_md_out bk else Some bk) (\<lambda>bk. Some (0, bk))))" for b b'
  proof -
    obtain bk1 where bk1: "(if b then clear_msgs mosq_md_in bk else Some bk) = Some bk1" "broker_inv c E bk1"
      using 1 by blast
    obtain bk2 where "(if b' then clear_msgs mosq_md_out bk1 else Some bk1) = Some bk2" "broker_inv c E bk2"
      using 2 [OF bk1(2)] by blast
    with bk1 show ?thesis by (simp only: ends_well_def bind.bind_lunit option.inject) blast
  qed
  then show ?thesis by (simp only: db__messages_delete_def Let_def)
qed

lemma store_add_ok:
  assumes ok: "stores_ok E db rs" and "store_at db a = None" and "ms_ref_count s = 0" "ms_dest_ids s = []"
    and "db_msg_store db' = (a, s) # db_msg_store db" "db_msg_store_count db' = db_msg_store_count db + 1"
      "db_msg_store_bytes db' = db_msg_store_bytes db + ucast (ms_payloadlen s)"
  shows "stores_ok E db' rs"
proof -
  have "a \<notin> set rs" "E a = 0" "a \<notin> fst ` set (db_msg_store db)"
    using assms stores_okD(1,2) [OF ok, of a] by (auto simp: store_at_def map_of_eq_None_iff)
  moreover from this(1) have "count_list rs a = 0" by (simp add: count_list_0_iff)
  ultimately show ?thesis
    using assms unfolding stores_ok_def by (auto simp: store_at_def store_bytes_def)
qed

lemma message_store_ok:
  assumes inv: "broker_inv c E bk" and new: "store_at (bk_db bk) addr = None" and rc0: "ms_ref_count store = 0"
    and r: "db__message_store alloc source addr store expiry store_id origin (bk_db bk) = (rc, db')"
  shows "broker_inv c E (bk\<lparr>bk_db := db'\<rparr>) \<and>
    (rc = MOSQ_ERR_SUCCESS \<longrightarrow> store_at db' addr \<noteq> None)"
proof (cases "rc = MOSQ_ERR_SUCCESS")
  case False
  then have "db' = bk_db bk" using r by (auto simp: db__message_store_def Let_def split: if_splits)
  then show ?thesis using inv False by simp
next
  case True
  define s where "s = snd (hd (db_msg_store db'))"
  have d: "db_msg_store db' = (addr, s) # db_msg_store (bk_db bk)"
    "db_msg_store_count db' = db_msg_store_count (bk_db bk) + 1"
    "db_msg_store_bytes db' = db_msg_store_bytes (bk_db bk) + ucast (ms_payloadlen s)"
    "ms_ref_count s = 0" "ms_dest_ids s = []"
    using True r rc0 unfolding s_def
    by (auto simp: db__message_store_def Let_def db__msg_store_add_def split: if_splits)
  have "stores_ok E (bk_db bk) (ctx_refs (bk_ctx bk))" using inv by (simp add: broker_inv_def safe_inv_def)
  from store_add_ok [OF this new d(4,5,1,2,3)] have "stores_ok E db' (ctx_refs (bk_ctx bk))" .
  moreover have p: "plen db' b = plen (bk_db bk) b" if "b \<noteq> addr" for b
    using that by (simp add: plen_def store_at_def d(1))
  have "addr \<notin> set (ctx_refs (bk_ctx bk))"
    using inv new stores_okD(1) [of E "bk_db bk" "ctx_refs (bk_ctx bk)" addr]
    by (auto simp: broker_inv_def safe_inv_def)
  then have "counts_ok (plen db') md"
    if "counts_ok (plen (bk_db bk)) md" "md = ctx_msgs_in (bk_ctx bk) \<or> md = ctx_msgs_out (bk_ctx bk)" for md
    by (intro counts_ok_cong [OF _ that(1)] p) (use that in \<open>auto simp: ctx_refs_def\<close>)
  ultimately have "broker_inv c E (bk\<lparr>bk_db := db'\<rparr>)"
    using inv by (simp add: broker_inv_def safe_inv_def count_inv_def)
  then show ?thesis using d by (simp add: store_at_def)
qed

end
