(* ===== verification/Broker_Reset.thy ===== *)
theory Broker_Reset
  imports Broker_Ops_Safety
begin

text \<open>
  Reconnecting and publishing: \<open>db__message_reconnect_reset\<close> counts every message afresh, so
  that the counters are right after it whatever they were before;
  \<open>db__message_release_incoming\<close> and \<open>db__messages_easy_queue\<close> end in the delivery to the
  subscribers, of which they ask that it keeps the invariant.
\<close>

section \<open>What is counted\<close>

definition msg_key :: "mosquitto_client_msg \<Rightarrow> nat \<times> nat \<times> nat" where
  "msg_key m = (cm_addr m, cm_store m, cm_qos m)"

definition counts_on :: "(nat \<Rightarrow> int) \<Rightarrow> (nat \<times> nat \<times> nat) list \<Rightarrow> mosquitto_msg_data \<Rightarrow> bool" where
  "counts_on len ks md \<longleftrightarrow>
     (let ks12 = filter (\<lambda>(a, s, q). q > 0) ks
      in md_msg_count md = int (length ks) \<and> md_msg_bytes md = (\<Sum>(a, s, q)\<leftarrow>ks. len s) \<and>
         md_msg_count12 md = int (length ks12) \<and> md_msg_bytes12 md = (\<Sum>(a, s, q)\<leftarrow>ks12. len s))"

lemma counts_ok_on: "counts_ok len md \<longleftrightarrow> counts_on len (map msg_key (md_msgs md)) md"
  by (simp add: counts_ok_def counts_on_def msg_key_def filter_map comp_def Let_def)

lemma counts_on_snoc:
  "counts_on len ks md \<Longrightarrow> uint (ms_payloadlen s) = len (cm_store m) \<Longrightarrow>
   counts_on len (ks @ [msg_key m]) (count_msg s (cm_qos m) md)"
  by (auto simp: counts_on_def count_msg_def msg_key_def Let_def)

lemma counts_on_quota [simp]:
  "counts_on len ks (increment_quota md) = counts_on len ks md"
  "counts_on len ks (decrement_quota md) = counts_on len ks md"
  "counts_on len ks (set_md a f md) = counts_on len ks md"
  by (simp_all add: counts_on_def increment_quota_def decrement_quota_def set_md_def)

lemma counts_on_reset [simp]: "counts_on len [] (reset_counts md)"
  by (simp add: counts_on_def reset_counts_def)

lemma update_msg_keys: "keeps_msg f \<Longrightarrow> map msg_key (update_msg a f ms) = map msg_key ms"
  by (rule update_msg_map) (simp add: msg_key_def keeps_msg_def)

lemma find_msg_key:
  assumes "distinct (map cm_addr ms)" and "map msg_key ms = pre @ k # post"
  shows "\<exists>m. find_msg (fst k) ms = Some m \<and> msg_key m = k"
proof -
  have "k \<in> set (map msg_key ms)" by (simp add: assms(2))
  then obtain m where "m \<in> set ms" "msg_key m = k" by auto
  moreover from this have "find_msg (cm_addr m) ms = Some m" using find_msg_unique [OF assms(1)] by blast
  ultimately show ?thesis by (auto simp: msg_key_def)
qed

section \<open>The state while it is counted\<close>

abbreviation inflight_keys :: "mosquitto_msg_direction \<Rightarrow> broker \<Rightarrow> (nat \<times> nat \<times> nat) list" where
  "inflight_keys d bk \<equiv> map msg_key (md_inflight (msgs_of d (bk_ctx bk)))"

abbreviation queued_keys :: "mosquitto_msg_direction \<Rightarrow> broker \<Rightarrow> (nat \<times> nat \<times> nat) list" where
  "queued_keys d bk \<equiv> map msg_key (md_queued (msgs_of d (bk_ctx bk)))"

text \<open>
  While direction \<open>d\<close> is counted: \<open>ks\<close> are the messages counted so far, \<open>len\<close> the payload
  lengths; \<open>other\<close> is the message data of the other direction.
\<close>

definition counting ::
  "(nat \<Rightarrow> int) \<Rightarrow> mosquitto_msg_direction \<Rightarrow> mosquitto_msg_data \<Rightarrow> (nat \<Rightarrow> int) \<Rightarrow> (nat \<times> nat \<times> nat) list \<Rightarrow> broker \<Rightarrow> bool" where
  "counting len d other E ks bk \<longleftrightarrow>
     broker_inv False E bk \<and> msgs_of (other_dir d) (bk_ctx bk) = other \<and>
     counts_on len ks (msgs_of d (bk_ctx bk)) \<and> (\<forall>a \<in> set (ctx_refs (bk_ctx bk)). plen (bk_db bk) a = len a)"

lemma inv_False_msgs:
  assumes "broker_inv False E bk" and "md_refs md = md_refs (msgs_of d (bk_ctx bk))"
    and "unique_msgs md" and "quota_ok md"
  shows "broker_inv False E (bk\<lparr>bk_ctx := set_msgs d md (bk_ctx bk)\<rparr>)"
  using assms by (intro inv_set_msgs) auto

lemma ctx_refs_set: "set (ctx_refs ctx) = set (md_refs (msgs_of d ctx)) \<union> set (md_refs (msgs_of (other_dir d) ctx))"
  by (cases d) (auto simp: ctx_refs_def)

text \<open>Counting the next message; with it the quota may go down.\<close>

lemma counting_step:
  assumes c: "counting len d other E ks bk" and m: "m \<in> set (md_msgs (msgs_of d (bk_ctx bk)))"
    and s: "store_at (bk_db bk) (cm_store m) = Some s"
    and g: "g = (\<lambda>md. md) \<or> g = decrement_quota"
  defines "bk' \<equiv> bk\<lparr>bk_ctx := set_msgs d (g (count_msg s (cm_qos m) (msgs_of d (bk_ctx bk)))) (bk_ctx bk)\<rparr>"
  shows "counting len d other E (ks @ [msg_key m]) bk' \<and> inflight_keys d bk' = inflight_keys d bk \<and>
    queued_keys d bk' = queued_keys d bk"
proof -
  let ?md = "msgs_of d (bk_ctx bk)" and ?md' = "count_msg s (cm_qos m) (msgs_of d (bk_ctx bk))"
  have l: "uint (ms_payloadlen s) = len (cm_store m)"
    using c m s by (auto simp: counting_def ctx_refs_set [of _ d] md_refs_def plen_def dest!: bspec)
  have f: "md_refs ?md' = md_refs ?md" "unique_msgs ?md' = unique_msgs ?md" "quota_ok ?md' = quota_ok ?md"
    "md_inflight ?md' = md_inflight ?md" "md_queued ?md' = md_queued ?md"
    by (simp_all add: count_msg_def Let_def md_refs_def md_msgs_def unique_msgs_def quota_ok_def)
  have u: "unique_msgs ?md" "quota_ok ?md"
    using c unfolding counting_def broker_inv_dir [where d = d] by (auto simp: Let_def)
  have fg: "md_refs (g ?md') = md_refs ?md" "unique_msgs (g ?md')" "quota_ok (g ?md')"
    "md_inflight (g ?md') = md_inflight ?md" "md_queued (g ?md') = md_queued ?md"
    "counts_on len (ks @ [msg_key m]) (g ?md')"
    using g f u quota_facts counts_on_snoc [of len ks ?md s m] c l by (auto simp: counting_def)
  have "broker_inv False E bk'"
    unfolding bk'_def using c fg u by (intro inv_False_msgs) (auto simp: counting_def)
  then show ?thesis
    using c fg by (auto simp: counting_def bk'_def ctx_refs_set [of _ d])
qed

lemma counting_set_msg:
  assumes "counting len d other E ks bk" and "keeps_msg f"
  shows "counting len d other E ks (set_msg d a f bk) \<and> inflight_keys d (set_msg d a f bk) = inflight_keys d bk \<and>
    queued_keys d (set_msg d a f bk) = queued_keys d bk"
proof -
  have "md_inflight (set_md a f md) = update_msg a f (md_inflight md)"
    "md_queued (set_md a f md) = update_msg a f (md_queued md)" for md
    by (simp_all add: set_md_def)
  then show ?thesis
    using assms set_msg_step(1) [OF assms(2), of False E d a bk]
    by (auto simp: counting_def set_msg_eq ctx_refs_set [of _ d] set_md_facts [OF assms(2)] update_msg_keys)
qed

lemma counting_dequeue:
  assumes c: "counting len d other E ks bk" and q: "queued_keys d bk = k # ks'"
  shows "\<exists>bk'. dequeue_first d bk = Some bk' \<and> counting len d other E ks bk' \<and>
    inflight_keys d bk' = inflight_keys d bk @ [k] \<and> queued_keys d bk' = ks' \<and> bk_db bk' = bk_db bk"
proof -
  let ?md = "msgs_of d (bk_ctx bk)"
  obtain m ms where ms: "md_queued ?md = m # ms" "msg_key m = k" "map msg_key ms = ks'" using q by auto
  obtain md' where md': "db__message_dequeue_first ?md = Some md'" "md_inflight md' = md_inflight ?md @ [m]"
    "md_queued md' = ms" "md_refs md' = md_refs ?md" "unique_msgs md' = unique_msgs ?md" "quota_ok ?md \<longrightarrow> quota_ok md'"
    using dequeue_facts [of ?md] ms(1) by auto
  have cn: "counts_on len ks md'" if "counts_on len ks ?md"
    using that md'(1) ms(1) by (auto simp: db__message_dequeue_first_def counts_on_def Let_def split: if_splits)
  let ?bk = "bk\<lparr>bk_ctx := set_msgs d md' (bk_ctx bk)\<rparr>"
  have u: "unique_msgs ?md" "quota_ok ?md" "broker_inv False E bk"
    using c unfolding counting_def broker_inv_dir [where d = d] by (auto simp: Let_def)
  have "broker_inv False E ?bk" using u md' by (intro inv_False_msgs) auto
  then have "counting len d other E ks ?bk"
    using c md' cn by (auto simp: counting_def ctx_refs_set [of _ d])
  then show ?thesis
    using md' ms by (intro exI [of _ ?bk]) (auto simp: dequeue_first_def)
qed

section \<open>The loops\<close>

lemma counting_lookup:
  assumes c: "counting len d other E ks bk"
    and k: "map msg_key ms = pre @ k # post" and ms: "ms = md_inflight (msgs_of d (bk_ctx bk)) \<or> ms = md_queued (msgs_of d (bk_ctx bk))"
  shows "\<exists>m s. find_msg (fst k) ms = Some m \<and> msg_key m = k \<and> store_at (bk_db bk) (cm_store m) = Some s \<and>
    m \<in> set (md_msgs (msgs_of d (bk_ctx bk)))"
proof -
  let ?md = "msgs_of d (bk_ctx bk)"
  have "unique_msgs ?md" and ok: "stores_ok E (bk_db bk) (md_refs ?md @ md_refs (msgs_of (other_dir d) (bk_ctx bk)))"
    using c unfolding counting_def broker_inv_dir [where d = d] by (auto simp: Let_def)
  then have "distinct (map cm_addr ms)" using ms by (auto simp: unique_msgs_def md_msgs_def)
  from find_msg_key [OF this k] obtain m where m: "find_msg (fst k) ms = Some m" "msg_key m = k" by blast
  then have "m \<in> set (md_msgs ?md)" using ms by (auto simp: md_msgs_def dest: find_msg_Some)
  then show ?thesis using stores_okD(1) [OF ok, of "cm_store m"] m by (auto simp: md_refs_def)
qed

lemma reset_out_inflight_ok:
  "counting len mosq_md_out other E pre bk \<Longrightarrow> inflight_keys mosq_md_out bk = pre @ todo \<Longrightarrow> as = map fst todo \<Longrightarrow>
   \<exists>bk'. reset_out_inflight as bk = Some bk' \<and>
     counting len mosq_md_out other E (inflight_keys mosq_md_out bk') bk'"
proof (induction as arbitrary: bk pre todo)
  case (Cons a as)
  obtain k todo' where t: "todo = k # todo'" "a = fst k" "as = map fst todo'" using Cons.prems(3) by (cases todo) auto
  obtain m s where m: "find_msg a (md_inflight (ctx_msgs_out (bk_ctx bk))) = Some m" "msg_key m = k"
    "store_at (bk_db bk) (cm_store m) = Some s" "m \<in> set (md_msgs (msgs_of mosq_md_out (bk_ctx bk)))"
    using counting_lookup [OF Cons.prems(1), of "md_inflight (msgs_of mosq_md_out (bk_ctx bk))" pre k todo']
      Cons.prems(2) t by auto
  define g where "g = (if cm_qos m > 0 then decrement_quota else (\<lambda>md. md))"
  define bk1 where "bk1 = bk\<lparr>bk_ctx := set_msgs mosq_md_out (g (count_msg s (cm_qos m) (msgs_of mosq_md_out (bk_ctx bk)))) (bk_ctx bk)\<rparr>"
  have 1: "counting len mosq_md_out other E (pre @ [k]) bk1" "inflight_keys mosq_md_out bk1 = inflight_keys mosq_md_out bk"
    using counting_step [OF Cons.prems(1) m(4) m(3), of g] m(2) by (auto simp: g_def bk1_def)
  let ?f = "\<lambda>m. m\<lparr>cm_state := resend_state m\<rparr>"
  have 2: "counting len mosq_md_out other E (pre @ [k]) (set_msg mosq_md_out a ?f bk1)"
    "inflight_keys mosq_md_out (set_msg mosq_md_out a ?f bk1) = (pre @ [k]) @ todo'"
    using counting_set_msg [OF 1(1), of ?f a] 1(2) Cons.prems(2) t(1) by auto
  have "reset_out_inflight (a # as) bk = reset_out_inflight as (set_msg mosq_md_out a ?f bk1)"
    by (simp add: m Let_def bk1_def g_def map_msgs_def map_msgs_eq set_msgs_def)
  then show ?case using Cons.IH [OF 2 t(3)] by simp
qed auto

lemma reset_queued_ok:
  "counting len d other E (inflight_keys d bk @ pre) bk \<Longrightarrow> queued_keys d bk = pre @ todo \<Longrightarrow> as = map fst todo \<Longrightarrow>
   \<exists>bk'. reset_queued d as bk = Some bk' \<and>
     counting len d other E (inflight_keys d bk' @ queued_keys d bk') bk'"
proof (induction as arbitrary: bk pre todo)
  case (Cons a as)
  obtain k todo' where t: "todo = k # todo'" "a = fst k" "as = map fst todo'" using Cons.prems(3) by (cases todo) auto
  obtain m s where m: "find_msg a (md_queued (msgs_of d (bk_ctx bk))) = Some m" "msg_key m = k"
    "store_at (bk_db bk) (cm_store m) = Some s" "m \<in> set (md_msgs (msgs_of d (bk_ctx bk)))"
    using counting_lookup [OF Cons.prems(1), of "md_queued (msgs_of d (bk_ctx bk))" pre k todo']
      Cons.prems(2) t by auto
  define bk1 where "bk1 = map_msgs d (count_msg s (cm_qos m)) bk"
  have 1: "counting len d other E (inflight_keys d bk1 @ pre @ [k]) bk1" "queued_keys d bk1 = (pre @ [k]) @ todo'"
    using counting_step [OF Cons.prems(1) m(4) m(3), of "\<lambda>md. md"] m(2) Cons.prems(2) t(1)
    by (auto simp: bk1_def map_msgs_def)
  let ?f = "\<lambda>m. m\<lparr>cm_state := publish_state (cm_qos m) (cm_state m)\<rparr>"
  obtain h hs where h: "pre @ [k] = h # hs" by (cases "pre @ [k]") auto
  have "counting len d other E (inflight_keys d bk1 @ pre @ [k]) (set_msg d a ?f bk1)"
    "queued_keys d (set_msg d a ?f bk1) = h # (hs @ todo')"
    using counting_set_msg [OF 1(1), of ?f a] 1(2) h by auto
  from counting_dequeue [OF this] obtain bk2 where bk2: "dequeue_first d (set_msg d a ?f bk1) = Some bk2"
    "counting len d other E (inflight_keys d bk1 @ pre @ [k]) bk2"
    "inflight_keys d bk2 = inflight_keys d bk1 @ [h]" "queued_keys d bk2 = hs @ todo'"
    using counting_set_msg [OF 1(1), of ?f a] by auto
  have "inflight_keys d bk1 @ pre @ [k] = inflight_keys d bk2 @ hs" by (simp add: bk2(3) h)
  then have go: "counting len d other E (inflight_keys d bk2 @ hs) bk2" using bk2(2) by simp
  show ?case
    using Cons.IH [OF go bk2(4) t(3)] Cons.IH [OF 1 t(3)]
    by (simp add: m Let_def bk1_def [symmetric] bk2(1))
qed auto

text \<open>Removing the message that was counted last.\<close>

lemma delete_msg_keys:
  assumes "distinct (map cm_addr ms)" and "map msg_key ms = pre @ k # post"
  shows "map msg_key (delete_msg (fst k) ms) = pre @ post"
proof -
  have f: "map fst (map msg_key ms) = map cm_addr ms" by (simp add: msg_key_def)
  have "map msg_key (delete_msg (fst k) ms) = filter (\<lambda>k'. fst k' \<noteq> fst k) (map msg_key ms)"
    by (simp add: delete_msg_def filter_map comp_def msg_key_def)
  also have "\<dots> = pre @ post"
  proof -
    have "distinct (map fst (pre @ k # post))" using assms f by metis
    then have "fst k \<notin> fst ` set pre" "fst k \<notin> fst ` set post" by auto
    then have "filter (\<lambda>k'. fst k' \<noteq> fst k) pre = pre" "filter (\<lambda>k'. fst k' \<noteq> fst k) post = post"
      by (auto simp: filter_id_conv rev_image_eqI)
    then show ?thesis by (simp add: assms(2))
  qed
  finally show ?thesis .
qed

lemma counts_on_unsnoc:
  assumes "counts_on len (ks @ [msg_key m]) md"
    and "md_msg_count md' = md_msg_count md - 1" "md_msg_bytes md' = md_msg_bytes md - len (cm_store m)"
    "md_msg_count12 md' = md_msg_count12 md - (if cm_qos m > 0 then 1 else 0)"
    "md_msg_bytes12 md' = md_msg_bytes12 md - (if cm_qos m > 0 then len (cm_store m) else 0)"
  shows "counts_on len ks md'"
  using assms by (auto simp: counts_on_def msg_key_def Let_def)

lemma counting_remove:
  assumes c: "counting len d other E (pre @ [k]) bk" and k: "inflight_keys d bk = pre @ k # post"
  shows "\<exists>bk'. remove_msg d (fst k) bk = Some bk' \<and> counting len d other E pre bk' \<and>
    inflight_keys d bk' = pre @ post \<and> queued_keys d bk' = queued_keys d bk"
proof -
  let ?md = "msgs_of d (bk_ctx bk)"
  have inv: "broker_inv False E bk" using c by (simp add: counting_def)
  have "fst ` set (inflight_keys d bk) = set (inflight_addrs d bk)" by (auto simp: msg_key_def image_image)
  then have a: "fst k \<in> set (inflight_addrs d bk)" unfolding k by auto
  obtain m md' db' where m: "find_msg (fst k) (md_inflight ?md) = Some m"
    and r: "remove_msg d (fst k) bk = Some (bk\<lparr>bk_db := db', bk_ctx := set_msgs d md' (bk_ctx bk)\<rparr>)"
      "broker_inv False E (bk\<lparr>bk_db := db', bk_ctx := set_msgs d md' (bk_ctx bk)\<rparr>)"
    and md': "md_inflight md' = delete_msg (fst k) (md_inflight ?md)" "md_queued md' = md_queued ?md"
      "md_msg_count md' = md_msg_count ?md - 1" "md_msg_bytes md' = md_msg_bytes ?md - plen (bk_db bk) (cm_store m)"
      "md_msg_count12 md' = md_msg_count12 ?md - (if cm_qos m > 0 then 1 else 0)"
      "md_msg_bytes12 md' = md_msg_bytes12 ?md - (if cm_qos m > 0 then plen (bk_db bk) (cm_store m) else 0)"
    and l: "\<forall>b \<in> set (md_refs md' @ md_refs (msgs_of (other_dir d) (bk_ctx bk))). plen db' b = plen (bk_db bk) b"
    using remove_full [OF inv a] by blast
  let ?bk = "bk\<lparr>bk_db := db', bk_ctx := set_msgs d md' (bk_ctx bk)\<rparr>"
  have u: "distinct (map cm_addr (md_inflight ?md))" using inflight_distinct(1) [OF inv] .
  obtain m' where "find_msg (fst k) (md_inflight ?md) = Some m'" "msg_key m' = k" using find_msg_key [OF u k] by blast
  then have mk: "msg_key m = k" using m by simp
  have "cm_store m \<in> set (md_refs ?md)" using find_msg_Some [OF m] by (auto simp: md_refs_def md_msgs_def)
  then have lm: "plen (bk_db bk) (cm_store m) = len (cm_store m)" using c by (simp add: counting_def ctx_refs_set [of _ d])
  have "counts_on len (pre @ [msg_key m]) ?md" using c mk by (simp add: counting_def)
  from counts_on_unsnoc [OF this md'(3) _ md'(5)] have cn: "counts_on len pre md'" using md'(4,6) lm by simp
  have sub: "set (md_refs md') \<subseteq> set (md_refs ?md)"
    by (auto simp: md_refs_def md_msgs_def md' delete_msg_def)
  have "\<forall>b \<in> set (ctx_refs (bk_ctx ?bk)). plen db' b = len b"
    using c l sub by (auto simp: counting_def ctx_refs_set [of _ d])
  then have "counting len d other E pre ?bk" using c r(2) cn by (simp add: counting_def)
  then show ?thesis
    using r(1) delete_msg_keys [OF u k] by (intro exI [of _ ?bk]) (simp add: md')
qed

lemma reset_in_inflight_ok:
  "counting len mosq_md_in other E pre bk \<Longrightarrow> inflight_keys mosq_md_in bk = pre @ todo \<Longrightarrow> as = map fst todo \<Longrightarrow>
   \<exists>bk'. reset_in_inflight as bk = Some bk' \<and>
     counting len mosq_md_in other E (inflight_keys mosq_md_in bk') bk'"
proof (induction as arbitrary: bk pre todo)
  case (Cons a as)
  obtain k todo' where t: "todo = k # todo'" "a = fst k" "as = map fst todo'" using Cons.prems(3) by (cases todo) auto
  obtain m s where m: "find_msg a (md_inflight (ctx_msgs_in (bk_ctx bk))) = Some m" "msg_key m = k"
    "store_at (bk_db bk) (cm_store m) = Some s" "m \<in> set (md_msgs (msgs_of mosq_md_in (bk_ctx bk)))"
    using counting_lookup [OF Cons.prems(1), of "md_inflight (msgs_of mosq_md_in (bk_ctx bk))" pre k todo']
      Cons.prems(2) t by auto
  define g where "g = (if cm_qos m > 0 then decrement_quota else (\<lambda>md. md))"
  define bk1 where "bk1 = bk\<lparr>bk_ctx := set_msgs mosq_md_in (g (count_msg s (cm_qos m) (msgs_of mosq_md_in (bk_ctx bk)))) (bk_ctx bk)\<rparr>"
  have 1: "counting len mosq_md_in other E (pre @ [k]) bk1" "inflight_keys mosq_md_in bk1 = pre @ k # todo'"
    using counting_step [OF Cons.prems(1) m(4) m(3), of g] m(2) Cons.prems(2) t(1) by (auto simp: g_def bk1_def)
  have eq: "reset_in_inflight (a # as) bk =
    (if cm_qos m \<noteq> 2 then Option.bind (remove_msg mosq_md_in a bk1) (reset_in_inflight as) else reset_in_inflight as bk1)"
    by (simp add: m Let_def bk1_def g_def map_msgs_def map_msgs_eq set_msgs_def)
  obtain bk2 where bk2: "remove_msg mosq_md_in a bk1 = Some bk2" "counting len mosq_md_in other E pre bk2"
    "inflight_keys mosq_md_in bk2 = pre @ todo'"
    using counting_remove [OF 1] t(2) by auto
  have "inflight_keys mosq_md_in bk1 = (pre @ [k]) @ todo'" using 1(2) by simp
  from Cons.IH [OF 1(1) this t(3)] Cons.IH [OF bk2(2,3) t(3)] show ?case
    unfolding eq using bk2(1) by simp
qed auto

section \<open>Reconnecting\<close>

lemma counting_start:
  assumes inv: "broker_inv False E bk" and "\<forall>a \<in> set (ctx_refs (bk_ctx bk)). plen (bk_db bk) a = len a"
  shows "counting len d (msgs_of (other_dir d) (bk_ctx bk)) E [] (map_msgs d reset_counts bk)"
proof -
  let ?md = "msgs_of d (bk_ctx bk)"
  have "unique_msgs ?md" "quota_ok ?md"
    using inv unfolding broker_inv_dir [where d = d] by (auto simp: Let_def)
  then have f: "md_refs (reset_counts ?md) = md_refs ?md" "unique_msgs (reset_counts ?md)" "quota_ok (reset_counts ?md)"
    by (simp_all add: reset_counts_def md_refs_def md_msgs_def unique_msgs_def quota_ok_def)
  then have "broker_inv False E (map_msgs d reset_counts bk)"
    unfolding map_msgs_def using inv by (intro inv_False_msgs)
  then show ?thesis using assms(2) f by (auto simp: counting_def map_msgs_def ctx_refs_set [of _ d])
qed

lemma counting_done:
  assumes "counting len d other E (inflight_keys d bk @ queued_keys d bk) bk"
  shows "counts_ok len (msgs_of d (bk_ctx bk)) \<and> broker_inv False E bk \<and>
    msgs_of (other_dir d) (bk_ctx bk) = other \<and> (\<forall>a \<in> set (ctx_refs (bk_ctx bk)). plen (bk_db bk) a = len a)"
  using assms by (auto simp: counting_def counts_ok_on md_msgs_def)

lemma reset_dir_ok:
  assumes inv: "broker_inv False E bk" and l: "\<forall>a \<in> set (ctx_refs (bk_ctx bk)). plen (bk_db bk) a = len a"
  shows "\<exists>bk'. reconnect_reset_outgoing bk = Some bk' \<and> counts_ok len (ctx_msgs_out (bk_ctx bk')) \<and>
      broker_inv False E bk' \<and> ctx_msgs_in (bk_ctx bk') = ctx_msgs_in (bk_ctx bk) \<and>
      (\<forall>a \<in> set (ctx_refs (bk_ctx bk')). plen (bk_db bk') a = len a)"
    "\<exists>bk'. reconnect_reset_incoming bk = Some bk' \<and> counts_ok len (ctx_msgs_in (bk_ctx bk')) \<and>
      broker_inv False E bk' \<and> ctx_msgs_out (bk_ctx bk') = ctx_msgs_out (bk_ctx bk) \<and>
      (\<forall>a \<in> set (ctx_refs (bk_ctx bk')). plen (bk_db bk') a = len a)"
proof -
  have fst_key: "map cm_addr ms = map fst (map msg_key ms)" for ms by (simp add: msg_key_def)
  have q: "\<exists>bk'. reset_queued d (queued_addrs d bk1) bk1 = Some bk' \<and>
      counting len d other E (inflight_keys d bk' @ queued_keys d bk') bk'"
    if "counting len d other E (inflight_keys d bk1) bk1" for d other bk1
    using reset_queued_ok [of len d other E bk1 "[]" "queued_keys d bk1"] that by (simp add: fst_key)
  obtain bk1 bk2 where "reset_out_inflight (inflight_addrs mosq_md_out (map_msgs mosq_md_out reset_counts bk))
      (map_msgs mosq_md_out reset_counts bk) = Some bk1"
    "reset_queued mosq_md_out (queued_addrs mosq_md_out bk1) bk1 = Some bk2"
    "counting len mosq_md_out (ctx_msgs_in (bk_ctx bk)) E (inflight_keys mosq_md_out bk2 @ queued_keys mosq_md_out bk2) bk2"
    using reset_out_inflight_ok [OF counting_start [OF inv l, of mosq_md_out], of "inflight_keys mosq_md_out (map_msgs mosq_md_out reset_counts bk)"]
      q [of mosq_md_out] by (fastforce simp: fst_key)
  then show "\<exists>bk'. reconnect_reset_outgoing bk = Some bk' \<and> counts_ok len (ctx_msgs_out (bk_ctx bk')) \<and>
      broker_inv False E bk' \<and> ctx_msgs_in (bk_ctx bk') = ctx_msgs_in (bk_ctx bk) \<and>
      (\<forall>a \<in> set (ctx_refs (bk_ctx bk')). plen (bk_db bk') a = len a)"
    using counting_done [of len mosq_md_out _ E bk2] by (simp add: reconnect_reset_outgoing_def Let_def)
  obtain bk1 bk2 where "reset_in_inflight (inflight_addrs mosq_md_in (map_msgs mosq_md_in reset_counts bk))
      (map_msgs mosq_md_in reset_counts bk) = Some bk1"
    "reset_queued mosq_md_in (queued_addrs mosq_md_in bk1) bk1 = Some bk2"
    "counting len mosq_md_in (ctx_msgs_out (bk_ctx bk)) E (inflight_keys mosq_md_in bk2 @ queued_keys mosq_md_in bk2) bk2"
    using reset_in_inflight_ok [OF counting_start [OF inv l, of mosq_md_in], of "inflight_keys mosq_md_in (map_msgs mosq_md_in reset_counts bk)"]
      q [of mosq_md_in] by (fastforce simp: fst_key)
  then show "\<exists>bk'. reconnect_reset_incoming bk = Some bk' \<and> counts_ok len (ctx_msgs_in (bk_ctx bk')) \<and>
      broker_inv False E bk' \<and> ctx_msgs_out (bk_ctx bk') = ctx_msgs_out (bk_ctx bk) \<and>
      (\<forall>a \<in> set (ctx_refs (bk_ctx bk')). plen (bk_db bk') a = len a)"
    using counting_done [of len mosq_md_in _ E bk2] by (simp add: reconnect_reset_incoming_def Let_def)
qed

lemma reconnect_reset_ok:
  assumes inv: "broker_inv False E bk"
  shows "ends_well True E (db__message_reconnect_reset bk)"
proof -
  let ?len = "plen (bk_db bk)"
  obtain bk1 where 1: "reconnect_reset_outgoing bk = Some bk1" "counts_ok ?len (ctx_msgs_out (bk_ctx bk1))"
    "broker_inv False E bk1" "\<forall>a \<in> set (ctx_refs (bk_ctx bk1)). plen (bk_db bk1) a = ?len a"
    using reset_dir_ok(1) [OF inv, of ?len] by auto
  obtain bk2 where 2: "reconnect_reset_incoming bk1 = Some bk2" "counts_ok ?len (ctx_msgs_in (bk_ctx bk2))"
    "broker_inv False E bk2" "ctx_msgs_out (bk_ctx bk2) = ctx_msgs_out (bk_ctx bk1)"
    "\<forall>a \<in> set (ctx_refs (bk_ctx bk2)). plen (bk_db bk2) a = ?len a"
    using reset_dir_ok(2) [OF 1(3,4)] by blast
  have "counts_ok (plen (bk_db bk2)) (ctx_msgs_out (bk_ctx bk2))" "counts_ok (plen (bk_db bk2)) (ctx_msgs_in (bk_ctx bk2))"
    using 1(2) 2(2,4,5) by (auto intro: counts_ok_cong [of _ _ ?len] simp: ctx_refs_def)
  then have "broker_inv True E bk2" using 2(3) by (simp add: broker_inv_def count_inv_def)
  then show ?thesis by (simp add: ends_well_def db__message_reconnect_reset_def 1(1) 2(1))
qed

end
