(* ===== verification/Broker_Run.thy ===== *)
theory Broker_Run
  imports Broker_Reset
begin

text \<open>
  The operations of \<open>database.c\<close> as one transition system: \<open>perform\<close> is the operation, \<open>allowed\<close>
  what its callers ensure, \<open>broker_step\<close> one call, and \<open>reachable\<close> every state after any
  sequence of calls from a client without messages. Every reachable state satisfies the
  invariant, and no allowed call follows a pointer that is gone.
\<close>

section \<open>Releasing queued messages\<close>

lemma release_queued_ok:
  "broker_inv c E bk \<Longrightarrow> queued_addrs mosq_md_in bk = pre @ as \<Longrightarrow>
   \<exists>bk'. release_queued net as i bk = Some bk' \<and> broker_inv c E bk' \<and> dir_frame mosq_md_in bk bk'"
proof (induction as arbitrary: bk pre i)
  case (Cons a as)
  let ?t = "\<lambda>m. m\<lparr>cm_timestamp := db_now_s (bk_db bk)\<rparr>" and ?g = "\<lambda>m. m\<lparr>cm_state := mosq_ms_wait_for_pubrel\<rparr>"
  obtain m where m: "find_msg a (md_queued (ctx_msgs_in (bk_ctx bk))) = Some m"
    using queued_lookup [OF Cons.prems(1), of a mosq_md_in] unfolding Cons.prems(2) by auto
  let ?bk1 = "set_msg mosq_md_in a ?t bk"
  have 1: "broker_inv c E ?bk1" "queued_addrs mosq_md_in ?bk1 = pre @ a # as" "dir_frame mosq_md_in bk ?bk1"
    using Cons.prems by (simp_all add: broker_steps)
  have skip: "\<exists>bk'. release_queued net as (i + 1) ?bk1 = Some bk' \<and> broker_inv c E bk' \<and> dir_frame mosq_md_in bk bk'"
    using Cons.IH [OF 1(1), of "pre @ [a]" "i + 1"] 1(2) dir_frame_trans [OF 1(3)] by auto
  let ?bk2 = "?bk1\<lparr>bk_ctx := snd (send__pubrec net (cm_mid m) (bk_ctx ?bk1))\<rparr>"
  have 2: "broker_inv c E ?bk2" "queued_addrs mosq_md_in ?bk2 = pre @ a # as"
    using sent_keeps(5) [OF 1(1), of net "cm_mid m"] 1(2) by simp_all
  have f2: "dir_frame mosq_md_in bk ?bk2"
    using dir_frame_trans [OF 1(3)] same_lists_ctx [of "snd (send__pubrec net (cm_mid m) (bk_ctx ?bk1))" ?bk1 mosq_md_in]
    by (simp add: same_lists_def)
  obtain bk3 pre' where 3: "dequeue_first mosq_md_in (set_msg mosq_md_in a ?g ?bk2) = Some bk3" "broker_inv c E bk3"
    "queued_addrs mosq_md_in bk3 = pre' @ as" "dir_frame mosq_md_in ?bk2 bk3"
    using dequeue_suffix [OF 2, of ?g] by auto
  have go: "\<exists>bk'. release_queued net as (i + 1) bk3 = Some bk' \<and> broker_inv c E bk' \<and> dir_frame mosq_md_in bk bk'"
    using Cons.IH [OF 3(2,3), of "i + 1"] dir_frame_trans [OF dir_frame_trans [OF f2 3(4)]] by blast
  show ?case
    using m skip go 3(1) Cons.prems(1) by (simp add: Let_def split_beta)
qed simp

section \<open>Calls\<close>

datatype broker_op =
    Op_write_all | Op_write_latest | Op_queued_out | Op_queued_in
  | Op_delete_outgoing u16 mosquitto_msg_state nat
  | Op_update_outgoing u16 mosquitto_msg_state nat
  | Op_remove_incoming u16
  | Op_insert nat u16 mosquitto_msg_direction nat bool nat "mosquitto_property list" bool
  | Op_delete bool
  | Op_reconnect_reset
  | Op_store nat mosquitto_msg_store int "64 word" mosquitto_msg_origin
  | Op_ref_inc nat | Op_ref_dec nat
  | Op_inc_send | Op_inc_receive | Op_dec_receive
  | Op_set_state mosquitto_client_state | Op_set_sock int | Op_set_time int int

fun perform :: "(nat \<Rightarrow> bool) \<Rightarrow> net \<Rightarrow> broker_op \<Rightarrow> broker \<Rightarrow> (int \<times> broker) option" where
  "perform alloc net Op_write_all bk = db__message_write_inflight_out_all net bk"
| "perform alloc net Op_write_latest bk = db__message_write_inflight_out_latest net bk"
| "perform alloc net Op_queued_out bk = db__message_write_queued_out bk"
| "perform alloc net Op_queued_in bk = db__message_write_queued_in net bk"
| "perform alloc net (Op_delete_outgoing mid st qos) bk = db__message_delete_outgoing net mid st qos bk"
| "perform alloc net (Op_update_outgoing mid st qos) bk = Some (db__message_update_outgoing mid st qos bk)"
| "perform alloc net (Op_remove_incoming mid) bk = db__message_remove_incoming mid bk"
| "perform alloc net (Op_insert addr mid dir qos retain stored props update) bk =
     db__message_insert alloc net addr mid dir qos retain stored props update bk"
| "perform alloc net (Op_delete force_free) bk = db__messages_delete force_free bk"
| "perform alloc net Op_reconnect_reset bk = db__message_reconnect_reset bk"
| "perform alloc net (Op_store addr store expiry store_id origin) bk =
     (let (rc, db) = db__message_store alloc (Some (bk_ctx bk)) addr store expiry store_id origin (bk_db bk)
      in Some (err_code rc, bk\<lparr>bk_db := db\<rparr>))"
| "perform alloc net (Op_ref_inc a) bk =
     map_option (\<lambda>db. (0, bk\<lparr>bk_db := db\<rparr>)) (db__msg_store_ref_inc a (bk_db bk))"
| "perform alloc net (Op_ref_dec a) bk =
     map_option (\<lambda>db. (0, bk\<lparr>bk_db := db\<rparr>)) (db__msg_store_ref_dec a (bk_db bk))"
| "perform alloc net Op_inc_send bk = Some (0, bk\<lparr>bk_ctx := util__increment_send_quota (bk_ctx bk)\<rparr>)"
| "perform alloc net Op_inc_receive bk = Some (0, bk\<lparr>bk_ctx := util__increment_receive_quota (bk_ctx bk)\<rparr>)"
| "perform alloc net Op_dec_receive bk = Some (0, bk\<lparr>bk_ctx := util__decrement_receive_quota (bk_ctx bk)\<rparr>)"
| "perform alloc net (Op_set_state st) bk = Some (0, bk\<lparr>bk_ctx := mosquitto__set_state (bk_ctx bk) st\<rparr>)"
| "perform alloc net (Op_set_sock sock) bk = Some (0, bk\<lparr>bk_ctx := (bk_ctx bk)\<lparr>ctx_sock := sock\<rparr>\<rparr>)"
| "perform alloc net (Op_set_time t t_real) bk =
     Some (0, bk\<lparr>bk_db := (bk_db bk)\<lparr>db_now_s := t, db_now_real_s := t_real\<rparr>\<rparr>)"

text \<open>
  What the callers ensure: new nodes are at new addresses, a stored message is there, a
  reference is given back by who has it, and copying a client id does not fail.
\<close>

fun allowed :: "(nat \<Rightarrow> bool) \<Rightarrow> (nat \<Rightarrow> int) \<Rightarrow> broker_op \<Rightarrow> broker \<Rightarrow> bool" where
  "allowed alloc E (Op_insert addr mid dir qos retain stored props update) bk \<longleftrightarrow>
     store_at (bk_db bk) stored \<noteq> None \<and> addr \<notin> cm_addr ` set (md_msgs (msgs_of dir (bk_ctx bk))) \<and>
     qos \<le> 2 \<and> (0 < qos \<longrightarrow> 0 < ctx_max_qos (bk_ctx bk)) \<and>
     (case ctx_id (bk_ctx bk) of None \<Rightarrow> True | Some cid \<Rightarrow> alloc (length cid + 1))"
| "allowed alloc E (Op_store addr store expiry store_id origin) bk \<longleftrightarrow>
     store_at (bk_db bk) addr = None \<and> ms_ref_count store = 0"
| "allowed alloc E (Op_ref_inc a) bk \<longleftrightarrow> store_at (bk_db bk) a \<noteq> None"
| "allowed alloc E (Op_ref_dec a) bk \<longleftrightarrow> 0 < E a"
| "allowed alloc E _ bk \<longleftrightarrow> True"

text \<open>The references that are not those of client messages.\<close>

fun outside :: "broker_op \<Rightarrow> (nat \<Rightarrow> int) \<Rightarrow> (nat \<Rightarrow> int)" where
  "outside (Op_ref_inc a) E = E(a := E a + 1)"
| "outside (Op_ref_dec a) E = E(a := E a - 1)"
| "outside _ E = E"

inductive broker_step ::
  "(nat \<Rightarrow> bool) \<Rightarrow> net \<Rightarrow> (nat \<Rightarrow> int) \<times> broker \<Rightarrow> (nat \<Rightarrow> int) \<times> broker \<Rightarrow> bool"
  for alloc net where
  call: "allowed alloc E op bk \<Longrightarrow> perform alloc net op bk = Some (rc, bk') \<Longrightarrow>
         broker_step alloc net (E, bk) (outside op E, bk')"

inductive_cases broker_stepE: "broker_step alloc net (E, bk) st"

definition empty_msgs :: "mosquitto_msg_data \<Rightarrow> bool" where
  "empty_msgs md \<longleftrightarrow> md_inflight md = [] \<and> md_queued md = [] \<and> md_msg_bytes md = 0 \<and> md_msg_bytes12 md = 0 \<and>
     md_msg_count md = 0 \<and> md_msg_count12 md = 0 \<and> quota_ok md"

definition initial :: "(nat \<Rightarrow> int) \<times> broker \<Rightarrow> bool" where
  "initial st \<longleftrightarrow> fst st = (\<lambda>_. 0) \<and> empty_msgs (ctx_msgs_in (bk_ctx (snd st))) \<and>
     empty_msgs (ctx_msgs_out (bk_ctx (snd st))) \<and> db_msg_store (bk_db (snd st)) = [] \<and>
     db_msg_store_count (bk_db (snd st)) = 0 \<and> db_msg_store_bytes (bk_db (snd st)) = 0"

definition reachable :: "(nat \<Rightarrow> bool) \<Rightarrow> net \<Rightarrow> (nat \<Rightarrow> int) \<times> broker \<Rightarrow> bool" where
  "reachable alloc net st \<longleftrightarrow> (\<exists>st0. initial st0 \<and> (broker_step alloc net)\<^sup>*\<^sup>* st0 st)"

section \<open>Every call keeps the invariant\<close>

lemma initial_inv: "initial (E, bk) \<Longrightarrow> broker_inv c E bk"
  by (auto simp: initial_def empty_msgs_def broker_inv_def safe_inv_def count_inv_def stores_ok_def ctx_refs_def
      md_refs_def md_msgs_def unique_msgs_def counts_ok_def store_at_def store_bytes_def)

lemma stores_ok_inv:
  "broker_inv c E bk \<Longrightarrow> stores_ok E' db (ctx_refs (bk_ctx bk)) \<Longrightarrow>
   (\<And>a. a \<in> set (ctx_refs (bk_ctx bk)) \<Longrightarrow> plen db a = plen (bk_db bk) a) \<Longrightarrow>
   broker_inv c E' (bk\<lparr>bk_db := db\<rparr>)"
  by (auto simp: broker_inv_def safe_inv_def count_inv_def ctx_refs_def
      intro: counts_ok_cong [of _ "plen db" "plen (bk_db bk)"])

lemma ref_inc_extern:
  assumes inv: "broker_inv c E bk" and a: "store_at (bk_db bk) a \<noteq> None"
  shows "\<exists>db. db__msg_store_ref_inc a (bk_db bk) = Some db \<and> broker_inv c (E(a := E a + 1)) (bk\<lparr>bk_db := db\<rparr>)"
proof -
  have ok: "stores_ok E (bk_db bk) (ctx_refs (bk_ctx bk))" using inv by (simp add: broker_inv_def safe_inv_def)
  obtain db where db: "db__msg_store_ref_inc a (bk_db bk) = Some db" "stores_ok E db (a # ctx_refs (bk_ctx bk))"
    "\<forall>b. plen db b = plen (bk_db bk) b"
    using ref_inc_ok [OF ok a] by blast
  have at: "store_at db a \<noteq> None" using stores_okD(1) [OF db(2), of a] by simp
  have "stores_ok (E(a := E a + 1)) db (ctx_refs (bk_ctx bk))"
    using db(2) at unfolding stores_ok_def by (simp add: fun_upd_def add_nonneg_nonneg)
  then show ?thesis using db stores_ok_inv [OF inv] by auto
qed

lemma ref_dec_extern:
  assumes inv: "broker_inv c E bk" and a: "0 < E a"
  shows "\<exists>db. db__msg_store_ref_dec a (bk_db bk) = Some db \<and> broker_inv c (E(a := E a - 1)) (bk\<lparr>bk_db := db\<rparr>)"
proof -
  have ok: "stores_ok E (bk_db bk) (ctx_refs (bk_ctx bk))" using inv by (simp add: broker_inv_def safe_inv_def)
  from ref_dec_extern_ok [of E "bk_db bk" "ctx_refs (bk_ctx bk)" a, OF ok a] show ?thesis
    using stores_ok_inv [OF inv] by blast
qed

lemma perform_ok:
  assumes inv: "broker_inv c E bk" and al: "allowed alloc E op bk"
  shows "ends_well c (outside op E) (perform alloc net op bk)"
proof (cases op)
  case (Op_insert addr mid dir qos retain stored props update)
  then obtain store where "store_at (bk_db bk) stored = Some store" using al by auto
  moreover have "\<And>cid. ctx_id (bk_ctx bk) = Some cid \<Longrightarrow> alloc (length cid + 1)"
    using Op_insert al by (simp split: option.splits)
  ultimately have "runs c E dir bk (perform alloc net op bk)"
    using insert_ok [OF inv, of stored store addr dir qos alloc] Op_insert al by simp
  then show ?thesis unfolding Op_insert by (simp add: runs_ends_well)
next
  case (Op_store addr store expiry store_id origin)
  obtain rc db where r: "db__message_store alloc (Some (bk_ctx bk)) addr store expiry store_id origin (bk_db bk) = (rc, db)"
    by fastforce
  then show ?thesis using message_store_ok [OF inv _ _ r] al Op_store by (simp add: ends_well_def)
next
  case (Op_ref_inc a)
  then show ?thesis using ref_inc_extern [OF inv, of a] al by (auto simp: ends_well_def)
next
  case (Op_ref_dec a)
  then show ?thesis using ref_dec_extern [OF inv, of a] al by (auto simp: ends_well_def)
next
  case Op_reconnect_reset
  then show ?thesis using reconnect_reset_ok [of E bk] inv by (auto simp: broker_inv_def ends_well_def)
next
  case (Op_set_state st)
  then show ?thesis using inv by (simp add: ends_well_def inv_ctx mosquitto__set_state_def)
next
  case (Op_set_sock sock)
  then show ?thesis using inv by (simp add: ends_well_def inv_ctx)
next
  case (Op_set_time t t_real)
  then show ?thesis using inv by (simp add: ends_well_def inv_db)
next
  case Op_inc_send
  then show ?thesis using inv_quota(1) [OF inv] by (simp add: ends_well_def)
next
  case Op_inc_receive
  then show ?thesis using inv_quota(3) [OF inv] by (simp add: ends_well_def)
next
  case Op_dec_receive
  then show ?thesis using inv_quota(4) [OF inv] by (simp add: ends_well_def)
qed (use inv in \<open>auto intro: runs_ends_well write_all_ok write_latest_ok write_queued_out_ok write_queued_in_ok
  delete_outgoing_ok update_outgoing_ok remove_incoming_ok messages_delete_ok\<close>)

lemma reachable_broker_inv:
  assumes "reachable alloc net st"
  shows "broker_inv True (fst st) (snd st)"
proof -
  obtain st0 where "initial st0" "(broker_step alloc net)\<^sup>*\<^sup>* st0 st" using assms(1) by (auto simp: reachable_def)
  from this(2,1) show ?thesis
  proof (induction rule: rtranclp_induct)
    case base
    then show ?case using initial_inv [of "fst st0" "snd st0"] by simp
  next
    case (step st st')
    obtain E bk where st: "st = (E, bk)" by fastforce
    have inv: "broker_inv True E bk" using step.IH [OF step.prems] st by simp
    obtain op rc bk' where c: "allowed alloc E op bk" "perform alloc net op bk = Some (rc, bk')"
      "st' = (outside op E, bk')"
      using step.hyps(2) unfolding st by (auto elim: broker_stepE)
    show ?case using perform_ok [OF inv c(1), of net] c(2,3) by (simp add: ends_well_def)
  qed
qed

end
