(* ===== verification/Broker_Props.thy ===== *)
theory Broker_Props
  imports Broker_Run
begin

text \<open>
  What holds of the message database after any sequence of calls, and where its operations
  do something else than they mean to.
\<close>

section \<open>An example\<close>

definition ex_cfg :: mosquitto__config where
  "ex_cfg = \<lparr>cfg_allow_duplicate_messages = False, cfg_check_retain_source = False, cfg_max_inflight_bytes = 0, cfg_max_queued_bytes = 0,
     cfg_max_queued_messages = 100, cfg_queue_qos0_messages = True, cfg_retain_available = True,
     cfg_upgrade_outgoing_qos = False\<rparr>"

definition ex_md :: mosquitto_msg_data where
  "ex_md = \<lparr>md_inflight = [], md_queued = [], md_msg_bytes = 0, md_msg_bytes12 = 0, md_msg_count = 0,
     md_msg_count12 = 0, md_inflight_quota = 1, md_inflight_maximum = 1\<rparr>"

definition ex_ctx :: mosquitto where
  "ex_ctx = \<lparr>ctx_sock = 7, ctx_protocol = mosq_p_mqtt311, ctx_id = Some ''c'', ctx_username = None, ctx_last_mid = 0,
     ctx_state = mosq_cs_active, ctx_out_packet_count = 0, ctx_clean_start = True, ctx_is_dropping = False,
     ctx_bridge = None, ctx_msgs_in = ex_md, ctx_msgs_out = ex_md, ctx_max_qos = 2, ctx_aliases = [],
     ctx_sent = []\<rparr>"

definition ex_store :: mosquitto_msg_store where
  "ex_store = \<lparr>ms_db_id = 0, ms_source_id = [], ms_source_username = None, ms_dest_ids = [], ms_ref_count = 0,
     ms_topic = Some ''t'', ms_properties = [], ms_payload = [1], ms_message_expiry_time = 0, ms_payloadlen = 1,
     ms_origin = mosq_mo_client, ms_source_mid = 5, ms_mid = 0, ms_qos = 1, ms_retain = False\<rparr>"

definition ex_db :: mosquitto_db where
  "ex_db = \<lparr>db_last_db_id = 0, db_msg_store = [], db_now_s = 10, db_now_real_s = 10, db_msg_store_count = 0,
     db_msg_store_bytes = 0, db_persistence_changes = 0, db_config = ex_cfg\<rparr>"

definition ex_msg :: "nat \<Rightarrow> nat \<Rightarrow> mosquitto_msg_state \<Rightarrow> mosquitto_client_msg" where
  "ex_msg addr qos st = \<lparr>cm_addr = addr, cm_store = 100, cm_properties = [], cm_timestamp = 0, cm_mid = of_nat addr,
     cm_qos = qos, cm_retain = False, cm_direction = mosq_md_out, cm_state = st, cm_dup = False\<rparr>"

definition ex_bk :: broker where
  "ex_bk = \<lparr>bk_db = ex_db, bk_ctx = ex_ctx\<rparr>"

definition ex_net :: net where
  "ex_net = \<lparr>net_publish = (\<lambda>_ _. 0), net_pubrel = (\<lambda>_ _. 0), net_pubrec = (\<lambda>_ _. 0)\<rparr>"

lemmas ex_defs = ex_cfg_def ex_md_def ex_ctx_def ex_store_def ex_db_def ex_msg_def ex_bk_def ex_net_def

definition ex_bk1 :: broker where
  "ex_bk1 = ex_bk\<lparr>bk_db := snd (db__message_store (\<lambda>_. True) (Some ex_ctx) 100 ex_store 0 0 mosq_mo_client ex_db)\<rparr>"

lemma ex_reachable: "reachable (\<lambda>_. True) ex_net ((\<lambda>_. 0), ex_bk1)"
proof -
  have i: "initial ((\<lambda>_. 0), ex_bk)" by (simp add: initial_def ex_defs empty_msgs_def quota_ok_def)
  have "allowed (\<lambda>_. True) (\<lambda>_. 0) (Op_store 100 ex_store 0 0 mosq_mo_client) ex_bk"
    by (simp add: ex_defs store_at_def)
  moreover obtain rc where
    "perform (\<lambda>_. True) ex_net (Op_store 100 ex_store 0 0 mosq_mo_client) ex_bk = Some (rc, ex_bk1)"
    by (simp add: ex_bk1_def split_beta) (simp add: ex_bk_def)
  ultimately have "broker_step (\<lambda>_. True) ex_net ((\<lambda>_. 0), ex_bk)
      (outside (Op_store 100 ex_store 0 0 mosq_mo_client) (\<lambda>_. 0), ex_bk1)"
    by (rule broker_step.call)
  then show ?thesis using i unfolding reachable_def by (intro exI [of _ "((\<lambda>_. 0), ex_bk)"]) auto
qed

section \<open>After any sequence of calls\<close>

text \<open>
  C11: No call that its caller is allowed to make follows a NULL or dangling pointer or fails
  an assertion, in any state that is reached by such calls from a client without messages:
  every operation of the database returns.
\<close>
theorem database_calls_return:
  assumes "reachable alloc net (E, bk)" and "allowed alloc E op bk"
  shows "\<exists>rc bk'. perform alloc net op bk = Some (rc, bk') \<and> reachable alloc net (outside op E, bk')"
proof -
  have "broker_inv True E bk" using reachable_broker_inv [OF assms(1)] by simp
  then obtain rc bk' where r: "perform alloc net op bk = Some (rc, bk')"
    using perform_ok [where c = True and net = net, OF _ assms(2)] by (auto simp: ends_well_def)
  with assms(2) have "broker_step alloc net (E, bk) (outside op E, bk')" by (rule broker_step.call)
  then show ?thesis using assms(1) r unfolding reachable_def by (meson rtranclp.rtrancl_into_rtrancl)
qed

theorem database_calls_return_witness:
  "\<exists>rc bk'. db__message_insert (\<lambda>_. True) ex_net 1 9 mosq_md_out 1 False 100 [] True ex_bk1 = Some (rc, bk') \<and>
     reachable (\<lambda>_. True) ex_net ((\<lambda>_. 0), bk')"
proof -
  have "allowed (\<lambda>_. True) (\<lambda>_. 0) (Op_insert 1 9 mosq_md_out 1 False 100 [] True) ex_bk1"
    by (simp add: ex_bk1_def ex_defs db__message_store_def db__msg_store_add_def store_at_def Let_def md_msgs_def)
  from database_calls_return [OF ex_reachable this] show ?thesis by simp
qed

text \<open>
  C12: In every reachable state the reference count of a stored message is the number of client
  messages that refer to it plus the references held elsewhere, so that a message is freed
  exactly when the last of them goes; no message of a client refers to one that was freed.
\<close>
theorem reference_counts_exact:
  assumes "reachable alloc net (E, bk)"
  shows "(\<forall>a s. store_at (bk_db bk) a = Some s \<longrightarrow>
      ms_ref_count s = int (count_list (ctx_refs (bk_ctx bk)) a) + E a) \<and>
    (\<forall>a \<in> set (ctx_refs (bk_ctx bk)). store_at (bk_db bk) a \<noteq> None)"
  using reachable_broker_inv [OF assms] by (simp add: broker_inv_def safe_inv_def stores_ok_def)

theorem reference_counts_exact_witness:
  "\<exists>s. store_at (bk_db ex_bk1) 100 = Some s \<and> ms_ref_count s = int (count_list (ctx_refs (bk_ctx ex_bk1)) 100)"
proof -
  have "\<exists>s. store_at (bk_db ex_bk1) 100 = Some s"
    by (simp add: ex_bk1_def ex_defs db__message_store_def db__msg_store_add_def store_at_def Let_def)
  then show ?thesis using reference_counts_exact [OF ex_reachable] by auto
qed



text \<open>
  C27: The quotas of messages in flight never leave the range from 0 to the maximum of the
  direction, in either direction and whatever is inserted, acknowledged or reset.
\<close>
theorem inflight_quota_bounds:
  assumes "reachable alloc net (E, bk)"
  shows "0 \<le> md_inflight_quota (msgs_of dir (bk_ctx bk)) \<and>
    md_inflight_quota (msgs_of dir (bk_ctx bk)) \<le> md_inflight_maximum (msgs_of dir (bk_ctx bk))"
proof -
  have "broker_inv True E bk" using reachable_broker_inv [OF assms] by simp
  then show ?thesis unfolding broker_inv_dir [where d = dir] by (simp add: Let_def quota_ok_def)
qed

theorem inflight_quota_bounds_witness:
  "0 \<le> md_inflight_quota (msgs_of mosq_md_in (bk_ctx ex_bk1)) \<and>
   md_inflight_quota (msgs_of mosq_md_in (bk_ctx ex_bk1)) \<le> 1"
  using inflight_quota_bounds [OF ex_reachable, of mosq_md_in]
  by (simp add: ex_bk1_def ex_bk_def ex_ctx_def ex_md_def)

text \<open>
  C28: Reconnecting counts afresh. Whatever the counters were, after
  \<open>db__message_reconnect_reset\<close> they are exact in both directions, and every reference count
  still is.
\<close>
theorem reconnect_reset_recounts:
  assumes "safe_inv E bk"
  shows "\<exists>bk'. db__message_reconnect_reset bk = Some (0, bk') \<and> safe_inv E bk' \<and> count_inv bk'"
proof -
  have "broker_inv False E bk" using assms by (simp add: broker_inv_def)
  from reconnect_reset_ok [OF this] obtain rc bk' where "db__message_reconnect_reset bk = Some (rc, bk')" "broker_inv True E bk'"
    by (auto simp: ends_well_def)
  moreover from this have "rc = 0" by (auto simp: db__message_reconnect_reset_def bind_eq_Some_conv)
  ultimately show ?thesis by (simp add: broker_inv_def)
qed

theorem reconnect_reset_recounts_witness:
  "\<exists>bk'. db__message_reconnect_reset (ex_bk\<lparr>bk_ctx := ex_ctx\<lparr>ctx_msgs_out := ex_md\<lparr>md_msg_count := 42\<rparr>\<rparr>\<rparr>) = Some (0, bk') \<and>
     safe_inv (\<lambda>_. 0) bk' \<and> count_inv bk'"
  by (rule reconnect_reset_recounts)
    (simp add: safe_inv_def ex_defs stores_ok_def ctx_refs_def md_refs_def md_msgs_def unique_msgs_def quota_ok_def
      store_at_def store_bytes_def)

end
