(* ===== verification/Broker_Faults.thy ===== *)
theory Broker_Faults
  imports Broker_Props
begin

text \<open>
  Runs of the message database in which it does something else than it means to: an
  allocation that fails leaves a NULL pointer behind, a reset moves a message other than the
  one it looked at, quotas and counters drift.
\<close>

lemmas ops_simps = db__message_insert_def insert_refused_def insert_state_def insert_finish_def append_msg_def
  db__msg_store_ref_inc_def db__ready_for_flight_def db__ready_for_queue_def util__decrement_send_quota_def
  decrement_quota_def update_store_def store_at_def publish_state_def sizeof_client_msg_def set_msgs_def

lemmas ex_bk1_simps = ex_bk1_def db__message_store_def db__msg_store_add_def

text \<open>
  When copying the client id fails after a message was inserted, the list of clients it was
  sent to is left with a NULL entry, and inserting the same stored message for the next client
  follows it.
\<close>
lemma insert_after_failed_copy_traps:
  "\<exists>bk'. db__message_insert (\<lambda>n. n \<noteq> 2) ex_net 1 9 mosq_md_out 1 False 100 [] False ex_bk1 = Some (1, bk') \<and>
     db__message_insert (\<lambda>_. True) ex_net 2 9 mosq_md_out 1 False 100 []  False bk' = None"
  by (simp add: ops_simps ex_bk1_simps ex_defs Let_def)

text \<open>
  While \<open>db__message_reconnect_reset\<close> goes through the queue it sets the state of the message
  it looks at, but moves the head of the queue into flight. With a message in flight, one
  queued with qos 1 (which must wait) and one queued with qos 0, the waiting message ends in
  flight in the state \<open>queued\<close>, and the one that was to be sent stays in the queue.
\<close>
lemma reset_moves_the_wrong_message:
  "\<exists>bk'. reconnect_reset_outgoing
      (ex_bk\<lparr>bk_db := ex_db\<lparr>db_msg_store := [(100, ex_store\<lparr>ms_ref_count := 3\<rparr>)]\<rparr>,
             bk_ctx := ex_ctx\<lparr>ctx_msgs_out := ex_md\<lparr>md_inflight := [ex_msg 1 1 mosq_ms_wait_for_puback],
                md_queued := [ex_msg 2 1 mosq_ms_queued, ex_msg 3 0 mosq_ms_queued]\<rparr>\<rparr>\<rparr>) = Some bk' \<and>
    map (\<lambda>m. (cm_addr m, cm_state m)) (md_inflight (ctx_msgs_out (bk_ctx bk'))) =
      [(1, mosq_ms_publish_qos1), (2, mosq_ms_queued)] \<and>
    map (\<lambda>m. (cm_addr m, cm_state m)) (md_queued (ctx_msgs_out (bk_ctx bk'))) = [(3, mosq_ms_publish_qos0)]"
  by (simp add: reconnect_reset_outgoing_def map_msgs_def reset_counts_def count_msg_def ex_defs store_at_def
      find_msg_def set_msgs_def msgs_of_def set_msg_def update_msg_def resend_state_def publish_state_def
      util__decrement_send_quota_def decrement_quota_def db__ready_for_flight_def dequeue_first_def
      db__message_dequeue_first_def Let_def)

text \<open>
  C39: A message with qos 1 or 2 that is too large for its client is removed from flight, but the quota
  that its insertion took is not given back.
\<close>
theorem oversize_keeps_quota_taken:
  assumes inv: "safe_inv E bk" and msg: "find_msg a (md_inflight (ctx_msgs_out (bk_ctx bk))) = Some msg"
    and store: "store_at (bk_db bk) (cm_store msg) = Some store" "ms_message_expiry_time store = 0"
    and st: "cm_state msg = mosq_ms_publish_qos1 \<or> cm_state msg = mosq_ms_publish_qos2"
    and big: "\<And>ctx p. net_publish net ctx p = err_code MOSQ_ERR_OVERSIZE_PACKET"
  shows "\<exists>bk'. write_inflight_out_single net a bk = Some (0, bk') \<and> a \<notin> set (inflight_addrs mosq_md_out bk') \<and>
    md_inflight_quota (ctx_msgs_out (bk_ctx bk')) = md_inflight_quota (ctx_msgs_out (bk_ctx bk))"
proof -
  have "broker_inv False E bk" "a \<in> set (inflight_addrs mosq_md_out bk)"
    using inv find_msg_Some [OF msg] by (auto simp: broker_inv_def)
  from remove_full [OF this] obtain md' db' where r: "remove_msg mosq_md_out a bk = Some (bk\<lparr>bk_db := db', bk_ctx := set_msgs mosq_md_out md' (bk_ctx bk)\<rparr>)"
    "md_inflight md' = delete_msg a (md_inflight (ctx_msgs_out (bk_ctx bk)))"
    "md_inflight_quota md' = md_inflight_quota (ctx_msgs_out (bk_ctx bk))" by auto
  have "send__publish net p ctx = (err_code MOSQ_ERR_OVERSIZE_PACKET, ctx)" for p ctx
    by (simp add: send__publish_def big)
  then have "write_inflight_out_single net a bk = map_option (\<lambda>bk. (0, bk)) (remove_msg mosq_md_out a bk)"
    using st by (auto simp: write_inflight_out_single_def msg store Let_def)
  then show ?thesis using r by (auto simp: delete_msg_def)
qed

theorem oversize_keeps_quota_taken_witness:
  "\<exists>bk'. write_inflight_out_single (ex_net\<lparr>net_publish := \<lambda>_ _. err_code MOSQ_ERR_OVERSIZE_PACKET\<rparr>) 1
      (ex_bk\<lparr>bk_db := ex_db\<lparr>db_msg_store := [(100, ex_store\<lparr>ms_ref_count := 1\<rparr>)], db_msg_store_count := 1, db_msg_store_bytes := 1\<rparr>,
             bk_ctx := ex_ctx\<lparr>ctx_msgs_out := ex_md\<lparr>md_inflight := [ex_msg 1 1 mosq_ms_publish_qos1], md_inflight_quota := 0\<rparr>\<rparr>\<rparr>)
      = Some (0, bk') \<and> md_inflight_quota (ctx_msgs_out (bk_ctx bk')) = 0" (is "\<exists>bk'. write_inflight_out_single ?net 1 ?bk = _ \<and> _")
proof -
  have inv: "safe_inv (\<lambda>_. 0) ?bk"
    by (simp add: safe_inv_def ex_defs stores_ok_def ctx_refs_def md_refs_def md_msgs_def unique_msgs_def quota_ok_def
      store_at_def store_bytes_def)
  have f: "find_msg 1 (md_inflight (ctx_msgs_out (bk_ctx ?bk))) = Some (ex_msg 1 1 mosq_ms_publish_qos1)"
    by (simp add: find_msg_def ex_msg_def)
  have s: "store_at (bk_db ?bk) (cm_store (ex_msg 1 1 mosq_ms_publish_qos1)) = Some (ex_store\<lparr>ms_ref_count := 1\<rparr>)"
    by (simp add: store_at_def ex_msg_def)
  have "\<exists>bk'. write_inflight_out_single ?net 1 ?bk = Some (0, bk') \<and> 1 \<notin> set (inflight_addrs mosq_md_out bk') \<and>
      md_inflight_quota (ctx_msgs_out (bk_ctx bk')) = md_inflight_quota (ctx_msgs_out (bk_ctx ?bk))"
    by (rule oversize_keeps_quota_taken [OF inv f s]) (simp_all add: ex_store_def ex_msg_def)
  then show ?thesis by auto
qed

text \<open>
  A message that has to wait because of the limit on bytes in flight takes a place of the quota
  when it is inserted, although it is only queued (moving it into flight takes another one).
\<close>
theorem queued_message_takes_quota:
  "\<exists>bk'. db__message_insert (\<lambda>_. True) ex_net 2 9 mosq_md_out 1 True 100 [] False
      (ex_bk\<lparr>bk_db := ex_db\<lparr>db_msg_store := [(100, ex_store\<lparr>ms_ref_count := 1\<rparr>)],
                db_config := ex_cfg\<lparr>cfg_max_inflight_bytes := 1\<rparr>\<rparr>,
             bk_ctx := ex_ctx\<lparr>ctx_msgs_out := ex_md\<lparr>md_inflight := [ex_msg 1 1 mosq_ms_wait_for_puback],
                md_msg_count := 1, md_msg_count12 := 1, md_msg_bytes := 1, md_msg_bytes12 := 1,
                md_inflight_maximum := 5, md_inflight_quota := 4\<rparr>\<rparr>\<rparr>) = Some (2, bk') \<and>
    map cm_addr (md_queued (ctx_msgs_out (bk_ctx bk'))) = [2] \<and>
    md_inflight_quota (ctx_msgs_out (bk_ctx bk')) = 3"
  by (simp add: ops_simps msgs_of_def ex_defs Let_def)

text \<open>
  The counters of messages with qos 1 and 2 go by the qos the message was published with, while the
  message is stored with the lower qos of its client: with a client limited to qos 0 the
  counter stays above the number of such messages even after all of them are gone.
\<close>
lemma max_qos_counter_drifts:
  "\<exists>bk1 bk2. db__message_insert (\<lambda>_. True) ex_net 1 9 mosq_md_out 1 True 100 [] False
      (ex_bk1\<lparr>bk_ctx := ex_ctx\<lparr>ctx_max_qos := 0\<rparr>\<rparr>) = Some (0, bk1) \<and>
    remove_msg mosq_md_out 1 bk1 = Some bk2 \<and>
    md_inflight (ctx_msgs_out (bk_ctx bk2)) = [] \<and> md_queued (ctx_msgs_out (bk_ctx bk2)) = [] \<and>
    md_msg_count12 (ctx_msgs_out (bk_ctx bk2)) = 1"
  by (simp add: ops_simps msgs_of_def ex_bk1_simps ex_defs Let_def remove_msg_def db__message_remove_def
      find_msg_def delete_msg_def db__msg_store_ref_dec_def db__msg_store_remove_def)

end
