(* ===== verification/Client_Props.thy ===== *)
theory Client_Props
  imports Broker_State
begin

text \<open>
  The client helpers of \<open>lib/util_mosq.c\<close> and the topic aliases of \<open>lib/alias_mosq.c\<close>: message ids
  are never 0 and come back after all 65535 only; an alias that was added is found.
\<close>

section \<open>Message ids\<close>

text \<open>The ids of \<open>n\<close> calls.\<close>

fun generated_mids :: "nat \<Rightarrow> mosquitto \<Rightarrow> u16 list" where
  "generated_mids 0 mosq = []"
| "generated_mids (Suc n) mosq =
     (let (mid, mosq) = mosquitto__mid_generate mosq in mid # generated_mids n mosq)"

definition mid_pos :: "u16 \<Rightarrow> nat" where
  "mid_pos mid = (unat mid + 65534) mod 65535"

lemma unat_u16_Suc: "unat (x + 1 :: u16) = (if unat x = 65535 then 0 else unat x + 1)"
proof -
  have "unat (x + 1) = (unat x + 1) mod 65536" by (simp add: unat_word_ariths)
  then show ?thesis using unat_u16_less [of x] by (cases "unat x = 65535") auto
qed

lemma mid_generate_pos:
  fixes mosq :: mosquitto
  defines "r \<equiv> mosquitto__mid_generate mosq"
  shows "unat (fst r) = (mid_pos (ctx_last_mid mosq) + 1) mod 65535 + 1" "ctx_last_mid (snd r) = fst r"
proof -
  let ?x = "ctx_last_mid mosq"
  have z: "(?x + 1 = 0) = (unat ?x = 65535)" using unat_u16_Suc [of ?x] by (simp add: unat_eq_0 [symmetric])
  have f: "fst r = (if unat ?x = 65535 then 1 else ?x + 1)"
  proof (cases "unat ?x = 65535")
    case True
    then have "?x + 1 = 0" using z by blast
    then show ?thesis using True by (simp add: r_def mosquitto__mid_generate_def Let_def)
  next
    case False
    then have "?x + 1 \<noteq> 0" using z by blast
    then show ?thesis using False by (simp add: r_def mosquitto__mid_generate_def Let_def)
  qed
  show "unat (fst r) = (mid_pos ?x + 1) mod 65535 + 1"
  proof (cases "unat ?x = 65535")
    case True
    then show ?thesis using f by (simp add: mid_pos_def)
  next
    case False
    then have l: "unat ?x < 65535" using unat_u16_less [of ?x] by simp
    have "(mid_pos ?x + 1) mod 65535 = (unat ?x + 65535) mod 65535" by (simp add: mid_pos_def mod_Suc_eq)
    also have "\<dots> = unat ?x" using l by simp
    finally show ?thesis using f False by (simp add: unat_u16_Suc)
  qed
  show "ctx_last_mid (snd r) = fst r" by (simp add: r_def mosquitto__mid_generate_def Let_def)
qed

lemma generated_mids_nth:
  "map unat (generated_mids n mosq) = map (\<lambda>k. (mid_pos (ctx_last_mid mosq) + k) mod 65535 + 1) [1..<Suc n]"
proof (induction n arbitrary: mosq)
  case (Suc n)
  let ?r = "mosquitto__mid_generate mosq" and ?p = "mid_pos (ctx_last_mid mosq)"
  have p: "mid_pos (fst ?r) = (?p + 1) mod 65535"
  proof -
    have "mid_pos (fst ?r) = ((?p + 1) mod 65535 + 65535) mod 65535"
      using mid_generate_pos(1) [of mosq] by (simp add: mid_pos_def)
    then show ?thesis by simp
  qed
  have "map unat (generated_mids (Suc n) mosq) = unat (fst ?r) # map unat (generated_mids n (snd ?r))"
    by (simp add: split_beta)
  also have "\<dots> = ((?p + 1) mod 65535 + 1) # map (\<lambda>k. (?p + 1 + k) mod 65535 + 1) [1..<Suc n]"
    unfolding Suc.IH mid_generate_pos by (simp add: p mod_add_left_eq)
  also have "map (\<lambda>k. (?p + 1 + k) mod 65535 + 1) [1..<Suc n] = map (\<lambda>k. (?p + k) mod 65535 + 1) [2..<Suc (Suc n)]"
    by (rule nth_equalityI) (simp_all del: upt_Suc)
  finally show ?case by (simp add: upt_conv_Cons numeral_2_eq_2 del: upt_Suc)
qed simp

lemma mod_window_inj: "inj_on (\<lambda>k. (p + k) mod m) {1..m :: nat}"
proof (rule inj_onI)
  fix i j assume "i \<in> {1..m}" "j \<in> {1..m}" "(p + i) mod m = (p + j) mod m"
  then show "i = j"
  proof (induction i j rule: linorder_wlog)
    case (le i j)
    then have "m dvd (p + j) - (p + i)" using mod_eq_dvd_iff_nat [of "p + i" "p + j" m] by simp
    then have "m dvd j - i" by simp
    moreover have "j - i < m" using le by auto
    ultimately show ?case using le(1) by (auto dest: dvd_imp_le)
  qed (metis)
qed

text \<open>
  C37: Message ids are never 0, and 65535 calls in a row give 65535 different ones: an id comes back only
  when all others have been used.
\<close>
theorem mid_generate_distinct:
  assumes "n \<le> 65535"
  shows "distinct (generated_mids n mosq) \<and> 0 \<notin> set (generated_mids n mosq)"
proof -
  have e: "map unat (generated_mids n mosq) = map (\<lambda>k. (mid_pos (ctx_last_mid mosq) + k) mod 65535 + 1) [1..<Suc n]"
    by (rule generated_mids_nth)
  have "inj_on (\<lambda>k. (mid_pos (ctx_last_mid mosq) + k) mod 65535 + 1) {1..65535}"
    using mod_window_inj [of "mid_pos (ctx_last_mid mosq)" 65535] by (simp add: inj_on_def)
  then have "inj_on (\<lambda>k. (mid_pos (ctx_last_mid mosq) + k) mod 65535 + 1) (set [1..<Suc n])"
    by (rule inj_on_subset) (use assms in auto)
  then have "distinct (map unat (generated_mids n mosq))" unfolding e by (simp add: distinct_map)
  then have "distinct (generated_mids n mosq)" by (simp add: distinct_map)
  moreover have "0 \<notin> set (map unat (generated_mids n mosq))" unfolding e by auto
  then have "0 \<notin> set (generated_mids n mosq)" by (metis image_eqI list.set_map unat_0)
  ultimately show ?thesis by blast
qed

definition ex_client :: mosquitto where
  "ex_client = (let md = \<lparr>md_inflight = [], md_queued = [], md_msg_bytes = 0, md_msg_bytes12 = 0, md_msg_count = 0,
     md_msg_count12 = 0, md_inflight_quota = 20, md_inflight_maximum = 20\<rparr>
   in \<lparr>ctx_sock = 7, ctx_protocol = mosq_p_mqtt5, ctx_id = Some ''c'', ctx_username = None, ctx_last_mid = 65534,
     ctx_state = mosq_cs_active, ctx_out_packet_count = 0, ctx_clean_start = True, ctx_is_dropping = False,
     ctx_bridge = None, ctx_msgs_in = md, ctx_msgs_out = md, ctx_max_qos = 2, ctx_aliases = [(Some ''a'', 1)],
     ctx_sent = []\<rparr>)"

theorem mid_generate_distinct_witness:
  "generated_mids 3 ex_client = [65535, 1, 2] \<and> distinct (generated_mids 3 ex_client)"
  using mid_generate_distinct [of 3 ex_client]
  by (simp add: ex_client_def Let_def mosquitto__mid_generate_def numeral_3_eq_3)

section \<open>Topic aliases\<close>

lemma alias_replace_lookup:
  "alias_replace True topic alias as = Some (rc, as') \<Longrightarrow>
   rc = MOSQ_ERR_SUCCESS \<and> alias_lookup as' b = (if b = alias then Some (Some topic) else alias_lookup as b)"
  by (induction "True" topic "alias" "as" arbitrary: rc "as'" rule: alias_replace.induct) (auto split: if_splits)

lemma alias_replace_None: "alias_replace dup topic alias as = None \<longleftrightarrow> alias_lookup as alias = None"
  by (induction dup topic "alias" "as" rule: alias_replace.induct) auto

lemma alias_lookup_append:
  "alias_lookup (as @ bs) b = (case alias_lookup as b of None \<Rightarrow> alias_lookup bs b | Some t \<Rightarrow> Some t)"
  by (induction "as" b rule: alias_lookup.induct) auto

text \<open>
  After an alias was added, it stands for the new topic, a topic it stood for before is forgotten,
  and every other alias stands for what it did.
\<close>
theorem alias_add_find:
  assumes "alias__add True True mosq topic alias = (rc, mosq')"
  shows "rc = MOSQ_ERR_SUCCESS \<and>
    alias__find True mosq' b = (if b = alias then Inr topic else alias__find True mosq b)"
proof (cases "alias_replace True topic alias (ctx_aliases mosq)")
  case None
  then have l: "alias_lookup (ctx_aliases mosq) alias = None" by (simp add: alias_replace_None)
  have r: "rc = MOSQ_ERR_SUCCESS" "mosq' = mosq\<lparr>ctx_aliases := ctx_aliases mosq @ [(Some topic, alias)]\<rparr>"
    using assms None by (auto simp: alias__add_def)
  have "alias_lookup (ctx_aliases mosq') b = (if b = alias then Some (Some topic) else alias_lookup (ctx_aliases mosq) b)"
    using l by (simp add: r(2) alias_lookup_append split: option.split)
  then show ?thesis using r(1) by (simp add: alias__find_def)
next
  case (Some x)
  obtain as' where x: "x = (rc, as')" "mosq' = mosq\<lparr>ctx_aliases := as'\<rparr>"
    using assms Some by (cases x) (auto simp: alias__add_def)
  then show ?thesis using alias_replace_lookup [of topic "alias" "ctx_aliases mosq" rc as' b] Some
    by (simp add: alias__find_def)
qed

theorem alias_add_find_witness:
  "alias__find True (snd (alias__add True True ex_client ''b'' 1)) 1 = Inr ''b''"
  using alias_add_find [of ex_client "''b''" 1 "fst (alias__add True True ex_client ''b'' 1)"
      "snd (alias__add True True ex_client ''b'' 1)" 1] by simp

text \<open>
  C38: When copying the new topic of an alias that is in use fails, the alias is left with a NULL
  topic, and looking it up follows it.
\<close>
theorem alias_add_failure_traps:
  assumes "alias_lookup (ctx_aliases mosq) alias = Some t"
  shows "\<exists>mosq'. alias__add grow False mosq topic alias = (MOSQ_ERR_NOMEM, mosq') \<and> alias__find dup mosq' alias = Inl Trap"
proof -
  have "\<exists>as'. alias_replace False topic alias as = Some (MOSQ_ERR_NOMEM, as') \<and> alias_lookup as' alias = Some None"
    if "alias_lookup as alias = Some t" for as
    using that by (induction "as" "alias" rule: alias_lookup.induct) (auto split: if_splits)
  from this [OF assms] show ?thesis by (auto simp: alias__add_def alias__find_def)
qed

theorem alias_add_failure_traps_witness:
  "\<exists>mosq'. alias__add True False ex_client ''b'' 1 = (MOSQ_ERR_NOMEM, mosq') \<and> alias__find True mosq' 1 = Inl Trap"
  by (rule alias_add_failure_traps [of _ _ "Some ''a''"]) (simp add: ex_client_def Let_def)

end
