(* ===== verification/Topic_Tokens.thy ===== *)
theory Topic_Tokens
  imports Topic
begin

text \<open>
  \<open>src/topic_tok.c\<close>: cutting a topic or a filter at its slashes into an array of tokens, with
  a first token that keeps ordinary topics apart from those that start with \<open>$\<close>, and the
  two tokens of a shared subscription taken off. The array has \<open>count + 3\<close> cells of which
  every access is checked.
\<close>

section \<open>The code\<close>

text \<open>The first \<open>while\<close>: \<open>count\<close> and \<open>saveptr\<close>, which is at the start or at a slash.\<close>

function token_count :: "nat \<Rightarrow> string \<Rightarrow> nat" where
  "token_count count saveptr =
     (case dropWhile (\<lambda>c. c \<noteq> CHR ''/'') (tl saveptr) of
        [] \<Rightarrow> count + 1
      | c # s \<Rightarrow> token_count (count + 1) (c # s))"
  by pat_completeness auto

termination
proof (relation "measure (\<lambda>(_, s). length s)")
  fix count saveptr c s
  assume "dropWhile (\<lambda>c. c \<noteq> CHR ''/'') (tl saveptr) = c # s"
  then have "length (c # s) \<le> length (tl saveptr)" by (metis length_dropWhile_le)
  then show "((count + 1, c # s), (count, saveptr)) \<in> measure (\<lambda>(_, s). length s)"
    by (cases saveptr) auto
qed simp

text \<open>The token and \<open>saveptr\<close> after it.\<close>

definition strtok_hier :: "string option \<Rightarrow> string option \<times> string option" where
  "strtok_hier saveptr =
     (case saveptr of
        None \<Rightarrow> (None, None)
      | Some s \<Rightarrow>
          (case dropWhile (\<lambda>c. c \<noteq> CHR ''/'') s of
             [] \<Rightarrow> (Some s, None)
           | c # r \<Rightarrow> (Some (takeWhile (\<lambda>c. c \<noteq> CHR ''/'') s), Some r)))"

lemma strtok_hier_less:
  "strtok_hier saveptr = (Some token, saveptr') \<Longrightarrow>
   (case saveptr' of None \<Rightarrow> 0 | Some s \<Rightarrow> Suc (length s)) < (case saveptr of None \<Rightarrow> 0 | Some s \<Rightarrow> Suc (length s))"
proof (cases saveptr)
  case (Some s)
  assume a: "strtok_hier saveptr = (Some token, saveptr')"
  show ?thesis
  proof (cases "dropWhile (\<lambda>c. c \<noteq> CHR ''/'') s")
    case (Cons c r)
    then have "length (c # r) \<le> length s" by (metis length_dropWhile_le)
    then show ?thesis using a Some Cons by (auto simp: strtok_hier_def)
  next
    case Nil
    then show ?thesis using a Some by (auto simp: strtok_hier_def simp del: dropWhile_eq_Nil_conv)
  qed
qed (simp add: strtok_hier_def)

text \<open>\<open>(*topics)[i]\<close> written and read, inside the array only.\<close>

definition cell_set :: "nat \<Rightarrow> string option \<Rightarrow> string option list \<Rightarrow> fault + string option list" where
  "cell_set i tok topics = (if i < length topics then Inr (topics[i := tok]) else Inl Trap)"

definition cell_get :: "nat \<Rightarrow> string option list \<Rightarrow> fault + string option" where
  "cell_get i topics = (if i < length topics then Inr (topics ! i) else Inl Trap)"

function token_loop :: "nat \<Rightarrow> string option \<Rightarrow> string option list \<Rightarrow> fault + string option list" where
  "token_loop topic_index saveptr topics =
     (case strtok_hier saveptr of
        (None, saveptr) \<Rightarrow> Inr topics
      | (Some token, saveptr) \<Rightarrow>
          seq (cell_set topic_index (Some token) topics) (\<lambda>topics. token_loop (topic_index + 1) saveptr topics))"
  by pat_completeness auto

termination
  by (relation "measure (\<lambda>(_, s, _). case s of None \<Rightarrow> 0 | Some s \<Rightarrow> Suc (length s))")
    (auto dest!: strtok_hier_less [OF sym])

text \<open>The loop that moves the tokens behind the name of a shared subscription.\<close>

fun share_loop :: "nat \<Rightarrow> nat \<Rightarrow> string option list \<Rightarrow> fault + string option list" where
  "share_loop i 0 topics = Inr topics"
| "share_loop i (Suc n) topics =
     seq (cell_get (i + 1) topics) (\<lambda>tok. seq (cell_set i tok topics) (share_loop (i + 1) n))"

definition sub__topic_tokenise ::
  "(nat \<Rightarrow> bool) \<Rightarrow> string \<Rightarrow> fault + (string option list \<times> string option)" where
  "sub__topic_tokenise alloc subtopic =
     (if subtopic = [] then Inl (Rc MOSQ_ERR_INVAL)
      else if \<not> alloc (length subtopic + 1) then Inl (Rc MOSQ_ERR_NOMEM)
      else
        let count = token_count 0 subtopic
        in if \<not> alloc ((count + 3) * 8) then Inl (Rc MOSQ_ERR_NOMEM)
           else
             let topics = replicate (count + 3) None
             in seq (if hd subtopic \<noteq> CHR ''$'' then cell_set 0 (Some []) topics else Inr topics) (\<lambda>topics.
                seq (token_loop (if hd subtopic \<noteq> CHR ''$'' then 1 else 0) (Some subtopic) topics) (\<lambda>topics.
                seq (cell_get 0 topics) (\<lambda>first.
                  case first of
                    None \<Rightarrow> Inl Trap
                  | Some tok \<Rightarrow>
                      if tok = ''$share'' then
                        if count < 2 then Inl (Rc MOSQ_ERR_PROTOCOL)
                        else
                          seq (cell_get 1 topics) (\<lambda>sharename.
                          seq (share_loop 1 (count - 2) topics) (\<lambda>topics.
                          seq (cell_set 0 (Some []) topics) (\<lambda>topics.
                          seq (cell_set (count - 1) None topics) (\<lambda>topics.
                            Inr (topics, sharename)))))
                      else Inr (topics, None)))))"

text \<open>What a loop over the array up to its NULL sees.\<close>

definition tokens_of :: "string option list \<Rightarrow> string list" where
  "tokens_of topics = map the (takeWhile (\<lambda>t. t \<noteq> None) topics)"

section \<open>Correctness\<close>

declare token_count.simps [simp del] token_loop.simps [simp del]

lemma levels_slash:
  "dropWhile (\<lambda>c. c \<noteq> CHR ''/'') s = c # r \<Longrightarrow> c = CHR ''/'' \<and> count_list s (CHR ''/'') = Suc (count_list r (CHR ''/''))"
  by (induction s) (auto split: if_splits)

lemma no_slash: "dropWhile (\<lambda>c. c \<noteq> CHR ''/'') s = [] \<Longrightarrow> count_list s (CHR ''/'') = 0"
  by (induction s) (auto split: if_splits)

lemma token_count_eq: "token_count n s = n + Suc (count_list (tl s) (CHR ''/''))"
proof (induction n s rule: token_count.induct)
  case (1 n s)
  show ?case
  proof (cases "dropWhile (\<lambda>c. c \<noteq> CHR ''/'') (tl s)")
    case Nil
    then show ?thesis using no_slash [OF Nil] by (subst token_count.simps) (simp del: dropWhile_eq_Nil_conv)
  next
    case (Cons c r)
    then show ?thesis using 1 [OF Cons] levels_slash [OF Cons] by (subst token_count.simps) simp
  qed
qed

lemma cells_levels:
  "levels s = (case strtok_hier (Some s) of (t, s') \<Rightarrow> the t # (case s' of None \<Rightarrow> [] | Some r \<Rightarrow> levels r))"
proof (cases "dropWhile (\<lambda>c. c \<noteq> CHR ''/'') s")
  case Nil
  moreover have "takeWhile (\<lambda>c. c \<noteq> CHR ''/'') s = s"
    using Nil by (metis append_Nil2 takeWhile_dropWhile_id)
  ultimately show ?thesis using Nil
    by (subst levels_dropWhile) (simp add: strtok_hier_def del: dropWhile_eq_Nil_conv)
next
  case (Cons c r)
  then show ?thesis by (subst levels_dropWhile) (simp add: strtok_hier_def)
qed

text \<open>The loop writes the levels one after the other.\<close>

lemma token_loop_eq:
  "i = length pre \<Longrightarrow> length (case saveptr of None \<Rightarrow> [] | Some s \<Rightarrow> levels s) \<le> k \<Longrightarrow>
   token_loop i saveptr (pre @ replicate k None) =
     Inr (pre @ map Some (case saveptr of None \<Rightarrow> [] | Some s \<Rightarrow> levels s) @
          replicate (k - length (case saveptr of None \<Rightarrow> [] | Some s \<Rightarrow> levels s)) None)"
proof (induction i saveptr "pre @ replicate k None" arbitrary: pre k rule: token_loop.induct)
  case (1 i saveptr)
  show ?case
  proof (cases saveptr)
    case None
    then show ?thesis by (subst token_loop.simps) (simp add: strtok_hier_def)
  next
    case (Some s)
    obtain t s' where st: "strtok_hier (Some s) = (Some t, s')"
        by (cases "dropWhile (\<lambda>c. c \<noteq> CHR ''/'') s") (auto simp: strtok_hier_def simp del: dropWhile_eq_Nil_conv)
    let ?ls = "case s' of None \<Rightarrow> [] | Some r \<Rightarrow> levels r"
    have ls: "levels s = t # ?ls" using cells_levels [of s] st by simp
    obtain k' where k: "k = Suc k'" using 1(3) Some ls by (cases k) auto
    have set: "cell_set i (Some t) (pre @ replicate k None) = Inr ((pre @ [Some t]) @ replicate k' None)"
      using 1(2) k by (simp add: cell_set_def list_update_append)
    have "token_loop (i + 1) s' ((pre @ [Some t]) @ replicate k' None) =
        Inr ((pre @ [Some t]) @ map Some ?ls @ replicate (k' - length ?ls) None)"
      by (rule 1(1) [OF st [folded Some, symmetric] refl])
        (use 1(2,3) Some ls k set in auto)
    then show ?thesis using Some st set ls k by (subst token_loop.simps) (simp add: seq_def)
  qed
qed

lemma tokens_of_append [simp]: "tokens_of (map Some ts @ replicate n None) = ts"
  by (induction ts) (auto simp: tokens_of_def takeWhile_replicate)

lemma share_loop_eq:
  "i = length pre \<Longrightarrow> length ts = n \<Longrightarrow>
   share_loop i n (pre @ [t] @ ts @ post) = Inr (pre @ ts @ [last (t # ts)] @ post)"
proof (induction n arbitrary: i pre t ts)
  case (Suc n)
  obtain t' ts' where ts: "ts = t' # ts'" "length ts' = n" using Suc.prems(2) by (cases ts) auto
  have "cell_get (i + 1) (pre @ [t] @ ts @ post) = Inr t'"
    using Suc.prems(1) ts by (simp add: cell_get_def nth_append)
  moreover have "cell_set i t' (pre @ [t] @ ts @ post) = Inr ((pre @ [t']) @ [t'] @ ts' @ post)"
    using Suc.prems(1) ts by (simp add: cell_set_def list_update_append)
  ultimately show ?case
    using Suc.IH [of "i + 1" "pre @ [t']" ts' t'] Suc.prems ts by (simp add: seq_def)
qed simp

lemma hd_levels: "hd (levels s) = takeWhile (\<lambda>c. c \<noteq> CHR ''/'') s"
  by (subst levels_dropWhile) simp

lemma token_count_levels:
  "s \<noteq> [] \<Longrightarrow> length (levels s) = (if hd s = CHR ''/'' then token_count 0 s + 1 else token_count 0 s)"
  by (cases s) (auto simp: token_count_eq length_levels)

text \<open>The array of a topic that starts with \<open>$\<close>, and of one that does not.\<close>

lemma token_array:
  assumes "s \<noteq> []"
  defines "n \<equiv> token_count 0 s + 3"
  shows "hd s = CHR ''$'' \<Longrightarrow>
      token_loop 0 (Some s) (replicate n None) = Inr (map Some (levels s) @ replicate 3 None)"
    "hd s \<noteq> CHR ''$'' \<Longrightarrow>
      \<exists>k. token_loop 1 (Some s) ((replicate n None)[0 := Some []]) = Inr (map Some ([] # levels s) @ replicate (Suc k) None)"
proof -
  have l: "length (levels s) = (if hd s = CHR ''/'' then token_count 0 s + 1 else token_count 0 s)"
    by (rule token_count_levels [OF assms(1)])
  {
    assume "hd s = CHR ''$''"
    then show "token_loop 0 (Some s) (replicate n None) = Inr (map Some (levels s) @ replicate 3 None)"
      using token_loop_eq [of 0 "[]" "Some s" n] l by (simp add: n_def)
  next
    have e: "(replicate n None)[0 := Some []] = [Some []] @ replicate (token_count 0 s + 2) None"
      by (simp add: n_def eval_nat_numeral)
    have "Suc (token_count 0 s + 1 - length (levels s)) = token_count 0 s + 2 - length (levels s)" using l by simp
    then show "\<exists>k. token_loop 1 (Some s) ((replicate n None)[0 := Some []]) = Inr (map Some ([] # levels s) @ replicate (Suc k) None)"
      using token_loop_eq [of 1 "[Some []]" "Some s" "token_count 0 s + 2"] l unfolding e
      by (intro exI [of _ "token_count 0 s + 1 - length (levels s)"]) (simp del: replicate_Suc)
  }
qed

lemma cell_set_mid: "cell_set (length xs) y (xs @ [x] @ ys) = Inr (xs @ [y] @ ys)"
  by (simp add: cell_set_def)

lemma share_array:
  assumes "length ls = count" and "2 \<le> count"
  shows "seq (share_loop 1 (count - 2) (map Some ls @ replicate 3 None)) (\<lambda>topics.
         seq (cell_set 0 (Some []) topics) (\<lambda>topics. seq (cell_set (count - 1) None topics) f)) =
     f (map Some ([] # drop 2 ls) @ replicate 4 None)"
proof -
  obtain a b rest where ls: "ls = a # b # rest" using assms by (cases ls; cases "tl ls") auto
  have "share_loop 1 (count - 2) ([Some a] @ [Some b] @ map Some rest @ replicate 3 None) =
      Inr ([Some a] @ map Some rest @ [last (Some b # map Some rest)] @ replicate 3 None)"
    by (rule share_loop_eq) (use assms ls in auto)
  moreover have "[Some ([] :: string)] @ map Some rest @ [None] @ replicate 3 None = map Some ([] # rest) @ replicate 4 None"
    by (simp add: eval_nat_numeral)
  moreover have "cell_set 0 (Some []) ([Some a] @ map Some rest @ [x] @ replicate 3 None) =
      Inr (([Some []] @ map Some rest) @ [x] @ replicate 3 None)" for x
    by (simp add: cell_set_def)
  moreover have "count - 1 = length ([Some []] @ map Some rest)" using assms ls by simp
  then have "cell_set (count - 1) None (([Some []] @ map Some rest) @ [x] @ replicate 3 None) =
      Inr (([Some []] @ map Some rest) @ [None] @ replicate 3 None)" for x
    by (simp only: cell_set_mid)
  ultimately show ?thesis
    using ls by (simp add: seq_def)
qed

lemma tokenise_cases:
  assumes "subtopic \<noteq> []" and "\<And>n. alloc n"
  shows "let ls = levels subtopic
    in if hd ls = ''$share'' then
         if length ls < 2 then sub__topic_tokenise alloc subtopic = Inl (Rc MOSQ_ERR_PROTOCOL)
         else \<exists>topics. sub__topic_tokenise alloc subtopic = Inr (topics, Some (ls ! 1)) \<and> tokens_of topics = [] # drop 2 ls
       else \<exists>topics. sub__topic_tokenise alloc subtopic = Inr (topics, None) \<and>
         tokens_of topics = (if hd subtopic = CHR ''$'' then ls else [] # ls)"
proof (cases "hd subtopic = CHR ''$''")
  case False
  then have "hd (levels subtopic) \<noteq> ''$share''" using assms(1) by (cases subtopic) (auto simp: hd_levels)
  then show ?thesis
    using token_array(2) [OF assms(1) False] False assms tokens_of_append [of "[] # levels subtopic" "Suc k" for k]
    by (auto simp: sub__topic_tokenise_def Let_def seq_def cell_set_def cell_get_def simp del: replicate_Suc)
next
  case True
  let ?ls = "levels subtopic" and ?n = "token_count 0 subtopic"
  have l: "length ?ls = ?n" using token_count_levels [OF assms(1)] True by simp
  have f: "cell_get 0 (map Some ?ls @ replicate 3 None) = Inr (Some (hd ?ls))"
    by (cases ?ls) (auto simp: cell_get_def)
  have "sub__topic_tokenise alloc subtopic =
    (if hd ?ls = ''$share'' then
       if ?n < 2 then Inl (Rc MOSQ_ERR_PROTOCOL)
       else Inr (map Some ([] # drop 2 ?ls) @ replicate 4 None, Some (?ls ! 1))
     else Inr (map Some ?ls @ replicate 3 None, None))"
  proof -
    have g: "2 \<le> ?n \<Longrightarrow> cell_get 1 (map Some ?ls @ replicate 3 None) = Inr (Some (?ls ! 1))"
      using l by (simp add: cell_get_def nth_append)
    show ?thesis
      using share_array [OF l, of "\<lambda>topics. Inr (topics, Some (?ls ! 1))"] g f token_array(1) [OF assms(1) True] True assms
      by (simp add: sub__topic_tokenise_def Let_def)
  qed
  then show ?thesis using l True tokens_of_append [of "[] # drop 2 ?ls" 4] tokens_of_append [of ?ls 3] by (simp add: Let_def)
qed

text \<open>
  C40: Cutting a filter never writes outside the array of \<open>count + 3\<close> cells, and gives its levels
  behind an empty token; a filter that starts with \<open>$\<close> has no empty token, and of a shared
  subscription the name is returned and only the levels behind it are kept.
\<close>
theorem topic_tokenise_levels:
  assumes "subtopic \<noteq> []" and "\<And>n. alloc n"
  shows "let ls = levels subtopic
    in if hd ls = ''$share'' then
         if length ls < 2 then sub__topic_tokenise alloc subtopic = Inl (Rc MOSQ_ERR_PROTOCOL)
         else \<exists>topics. sub__topic_tokenise alloc subtopic = Inr (topics, Some (ls ! 1)) \<and> tokens_of topics = [] # drop 2 ls
       else \<exists>topics. sub__topic_tokenise alloc subtopic = Inr (topics, None) \<and>
         tokens_of topics = (if hd subtopic = CHR ''$'' then ls else [] # ls)"
  using assms by (rule tokenise_cases)

theorem topic_tokenise_levels_witness:
  "\<exists>topics. sub__topic_tokenise (\<lambda>_. True) ''$share/g/a/+'' = Inr (topics, Some ''g'') \<and> tokens_of topics = [[], ''a'', ''+'']"
  using topic_tokenise_levels [of "''$share/g/a/+''" "\<lambda>_. True"] by simp

end
