(* ===== verification/Hier.thy ===== *)
theory Hier
  imports Topic_Tokens
begin

text \<open>
  The trees of topics that subscriptions (\<open>struct mosquitto__subhier\<close>) and retained messages
  (\<open>struct mosquitto__retainhier\<close>) are kept in. The hash table of the children is the list of
  its entries in the order of \<open>HASH_ITER\<close>, that of insertion; a node is named by the path
  of topics to it, so that its parent is at the path without the last.
\<close>

datatype 'a hier = Hier (hier_children: "(string \<times> 'a hier) list") (hier_data: 'a)

type_synonym 'a forest = "(string \<times> 'a hier) list"

text \<open>\<open>HASH_FIND\<close>, changing an entry in place, \<open>HASH_ADD_KEYPTR\<close> and \<open>HASH_DELETE\<close>.\<close>

definition hash_find :: "string \<Rightarrow> (string \<times> 'b) list \<Rightarrow> 'b option" where
  "hash_find t cs = map_of cs t"

definition hash_put :: "string \<Rightarrow> 'b \<Rightarrow> (string \<times> 'b) list \<Rightarrow> (string \<times> 'b) list" where
  "hash_put t h cs = map (\<lambda>(k, v). (k, if k = t then h else v)) cs"

definition hash_add :: "string \<Rightarrow> 'b \<Rightarrow> (string \<times> 'b) list \<Rightarrow> (string \<times> 'b) list" where
  "hash_add t h cs = cs @ [(t, h)]"

definition hash_delete :: "string \<Rightarrow> (string \<times> 'b) list \<Rightarrow> (string \<times> 'b) list" where
  "hash_delete t cs = filter (\<lambda>(k, v). k \<noteq> t) cs"

lemma hash_find_put [simp]:
  "hash_find u (hash_put t h cs) = (if u = t then map_option (\<lambda>_. h) (hash_find t cs) else hash_find u cs)"
  by (induction cs) (auto simp: hash_find_def hash_put_def)

lemma hash_find_add [simp]:
  "hash_find u (hash_add t h cs) =
     (case hash_find u cs of Some x \<Rightarrow> Some x | None \<Rightarrow> if u = t then Some h else None)"
  by (auto simp: hash_find_def hash_add_def map_add_def split: option.split)

lemma hash_find_delete [simp]:
  "hash_find u (hash_delete t cs) = (if u = t then None else hash_find u cs)"
  by (induction cs) (auto simp: hash_find_def hash_delete_def)

lemma hash_put_Nil [simp]: "hash_put t h cs = [] \<longleftrightarrow> cs = []"
  by (simp add: hash_put_def)

lemma hash_add_ne [simp]: "hash_add t h cs \<noteq> []"
  by (simp add: hash_add_def)

lemma hash_find_Nil [simp]: "hash_find t [] = None"
  by (simp add: hash_find_def)

lemma hash_empty: "(\<And>t. hash_find t cs = None) \<Longrightarrow> cs = []"
  by (cases cs) (auto simp: hash_find_def split: if_splits, metis option.distinct(1))

lemma hash_put_same: "distinct (map fst f) \<Longrightarrow> hash_find k f = Some h \<Longrightarrow> hash_put k h f = f"
  by (induction f) (auto simp: hash_find_def hash_put_def rev_image_eqI split: if_splits intro!: map_idI)

lemma map_fst_put [simp]: "map fst (hash_put k h f) = map fst f"
  by (simp add: hash_put_def comp_def split_beta)

lemma hash_put_put [simp]: "hash_put k x (hash_put k y f) = hash_put k x f"
  by (auto simp: hash_put_def)

lemma hash_find_None: "hash_find k f = None \<longleftrightarrow> k \<notin> fst ` set f"
  by (simp add: hash_find_def map_of_eq_None_iff)

lemma hash_put_absent: "hash_find k f = None \<Longrightarrow> hash_put k h f = f"
  by (induction f) (auto simp: hash_put_def hash_find_def split: if_splits)

lemma hash_delete_absent: "hash_find k f = None \<Longrightarrow> hash_delete k f = f"
  by (induction f) (auto simp: hash_delete_def hash_find_def split: if_splits)

lemma hash_append [simp]:
  "hash_put k h (f @ g) = hash_put k h f @ hash_put k h g" "hash_delete k (f @ g) = hash_delete k f @ hash_delete k g"
  by (simp_all add: hash_put_def hash_delete_def)

section \<open>Nodes by their path\<close>

fun node_at :: "string list \<Rightarrow> 'a forest \<Rightarrow> 'a hier option" where
  "node_at [] f = None"
| "node_at (t # ts) f =
     (case hash_find t f of
        None \<Rightarrow> None
      | Some h \<Rightarrow> if ts = [] then Some h else node_at ts (hier_children h))"

fun update_at :: "string list \<Rightarrow> ('a \<Rightarrow> 'a) \<Rightarrow> 'a forest \<Rightarrow> 'a forest" where
  "update_at [] g f = f"
| "update_at (t # ts) g f =
     (case hash_find t f of
        None \<Rightarrow> f
      | Some h \<Rightarrow>
          hash_put t (if ts = [] then Hier (hier_children h) (g (hier_data h))
                      else Hier (update_at ts g (hier_children h)) (hier_data h)) f)"

fun delete_at :: "string list \<Rightarrow> 'a forest \<Rightarrow> 'a forest" where
  "delete_at [] f = f"
| "delete_at (t # ts) f =
     (if ts = [] then hash_delete t f
      else
        case hash_find t f of
          None \<Rightarrow> f
        | Some h \<Rightarrow> hash_put t (Hier (delete_at ts (hier_children h)) (hier_data h)) f)"

text \<open>The data of the nodes: a view of a forest as a map from paths.\<close>

definition data_at :: "'a forest \<Rightarrow> string list \<Rightarrow> 'a option" where
  "data_at f p = map_option hier_data (node_at p f)"

lemma data_at_simps [simp]:
  "data_at f [] = None" "data_at [] p = None"
  "data_at f [t] = map_option hier_data (hash_find t f)"
  "data_at f (t # u # ts) = (case hash_find t f of None \<Rightarrow> None | Some h \<Rightarrow> data_at (hier_children h) (u # ts))"
  by (auto simp: data_at_def split: option.split) (cases p; simp)

lemma data_at_Cons:
  "data_at f (t # ts) = (case hash_find t f of None \<Rightarrow> None
     | Some h \<Rightarrow> if ts = [] then Some (hier_data h) else data_at (hier_children h) ts)"
  by (cases ts) (auto split: option.split)

lemma data_at_put:
  "data_at (hash_put t h f) (u # us) =
     (if u = t then (case hash_find t f of None \<Rightarrow> None | Some _ \<Rightarrow> if us = [] then Some (hier_data h) else data_at (hier_children h) us)
      else data_at f (u # us))"
  by (cases us) (auto split: option.split)

lemma data_at_update [simp]:
  "data_at (update_at p g f) q = (if q = p then map_option g (data_at f p) else data_at f q)"
proof (induction p g f arbitrary: q rule: update_at.induct)
  case (2 t ts g f)
  then show ?case
    by (cases q) (auto simp: data_at_Cons data_at_put split: option.splits)
qed simp

end
