(* ===== verification/Subs.thy ===== *)
theory Subs
  imports Database_Ops Property_Build Hier
begin

text \<open>
  \<open>src/subs.c\<close>: subscribing, unsubscribing, and handing a message to every subscriber whose
  filter matches. The state is a \<open>server\<close>: the database, all clients, and the tree of
  subscriptions. A client is named by its address, and is live as long as anything names it;
  the array \<open>subs\<close> of a client, which points at the nodes it has a subscription in, is a
  list of paths. The decision of the access control is an argument.
\<close>

section \<open>State\<close>

record mosquitto__subleaf =
  sl_context :: nat
  sl_identifier :: u32
  sl_qos :: nat
  sl_no_local :: bool
  sl_retain_as_published :: bool

record subs_data =
  sd_subs :: "mosquitto__subleaf list"
  sd_shared :: "(string \<times> mosquitto__subleaf list) list"

type_synonym subhier = "subs_data hier"

type_synonym retainhier = "nat option hier"

definition no_subs :: subs_data where
  "no_subs = \<lparr>sd_subs = [], sd_shared = []\<rparr>"

record server =
  sv_db :: mosquitto_db
  sv_contexts :: "nat \<Rightarrow> mosquitto"
  sv_subs :: "subs_data forest"
  sv_sub_refs :: "nat \<Rightarrow> string list option list"
  sv_shared_refs :: "nat \<Rightarrow> (string list \<times> string) option list"
  sv_subscription_count :: int
  sv_shared_subscription_count :: int
  sv_retains :: "nat option forest"
  sv_retained_count :: int

type_synonym acl_check = "server \<Rightarrow> nat \<Rightarrow> string \<Rightarrow> mosquitto_msg_store \<Rightarrow> int"

abbreviation (input) MQTT_SUB_OPT_NO_LOCAL :: u8 where
  "MQTT_SUB_OPT_NO_LOCAL \<equiv> 0x04"

abbreviation (input) MQTT_SUB_OPT_RETAIN_AS_PUBLISHED :: u8 where
  "MQTT_SUB_OPT_RETAIN_AS_PUBLISHED \<equiv> 0x08"

section \<open>Delivery\<close>

text \<open>The address of a new node: any that no node of the lists has.\<close>

definition new_addr :: "mosquitto_msg_data \<Rightarrow> nat" where
  "new_addr md = Suc (foldr max (map cm_addr (md_inflight md @ md_queued md)) 0)"

definition subs__send ::
  "acl_check \<Rightarrow> (nat \<Rightarrow> bool) \<Rightarrow> net \<Rightarrow> mosquitto__subleaf \<Rightarrow> string \<Rightarrow> nat \<Rightarrow> bool \<Rightarrow> nat \<Rightarrow> server \<Rightarrow>
   (int \<times> server) option" where
  "subs__send acl alloc net leaf topic qos retain stored sv =
     (case store_at (sv_db sv) stored of
        None \<Rightarrow> None
      | Some store \<Rightarrow>
          let rc2 = acl sv (sl_context leaf) topic store
          in if rc2 = err_code MOSQ_ERR_ACL_DENIED then Some (0, sv)
             else if rc2 = 0 then
               let client_qos = sl_qos leaf;
                   msg_qos = (if cfg_upgrade_outgoing_qos (db_config (sv_db sv)) then client_qos
                              else if qos > client_qos then client_qos else qos);
                   context = sv_contexts sv (sl_context leaf);
                   (mid, context) = (if msg_qos \<noteq> 0 then mosquitto__mid_generate context else (0, context));
                   client_retain = (if sl_retain_as_published leaf then retain else False);
                   properties =
                     (if sl_identifier leaf \<noteq> 0 then
                        (case mosquitto_property_add_varint alloc (Some []) MQTT_PROP_SUBSCRIPTION_IDENTIFIER
                                (sl_identifier leaf) of Inr props \<Rightarrow> props | Inl _ \<Rightarrow> [])
                      else [])
               in (case db__message_insert alloc net (new_addr (ctx_msgs_out context)) mid mosq_md_out msg_qos client_retain stored
                          properties True \<lparr>bk_db = sv_db sv, bk_ctx = context\<rparr> of
                     None \<Rightarrow> None
                   | Some (rc, bk) \<Rightarrow>
                       Some (if rc = 1 then 1 else 0,
                         sv\<lparr>sv_db := bk_db bk,
                            sv_contexts := (sv_contexts sv)(sl_context leaf := bk_ctx bk)\<rparr>))
             else Some (1, sv))"

text \<open>Each shared subscription sends to its first client, who then goes to the end.\<close>

fun subs__shared_loop ::
  "(mosquitto__subleaf \<Rightarrow> server \<Rightarrow> (int \<times> server) option) \<Rightarrow> (string \<times> mosquitto__subleaf list) list \<Rightarrow> int \<Rightarrow>
   server \<Rightarrow> (int \<times> (string \<times> mosquitto__subleaf list) list \<times> server) option" where
  "subs__shared_loop send [] rc sv = Some (rc, [], sv)"
| "subs__shared_loop send ((name, []) # shareds) rc sv = None"
| "subs__shared_loop send ((name, leaf # leafs) # shareds) rc sv =
     (case send leaf sv of
        None \<Rightarrow> None
      | Some (rc2, sv) \<Rightarrow>
          map_option (\<lambda>(rc, shareds, sv). (rc, (name, leafs @ [leaf]) # shareds, sv))
            (subs__shared_loop send shareds (if rc2 \<noteq> 0 then 1 else rc) sv))"

fun subs__leaf_loop ::
  "(mosquitto__subleaf \<Rightarrow> server \<Rightarrow> (int \<times> server) option) \<Rightarrow> string \<Rightarrow> mosquitto__subleaf list \<Rightarrow> int \<Rightarrow> server \<Rightarrow>
   (int \<times> server) option" where
  "subs__leaf_loop send source_id [] rc sv = Some (rc, sv)"
| "subs__leaf_loop send source_id (leaf # leafs) rc sv =
     (case ctx_id (sv_contexts sv (sl_context leaf)) of
        None \<Rightarrow> subs__leaf_loop send source_id leafs rc sv
      | Some cid \<Rightarrow>
          if sl_no_local leaf \<and> cid = source_id then subs__leaf_loop send source_id leafs rc sv
          else
            (case send leaf sv of
               None \<Rightarrow> None
             | Some (rc2, sv) \<Rightarrow> subs__leaf_loop send source_id leafs (if rc2 \<noteq> 0 then 1 else rc) sv))"

definition subs__process ::
  "(mosquitto__subleaf \<Rightarrow> server \<Rightarrow> (int \<times> server) option) \<Rightarrow> string option \<Rightarrow> subs_data \<Rightarrow> server \<Rightarrow>
   (int \<times> subs_data \<times> server) option" where
  "subs__process send source_id data sv =
     (case subs__shared_loop send (sd_shared data) 0 sv of
        None \<Rightarrow> None
      | Some (rc, shareds, sv) \<Rightarrow>
          (case (case source_id of None \<Rightarrow> Some (rc, sv) | Some s \<Rightarrow> subs__leaf_loop send s (sd_subs data) rc sv) of
             None \<Rightarrow> None
           | Some (rc, sv) \<Rightarrow>
               Some (if sd_subs data \<noteq> [] \<or> shareds \<noteq> [] then rc else err_code MOSQ_ERR_NO_SUBSCRIBERS,
                 data\<lparr>sd_shared := shareds\<rparr>, sv)))"

section \<open>Searching\<close>

text \<open>
  One \<open>if(branch)\<close> of \<open>sub__search\<close>: what is done with the child of a key, and what its
  return code means. \<open>Inl rc\<close> returns, \<open>Inr\<close> goes on with \<open>have_subscribers\<close>.
\<close>

definition child_step ::
  "string \<Rightarrow> ('a hier \<Rightarrow> 's \<Rightarrow> (int \<times> 'a hier \<times> 's) option) \<Rightarrow> (int + bool) \<times> 'a hier \<times> 's \<Rightarrow>
   ((int + bool) \<times> 'a hier \<times> 's) option" where
  "child_step key f r =
     (case r of
        (Inl rc, h, st) \<Rightarrow> Some r
      | (Inr have_subscribers, h, st) \<Rightarrow>
          (case hash_find key (hier_children h) of
             None \<Rightarrow> Some r
           | Some branch \<Rightarrow>
               (case f branch st of
                  None \<Rightarrow> None
                | Some (rc, branch, st) \<Rightarrow>
                    Some (if rc = 0 then Inr True
                          else if rc = err_code MOSQ_ERR_NO_SUBSCRIBERS then Inr have_subscribers else Inl rc,
                          Hier (hash_put key branch (hier_children h)) (hier_data h), st))))"

definition on_data ::
  "('a \<Rightarrow> 's \<Rightarrow> (int \<times> 'a \<times> 's) option) \<Rightarrow> 'a hier \<Rightarrow> 's \<Rightarrow> (int \<times> 'a hier \<times> 's) option" where
  "on_data process h st =
     map_option (\<lambda>(rc, data, st). (rc, Hier (hier_children h) data, st)) (process (hier_data h) st)"

definition hash_wildcard ::
  "('a \<Rightarrow> 's \<Rightarrow> (int \<times> 'a \<times> 's) option) \<Rightarrow> (int + bool) \<times> 'a hier \<times> 's \<Rightarrow> ((int + bool) \<times> 'a hier \<times> 's) option" where
  "hash_wildcard process r =
     (case hash_find ''#'' (hier_children (fst (snd r))) of
        None \<Rightarrow> Some r
      | Some branch \<Rightarrow> if hier_children branch = [] then child_step ''#'' (on_data process) r else Some r)"

definition search_result :: "(int + bool) \<times> 'a hier \<times> 's \<Rightarrow> int \<times> 'a hier \<times> 's" where
  "search_result r =
     (case r of
        (Inl rc, h, st) \<Rightarrow> (rc, h, st)
      | (Inr have_subscribers, h, st) \<Rightarrow> (if have_subscribers then 0 else err_code MOSQ_ERR_NO_SUBSCRIBERS, h, st))"

text \<open>\<open>process\<close> is \<open>subs__process\<close> with the message.\<close>

fun sub__search ::
  "('a \<Rightarrow> 's \<Rightarrow> (int \<times> 'a \<times> 's) option) \<Rightarrow> string list \<Rightarrow> 'a hier \<Rightarrow> 's \<Rightarrow> (int \<times> 'a hier \<times> 's) option" where
  "sub__search process [] h st =
     map_option search_result (hash_wildcard process (Inr False, h, st))"
| "sub__search process (t # ts) h st =
     map_option search_result
      (Option.bind (child_step t (sub__search process ts) (Inr False, h, st)) (\<lambda>r.
       Option.bind (if ts = [] then child_step t (on_data process) r else Some r) (\<lambda>r.
       Option.bind (child_step ''+'' (sub__search process ts) r) (\<lambda>r.
       Option.bind (if ts = [] then child_step ''+'' (on_data process) r else Some r) (\<lambda>r.
         hash_wildcard process r)))))"

section \<open>Subscribing\<close>

fun leaf_update ::
  "(nat \<Rightarrow> mosquitto) \<Rightarrow> string \<Rightarrow> nat \<Rightarrow> u32 \<Rightarrow> mosquitto__subleaf list \<Rightarrow> mosquitto__subleaf list option" where
  "leaf_update contexts cid qos identifier [] = None"
| "leaf_update contexts cid qos identifier (leaf # leafs) =
     (if ctx_id (contexts (sl_context leaf)) = Some cid
      then Some (leaf\<lparr>sl_qos := qos, sl_identifier := identifier\<rparr> # leafs)
      else map_option ((#) leaf) (leaf_update contexts cid qos identifier leafs))"

definition sizeof_subleaf :: nat where
  "sizeof_subleaf = 40"

definition sub__add_leaf ::
  "(nat \<Rightarrow> bool) \<Rightarrow> (nat \<Rightarrow> mosquitto) \<Rightarrow> nat \<Rightarrow> string \<Rightarrow> nat \<Rightarrow> u32 \<Rightarrow> u8 \<Rightarrow> mosquitto__subleaf list \<Rightarrow>
   int \<times> mosquitto__subleaf list" where
  "sub__add_leaf alloc contexts context cid qos identifier options head =
     (case leaf_update contexts cid qos identifier head of
        Some leafs \<Rightarrow> (err_code MOSQ_ERR_SUB_EXISTS, leafs)
      | None \<Rightarrow>
          if \<not> alloc sizeof_subleaf then (err_code MOSQ_ERR_NOMEM, head)
          else (0, head @ [\<lparr>sl_context = context, sl_identifier = identifier, sl_qos = qos,
                  sl_no_local = (options AND MQTT_SUB_OPT_NO_LOCAL \<noteq> 0),
                  sl_retain_as_published = (options AND MQTT_SUB_OPT_RETAIN_AS_PUBLISHED \<noteq> 0)\<rparr>]))"

text \<open>Putting a pointer into the first NULL cell of an array, or at its end.\<close>

fun free_cell :: "'b \<Rightarrow> 'b option list \<Rightarrow> 'b option list option" where
  "free_cell x [] = None"
| "free_cell x (None # cells) = Some (Some x # cells)"
| "free_cell x (Some y # cells) = map_option ((#) (Some y)) (free_cell x cells)"

definition add_rc :: "mosquitto \<Rightarrow> int \<Rightarrow> int" where
  "add_rc context rc =
     (if ctx_protocol context = mosq_p_mqtt31 \<or> ctx_protocol context = mosq_p_mqtt5 then rc else 0)"

definition sub__add_normal ::
  "(nat \<Rightarrow> bool) \<Rightarrow> nat \<Rightarrow> string \<Rightarrow> nat \<Rightarrow> u32 \<Rightarrow> u8 \<Rightarrow> string list \<Rightarrow> subs_data \<Rightarrow> server \<Rightarrow>
   int \<times> subs_data \<times> server" where
  "sub__add_normal alloc context cid qos identifier options path data sv =
     (case sub__add_leaf alloc (sv_contexts sv) context cid qos identifier options (sd_subs data) of
        (rc, leafs) \<Rightarrow>
          if rc > 0 then (rc, data, sv)
          else if rc \<noteq> err_code MOSQ_ERR_SUB_EXISTS then
            let refs = sv_sub_refs sv context
            in (case (case free_cell path refs of
                        Some refs \<Rightarrow> Some refs
                      | None \<Rightarrow> if alloc (8 * (length refs + 1)) then Some (refs @ [Some path]) else None) of
                  None \<Rightarrow> (err_code MOSQ_ERR_NOMEM, data, sv)
                | Some refs \<Rightarrow>
                    (add_rc (sv_contexts sv context) rc, data\<lparr>sd_subs := leafs\<rparr>,
                     sv\<lparr>sv_sub_refs := (sv_sub_refs sv)(context := refs),
                        sv_subscription_count := sv_subscription_count sv + 1\<rparr>))
          else (add_rc (sv_contexts sv context) rc, data\<lparr>sd_subs := leafs\<rparr>, sv))"

text \<open>The entry of a shared subscription, without it when its list of clients is empty.\<close>

definition put_shared ::
  "string \<Rightarrow> mosquitto__subleaf list \<Rightarrow> (string \<times> mosquitto__subleaf list) list \<Rightarrow>
   (string \<times> mosquitto__subleaf list) list" where
  "put_shared name leafs shareds =
     (if leafs = [] then hash_delete name shareds else hash_put name leafs shareds)"

definition sizeof_subshared :: nat where
  "sizeof_subshared = 72"

definition sizeof_subshared_ref :: nat where
  "sizeof_subshared_ref = 16"

text \<open>
  Adding the client to a shared subscription whose clients are \<open>leafs\<close>. \<open>None\<close> is the write to
  \<open>shared_subs[-1]\<close> when the array is empty and cannot grow.
\<close>

definition add_shared_leaf ::
  "(nat \<Rightarrow> bool) \<Rightarrow> nat \<Rightarrow> string \<Rightarrow> nat \<Rightarrow> u32 \<Rightarrow> u8 \<Rightarrow> string \<Rightarrow> string list \<Rightarrow> subs_data \<Rightarrow> server \<Rightarrow>
   mosquitto__subleaf list \<Rightarrow> (int \<times> subs_data \<times> server) option" where
  "add_shared_leaf alloc context cid qos identifier options sharename path data sv leafs =
     (let without = data\<lparr>sd_shared := put_shared sharename leafs (sd_shared data)\<rparr>
      in case sub__add_leaf alloc (sv_contexts sv) context cid qos identifier options leafs of
        (rc, leafs) \<Rightarrow>
          let data = data\<lparr>sd_shared := put_shared sharename leafs (sd_shared data)\<rparr>
          in if rc > 0 then Some (rc, without, sv)
             else if rc \<noteq> err_code MOSQ_ERR_SUB_EXISTS then
               if \<not> alloc sizeof_subshared_ref then Some (err_code MOSQ_ERR_NOMEM, without, sv)
               else
                 let refs = sv_shared_refs sv context;
                     added = (\<lambda>refs. Some (add_rc (sv_contexts sv context) rc, data,
                       sv\<lparr>sv_shared_refs := (sv_shared_refs sv)(context := refs),
                          sv_shared_subscription_count := sv_shared_subscription_count sv + 1\<rparr>))
                 in (case free_cell (path, sharename) refs of
                       Some refs \<Rightarrow> added refs
                     | None \<Rightarrow>
                         if alloc (8 * (length refs + 1)) then added (refs @ [Some (path, sharename)])
                         else if refs = [] then None
                         else Some (err_code MOSQ_ERR_NOMEM, without,
                           sv\<lparr>sv_shared_refs := (sv_shared_refs sv)(context := refs[length refs - 1 := None])\<rparr>))
             else Some (add_rc (sv_contexts sv context) rc, data, sv))"

definition sub__add_shared ::
  "(nat \<Rightarrow> bool) \<Rightarrow> nat \<Rightarrow> string \<Rightarrow> nat \<Rightarrow> u32 \<Rightarrow> u8 \<Rightarrow> string \<Rightarrow> string list \<Rightarrow> subs_data \<Rightarrow> server \<Rightarrow>
   (int \<times> subs_data \<times> server) option" where
  "sub__add_shared alloc context cid qos identifier options sharename path data sv =
     (case hash_find sharename (sd_shared data) of
        Some leafs \<Rightarrow> add_shared_leaf alloc context cid qos identifier options sharename path data sv leafs
      | None \<Rightarrow>
          if \<not> alloc sizeof_subshared then Some (err_code MOSQ_ERR_NOMEM, data, sv)
          else if \<not> alloc (length sharename + 1) then Some (err_code MOSQ_ERR_NOMEM, data, sv)
          else add_shared_leaf alloc context cid qos identifier options sharename path
                 (data\<lparr>sd_shared := hash_add sharename [] (sd_shared data)\<rparr>) sv [])"

definition sizeof_subhier :: nat where
  "sizeof_subhier = 104"

definition sub__add_hier_entry :: "(nat \<Rightarrow> bool) \<Rightarrow> subs_data forest \<Rightarrow> string \<Rightarrow> subs_data forest option" where
  "sub__add_hier_entry alloc siblings topic =
     (if \<not> alloc sizeof_subhier \<or> \<not> alloc (length topic + 1) then None
      else Some (hash_add topic (Hier [] no_subs) siblings))"

text \<open>
  \<open>sub__add_context\<close>: the walk down the tree, which makes the nodes that are missing, and
  what is done at its end; \<open>path\<close> is the path of the node.
\<close>

fun add_walk ::
  "(nat \<Rightarrow> bool) \<Rightarrow> (string list \<Rightarrow> subs_data \<Rightarrow> server \<Rightarrow> (int \<times> subs_data \<times> server) option) \<Rightarrow> string list \<Rightarrow>
   string list \<Rightarrow> subhier \<Rightarrow> server \<Rightarrow> (int \<times> subhier \<times> server) option" where
  "add_walk alloc finish path [] h sv = on_data (finish path) h sv"
| "add_walk alloc finish path (t # ts) h sv =
     (if length t > 65535 then Some (err_code MOSQ_ERR_INVAL, h, sv)
      else
        (case (case hash_find t (hier_children h) of
                 Some branch \<Rightarrow> Some (hier_children h, branch)
               | None \<Rightarrow> map_option (\<lambda>cs. (cs, Hier [] no_subs)) (sub__add_hier_entry alloc (hier_children h) t)) of
           None \<Rightarrow> Some (err_code MOSQ_ERR_NOMEM, h, sv)
         | Some (children, branch) \<Rightarrow>
             map_option (\<lambda>(rc, branch, sv). (rc, Hier (hash_put t branch children) (hier_data h), sv))
               (add_walk alloc finish (path @ [t]) ts branch sv)))"

definition sub__add_context ::
  "(nat \<Rightarrow> bool) \<Rightarrow> nat \<Rightarrow> nat \<Rightarrow> u32 \<Rightarrow> u8 \<Rightarrow> string \<Rightarrow> subhier \<Rightarrow> string list \<Rightarrow> string option \<Rightarrow> server \<Rightarrow>
   (int \<times> subhier \<times> server) option" where
  "sub__add_context alloc context qos identifier options root subhier topics sharename sv =
     add_walk alloc (\<lambda>path data sv.
         case ctx_id (sv_contexts sv context) of
           None \<Rightarrow> Some (0, data, sv)
         | Some cid \<Rightarrow>
             (case sharename of
                Some name \<Rightarrow> sub__add_shared alloc context cid qos identifier options name path data sv
              | None \<Rightarrow> Some (sub__add_normal alloc context cid qos identifier options path data sv)))
       [root] topics subhier sv"

text \<open>The first token names the root and is walked down again.\<close>

definition sub__add ::
  "(nat \<Rightarrow> bool) \<Rightarrow> nat \<Rightarrow> string \<Rightarrow> nat \<Rightarrow> u32 \<Rightarrow> u8 \<Rightarrow> server \<Rightarrow> (int \<times> server) option" where
  "sub__add alloc context sub qos identifier options sv =
     (case sub__topic_tokenise alloc sub of
        Inl (Rc rc) \<Rightarrow> Some (err_code rc, sv)
      | Inl Trap \<Rightarrow> None
      | Inr (cells, sharename) \<Rightarrow>
          let topics = tokens_of cells
          in case topics of
               [] \<Rightarrow> None
             | root # _ \<Rightarrow>
                 if length root > 65535 then Some (err_code MOSQ_ERR_INVAL, sv)
                 else
                   (case (case hash_find root (sv_subs sv) of
                            Some h \<Rightarrow> Some (sv_subs sv, h)
                          | None \<Rightarrow> map_option (\<lambda>f. (f, Hier [] no_subs)) (sub__add_hier_entry alloc (sv_subs sv) root)) of
                      None \<Rightarrow> Some (err_code MOSQ_ERR_NOMEM, sv)
                    | Some (forest, subhier) \<Rightarrow>
                        map_option (\<lambda>(rc, subhier, sv). (rc, sv\<lparr>sv_subs := hash_put root subhier forest\<rparr>))
                          (sub__add_context alloc context qos identifier options root subhier topics sharename sv)))"

section \<open>Unsubscribing\<close>

text \<open>The list without the first node of the client, if it has one.\<close>

fun leaf_remove :: "nat \<Rightarrow> mosquitto__subleaf list \<Rightarrow> mosquitto__subleaf list option" where
  "leaf_remove context [] = None"
| "leaf_remove context (leaf # leafs) =
     (if sl_context leaf = context then Some leafs else map_option ((#) leaf) (leaf_remove context leafs))"

text \<open>The first cell that holds the pointer set to NULL.\<close>

fun clear_cell :: "'b \<Rightarrow> 'b option list \<Rightarrow> 'b option list" where
  "clear_cell x [] = []"
| "clear_cell x (c # cells) = (if c = Some x then None # cells else c # clear_cell x cells)"

definition MQTT_RC_NO_SUBSCRIPTION_EXISTED :: u8 where
  "MQTT_RC_NO_SUBSCRIPTION_EXISTED = 17"

definition sub__remove_normal ::
  "nat \<Rightarrow> string list \<Rightarrow> subs_data \<Rightarrow> server \<times> u8 \<Rightarrow> int \<times> subs_data \<times> server \<times> u8" where
  "sub__remove_normal context path data st =
     (case (leaf_remove context (sd_subs data), st) of
        (None, _) \<Rightarrow> (err_code MOSQ_ERR_NO_SUBSCRIBERS, data, st)
      | (Some leafs, sv, reason) \<Rightarrow>
          (0, data\<lparr>sd_subs := leafs\<rparr>,
           sv\<lparr>sv_sub_refs := (sv_sub_refs sv)(context := clear_cell path (sv_sub_refs sv context)),
              sv_subscription_count := sv_subscription_count sv - 1\<rparr>, 0))"

definition sub__remove_shared ::
  "nat \<Rightarrow> string \<Rightarrow> string list \<Rightarrow> subs_data \<Rightarrow> server \<times> u8 \<Rightarrow> int \<times> subs_data \<times> server \<times> u8" where
  "sub__remove_shared context sharename path data st =
     (case (Option.bind (hash_find sharename (sd_shared data)) (leaf_remove context), st) of
        (None, _) \<Rightarrow> (err_code MOSQ_ERR_NO_SUBSCRIBERS, data, st)
      | (Some leafs, sv, reason) \<Rightarrow>
          (0, data\<lparr>sd_shared := put_shared sharename leafs (sd_shared data)\<rparr>,
           sv\<lparr>sv_shared_refs := (sv_shared_refs sv)(context := clear_cell (path, sharename) (sv_shared_refs sv context)),
              sv_shared_subscription_count := sv_shared_subscription_count sv - 1\<rparr>, 0))"

fun sub__remove_recurse ::
  "(string list \<Rightarrow> subs_data \<Rightarrow> 's \<Rightarrow> int \<times> subs_data \<times> 's) \<Rightarrow> string list \<Rightarrow> string list \<Rightarrow> subhier \<Rightarrow> 's \<Rightarrow>
   int \<times> subhier \<times> 's" where
  "sub__remove_recurse remove path [] h st =
     (case remove path (hier_data h) st of (rc, data, st) \<Rightarrow> (rc, Hier (hier_children h) data, st))"
| "sub__remove_recurse remove path (t # ts) h st =
     (case hash_find t (hier_children h) of
        None \<Rightarrow> (0, h, st)
      | Some branch \<Rightarrow>
          (case sub__remove_recurse remove (path @ [t]) ts branch st of
             (_, branch, st) \<Rightarrow>
               (0, Hier (if hier_children branch = [] \<and> sd_subs (hier_data branch) = [] \<and> sd_shared (hier_data branch) = []
                         then hash_delete t (hier_children h) else hash_put t branch (hier_children h)) (hier_data h), st)))"

definition sub__remove :: "(nat \<Rightarrow> bool) \<Rightarrow> nat \<Rightarrow> string \<Rightarrow> u8 \<Rightarrow> server \<Rightarrow> (int \<times> server \<times> u8) option" where
  "sub__remove alloc context sub reason sv =
     (case sub__topic_tokenise alloc sub of
        Inl (Rc rc) \<Rightarrow> Some (err_code rc, sv, reason)
      | Inl Trap \<Rightarrow> None
      | Inr (cells, sharename) \<Rightarrow>
          let topics = tokens_of cells
          in case topics of
               [] \<Rightarrow> None
             | root # _ \<Rightarrow>
                 (case hash_find root (sv_subs sv) of
                    None \<Rightarrow> Some (0, sv, reason)
                  | Some subhier \<Rightarrow>
                      let remove = (case sharename of None \<Rightarrow> sub__remove_normal context
                                    | Some name \<Rightarrow> sub__remove_shared context name)
                      in (case sub__remove_recurse remove [root] topics subhier (sv, MQTT_RC_NO_SUBSCRIPTION_EXISTED) of
                            (rc, subhier, sv, reason) \<Rightarrow> Some (rc, sv\<lparr>sv_subs := hash_put root subhier (sv_subs sv)\<rparr>, reason))))"

end
