(* ===== verification/Subs_Search.thy ===== *)
theory Subs_Search
  imports Subs
begin

text \<open>
  \<open>sub__search\<close> against the filters: it handles exactly the nodes whose path, read as a filter,
  matches the topic, each of them once. With \<open>Topic\<close>, where the matcher of \<open>util_topic.c\<close> is
  shown to decide the same relation, the two implementations of matching in the code agree.
\<close>

section \<open>Well-formed trees\<close>

text \<open>The keys of a hash table are different.\<close>

fun hier_ok :: "'a hier \<Rightarrow> bool" where
  "hier_ok (Hier cs d) \<longleftrightarrow> distinct (map fst cs) \<and> (\<forall>(k, h) \<in> set cs. hier_ok h)"

definition forest_ok :: "'a forest \<Rightarrow> bool" where
  "forest_ok f \<longleftrightarrow> distinct (map fst f) \<and> (\<forall>(k, h) \<in> set f. hier_ok h)"

lemma hier_ok_iff: "hier_ok h \<longleftrightarrow> forest_ok (hier_children h)"
  by (cases h) (simp add: forest_ok_def)

lemma hier_ok_distinct: "hier_ok h \<Longrightarrow> distinct (map fst (hier_children h))"
  by (cases h) simp

lemma forest_ok_find: "forest_ok f \<Longrightarrow> hash_find k f = Some h \<Longrightarrow> hier_ok h"
  by (auto simp: forest_ok_def hash_find_def dest: map_of_SomeD)

lemma forest_ok_put: "forest_ok f \<Longrightarrow> hier_ok h \<Longrightarrow> forest_ok (hash_put k h f)"
  by (auto simp: forest_ok_def hash_put_def comp_def split_beta)

section \<open>The nodes that are handled\<close>

text \<open>Their paths, in the order of the search.\<close>

definition child_paths :: "string \<Rightarrow> ('a hier \<Rightarrow> string list list) \<Rightarrow> 'a forest \<Rightarrow> string list list" where
  "child_paths k f cs = (case hash_find k cs of None \<Rightarrow> [] | Some b \<Rightarrow> map ((#) k) (f b))"

definition hash_paths :: "'a forest \<Rightarrow> string list list" where
  "hash_paths cs = child_paths ''#'' (\<lambda>b. if hier_children b = [] then [[]] else []) cs"

fun visits :: "string list \<Rightarrow> 'a hier \<Rightarrow> string list list" where
  "visits [] h = hash_paths (hier_children h)"
| "visits (t # ts) h =
     child_paths t (\<lambda>b. visits ts b @ (if ts = [] then [[]] else [])) (hier_children h) @
     child_paths ''+'' (\<lambda>b. visits ts b @ (if ts = [] then [[]] else [])) (hier_children h) @
     hash_paths (hier_children h)"

text \<open>Handling nodes one after the other: \<open>process\<close> may leave the search with an error.\<close>

fun run_visits ::
  "('a \<Rightarrow> 's \<Rightarrow> (int \<times> 'a \<times> 's) option) \<Rightarrow> string list list \<Rightarrow> bool \<Rightarrow> 'a forest \<Rightarrow> 's \<Rightarrow>
   ((int + bool) \<times> 'a forest \<times> 's) option" where
  "run_visits process [] have_subscribers f st = Some (Inr have_subscribers, f, st)"
| "run_visits process (p # ps) have_subscribers f st =
     (case data_at f p of
        None \<Rightarrow> None
      | Some d \<Rightarrow>
          (case process d st of
             None \<Rightarrow> None
           | Some (rc, d, st) \<Rightarrow>
               if rc = 0 then run_visits process ps True (update_at p (\<lambda>_. d) f) st
               else if rc = err_code MOSQ_ERR_NO_SUBSCRIBERS
               then run_visits process ps have_subscribers (update_at p (\<lambda>_. d) f) st
               else Some (Inl rc, update_at p (\<lambda>_. d) f, st)))"

definition then_visits ::
  "('a \<Rightarrow> 's \<Rightarrow> (int \<times> 'a \<times> 's) option) \<Rightarrow> string list list \<Rightarrow> ((int + bool) \<times> 'a forest \<times> 's) option \<Rightarrow>
   ((int + bool) \<times> 'a forest \<times> 's) option" where
  "then_visits process ps r =
     (case r of
        None \<Rightarrow> None
      | Some (Inl rc, f, st) \<Rightarrow> Some (Inl rc, f, st)
      | Some (Inr h, f, st) \<Rightarrow> run_visits process ps h f st)"

lemma run_visits_append:
  "run_visits process (ps @ qs) h f st = then_visits process qs (run_visits process ps h f st)"
  by (induction process ps h f st rule: run_visits.induct)
    (auto simp: then_visits_def split: option.split)

text \<open>The nodes below a child.\<close>

lemma update_at_child:
  "hash_find k f = Some b \<Longrightarrow> p \<noteq> [] \<Longrightarrow>
   update_at (k # p) g f = hash_put k (Hier (update_at p g (hier_children b)) (hier_data b)) f"
  by simp

lemma data_at_child: "hash_find k f = Some b \<Longrightarrow> p \<noteq> [] \<Longrightarrow> data_at f (k # p) = data_at (hier_children b) p"
  by (simp add: data_at_Cons)

lemma run_visits_child:
  "distinct (map fst f) \<Longrightarrow> hash_find k f = Some b \<Longrightarrow> [] \<notin> set ps \<Longrightarrow>
   run_visits process (map ((#) k) ps) h f st =
     map_option (\<lambda>(r, cs, st). (r, hash_put k (Hier cs (hier_data b)) f, st))
       (run_visits process ps h (hier_children b) st)"
proof (induction ps arbitrary: h f b st)
  case Nil
  then show ?case using hash_put_same [of f k b] by simp
next
  case (Cons p ps)
  have d: "data_at f (k # p) = data_at (hier_children b) p" using Cons.prems data_at_child by fastforce
  show ?case
  proof (cases "data_at (hier_children b) p")
    case (Some d0)
    show ?thesis
    proof (cases "process d0 st")
      case (Some r)
      obtain rc d1 st1 where r: "r = (rc, d1, st1)" by (cases r)
      let ?b = "Hier (update_at p (\<lambda>_. d1) (hier_children b)) (hier_data b)"
      have u: "update_at (k # p) (\<lambda>_. d1) f = hash_put k ?b f"
        using update_at_child [OF Cons.prems(2), of p] Cons.prems(3) by (auto simp del: update_at.simps)
      have k: "distinct (map fst (hash_put k ?b f))" "hash_find k (hash_put k ?b f) = Some ?b"
        using Cons.prems(1,2) by simp_all
      show ?thesis
        using Cons.IH [OF k] Cons.prems(3) d \<open>data_at (hier_children b) p = Some d0\<close> Some r u
        by (simp del: update_at.simps)
    qed (use d Some in simp)
  qed (use d in simp)
qed

definition or_have :: "bool \<Rightarrow> int + bool \<Rightarrow> int + bool" where
  "or_have h r = (case r of Inl rc \<Rightarrow> Inl rc | Inr x \<Rightarrow> Inr (x \<or> h))"

lemma or_have_simps [simp]:
  "or_have h (Inl rc) = Inl rc" "or_have h (Inr x) = Inr (x \<or> h)" "or_have h (or_have h' r) = or_have (h \<or> h') r"
  by (auto simp: or_have_def split: sum.split)

definition or_res :: "bool \<Rightarrow> ((int + bool) \<times> 'b) option \<Rightarrow> ((int + bool) \<times> 'b) option" where
  "or_res h = map_option (\<lambda>(r, y). (or_have h r, y))"

lemma or_res_simps [simp]:
  "or_res h None = None" "or_res h (Some (r, y)) = Some (or_have h r, y)"
  by (simp_all add: or_res_def)

lemma or_res_or_res [simp]: "or_res h (or_res h' x) = or_res (h \<or> h') x"
  by (cases x) (auto simp: or_res_def)

lemma run_visits_have: "run_visits process ps h f st = or_res h (run_visits process ps False f st)"
proof (induction ps arbitrary: h f st)
  case (Cons p ps)
  show ?case
  proof (cases "data_at f p")
    case (Some d)
    show ?thesis
    proof (cases "process d st")
      case (Some r)
      obtain rc d1 st1 where r: "r = (rc, d1, st1)" by (cases r)
      have "run_visits process ps True (update_at p (\<lambda>_. d1) f) st1 = or_res h (run_visits process ps True (update_at p (\<lambda>_. d1) f) st1)"
        by (subst (1 2) Cons.IH) simp
      then show ?thesis
        using \<open>data_at f p = Some d\<close> Some r Cons.IH [of h "update_at p (\<lambda>_. d1) f" st1]
        by (simp del: update_at.simps)
    qed (use Some in simp)
  qed simp
qed simp

lemma run_visits_Inl:
  "run_visits process ps h f st = Some (Inl rc, f', st') \<Longrightarrow> rc \<noteq> 0 \<and> rc \<noteq> err_code MOSQ_ERR_NO_SUBSCRIBERS"
  by (induction ps arbitrary: h f st) (auto split: option.splits if_splits simp del: update_at.simps)

section \<open>The search runs the visits\<close>

definition up :: "'a \<Rightarrow> ((int + bool) \<times> 'a forest \<times> 's) option \<Rightarrow> ((int + bool) \<times> 'a hier \<times> 's) option" where
  "up d = map_option (\<lambda>(r, cs, st). (r, Hier cs d, st))"

lemma up_simps [simp]: "up d None = None" "up d (Some (r, cs, st)) = Some (r, Hier cs d, st)"
  by (simp_all add: up_def)

lemma child_step_Inl [simp]: "child_step k F (Inl rc, h, st) = Some (Inl rc, h, st)"
  by (simp add: child_step_def)

lemma hash_wildcard_Inl [simp]: "hash_wildcard process (Inl rc, h, st) = Some (Inl rc, h, st)"
  by (simp add: hash_wildcard_def split: option.split)

lemma child_step_search:
  assumes d: "distinct (map fst f)" and b: "hash_find k f = Some b" and ps: "[] \<notin> set ps"
    and F: "F b st = map_option search_result (up (hier_data b) (run_visits process ps False (hier_children b) st))"
  shows "child_step k F (Inr h, Hier f dd, st) = up dd (run_visits process (map ((#) k) ps) h f st)"
proof (cases "run_visits process ps False (hier_children b) st")
  case None
  then show ?thesis using F b run_visits_child [OF d b ps, of process h st] run_visits_have [of process ps h "hier_children b" st]
    by (simp add: child_step_def)
next
  case (Some r)
  obtain x cs st' where r: "r = (x, cs, st')" by (cases r)
  have c: "run_visits process (map ((#) k) ps) h f st =
      Some (or_have h x, hash_put k (Hier cs (hier_data b)) f, st')"
    using run_visits_child [OF d b ps, of process h st] run_visits_have [of process ps h "hier_children b" st] Some r by simp
  show ?thesis
  proof (cases x)
    case (Inl rc)
    then have "rc \<noteq> 0 \<and> rc \<noteq> err_code MOSQ_ERR_NO_SUBSCRIBERS" using run_visits_Inl [of process ps False] Some r by blast
    then show ?thesis using c F b Some r Inl by (simp add: child_step_def search_result_def)
  next
    case (Inr y)
    then show ?thesis using c F b Some r by (auto simp: child_step_def search_result_def)
  qed
qed

lemma child_step_data:
  assumes "hash_find k f = Some b"
  shows "child_step k (on_data process) (Inr h, Hier f dd, st) = up dd (run_visits process [[k]] h f st)"
  using assms by (auto simp: child_step_def on_data_def split: option.split)

lemma child_both:
  assumes d: "distinct (map fst f)"
    and F: "\<And>b. hash_find k f = Some b \<Longrightarrow> [] \<notin> set (vis b) \<and>
      (\<forall>st. F b st = map_option search_result (up (hier_data b) (run_visits process (vis b) False (hier_children b) st)))"
  shows "Option.bind (child_step k F (Inr h, Hier f dd, st)) (\<lambda>r. if e then child_step k (on_data process) r else Some r) =
    up dd (run_visits process (child_paths k (\<lambda>b. vis b @ (if e then [[]] else [])) f) h f st)"
proof (cases "hash_find k f")
  case None
  then show ?thesis by (simp add: child_step_def child_paths_def)
next
  case (Some b)
  have s: "child_step k F (Inr h, Hier f dd, st) = up dd (run_visits process (map ((#) k) (vis b)) h f st)"
    by (intro child_step_search [OF d Some]) (use F [OF Some] in auto)
  have p: "child_paths k (\<lambda>b. vis b @ (if e then [[]] else [])) f = map ((#) k) (vis b) @ (if e then [[k]] else [])"
    by (simp add: child_paths_def Some)
  show ?thesis
  proof (cases "run_visits process (map ((#) k) (vis b)) h f st")
    case None
    then show ?thesis unfolding s p run_visits_append by (simp add: then_visits_def)
  next
    case (Some r)
    obtain x f' st' where r: "r = (x, f', st')" by (cases r)
    have "\<exists>b'. hash_find k f' = Some b'"
      using run_visits_child [OF d \<open>hash_find k f = Some b\<close>, of "vis b" process h st] F [OF \<open>hash_find k f = Some b\<close>]
        Some r \<open>hash_find k f = Some b\<close>
      by (cases "run_visits process (vis b) h (hier_children b) st") auto
    then show ?thesis
      unfolding s p run_visits_append using Some r child_step_data [of k f' _ process _ dd st']
      by (cases x) (auto simp: then_visits_def simp del: run_visits.simps(2))
  qed
qed

lemma child_frame:
  assumes "distinct (map fst f)" and "run_visits process (child_paths k g f) h f st = Some (r, f', st')"
    and "\<And>b. hash_find k f = Some b \<Longrightarrow> [] \<notin> set (vis b) \<and> g b = vis b @ (if e then [[]] else [])"
  shows "map fst f' = map fst f \<and> (\<forall>j. j \<noteq> k \<longrightarrow> hash_find j f' = hash_find j f)"
proof (cases "hash_find k f")
  case None
  then show ?thesis using assms(2) by (simp add: child_paths_def)
next
  case (Some b)
  have "run_visits process (map ((#) k) (vis b) @ (if e then [[k]] else [])) h f st = Some (r, f', st')"
    using assms(2,3) Some by (cases e) (simp_all add: child_paths_def)
  then obtain x f1 st1 where 1: "run_visits process (map ((#) k) (vis b)) h f st = Some (x, f1, st1)"
    "then_visits process (if e then [[k]] else []) (Some (x, f1, st1)) = Some (r, f', st')"
    unfolding run_visits_append by (cases "run_visits process (map ((#) k) (vis b)) h f st") (auto simp: then_visits_def)
  have "\<exists>b'. f1 = hash_put k b' f"
    using run_visits_child [OF assms(1) Some, of "vis b" process h st] assms(3) [OF Some] 1(1)
    by (cases "run_visits process (vis b) h (hier_children b) st") auto
  moreover have "f' = f1 \<or> (\<exists>b'. f' = hash_put k b' f1)"
    using 1(2) by (auto simp: then_visits_def split: sum.splits if_splits option.splits)
  ultimately show ?thesis by auto
qed

lemma hash_wildcard_run:
  assumes d: "distinct (map fst f)"
  shows "hash_wildcard process (Inr h, Hier f dd, st) = up dd (run_visits process (hash_paths f) h f st)"
proof (cases "hash_find ''#'' f")
  case None
  then show ?thesis by (simp add: hash_wildcard_def hash_paths_def child_paths_def)
next
  case (Some b)
  then show ?thesis using child_step_data [OF Some, of process h dd st]
    by (simp add: hash_wildcard_def hash_paths_def child_paths_def del: run_visits.simps(2))
qed

lemma visits_ne: "[] \<notin> set (visits ts h)"
  by (cases ts) (auto simp: hash_paths_def child_paths_def split: option.splits)

lemma search_runs_visits:
  "hier_ok h \<Longrightarrow> ''+'' \<notin> set ts \<Longrightarrow> ''#'' \<notin> set ts \<Longrightarrow>
   sub__search process ts h st =
     map_option search_result (up (hier_data h) (run_visits process (visits ts h) False (hier_children h) st))"
proof (induction ts arbitrary: h st)
  case Nil
  then show ?case using hash_wildcard_run [OF hier_ok_distinct, of h process False "hier_data h" st] by simp
next
  case (Cons t ts)
  let ?f = "hier_children h" and ?dd = "hier_data h"
  have fo: "forest_ok ?f" and d: "distinct (map fst ?f)" using Cons.prems(1) hier_ok_iff hier_ok_distinct by blast+
  have ne: "t \<noteq> ''+''" "t \<noteq> ''#''" "''+'' \<notin> set ts" "''#'' \<notin> set ts" using Cons.prems by auto
  let ?F = "sub__search process ts" and ?vis = "visits ts" and ?e = "ts = []"
  let ?g = "\<lambda>b. ?vis b @ (if ?e then [[]] else [])"
  have IH: "[] \<notin> set (?vis b) \<and> (\<forall>st. ?F b st = map_option search_result (up (hier_data b) (run_visits process (?vis b) False (hier_children b) st)))"
    if "hash_find k ?f = Some b" for k b
    using Cons.IH [OF forest_ok_find [OF fo that] ne(3,4)] visits_ne by blast
  have 1: "Option.bind (child_step t ?F (Inr False, h, st)) (\<lambda>r. if ?e then child_step t (on_data process) r else Some r) =
      up ?dd (run_visits process (child_paths t ?g ?f) False ?f st)"
    using child_both [OF d, of t ?vis ?F process False ?dd st ?e] IH by simp
  have 2: "Option.bind (child_step ''+'' ?F (Inr x, Hier f1 ?dd, st1)) (\<lambda>r. if ?e then child_step ''+'' (on_data process) r else Some r) =
      up ?dd (run_visits process (child_paths ''+'' ?g ?f) x f1 st1)"
    if "map fst f1 = map fst ?f" "hash_find ''+'' f1 = hash_find ''+'' ?f" for f1 x st1
  proof -
    have "child_paths ''+'' ?g ?f = child_paths ''+'' ?g f1" using that(2) by (simp add: child_paths_def)
    then show ?thesis using child_both [of f1 "''+''" ?vis ?F process x ?dd st1 ?e] that d IH by simp
  qed
  have eq: "sub__search process (t # ts) h st = map_option search_result
      (Option.bind (Option.bind (child_step t ?F (Inr False, h, st)) (\<lambda>r. if ?e then child_step t (on_data process) r else Some r)) (\<lambda>r.
       Option.bind (Option.bind (child_step ''+'' ?F r) (\<lambda>r. if ?e then child_step ''+'' (on_data process) r else Some r))
         (hash_wildcard process)))"
    by (simp only: sub__search.simps bind_assoc)
  show ?case
  proof (cases "run_visits process (child_paths t ?g ?f) False ?f st")
    case None
    then show ?thesis unfolding eq 1 by (simp add: run_visits_append then_visits_def)
  next
    case (Some r)
    obtain x f1 st1 where r: "r = (x, f1, st1)" by (cases r)
    have fr0: "map fst f1 = map fst ?f \<and> (\<forall>j. j \<noteq> t \<longrightarrow> hash_find j f1 = hash_find j ?f)"
      by (rule child_frame [OF d, of process t ?g False st x f1 st1 ?vis ?e]) (use Some r visits_ne in auto)
    have fr: "map fst f1 = map fst ?f" "hash_find ''+'' f1 = hash_find ''+'' ?f" "hash_find ''#'' f1 = hash_find ''#'' ?f"
      using fr0 ne(1,2) by (metis, metis, metis)
    have one: "Option.bind (child_step t ?F (Inr False, h, st)) (\<lambda>r. if ?e then child_step t (on_data process) r else Some r) = Some (x, Hier f1 ?dd, st1)"
      using 1 Some r by simp
    show ?thesis
    proof (cases x)
      case (Inl rc)
      then show ?thesis unfolding eq one using Some r by (simp add: run_visits_append then_visits_def)
    next
      case (Inr y)
      note plus = 2 [OF fr(1,2), of y st1]
      show ?thesis
      proof (cases "run_visits process (child_paths ''+'' ?g ?f) y f1 st1")
        case None
        then show ?thesis unfolding eq one
          using \<open>run_visits process (child_paths t ?g ?f) False ?f st = Some r\<close> r Inr plus
          by (simp add: run_visits_append then_visits_def del: bind_assoc)
      next
        case (Some r2)
        obtain x2 f2 st2 where r2: "r2 = (x2, f2, st2)" by (cases r2)
        have "child_paths ''+'' ?g ?f = child_paths ''+'' ?g f1" using fr(2) by (simp add: child_paths_def)
        then have r12: "run_visits process (child_paths ''+'' ?g f1) y f1 st1 = Some (x2, f2, st2)" using Some r2 by simp
        have "distinct (map fst f1)" using d fr(1) by simp
        then have "map fst f2 = map fst f1 \<and> (\<forall>j. j \<noteq> ''+'' \<longrightarrow> hash_find j f2 = hash_find j f1)"
          by (rule child_frame [OF _ r12, of ?vis ?e]) (simp add: visits_ne)
        then have fr2: "map fst f2 = map fst f1" "hash_find ''#'' f2 = hash_find ''#'' f1" by auto
        have two: "Option.bind (child_step ''+'' ?F (Inr y, Hier f1 ?dd, st1)) (\<lambda>r. if ?e then child_step ''+'' (on_data process) r else Some r) = Some (x2, Hier f2 ?dd, st2)"
          using plus Some r2 by simp
        have "hash_paths ?f = hash_paths f2" using fr(3) fr2(2) by (simp add: hash_paths_def child_paths_def)
        then have "hash_wildcard process (Inr z, Hier f2 ?dd, st2) = up ?dd (run_visits process (hash_paths ?f) z f2 st2)" for z
          using hash_wildcard_run [of f2 process z ?dd st2] fr(1) fr2(1) d by simp
        then show ?thesis
          unfolding eq one
          using two \<open>run_visits process (child_paths t ?g ?f) False ?f st = Some r\<close> r Some r2 Inr
          by (cases x2) (simp_all add: run_visits_append then_visits_def del: bind_assoc)
      qed
    qed
  qed
qed

section \<open>The visits are the matching filters\<close>

lemma child_paths_iff:
  "p \<in> set (child_paths k g f) \<longleftrightarrow> (\<exists>b q. hash_find k f = Some b \<and> p = k # q \<and> q \<in> set (g b))"
  by (cases "hash_find k f") (auto simp: child_paths_def)

lemma hash_paths_iff: "p \<in> set (hash_paths f) \<longleftrightarrow> p = [''#''] \<and> (\<exists>b. hash_find ''#'' f = Some b \<and> hier_children b = [])"
  by (auto simp: hash_paths_def child_paths_iff split: if_splits)

definition open_hash :: "'a forest \<Rightarrow> string list \<Rightarrow> bool" where
  "open_hash f p \<longleftrightarrow> (\<exists>n. node_at p f = Some n \<and> (last p = ''#'' \<longrightarrow> hier_children n = []))"

lemma open_hash_Cons:
  "open_hash f (k # p) \<longleftrightarrow> (\<exists>b. hash_find k f = Some b \<and>
     (if p = [] then k = ''#'' \<longrightarrow> hier_children b = [] else open_hash (hier_children b) p))"
  by (auto simp: open_hash_def split: option.splits)

lemma open_hash_Nil [simp]: "\<not> open_hash f []"
  by (simp add: open_hash_def)

lemma visits_iff:
  fixes h :: "'a hier"
  shows "''+'' \<notin> set ts \<Longrightarrow> ''#'' \<notin> set ts \<Longrightarrow>
   p \<in> set (visits ts h) \<longleftrightarrow> open_hash (hier_children h) p \<and> levels_match p ts"
proof (induction ts arbitrary: h p)
  case Nil
  then show ?case
    by (cases p) (auto simp: hash_paths_iff open_hash_Cons levels_match_Nil)
next
  case (Cons t ts)
  have ne: "t \<noteq> ''+''" "t \<noteq> ''#''" using Cons.prems by auto
  show ?case
  proof (cases p)
    case Nil
    then show ?thesis using visits_ne [of "t # ts" h] by simp
  next
    case (Cons k q)
    have IH: "q \<in> set (visits ts b) \<longleftrightarrow> open_hash (hier_children b) q \<and> levels_match q ts" for b :: "'a hier"
      using Cons.IH Cons.prems by simp
    have l: "levels_match (k # q) (t # ts) \<longleftrightarrow> (k = ''#'' \<and> q = []) \<or> ((k = ''+'' \<or> k = t) \<and> levels_match q ts)"
      using ne by auto
    have q0: "levels_match [] ts \<longleftrightarrow> ts = []" by simp
    have v: "q \<in> set (visits ts b @ (if ts = [] then [[]] else [])) \<longleftrightarrow>
        (if q = [] then ts = [] else open_hash (hier_children b) q \<and> levels_match q ts)" for b :: "'a hier"
      using IH visits_ne [of ts b] by auto
    have cp: "k # q \<in> set (child_paths j g f) \<longleftrightarrow> k = j \<and> (\<exists>b. hash_find j f = Some b \<and> q \<in> set (g b))" for j g and f :: "'a forest"
      by (auto simp: child_paths_iff)
    have "p \<in> set (visits (t # ts) h) \<longleftrightarrow>
        (\<exists>b. hash_find k (hier_children h) = Some b \<and>
          ((k = t \<or> k = ''+'') \<and> (if q = [] then ts = [] else open_hash (hier_children b) q \<and> levels_match q ts) \<or>
           k = ''#'' \<and> q = [] \<and> hier_children b = []))"
      unfolding Cons visits.simps set_append [of "child_paths _ _ _"] Un_iff cp v hash_paths_iff by blast
    then show ?thesis
      unfolding Cons l open_hash_Cons using ne by auto
  qed
qed

lemma child_paths_distinct:
  "(\<And>b. hash_find k f = Some b \<Longrightarrow> distinct (g b)) \<Longrightarrow> distinct (child_paths k g f)"
  by (cases "hash_find k f") (auto simp: child_paths_def distinct_map inj_on_def)

lemma visits_distinct: "''+'' \<notin> set ts \<Longrightarrow> ''#'' \<notin> set ts \<Longrightarrow> distinct (visits ts h)"
proof (induction ts arbitrary: h)
  case Nil
  then show ?case by (auto simp: hash_paths_def intro!: child_paths_distinct)
next
  case (Cons t ts)
  have ne: "t \<noteq> ''+''" "t \<noteq> ''#''" using Cons.prems by auto
  have g: "distinct (visits ts b @ (if ts = [] then [[]] else []))" for b :: "'a hier"
    using Cons visits_ne [of ts b] by auto
  have d: "distinct (child_paths j (\<lambda>b. visits ts b @ (if ts = [] then [[]] else [])) (hier_children h))" for j
    by (rule child_paths_distinct) (rule g)
  have "distinct (hash_paths (hier_children h))" by (auto simp: hash_paths_def intro!: child_paths_distinct)
  moreover have "set (child_paths i g f) \<inter> set (child_paths j g f) = {}" if "i \<noteq> j" for i j g and f :: "'a forest"
    using that by (auto simp: child_paths_iff)
  moreover have "set (child_paths i g f) \<inter> set (hash_paths f) = {}" if "i \<noteq> ''#''" for i g and f :: "'a forest"
    using that by (auto simp: child_paths_iff hash_paths_iff)
  ultimately show ?case
    unfolding visits.simps distinct_append [of "child_paths _ _ _"] set_append [of "child_paths ''+'' _ _"] Int_Un_distrib
    using ne d by simp
qed

lemma distinct_count: "distinct xs \<Longrightarrow> count_list xs x = (if x \<in> set xs then 1 else 0)"
  by (induction xs) (auto simp: count_list_0_iff)

lemma tokens_wild:
  assumes "sub__topic_tokenise alloc topic = Inr (cells, None)" and "topic \<noteq> []" and "\<And>n. alloc n"
  shows "tokens_of cells = (if hd topic = CHR ''$'' then levels topic else [] # levels topic)"
  using tokenise_cases [of topic alloc, OF assms(2,3)] assms(1) by (auto simp: Let_def split: if_splits)

lemma filter_root:
  assumes "filter_ok (levels sub)" and "hd sub = CHR ''$''" and "sub \<noteq> []"
  shows "hd (levels sub) \<noteq> ''+'' \<and> hd (levels sub) \<noteq> ''#''"
  using assms by (cases sub) auto

lemma peek_hd: "s \<noteq> [] \<Longrightarrow> peek s = hd s"
  by (cases s) auto

lemma tokens_match:
  fixes sub topic :: string
  defines "toks \<equiv> \<lambda>s. if hd s = CHR ''$'' then levels s else [] # levels s"
  assumes "sub \<noteq> []" "topic \<noteq> []" "filter_ok (levels sub)" "name_ok topic"
  shows "topic_match sub topic \<longleftrightarrow> hd (toks sub) = hd (toks topic) \<and> levels_match (toks sub) (toks topic)"
proof -
  have pk: "peek sub = hd sub" "peek topic = hd topic" using assms(2,3) by (simp_all add: peek_hd)
  obtain l ls where l: "levels sub = l # ls" using levels_Cons_hd by blast
  obtain k ks where k: "levels topic = k # ks" using levels_Cons_hd by blast
  have hd_s: "hd sub = CHR ''$'' \<Longrightarrow> l \<noteq> [] \<and> hd l = CHR ''$''" using assms(2) l by (cases sub) auto
  have hd_t: "hd topic = CHR ''$'' \<Longrightarrow> k \<noteq> [] \<and> hd k = CHR ''$''" using assms(3) k by (cases topic) auto
  have "hd sub = CHR ''$'' \<Longrightarrow> l \<noteq> ''+'' \<and> l \<noteq> ''#''" using filter_root [OF assms(4) _ assms(2)] l by simp
  then show ?thesis
    unfolding topic_match_def toks_def pk using l k hd_s hd_t by auto
qed

lemma visits_match:
  assumes "forest_ok f" and "topic \<noteq> []" "sub \<noteq> []" "name_ok topic" "filter_ok (levels sub)"
    and tt: "tt = (if hd topic = CHR ''$'' then levels topic else [] # levels topic)"
    and ss: "ss = (if hd sub = CHR ''$'' then levels sub else [] # levels sub)"
    and h: "hash_find (hd tt) f = Some h"
    and n: "node_at (hd ss # ss) f = Some n" "last ss = ''#'' \<Longrightarrow> hier_children n = []"
  shows "count_list (map ((#) (hd tt)) (visits tt h)) (hd ss # ss) = (if topic_match sub topic then 1 else 0)"
proof -
  have w: "''+'' \<notin> set tt" "''#'' \<notin> set tt" using name_ok_levels [OF assms(4)] unfolding tt by auto
  have "distinct (map ((#) (hd tt)) (visits tt h))" using visits_distinct [OF w] by (simp add: distinct_map)
  then have c: "count_list (map ((#) (hd tt)) (visits tt h)) p = (if p \<in> set (map ((#) (hd tt)) (visits tt h)) then 1 else 0)" for p
    by (simp add: distinct_count)
  have ne: "ss \<noteq> []" unfolding ss by simp
  have m: "topic_match sub topic \<longleftrightarrow> hd ss = hd tt \<and> levels_match ss tt"
    unfolding ss tt by (rule tokens_match) (use assms in auto)
  have "hd ss # ss \<in> set (map ((#) (hd tt)) (visits tt h)) \<longleftrightarrow> hd ss = hd tt \<and> ss \<in> set (visits tt h)" by auto
  also have "\<dots> \<longleftrightarrow> hd ss = hd tt \<and> levels_match ss tt"
    using visits_iff [OF w] n h ne by (auto simp: open_hash_def split: option.splits)
  finally show ?thesis unfolding c m by simp
qed

text \<open>
  C17: A message is handled at exactly the subscriptions whose filter matches its topic, and at each
  of them once: \<open>sub__search\<close> runs over a list of nodes in which the node of a filter is found
  once if \<open>mosquitto_topic_matches_sub\<close> says that the filter matches, and not at all otherwise.
  The tree and the matcher on strings are two implementations of the same relation.
\<close>
theorem search_delivers_by_filter:
  assumes "forest_ok f" and "\<And>n. alloc n"
    and "c_string topic" "topic \<noteq> []" "mosquitto_pub_topic_check (Some topic) = MOSQ_ERR_SUCCESS"
    and "c_string sub" "sub \<noteq> []" "mosquitto_sub_topic_check (Some sub) = MOSQ_ERR_SUCCESS"
    and "sub__topic_tokenise alloc topic = Inr (tcells, None)"
    and "sub__topic_tokenise alloc sub = Inr (scells, None)"
    and "hash_find (hd (tokens_of tcells)) f = Some h"
    and "node_at (hd (tokens_of scells) # tokens_of scells) f = Some n"
    and "last (tokens_of scells) = ''#'' \<Longrightarrow> hier_children n = []"
  shows "sub__search process (tokens_of tcells) h st =
      map_option search_result
        (up (hier_data h) (run_visits process (visits (tokens_of tcells) h) False (hier_children h) st)) \<and>
    count_list (map ((#) (hd (tokens_of tcells))) (visits (tokens_of tcells) h)) (hd (tokens_of scells) # tokens_of scells) =
      (if mosquitto_topic_matches_sub (Some sub) (Some topic) = Inr True then 1 else 0)"
proof -
  have nm: "name_ok topic" and fl: "filter_ok (levels sub)"
    using pub_check_name_ok sub_check_filter_ok assms(5,6,8) by auto
  have tt: "tokens_of tcells = (if hd topic = CHR ''$'' then levels topic else [] # levels topic)"
    and ss: "tokens_of scells = (if hd sub = CHR ''$'' then levels sub else [] # levels sub)"
    using tokens_wild assms(2,4,7,9,10) by blast+
  have "mosquitto_topic_matches_sub (Some sub) (Some topic) = Inr (topic_match sub topic)"
    by (rule matcher_decides) (use assms in auto)
  moreover have "hier_ok h" using forest_ok_find assms(1,11) by blast
  moreover have "''+'' \<notin> set (tokens_of tcells)" "''#'' \<notin> set (tokens_of tcells)"
    using name_ok_levels [OF nm] unfolding tt by auto
  ultimately show ?thesis
    using search_runs_visits [of h "tokens_of tcells" process st]
      visits_match [OF assms(1,4,7) nm fl tt ss assms(11,12,13)] by simp
qed

definition ex_tree :: "nat forest" where
  "ex_tree = [([], Hier [([], Hier [(''a'', Hier [(''+'', Hier [] 7), (''b'', Hier [(''#'', Hier [] 9)] 8)] 0)] 0)] 0)]"

theorem search_delivers_by_filter_witness:
  "\<exists>cells h. sub__topic_tokenise (\<lambda>_. True) ''a/b'' = Inr (cells, None) \<and> hash_find [] ex_tree = Some h \<and>
     visits (tokens_of cells) h = [[[], ''a'', ''b'', ''#''], [[], ''a'', ''b''], [[], ''a'', ''+'']] \<and>
     count_list (map ((#) (hd (tokens_of cells))) (visits (tokens_of cells) h)) [[], [], ''a'', ''+''] = 1"
proof -
  obtain tc where tc: "sub__topic_tokenise (\<lambda>_. True) ''a/b'' = Inr (tc, None)" "tokens_of tc = [[], ''a'', ''b'']"
    using tokenise_cases [of "''a/b''" "\<lambda>_. True"] by auto
  obtain sc where sc: "sub__topic_tokenise (\<lambda>_. True) ''a/+'' = Inr (sc, None)" "tokens_of sc = [[], ''a'', ''+'']"
    using tokenise_cases [of "''a/+''" "\<lambda>_. True"] by auto
  obtain h where h: "hash_find (hd (tokens_of tc)) ex_tree = Some h"
    "visits (tokens_of tc) h = [[[], ''a'', ''b'', ''#''], [[], ''a'', ''b''], [[], ''a'', ''+'']]"
    by (simp add: tc ex_tree_def hash_find_def child_paths_def hash_paths_def)
  have "mosquitto_topic_matches_sub (Some ''a/+'') (Some ''a/b'') = Inr (topic_match ''a/+'' ''a/b'')"
    by (rule matcher_decides) (simp_all add: c_string_def mosquitto_sub_topic_check_def mosquitto_pub_topic_check_def
        TOPIC_HIERARCHY_LIMIT_def)
  then have m: "mosquitto_topic_matches_sub (Some ''a/+'') (Some ''a/b'') = Inr True" by (simp add: topic_match_def)
  have p: "forest_ok ex_tree" "node_at (hd (tokens_of sc) # tokens_of sc) ex_tree = Some (Hier [] 7)"
    by (simp_all add: sc ex_tree_def forest_ok_def hash_find_def)
  have t: "c_string ''a/b''" "mosquitto_pub_topic_check (Some ''a/b'') = MOSQ_ERR_SUCCESS"
    "c_string ''a/+''" "mosquitto_sub_topic_check (Some ''a/+'') = MOSQ_ERR_SUCCESS"
    by (simp_all add: c_string_def mosquitto_sub_topic_check_def mosquitto_pub_topic_check_def TOPIC_HIERARCHY_LIMIT_def)
  have "count_list (map ((#) (hd (tokens_of tc))) (visits (tokens_of tc) h)) (hd (tokens_of sc) # tokens_of sc) =
      (if mosquitto_topic_matches_sub (Some ''a/+'') (Some ''a/b'') = Inr True then 1 else 0)"
    by (rule conjunct2 [OF search_delivers_by_filter [OF p(1) TrueI t(1) _ t(2) t(3) _ t(4) tc(1) sc(1) h(1) p(2),
            where process = "\<lambda>d st. Some (0, d, st)" and st = "()"]]) simp_all
  then have "count_list (map ((#) (hd (tokens_of tc))) (visits (tokens_of tc) h)) (hd (tokens_of sc) # tokens_of sc) = 1"
    by (simp only: m if_True refl simp_thms)
  then show ?thesis using tc sc h by (auto simp del: visits.simps count_list.simps)
qed

end
