(* ===== verification/Subs_Clean.thy ===== *)
theory Subs_Clean
  imports Subs
begin

text \<open>
  The end of \<open>src/subs.c\<close>: removing all subscriptions of a client with \<open>sub__clean_session\<close>.
  The client has pointers to the nodes it is subscribed at, here their paths; \<open>None\<close> is a
  pointer to a node, or to a shared subscription, that is gone.
\<close>

section \<open>Pruning\<close>

text \<open>Whether \<open>subs\<close>, \<open>children\<close> and \<open>shared\<close> are NULL, and there is a parent.\<close>

definition prunable :: "string list \<Rightarrow> subhier \<Rightarrow> bool" where
  "prunable p h \<longleftrightarrow> sd_subs (hier_data h) = [] \<and> hier_children h = [] \<and> sd_shared (hier_data h) = [] \<and> length p > 1"

text \<open>The parent, when it is to be removed as well. The root nodes have no parent.\<close>

definition tmp_remove_subs ::
  "string list \<Rightarrow> subs_data forest \<Rightarrow> (string list option \<times> subs_data forest) option" where
  "tmp_remove_subs p f =
     (case node_at p f of
        None \<Rightarrow> None
      | Some sub \<Rightarrow>
          if length p \<le> 1 then Some (None, f)
          else if hier_children sub \<noteq> [] \<or> sd_subs (hier_data sub) \<noteq> [] then Some (None, f)
          else
            let parent = butlast p; f = delete_at p f
            in (case node_at parent f of
                  None \<Rightarrow> None
                | Some h \<Rightarrow> Some (if prunable parent h then Some parent else None, f)))"

lemma tmp_remove_subs_shorter: "tmp_remove_subs p f = Some (Some q, f') \<Longrightarrow> length q < length p"
  by (auto simp: tmp_remove_subs_def Let_def split: option.splits if_splits)

text \<open>The loop \<open>do{ hier = tmp_remove_subs(hier); }while(hier)\<close>.\<close>

function remove_chain :: "string list \<Rightarrow> subs_data forest \<Rightarrow> subs_data forest option" where
  "remove_chain p f =
     (case tmp_remove_subs p f of
        None \<Rightarrow> None
      | Some (None, f) \<Rightarrow> Some f
      | Some (Some parent, f) \<Rightarrow> remove_chain parent f)"
  by pat_completeness auto

termination
  by (relation "measure (\<lambda>(p, _). length p)") (auto dest: tmp_remove_subs_shorter)

declare remove_chain.simps [simp del]

definition prune :: "string list \<Rightarrow> subs_data forest \<Rightarrow> subs_data forest option" where
  "prune p f =
     (case node_at p f of
        None \<Rightarrow> None
      | Some h \<Rightarrow> if prunable p h then remove_chain p f else Some f)"

section \<open>The two loops\<close>

fun clean_subs_loop :: "nat \<Rightarrow> string list option list \<Rightarrow> server \<Rightarrow> server option" where
  "clean_subs_loop context [] sv = Some sv"
| "clean_subs_loop context (None # subs) sv = clean_subs_loop context subs sv"
| "clean_subs_loop context (Some p # subs) sv =
     (case node_at p (sv_subs sv) of
        None \<Rightarrow> None
      | Some h \<Rightarrow>
          let sv = (case leaf_remove context (sd_subs (hier_data h)) of
                      None \<Rightarrow> sv
                    | Some leafs \<Rightarrow>
                        sv\<lparr>sv_subs := update_at p (\<lambda>d. d\<lparr>sd_subs := leafs\<rparr>) (sv_subs sv),
                           sv_subscription_count := sv_subscription_count sv - 1\<rparr>)
          in (case prune p (sv_subs sv) of
                None \<Rightarrow> None
              | Some f \<Rightarrow> clean_subs_loop context subs (sv\<lparr>sv_subs := f\<rparr>)))"

fun clean_shared_loop :: "nat \<Rightarrow> (string list \<times> string) option list \<Rightarrow> server \<Rightarrow> server option" where
  "clean_shared_loop context [] sv = Some sv"
| "clean_shared_loop context (None # refs) sv = clean_shared_loop context refs sv"
| "clean_shared_loop context (Some (p, name) # refs) sv =
     (case node_at p (sv_subs sv) of
        None \<Rightarrow> None
      | Some h \<Rightarrow>
          (case hash_find name (sd_shared (hier_data h)) of
             None \<Rightarrow> None
           | Some leafs \<Rightarrow>
               let sv = (case leaf_remove context leafs of
                           None \<Rightarrow> sv
                         | Some leafs \<Rightarrow>
                             sv\<lparr>sv_subs := update_at p (\<lambda>d. d\<lparr>sd_shared := put_shared name leafs (sd_shared d)\<rparr>) (sv_subs sv),
                                sv_shared_subscription_count := sv_shared_subscription_count sv - 1\<rparr>)
               in (case prune p (sv_subs sv) of
                     None \<Rightarrow> None
                   | Some f \<Rightarrow> clean_shared_loop context refs (sv\<lparr>sv_subs := f\<rparr>))))"

definition sub__clean_session_shared :: "nat \<Rightarrow> server \<Rightarrow> (int \<times> server) option" where
  "sub__clean_session_shared context sv =
     map_option (\<lambda>sv. (0, sv\<lparr>sv_shared_refs := (sv_shared_refs sv)(context := [])\<rparr>))
       (clean_shared_loop context (sv_shared_refs sv context) sv)"

definition sub__clean_session :: "nat \<Rightarrow> server \<Rightarrow> (int \<times> server) option" where
  "sub__clean_session context sv =
     Option.bind (clean_subs_loop context (sv_sub_refs sv context) sv) (\<lambda>sv.
       sub__clean_session_shared context (sv\<lparr>sv_sub_refs := (sv_sub_refs sv)(context := [])\<rparr>))"

end
