(* ===== verification/Subs_Tree.thy ===== *)
theory Subs_Tree
  imports Subs_Clean
begin

text \<open>
  What the operations on the tree of subscriptions do to its contents: \<open>view\<close> reads the tree as
  a map from paths to the lists of a node, empty lists where there is no node. Making nodes on
  the way down and pruning nodes on the way up are then invisible, and each operation changes
  the map at one path.
\<close>

named_theorems tree_view \<open>the contents of a tree after an operation\<close>

definition view :: "subs_data forest \<Rightarrow> string list \<Rightarrow> subs_data" where
  "view f p = (case data_at f p of None \<Rightarrow> no_subs | Some d \<Rightarrow> d)"

definition below :: "subhier \<Rightarrow> string list \<Rightarrow> subs_data" where
  "below h p = (if p = [] then hier_data h else view (hier_children h) p)"

lemma view_Nil [simp]: "view f [] = no_subs" "view [] p = no_subs"
  by (simp_all add: view_def)

lemma view_Cons: "view f (t # ts) = (case hash_find t f of None \<Rightarrow> no_subs | Some h \<Rightarrow> below h ts)"
  by (auto simp: view_def below_def data_at_Cons split: option.split)

lemma below_simps [simp]: "below h [] = hier_data h" "below (Hier [] no_subs) p = no_subs"
  "below h (t # ts) = (case hash_find t (hier_children h) of None \<Rightarrow> no_subs | Some h \<Rightarrow> below h ts)"
  by (simp_all add: below_def view_Cons)

lemma view_node: "node_at p f = Some h \<Longrightarrow> view f p = hier_data h"
  by (simp add: view_def data_at_def)

lemma view_empty: "node_at p f = None \<Longrightarrow> view f p = no_subs"
  by (simp add: view_def data_at_def)

lemma view_put [tree_view]:
  "hash_find t f \<noteq> None \<Longrightarrow> view (hash_put t h f) (u # us) = (if u = t then below h us else view f (u # us))"
  by (auto simp: view_Cons)

lemma view_add [tree_view]: "hash_find t f = None \<Longrightarrow> view (hash_add t (Hier [] no_subs) f) p = view f p"
  by (cases p) (auto simp: view_Cons split: option.split)

lemma view_update [tree_view]:
  "node_at p f \<noteq> None \<Longrightarrow> view (update_at p g f) = (view f)(p := g (view f p))"
  by (auto simp: view_def data_at_def [of f p])

section \<open>Walking down\<close>

text \<open>Either the walk stops without an effect, or \<open>finish\<close> changes what is at the end.\<close>

lemma add_walk_view:
  assumes "add_walk alloc finish path ts h sv = Some (rc, h', sv')"
  shows "rc > 0 \<and> sv' = sv \<and> (\<forall>p. below h' p = below h p) \<or>
    (\<exists>d. finish (path @ ts) (below h ts) sv = Some (rc, d, sv') \<and> (\<forall>p. below h' p = (if p = ts then d else below h p)))"
  using assms
proof (induction ts arbitrary: path h h')
  case Nil
  then obtain d where "finish path (hier_data h) sv = Some (rc, d, sv')" "h' = Hier (hier_children h) d"
    by (auto simp: on_data_def)
  then show ?case by (auto simp: below_def)
next
  case (Cons t ts)
  define cb where "cb = (case hash_find t (hier_children h) of
      Some branch \<Rightarrow> Some (hier_children h, branch)
    | None \<Rightarrow> map_option (\<lambda>cs. (cs, Hier [] no_subs)) (sub__add_hier_entry alloc (hier_children h) t))"
  show ?case
  proof (cases "length t > 65535 \<or> cb = None")
    case True
    then show ?thesis using Cons.prems by (auto simp: cb_def [symmetric] split: if_splits)
  next
    case False
    then obtain children branch where cb: "cb = Some (children, branch)" by auto
    then obtain branch' where w: "add_walk alloc finish (path @ [t]) ts branch sv = Some (rc, branch', sv')"
      and h': "h' = Hier (hash_put t branch' children) (hier_data h)"
      using Cons.prems False by (auto simp: cb_def [symmetric])
    have c: "hash_find t children = Some branch" "\<And>p. view children p = view (hier_children h) p"
      using cb by (auto simp: cb_def sub__add_hier_entry_def view_add split: option.splits if_splits)
    have b: "below branch p = below h (t # p)" for p
      using c(2) [of "t # p"] c(1) by (simp add: view_Cons)
    have v: "below h' p = (case p of [] \<Rightarrow> hier_data h | u # us \<Rightarrow> if u = t then below branch' us else below h p)" for p
    proof (cases p)
      case (Cons u us)
      then show ?thesis using c(1) c(2) [of "u # us"] by (simp add: h' view_Cons)
    qed (simp add: h')
    from Cons.IH [OF w] show ?thesis
    proof
      assume "rc > 0 \<and> sv' = sv \<and> (\<forall>p. below branch' p = below branch p)"
      then show ?thesis using b by (auto simp: v split: list.split)
    next
      assume "\<exists>d. finish ((path @ [t]) @ ts) (below branch ts) sv = Some (rc, d, sv') \<and>
        (\<forall>p. below branch' p = (if p = ts then d else below branch p))"
      then show ?thesis using b [of ts] by (auto simp: v b split: list.split simp del: below_simps(3))
    qed
  qed
qed

lemma add_walk_returns:
  "(\<And>d. finish (path @ ts) d sv \<noteq> None) \<Longrightarrow> add_walk alloc finish path ts h sv \<noteq> None"
proof (induction ts arbitrary: path h)
  case (Cons t ts)
  have "add_walk alloc finish (path @ [t]) ts b sv \<noteq> None" for b using Cons.IH [of "path @ [t]" b] Cons.prems by simp
  then show ?case by (auto split: option.split simp del: not_None_eq)
qed (simp add: on_data_def)

section \<open>Walking down and pruning\<close>

lemma hash_delete_empty:
  "hash_find t f = Some (Hier [] no_subs) \<Longrightarrow> view (hash_delete t f) p = view f p"
  by (cases p) (auto simp: view_Cons split: option.split)

lemma remove_recurse_view:
  assumes "sub__remove_recurse remove path ts h st = (rc, h', st')"
    and "\<And>d. d = no_subs \<Longrightarrow> snd (remove (path @ ts) d st) = (d, st)"
  shows "snd (remove (path @ ts) (below h ts) st) = (below h' ts, st') \<and> (\<forall>p. p \<noteq> ts \<longrightarrow> below h' p = below h p)"
  using assms
proof (induction ts arbitrary: path h h' rc st')
  case Nil
  then show ?case by (auto simp: below_def split: prod.splits)
next
  case (Cons t ts)
  show ?case
  proof (cases "hash_find t (hier_children h)")
    case None
    then show ?thesis using Cons.prems by auto
  next
    case (Some branch)
    obtain rc2 branch' st2 where r: "sub__remove_recurse remove (path @ [t]) ts branch st = (rc2, branch', st2)"
      by (cases "sub__remove_recurse remove (path @ [t]) ts branch st") auto
    have ih: "snd (remove (path @ t # ts) (below branch ts) st) = (below branch' ts, st2) \<and>
        (\<forall>p. p \<noteq> ts \<longrightarrow> below branch' p = below branch p)"
      using Cons.IH [OF r] Cons.prems(2) by simp
    have v: "st' = st2" "below h' p = (case p of [] \<Rightarrow> hier_data h | u # us \<Rightarrow> if u = t then below branch' us else below h p)" for p
    proof -
      let ?e = "hier_children branch' = [] \<and> sd_subs (hier_data branch') = [] \<and> sd_shared (hier_data branch') = []"
      have e: "?e \<Longrightarrow> branch' = Hier [] no_subs" by (cases branch') (simp add: no_subs_def)
      show "st' = st2" using Cons.prems(1) Some r by simp
      have h': "h' = Hier (if ?e then hash_delete t (hier_children h) else hash_put t branch' (hier_children h)) (hier_data h)"
        using Cons.prems(1) Some r by simp
      show "below h' p = (case p of [] \<Rightarrow> hier_data h | u # us \<Rightarrow> if u = t then below branch' us else below h p)"
      proof (cases ?e)
        case True
        then have b: "branch' = Hier [] no_subs" by (rule e)
        show ?thesis using Some by (cases p) (auto simp: h' b no_subs_def [symmetric] split: option.split)
      next
        case False
        then show ?thesis using Some by (cases p) (auto simp: h' split: option.split)
      qed
    qed
    have "below h (t # p) = below branch p" for p using Some by simp
    then show ?thesis using ih by (auto simp: v simp del: below_simps(3) split: list.split)
  qed
qed

lemma node_at_delete_parent:
  "length p > 1 \<Longrightarrow> node_at p f \<noteq> None \<Longrightarrow> node_at (butlast p) (delete_at p f) \<noteq> None"
proof (induction p arbitrary: f)
  case (Cons t ts)
  obtain u us where ts: "ts = u # us" using Cons.prems(1) by (cases ts) auto
  show ?case
  proof (cases us)
    case Nil
    then show ?thesis using Cons.prems ts by (auto split: option.splits)
  next
    case (Cons v vs)
    then have "node_at (butlast ts) (delete_at ts (hier_children h)) \<noteq> None" if "hash_find t f = Some h" for h
      using that Cons.IH [of "hier_children h"] Cons.prems ts by auto
    then show ?thesis using Cons Cons.prems ts by (auto split: option.splits simp del: not_None_eq)
  qed
qed simp

lemma view_delete [tree_view]:
  "node_at p f = Some (Hier [] no_subs) \<Longrightarrow> view (delete_at p f) q = view f q"
proof (induction p arbitrary: f q)
  case (Cons t ts)
  show ?case
  proof (cases "ts = []")
    case True
    then show ?thesis using Cons.prems by (simp add: hash_delete_empty split: option.splits)
  next
    case False
    then obtain h where h: "hash_find t f = Some h" "node_at ts (hier_children h) = Some (Hier [] no_subs)"
      using Cons.prems by (auto split: option.splits)
    then show ?thesis
      using False Cons.IH [OF h(2)] by (cases q) (auto simp: view_Cons below_def)
  qed
qed simp

lemma prunable_empty: "prunable p h \<Longrightarrow> h = Hier [] no_subs"
  by (cases h) (simp add: prunable_def no_subs_def)

lemma remove_chain_view:
  "node_at p f = Some h \<Longrightarrow> prunable p h \<Longrightarrow> \<exists>f'. remove_chain p f = Some f' \<and> view f' = view f"
proof (induction "length p" arbitrary: p f h rule: less_induct)
  case less
  let ?f = "delete_at p f"
  have h: "h = Hier [] no_subs" and l: "length p > 1" using less.prems(2) prunable_empty by (auto simp: prunable_def)
  have v: "view ?f = view f" using view_delete less.prems(1) unfolding h by blast
  obtain g where g: "node_at (butlast p) ?f = Some g"
    using node_at_delete_parent [OF l] less.prems(1) by auto
  have t: "tmp_remove_subs p f = Some (if prunable (butlast p) g then Some (butlast p) else None, ?f)"
    using l by (simp add: tmp_remove_subs_def less.prems(1) h g no_subs_def)
  show ?case
  proof (cases "prunable (butlast p) g")
    case True
    have "length (butlast p) < length p" using l by simp
    from less.hyps [OF this g True] show ?thesis using t True v by (simp add: remove_chain.simps [of p f])
  next
    case False
    then show ?thesis using t v by (simp add: remove_chain.simps [of p f])
  qed
qed

lemma prune_view: "node_at p f \<noteq> None \<Longrightarrow> \<exists>f'. prune p f = Some f' \<and> view f' = view f"
  using remove_chain_view by (auto simp: prune_def)

end
