(* ===== verification/Subs_Refs.thy ===== *)
theory Subs_Refs
  imports Subs_Tree
begin

text \<open>
  The subscriptions of the clients, kept twice: as leaves of the tree, and as an array of
  pointers to the nodes in each client. \<open>subs_inv\<close> says that the two agree, and that the two
  counters of the broker count the pointers. Subscribing, unsubscribing and the removal of all
  subscriptions of a client keep it, so that no pointer of a client is to a node that is gone.
\<close>

section \<open>Leaves and references\<close>

definition leafs_of :: "nat \<Rightarrow> mosquitto__subleaf list \<Rightarrow> nat" where
  "leafs_of c ls = length (filter (\<lambda>l. sl_context l = c) ls)"

definition live_cells :: "'k option list \<Rightarrow> nat" where
  "live_cells cs = length (filter (\<lambda>x. x \<noteq> None) cs)"

text \<open>The leaves at a place \<open>k\<close>, the references of a client: one for each other, at most one.\<close>

definition refs_ok :: "('k \<Rightarrow> mosquitto__subleaf list) \<Rightarrow> (nat \<Rightarrow> 'k option list) \<Rightarrow> bool" where
  "refs_ok L R \<longleftrightarrow> (\<forall>c k. count_list (R c) (Some k) = leafs_of c (L k) \<and> leafs_of c (L k) \<le> 1)"

definition cells_ok :: "nat set \<Rightarrow> (nat \<Rightarrow> 'k option list) \<Rightarrow> int \<Rightarrow> bool" where
  "cells_ok C R n \<longleftrightarrow> finite C \<and> (\<forall>c. c \<notin> C \<longrightarrow> R c = []) \<and> n = (\<Sum>c\<in>C. int (live_cells (R c)))"

definition shared_ok :: "(string \<times> mosquitto__subleaf list) list \<Rightarrow> bool" where
  "shared_ok shareds \<longleftrightarrow> distinct (map fst shareds) \<and> (\<forall>(n, ls) \<in> set shareds. ls \<noteq> [])"

definition subs_at :: "subs_data forest \<Rightarrow> string list \<Rightarrow> mosquitto__subleaf list" where
  "subs_at f p = sd_subs (view f p)"

definition shared_at :: "subs_data forest \<Rightarrow> string list \<times> string \<Rightarrow> mosquitto__subleaf list" where
  "shared_at f k = (case hash_find (snd k) (sd_shared (view f (fst k))) of None \<Rightarrow> [] | Some ls \<Rightarrow> ls)"

definition subs_inv :: "nat set \<Rightarrow> server \<Rightarrow> bool" where
  "subs_inv C sv \<longleftrightarrow>
     refs_ok (subs_at (sv_subs sv)) (sv_sub_refs sv) \<and> cells_ok C (sv_sub_refs sv) (sv_subscription_count sv) \<and>
     refs_ok (shared_at (sv_subs sv)) (sv_shared_refs sv) \<and>
     cells_ok C (sv_shared_refs sv) (sv_shared_subscription_count sv) \<and>
     (\<forall>p. shared_ok (sd_shared (view (sv_subs sv) p)))"

lemma leafs_of_simps [simp]:
  "leafs_of c [] = 0" "leafs_of c (l # ls) = (if sl_context l = c then 1 else 0) + leafs_of c ls"
  "leafs_of c (xs @ ys) = leafs_of c xs + leafs_of c ys"
  by (simp_all add: leafs_of_def)

lemma live_cells_simps [simp]:
  "live_cells [] = 0" "live_cells (x # xs) = (if x = None then 0 else 1) + live_cells xs"
  "live_cells (xs @ ys) = live_cells xs + live_cells ys"
  by (simp_all add: live_cells_def)

section \<open>Lists of leaves\<close>

lemma leaf_update_contexts: "leaf_update cs i q n ls = Some ls' \<Longrightarrow> map sl_context ls' = map sl_context ls"
  by (induction ls arbitrary: ls') (auto split: if_splits)

lemma leafs_of_contexts: "map sl_context ls' = map sl_context ls \<Longrightarrow> leafs_of c ls' = leafs_of c ls"
proof -
  have "leafs_of c ls = count_list (map sl_context ls) c" for ls by (induction ls) auto
  then show "map sl_context ls' = map sl_context ls \<Longrightarrow> leafs_of c ls' = leafs_of c ls" by simp
qed

lemma leaf_update_None: "leaf_update cs i q n ls = None \<Longrightarrow> ctx_id (cs c) = Some i \<Longrightarrow> leafs_of c ls = 0"
  by (induction ls) (auto split: if_splits)

lemma leaf_remove_None: "leaf_remove c ls = None \<longleftrightarrow> leafs_of c ls = 0"
  by (induction ls) auto

lemma leaf_remove_Some:
  "leaf_remove c ls = Some ls' \<Longrightarrow> leafs_of c' ls = leafs_of c' ls' + (if c' = c then 1 else 0)"
  by (induction ls arbitrary: ls') (auto split: if_splits)

lemma leaf_remove_filter:
  "leaf_remove c ls = Some ls' \<Longrightarrow> leafs_of c ls \<le> 1 \<Longrightarrow> ls' = filter (\<lambda>l. sl_context l \<noteq> c) ls"
proof (induction ls arbitrary: ls')
  case (Cons l ls)
  have "filter (\<lambda>l. sl_context l \<noteq> c) ls = ls" if "leafs_of c ls = 0"
    using that by (auto simp: leafs_of_def filter_id_conv filter_empty_conv)
  then show ?case using Cons by (auto split: if_splits)
qed simp

lemma leafs_of_filter: "leafs_of c (filter (\<lambda>l. sl_context l \<noteq> d) ls) = (if c = d then 0 else leafs_of c ls)"
  by (induction ls) auto

section \<open>Arrays of references\<close>

lemma count_list_snoc [simp]: "count_list (xs @ [x]) y = count_list xs y + (if x = y then 1 else 0)"
  by (induction xs) auto

lemma free_cell_count:
  "free_cell x cs = Some cs' \<Longrightarrow>
   count_list cs' (Some k) = count_list cs (Some k) + (if k = x then 1 else 0) \<and> live_cells cs' = live_cells cs + 1"
  by (induction x cs arbitrary: cs' rule: free_cell.induct) auto

lemma clear_cell_count:
  "Some x \<in> set cs \<Longrightarrow>
   count_list cs (Some k) = count_list (clear_cell x cs) (Some k) + (if k = x then 1 else 0) \<and>
   live_cells cs = live_cells (clear_cell x cs) + 1"
  by (induction cs) auto

lemma cells_ok_change:
  assumes "cells_ok C R n" and "c \<in> C"
  shows "cells_ok C (R(c := cs)) (n - int (live_cells (R c)) + int (live_cells cs))"
proof -
  have fin: "finite C" using assms(1) by (simp add: cells_ok_def)
  have "(\<Sum>d\<in>C - {c}. int (live_cells ((R(c := cs)) d))) = (\<Sum>d\<in>C - {c}. int (live_cells (R d)))"
    by (rule sum.cong) auto
  then have "(\<Sum>d\<in>C. int (live_cells ((R(c := cs)) d))) =
      int (live_cells cs) + (\<Sum>d\<in>C - {c}. int (live_cells (R d)))"
    using sum.remove [OF fin assms(2), of "\<lambda>d. int (live_cells ((R(c := cs)) d))"] by simp
  then show ?thesis using assms by (auto simp: cells_ok_def sum.remove [of C c])
qed

lemma refs_ok_same:
  "refs_ok L R \<Longrightarrow> (\<And>k. map sl_context (L' k) = map sl_context (L k)) \<Longrightarrow> refs_ok L' R"
  unfolding refs_ok_def using leafs_of_contexts by metis

lemma refs_ok_add:
  assumes "refs_ok L R" and "leafs_of c (L k) = 0" and "sl_context l = c"
    and "\<And>j. count_list cs (Some j) = count_list (R c) (Some j) + (if j = k then 1 else 0)"
  shows "refs_ok (L(k := L k @ [l])) (R(c := cs))"
  using assms by (auto simp: refs_ok_def)

lemma refs_ok_remove:
  assumes ok: "refs_ok L R" and l: "leaf_remove c (L k) = Some ls"
  shows "refs_ok (L(k := ls)) (R(c := clear_cell k (R c)))"
    "live_cells (R c) = live_cells (clear_cell k (R c)) + 1"
proof -
  have "leafs_of c (L k) \<noteq> 0" using l leaf_remove_None [of c "L k"] by simp
  then have i: "Some k \<in> set (R c)" using ok
    by (metis count_list_0_iff refs_ok_def)
  note cc = clear_cell_count [OF i] and lr = leaf_remove_Some [OF l]
  show "live_cells (R c) = live_cells (clear_cell k (R c)) + 1" using cc by blast
  have "count_list ((R(c := clear_cell k (R c))) d) (Some j) = leafs_of d ((L(k := ls)) j)" for d j
  proof -
    have "count_list (R d) (Some j) = leafs_of d (L j)" using ok by (simp add: refs_ok_def)
    then show ?thesis using cc [of j] lr [of d] by (auto split: if_splits)
  qed
  moreover have "leafs_of d ((L(k := ls)) j) \<le> 1" for d j
    using lr [of d] ok by (auto simp: refs_ok_def) (metis add_leD1)
  ultimately show "refs_ok (L(k := ls)) (R(c := clear_cell k (R c)))" by (simp add: refs_ok_def)
qed

section \<open>The lists of a node\<close>

lemma shared_ok_find: "shared_ok sh \<Longrightarrow> hash_find n sh = Some ls \<Longrightarrow> ls \<noteq> []"
  by (auto simp: shared_ok_def hash_find_def dest: map_of_SomeD)

lemma shared_ok_put: "shared_ok sh \<Longrightarrow> shared_ok (put_shared n ls sh)"
  by (auto simp: shared_ok_def put_shared_def hash_put_def hash_delete_def comp_def split_beta distinct_map_filter
      split: if_splits)

lemma shared_ok_add:
  assumes "shared_ok sh" "hash_find n sh = None"
  shows "shared_ok (put_shared n ls (hash_add n [] sh))"
proof -
  have n: "n \<notin> fst ` set sh" using assms(2) by (simp add: hash_find_None)
  have d: "hash_delete n (hash_add n [] sh) = sh"
    using assms(2) by (simp add: hash_add_def hash_delete_absent) (simp add: hash_delete_def)
  have p: "hash_put n ls (hash_add n [] sh) = sh @ [(n, ls)]"
    using assms(2) by (simp add: hash_add_def hash_put_absent) (simp add: hash_put_def)
  show ?thesis using assms(1) n by (auto simp: put_shared_def d p shared_ok_def)
qed

lemma find_put_shared [simp]:
  "hash_find m (put_shared n ls sh) =
     (if m = n then (if ls = [] then None else map_option (\<lambda>_. ls) (hash_find n sh)) else hash_find m sh)"
  by (simp add: put_shared_def)

lemma put_shared_same:
  assumes "shared_ok sh" shows "hash_find n sh = Some ls \<Longrightarrow> put_shared n ls sh = sh"
    "hash_find n sh = None \<Longrightarrow> put_shared n [] (hash_add n [] sh) = sh"
proof -
  assume f: "hash_find n sh = Some ls"
  have "hash_put n ls sh = sh" using assms f by (simp add: hash_put_same shared_ok_def)
  then show "put_shared n ls sh = sh" using shared_ok_find [OF assms f] by (simp add: put_shared_def)
next
  assume "hash_find n sh = None"
  then show "put_shared n [] (hash_add n [] sh) = sh"
    by (simp add: put_shared_def hash_add_def hash_delete_absent) (simp add: hash_delete_def)
qed

section \<open>Adding a leaf\<close>

lemma sub__add_leaf_cases:
  assumes "sub__add_leaf alloc cs c i q n opts ls = (rc, ls')" and "ctx_id (cs c) = Some i"
  shows "rc > 0 \<and> ls' = ls \<or> rc = err_code MOSQ_ERR_SUB_EXISTS \<and> map sl_context ls' = map sl_context ls \<and> ls \<noteq> [] \<or>
    rc = 0 \<and> leafs_of c ls = 0 \<and> (\<exists>l. sl_context l = c \<and> ls' = ls @ [l])"
proof (cases "leaf_update cs i q n ls")
  case None
  then show ?thesis using assms leaf_update_None [OF None assms(2)] by (auto simp: sub__add_leaf_def split: if_splits)
next
  case (Some ls2)
  then have "ls \<noteq> []" by auto
  then show ?thesis using Some assms leaf_update_contexts [OF Some] by (auto simp: sub__add_leaf_def)
qed

text \<open>An entry of the array of references taken, in the first free cell or at the end.\<close>

lemma taken_cell:
  "(case free_cell x cs of Some r \<Rightarrow> Some r | None \<Rightarrow> if b then Some (cs @ [Some x]) else None) = Some cs' \<Longrightarrow>
   count_list cs' (Some k) = count_list cs (Some k) + (if k = x then 1 else 0) \<and> live_cells cs' = live_cells cs + 1"
  using free_cell_count [of x cs cs' k] by (auto split: option.splits if_splits)

section \<open>One node changed\<close>

lemma subs_inv_normal:
  assumes inv: "subs_inv C sv" and v: "view f = (view (sv_subs sv))(p := (view (sv_subs sv) p)\<lparr>sd_subs := ls\<rparr>)"
    and "refs_ok ((subs_at (sv_subs sv))(p := ls)) R" "cells_ok C R n"
  shows "subs_inv C (sv\<lparr>sv_sub_refs := R, sv_subscription_count := n, sv_subs := f\<rparr>)"
proof -
  have "subs_at f = (subs_at (sv_subs sv))(p := ls)" "shared_at f = shared_at (sv_subs sv)"
    by (auto simp: subs_at_def shared_at_def v)
  moreover have "sd_shared (view f q) = sd_shared (view (sv_subs sv) q)" for q by (simp add: v)
  ultimately show ?thesis using assms by (simp add: subs_inv_def)
qed

lemma subs_inv_shared:
  assumes inv: "subs_inv C sv"
    and v: "view f = (view (sv_subs sv))(p := (view (sv_subs sv) p)\<lparr>sd_shared := put_shared name ls sh\<rparr>)"
    and sh: "sh = sd_shared (view (sv_subs sv) p) \<and> hash_find name sh \<noteq> None \<or>
      sh = hash_add name [] (sd_shared (view (sv_subs sv) p)) \<and> hash_find name (sd_shared (view (sv_subs sv) p)) = None"
    and "refs_ok ((shared_at (sv_subs sv))((p, name) := ls)) R" "cells_ok C R n"
  shows "subs_inv C (sv\<lparr>sv_shared_refs := R, sv_shared_subscription_count := n, sv_subs := f\<rparr>)"
proof -
  have "subs_at f = subs_at (sv_subs sv)" by (auto simp: subs_at_def v)
  moreover have "shared_at f = (shared_at (sv_subs sv))((p, name) := ls)"
    using sh by (auto simp: shared_at_def v fun_eq_iff split: option.splits)
  moreover have "shared_ok (sd_shared (view f q))" for q
    using inv sh shared_ok_put shared_ok_add by (auto simp: subs_inv_def v)
  ultimately show ?thesis using assms by (simp add: subs_inv_def)
qed

lemma subs_inv_view: "subs_inv C sv \<Longrightarrow> view f = view (sv_subs sv) \<Longrightarrow> subs_inv C (sv\<lparr>sv_subs := f\<rparr>)"
  by (simp add: subs_inv_def subs_at_def [abs_def] shared_at_def [abs_def])

text \<open>What an operation on the node \<open>p\<close> has to establish.\<close>

definition keeps_subs :: "nat set \<Rightarrow> string list \<Rightarrow> server \<Rightarrow> subs_data \<Rightarrow> server \<Rightarrow> bool" where
  "keeps_subs C p sv d sv' \<longleftrightarrow>
     (\<forall>f. view f = (view (sv_subs sv))(p := d) \<longrightarrow> subs_inv C (sv'\<lparr>sv_subs := f\<rparr>))"

lemma keeps_subs_same: "subs_inv C sv \<Longrightarrow> keeps_subs C p sv (view (sv_subs sv) p) sv"
  by (simp add: keeps_subs_def subs_inv_view)

lemma add_normal_keeps:
  assumes inv: "subs_inv C sv" and c: "c \<in> C" and id: "ctx_id (sv_contexts sv c) = Some cid"
    and r: "sub__add_normal alloc c cid q n opts p (view (sv_subs sv) p) sv = (rc, d, sv')"
  shows "keeps_subs C p sv d sv'"
proof -
  let ?d = "view (sv_subs sv) p" and ?R = "sv_sub_refs sv"
  have R: "refs_ok (subs_at (sv_subs sv)) ?R" "cells_ok C ?R (sv_subscription_count sv)"
    using inv by (simp_all add: subs_inv_def)
  obtain rc0 ls where l: "sub__add_leaf alloc (sv_contexts sv) c cid q n opts (sd_subs ?d) = (rc0, ls)" by fastforce
  let ?taken = "case free_cell p (?R c) of Some r \<Rightarrow> Some r
      | None \<Rightarrow> if alloc (8 * (length (?R c) + 1)) then Some (?R c @ [Some p]) else None"
  consider "d = ?d" "sv' = sv" | "map sl_context ls = map sl_context (sd_subs ?d)" "d = ?d\<lparr>sd_subs := ls\<rparr>" "sv' = sv"
    | cs x where "leafs_of c (sd_subs ?d) = 0" "sl_context x = c" "ls = sd_subs ?d @ [x]" "d = ?d\<lparr>sd_subs := ls\<rparr>"
      "?taken = Some cs"
      "sv' = sv\<lparr>sv_sub_refs := ?R(c := cs), sv_subscription_count := sv_subscription_count sv + 1\<rparr>"
  proof -
    consider "rc0 > 0" | "rc0 = err_code MOSQ_ERR_SUB_EXISTS" "map sl_context ls = map sl_context (sd_subs ?d)"
      | x where "rc0 = 0" "leafs_of c (sd_subs ?d) = 0" "sl_context x = c" "ls = sd_subs ?d @ [x]"
      using sub__add_leaf_cases [OF l id] by blast
    then show thesis
    proof cases
      case 1
      then have "(rc0, ?d, sv) = (rc, d, sv')" using r unfolding sub__add_normal_def l prod.case if_P [OF 1] by blast
      then show thesis by (intro that(1)) (auto simp only: prod.inject)
    next
      case 2
      have "(add_rc (sv_contexts sv c) rc0, ?d\<lparr>sd_subs := ls\<rparr>, sv) = (rc, d, sv')"
        using r unfolding sub__add_normal_def l prod.case 2(1) by auto
      then have "d = ?d\<lparr>sd_subs := ls\<rparr>" "sv' = sv" by (auto simp only: prod.inject)
      then show thesis by (rule that(2) [OF 2(2)])
    next
      case 3
      show thesis
      proof (cases ?taken)
        case None
        have "(err_code MOSQ_ERR_NOMEM, ?d, sv) = (rc, d, sv')"
          using r unfolding sub__add_normal_def l prod.case 3(1) Let_def None by auto
        then show thesis by (intro that(1)) (auto simp only: prod.inject)
      next
        case (Some cs)
        have "(add_rc (sv_contexts sv c) rc0, ?d\<lparr>sd_subs := ls\<rparr>, sv\<lparr>sv_sub_refs := ?R(c := cs),
            sv_subscription_count := sv_subscription_count sv + 1\<rparr>) = (rc, d, sv')"
          using r unfolding sub__add_normal_def l prod.case 3(1) Let_def Some by auto
        then show thesis by (intro that(3) [OF 3(2,3,4) _ Some]) (auto simp only: prod.inject)
      qed
    qed
  qed
  then show ?thesis
  proof cases
    case 1
    then show ?thesis using keeps_subs_same [OF inv, of p] by simp
  next
    case 2
    have "refs_ok ((subs_at (sv_subs sv))(p := ls)) ?R"
      by (rule refs_ok_same [OF R(1)]) (simp add: 2(1) subs_at_def)
    then show ?thesis
      using subs_inv_normal [OF inv, where ls = ls and p = p and R = ?R and n = "sv_subscription_count sv"] R(2) 2
      by (simp add: keeps_subs_def)
  next
    case (3 cs x)
    note t = taken_cell [OF 3(5)]
    have "refs_ok ((subs_at (sv_subs sv))(p := ls)) (?R(c := cs))"
      using refs_ok_add [OF R(1), of c p x cs] 3(1-3) t by (simp add: subs_at_def)
    moreover have "cells_ok C (?R(c := cs)) (sv_subscription_count sv + 1)"
      using cells_ok_change [OF R(2) c, of cs] t by (simp add: algebra_simps)
    ultimately show ?thesis
      using subs_inv_normal [OF inv, where ls = ls and p = p and R = "?R(c := cs)" and n = "sv_subscription_count sv + 1"] 3(4,6)
      by (simp add: keeps_subs_def)
  qed
qed

lemma keeps_shared:
  assumes inv: "subs_inv C sv"
    and sh: "sh = sd_shared (view (sv_subs sv) p) \<and> hash_find name sh \<noteq> None \<or>
      sh = hash_add name [] (sd_shared (view (sv_subs sv) p)) \<and> hash_find name (sd_shared (view (sv_subs sv) p)) = None"
    and "refs_ok ((shared_at (sv_subs sv))((p, name) := ls)) R" "cells_ok C R n"
    and d: "d = (view (sv_subs sv) p)\<lparr>sd_shared := put_shared name ls sh\<rparr>"
    and sv': "sv' = sv\<lparr>sv_shared_refs := R, sv_shared_subscription_count := n\<rparr>"
  shows "keeps_subs C p sv d sv'"
  unfolding keeps_subs_def sv' d using subs_inv_shared [OF inv _ sh assms(3,4)] by simp

lemma add_shared_leaf_keeps:
  assumes inv: "subs_inv C sv" and c: "c \<in> C" and id: "ctx_id (sv_contexts sv c) = Some cid"
    and grow: "alloc (8 * (length (sv_shared_refs sv c) + 1))"
    and sh: "sh = sd_shared (view (sv_subs sv) p) \<and> hash_find name sh = Some leafs \<or>
      sh = hash_add name [] (sd_shared (view (sv_subs sv) p)) \<and>
      hash_find name (sd_shared (view (sv_subs sv) p)) = None \<and> leafs = []"
    and r: "add_shared_leaf alloc c cid q n opts name p ((view (sv_subs sv) p)\<lparr>sd_shared := sh\<rparr>) sv leafs = Some (rc, d, sv')"
  shows "keeps_subs C p sv d sv'"
proof -
  let ?d = "view (sv_subs sv) p" and ?R = "sv_shared_refs sv"
  have R: "refs_ok (shared_at (sv_subs sv)) ?R" "cells_ok C ?R (sv_shared_subscription_count sv)"
    and ok: "shared_ok (sd_shared ?d)"
    using inv by (simp_all add: subs_inv_def)
  have at: "shared_at (sv_subs sv) (p, name) = leafs" using sh by (auto simp: shared_at_def)
  have wo: "put_shared name leafs sh = sd_shared ?d" using sh put_shared_same [OF ok, of name] by auto
  have same: "keeps_subs C p sv ?d sv" by (rule keeps_subs_same [OF inv])
  let ?taken = "case free_cell (p, name) (?R c) of Some r \<Rightarrow> Some r
      | None \<Rightarrow> if alloc (8 * (length (?R c) + 1)) then Some (?R c @ [Some (p, name)]) else None"
  obtain cs where cs: "?taken = Some cs" using grow by (cases "free_cell (p, name) (?R c)") auto
  obtain rc0 ls where l: "sub__add_leaf alloc (sv_contexts sv) c cid q n opts leafs = (rc0, ls)" by fastforce
  consider "rc0 > 0" | "rc0 = err_code MOSQ_ERR_SUB_EXISTS" "map sl_context ls = map sl_context leafs" "leafs \<noteq> []"
    | x where "rc0 = 0" "leafs_of c leafs = 0" "sl_context x = c" "ls = leafs @ [x]"
    using sub__add_leaf_cases [OF l id] by blast
  then show ?thesis
  proof cases
    case 1
    then have "d = ?d" "sv' = sv" using r unfolding add_shared_leaf_def Let_def l prod.case if_P [OF 1]
      by (auto simp: wo)
    then show ?thesis using same by simp
  next
    case 2
    then have "d = ?d\<lparr>sd_shared := put_shared name ls sh\<rparr>" "sv' = sv"
      using r unfolding add_shared_leaf_def Let_def l prod.case by auto
    moreover have "refs_ok ((shared_at (sv_subs sv))((p, name) := ls)) ?R"
      by (rule refs_ok_same [OF R(1)]) (simp add: 2(2) at)
    moreover have "sh = sd_shared ?d \<and> hash_find name sh \<noteq> None" using sh 2(3) by auto
    moreover have "sv = sv\<lparr>sv_shared_refs := ?R, sv_shared_subscription_count := sv_shared_subscription_count sv\<rparr>" by simp
    ultimately show ?thesis using keeps_shared [OF inv disjI1] R(2) by metis
  next
    case 3
    show ?thesis
    proof (cases "alloc sizeof_subshared_ref")
      case False
      then have "d = ?d" "sv' = sv" using r 3(1) unfolding add_shared_leaf_def Let_def l prod.case
        by (auto simp: wo)
      then show ?thesis using same by simp
    next
      case True
      have d: "d = ?d\<lparr>sd_shared := put_shared name ls sh\<rparr>"
        "sv' = sv\<lparr>sv_shared_refs := ?R(c := cs), sv_shared_subscription_count := sv_shared_subscription_count sv + 1\<rparr>"
        using r True 3(1) cs grow unfolding add_shared_leaf_def Let_def l prod.case
        by (auto split: option.splits)
      note t = taken_cell [OF cs]
      have "refs_ok ((shared_at (sv_subs sv))((p, name) := ls)) (?R(c := cs))"
        using refs_ok_add [OF R(1), of c "(p, name)" x cs] 3(2-4) t by (simp add: at)
      moreover have "cells_ok C (?R(c := cs)) (sv_shared_subscription_count sv + 1)"
        using cells_ok_change [OF R(2) c, of cs] t by (simp add: algebra_simps)
      ultimately show ?thesis using keeps_shared [OF inv _ _ _ d] sh by auto
    qed
  qed
qed

lemma add_shared_keeps:
  assumes inv: "subs_inv C sv" and "c \<in> C" and "ctx_id (sv_contexts sv c) = Some cid"
    and "alloc (8 * (length (sv_shared_refs sv c) + 1))"
    and r: "sub__add_shared alloc c cid q n opts name p (view (sv_subs sv) p) sv = Some (rc, d, sv')"
  shows "keeps_subs C p sv d sv'"
proof (cases "hash_find name (sd_shared (view (sv_subs sv) p))")
  case None
  then show ?thesis
    using r add_shared_leaf_keeps [where alloc = alloc, OF assms(1-4), of "hash_add name [] (sd_shared (view (sv_subs sv) p))" p name "[]"]
      keeps_subs_same [OF inv, of p]
    by (auto simp: sub__add_shared_def split: if_splits)
next
  case (Some leafs)
  then show ?thesis
    using r add_shared_leaf_keeps [where alloc = alloc, OF assms(1-4), of "sd_shared (view (sv_subs sv) p)" p name leafs]
    by (simp add: sub__add_shared_def)
qed

section \<open>Removing a leaf\<close>

lemma remove_normal_keeps:
  assumes inv: "subs_inv C sv" and c: "c \<in> C"
    and r: "sub__remove_normal c p (view (sv_subs sv) p) (sv, reason) = (rc, d, sv', reason')"
  shows "keeps_subs C p sv d sv'"
proof (cases "leaf_remove c (sd_subs (view (sv_subs sv) p))")
  case None
  then show ?thesis using r keeps_subs_same [OF inv, of p] by (auto simp: sub__remove_normal_def)
next
  case (Some ls)
  let ?R = "sv_sub_refs sv" and ?n = "sv_subscription_count sv"
  have R: "refs_ok (subs_at (sv_subs sv)) ?R" "cells_ok C ?R ?n" using inv by (simp_all add: subs_inv_def)
  have "leaf_remove c (subs_at (sv_subs sv) p) = Some ls" using Some by (simp add: subs_at_def)
  note rr = refs_ok_remove [OF R(1) this]
  have "cells_ok C (?R(c := clear_cell p (?R c))) (?n - 1)"
    using cells_ok_change [OF R(2) c, of "clear_cell p (?R c)"] rr(2) by (simp add: algebra_simps)
  then show ?thesis
    using subs_inv_normal [OF inv _ rr(1), where n = "?n - 1"] r Some
    by (auto simp: sub__remove_normal_def keeps_subs_def)
qed

lemma remove_shared_keeps:
  assumes inv: "subs_inv C sv" and c: "c \<in> C"
    and r: "sub__remove_shared c name p (view (sv_subs sv) p) (sv, reason) = (rc, d, sv', reason')"
  shows "keeps_subs C p sv d sv'"
proof (cases "Option.bind (hash_find name (sd_shared (view (sv_subs sv) p))) (leaf_remove c)")
  case None
  then show ?thesis using r keeps_subs_same [OF inv, of p] by (auto simp: sub__remove_shared_def)
next
  case (Some ls)
  let ?R = "sv_shared_refs sv" and ?n = "sv_shared_subscription_count sv" and ?sh = "sd_shared (view (sv_subs sv) p)"
  have R: "refs_ok (shared_at (sv_subs sv)) ?R" "cells_ok C ?R ?n" using inv by (simp_all add: subs_inv_def)
  have f: "hash_find name ?sh \<noteq> None" using Some by (auto simp: Option.bind_eq_Some_conv)
  have "leaf_remove c (shared_at (sv_subs sv) (p, name)) = Some ls"
    using Some f by (auto simp: shared_at_def)
  note rr = refs_ok_remove [OF R(1) this]
  have "cells_ok C (?R(c := clear_cell (p, name) (?R c))) (?n - 1)"
    using cells_ok_change [OF R(2) c, of "clear_cell (p, name) (?R c)"] rr(2) by (simp add: algebra_simps)
  from keeps_shared [OF inv disjI1 [OF conjI [OF refl f]] rr(1) this refl refl] show ?thesis
    using r Some by (auto simp: sub__remove_shared_def)
qed

end
