(* ===== verification/Subs_Ops.thy ===== *)
theory Subs_Ops
  imports Subs_Refs
begin

text \<open>
  \<open>sub__add\<close>, \<open>sub__remove\<close> and \<open>sub__clean_session\<close> on the whole tree: each changes the lists of
  one node, or of every node the client is subscribed at, and keeps \<open>subs_inv\<close>.
\<close>

text \<open>The path of a filter: the root is walked down from once more.\<close>

definition path_of :: "string option list \<Rightarrow> string list" where
  "path_of cells = hd (tokens_of cells) # tokens_of cells"

section \<open>Subscribing\<close>

definition add_finish ::
  "(nat \<Rightarrow> bool) \<Rightarrow> nat \<Rightarrow> nat \<Rightarrow> u32 \<Rightarrow> u8 \<Rightarrow> string option \<Rightarrow> string list \<Rightarrow> subs_data \<Rightarrow> server \<Rightarrow>
   (int \<times> subs_data \<times> server) option" where
  "add_finish alloc context qos identifier options sharename path data sv =
     (case ctx_id (sv_contexts sv context) of
        None \<Rightarrow> Some (0, data, sv)
      | Some cid \<Rightarrow>
          (case sharename of
             Some name \<Rightarrow> sub__add_shared alloc context cid qos identifier options name path data sv
           | None \<Rightarrow> Some (sub__add_normal alloc context cid qos identifier options path data sv)))"

lemma sub__add_context_eq:
  "sub__add_context alloc context qos identifier options root subhier topics sharename sv =
   add_walk alloc (add_finish alloc context qos identifier options sharename) [root] topics subhier sv"
  by (simp add: sub__add_context_def add_finish_def [abs_def])

lemma sub__add_view:
  assumes t: "sub__topic_tokenise alloc sub = Inr (cells, sharename)"
    and r: "sub__add alloc c sub q n opts sv = Some (rc, sv')"
  shows "rc > 0 \<and> view (sv_subs sv') = view (sv_subs sv) \<and> sv' = sv\<lparr>sv_subs := sv_subs sv'\<rparr> \<or>
    (\<exists>d sv1. add_finish alloc c q n opts sharename (path_of cells) (view (sv_subs sv) (path_of cells)) sv =
        Some (rc, d, sv1) \<and>
      view (sv_subs sv') = (view (sv_subs sv))(path_of cells := d) \<and> sv' = sv1\<lparr>sv_subs := sv_subs sv'\<rparr>)"
proof -
  obtain root ts where ts: "tokens_of cells = root # ts" using r t by (cases "tokens_of cells") (auto simp: sub__add_def)
  have p: "path_of cells = root # tokens_of cells" by (simp add: path_of_def ts)
  define fh where "fh = (case hash_find root (sv_subs sv) of
      Some h \<Rightarrow> Some (sv_subs sv, h)
    | None \<Rightarrow> map_option (\<lambda>f. (f, Hier [] no_subs)) (sub__add_hier_entry alloc (sv_subs sv) root))"
  show ?thesis
  proof (cases "length root > 65535 \<or> fh = None")
    case True
    then have "rc > 0 \<and> sv' = sv" using r t by (auto simp: sub__add_def ts fh_def [symmetric] split: if_splits)
    then show ?thesis by simp
  next
    case False
    then obtain f h where fh: "fh = Some (f, h)" by auto
    then obtain h' sv1 where w: "sub__add_context alloc c q n opts root h (tokens_of cells) sharename sv = Some (rc, h', sv1)"
      and sv': "sv' = sv1\<lparr>sv_subs := hash_put root h' f\<rparr>"
      using r t False by (auto simp: sub__add_def ts fh_def [symmetric])
    have c: "hash_find root f = Some h" "\<And>p. view f p = view (sv_subs sv) p"
      using fh by (auto simp: fh_def sub__add_hier_entry_def view_add split: option.splits if_splits)
    have b: "below h p = view (sv_subs sv) (root # p)" for p using c(2) [of "root # p"] c(1) by (simp add: view_Cons)
    have v: "view (sv_subs sv') p = (case p of [] \<Rightarrow> no_subs | u # us \<Rightarrow> if u = root then below h' us else view (sv_subs sv) p)" for p
      using c(1) c(2) [of p] by (cases p) (auto simp: sv' view_Cons)
    have e: "sv' = sv1\<lparr>sv_subs := sv_subs sv'\<rparr>" by (simp add: sv')
    from add_walk_view [OF w [unfolded sub__add_context_eq]] show ?thesis
    proof
      assume a: "rc > 0 \<and> sv1 = sv \<and> (\<forall>p. below h' p = below h p)"
      have "view (sv_subs sv') p = view (sv_subs sv) p" for p using a b by (cases p) (auto simp: v)
      then show ?thesis using a e by auto
    next
      assume "\<exists>d. add_finish alloc c q n opts sharename ([root] @ tokens_of cells) (below h (tokens_of cells)) sv =
          Some (rc, d, sv1) \<and> (\<forall>p. below h' p = (if p = tokens_of cells then d else below h p))"
      then obtain d where d: "add_finish alloc c q n opts sharename (path_of cells) (below h (tokens_of cells)) sv = Some (rc, d, sv1)"
        "\<And>p. below h' p = (if p = tokens_of cells then d else below h p)" by (auto simp: p)
      have "view (sv_subs sv') q = ((view (sv_subs sv))(path_of cells := d)) q" for q
        by (cases q) (auto simp: v p d(2) b)
      then show ?thesis using d(1) e by (auto simp: b p)
    qed
  qed
qed

lemma add_finish_keeps:
  assumes inv: "subs_inv C sv" and c: "c \<in> C" and grow: "alloc (8 * (length (sv_shared_refs sv c) + 1))"
    and r: "add_finish alloc c q n opts sharename p (view (sv_subs sv) p) sv = Some (rc, d, sv')"
  shows "keeps_subs C p sv d sv'"
proof (cases "ctx_id (sv_contexts sv c)")
  case None
  then show ?thesis using r keeps_subs_same [OF inv, of p] by (auto simp: add_finish_def)
next
  case (Some cid)
  then show ?thesis
    using r add_normal_keeps [OF inv c Some] add_shared_keeps [where alloc = alloc, OF inv c Some grow]
    by (cases sharename) (auto simp: add_finish_def)
qed

lemma sub__add_keeps:
  assumes inv: "subs_inv C sv" and "c \<in> C" and "alloc (8 * (length (sv_shared_refs sv c) + 1))"
    and r: "sub__add alloc c sub q n opts sv = Some (rc, sv')"
  shows "subs_inv C sv'"
proof (cases "sub__topic_tokenise alloc sub")
  case (Inl e)
  then show ?thesis using r inv by (cases e) (auto simp: sub__add_def)
next
  case (Inr x)
  obtain cells sharename where t: "sub__topic_tokenise alloc sub = Inr (cells, sharename)" using Inr by (cases x) auto
  from sub__add_view [OF t r] show ?thesis
  proof
    assume "rc > 0 \<and> view (sv_subs sv') = view (sv_subs sv) \<and> sv' = sv\<lparr>sv_subs := sv_subs sv'\<rparr>"
    then show ?thesis using subs_inv_view [OF inv] by metis
  next
    assume "\<exists>d sv1. add_finish alloc c q n opts sharename (path_of cells) (view (sv_subs sv) (path_of cells)) sv =
        Some (rc, d, sv1) \<and>
      view (sv_subs sv') = (view (sv_subs sv))(path_of cells := d) \<and> sv' = sv1\<lparr>sv_subs := sv_subs sv'\<rparr>"
    then show ?thesis using add_finish_keeps [where alloc = alloc, OF assms(1-3)] unfolding keeps_subs_def by metis
  qed
qed

section \<open>Unsubscribing\<close>

lemma remove_nothing:
  "sub__remove_normal c p no_subs st = (err_code MOSQ_ERR_NO_SUBSCRIBERS, no_subs, st)"
  "sub__remove_shared c name p no_subs st = (err_code MOSQ_ERR_NO_SUBSCRIBERS, no_subs, st)"
  by (cases st; simp add: sub__remove_normal_def sub__remove_shared_def no_subs_def)+

definition remove_finish ::
  "nat \<Rightarrow> string option \<Rightarrow> string list \<Rightarrow> subs_data \<Rightarrow> server \<times> u8 \<Rightarrow> int \<times> subs_data \<times> server \<times> u8" where
  "remove_finish context sharename =
     (case sharename of None \<Rightarrow> sub__remove_normal context | Some name \<Rightarrow> sub__remove_shared context name)"

lemma remove_finish_subs: "sv_subs (fst (snd (snd (remove_finish c sharename p d (sv, reason))))) = sv_subs sv"
  by (auto simp: remove_finish_def sub__remove_normal_def sub__remove_shared_def split: option.splits)

lemma sub__remove_view:
  assumes t: "sub__topic_tokenise alloc sub = Inr (cells, sharename)"
    and r: "sub__remove alloc c sub reason sv = Some (rc, sv', reason')"
  shows "\<exists>d sv1 st. (st = reason \<or> st = MQTT_RC_NO_SUBSCRIPTION_EXISTED) \<and>
      snd (remove_finish c sharename (path_of cells) (view (sv_subs sv) (path_of cells)) (sv, st)) = (d, sv1, reason') \<and>
      view (sv_subs sv') = (view (sv_subs sv))(path_of cells := d) \<and> sv' = sv1\<lparr>sv_subs := sv_subs sv'\<rparr>"
proof -
  obtain root ts where ts: "tokens_of cells = root # ts" using r t by (cases "tokens_of cells") (auto simp: sub__remove_def)
  have p: "path_of cells = root # tokens_of cells" by (simp add: path_of_def ts)
  have no_leaf: "snd (remove_finish c sharename q no_subs st) = (no_subs, st)" for q st
    by (cases sharename) (simp_all add: remove_finish_def remove_nothing)
  show ?thesis
  proof (cases "hash_find root (sv_subs sv)")
    case None
    then have "sv' = sv" "reason' = reason" "view (sv_subs sv) (path_of cells) = no_subs"
      using r t by (auto simp: sub__remove_def ts p view_Cons)
    moreover have "(view (sv_subs sv))(path_of cells := no_subs) = view (sv_subs sv)"
      using \<open>view (sv_subs sv) (path_of cells) = no_subs\<close> by (metis fun_upd_triv)
    moreover have "snd (remove_finish c sharename (path_of cells) no_subs (sv, reason)) = (no_subs, sv, reason)"
      by (rule no_leaf)
    ultimately show ?thesis
      by (intro exI [of _ no_subs] exI [of _ sv] exI [of _ reason]) simp
  next
    case (Some h)
    let ?st = "(sv, MQTT_RC_NO_SUBSCRIPTION_EXISTED)"
    obtain rc0 h' st' where rr: "sub__remove_recurse (remove_finish c sharename) [root] (tokens_of cells) h ?st = (rc0, h', st')"
      by (cases "sub__remove_recurse (remove_finish c sharename) [root] (tokens_of cells) h ?st") auto
    have w: "snd (remove_finish c sharename (path_of cells) (below h (tokens_of cells)) ?st) = (below h' (tokens_of cells), st')"
      "\<And>q. q \<noteq> tokens_of cells \<Longrightarrow> below h' q = below h q"
      using remove_recurse_view [OF rr] no_leaf by (auto simp: p)
    have "sv_subs (fst (snd (snd (remove_finish c sharename (path_of cells) (below h (tokens_of cells)) ?st)))) = sv_subs sv"
      by (rule remove_finish_subs)
    then have same: "sv_subs (fst st') = sv_subs sv" using w(1) by simp
    have sv': "sv' = (fst st')\<lparr>sv_subs := hash_put root h' (sv_subs sv)\<rparr>" "reason' = snd st'"
      using r t rr Some same by (auto simp: sub__remove_def ts remove_finish_def Let_def split: prod.splits)
    have b: "view (sv_subs sv) (root # q) = below h q" for q using Some by (simp add: view_Cons)
    have "view (sv_subs sv') q = ((view (sv_subs sv))(path_of cells := below h' (tokens_of cells))) q" for q
      using Some w(2) by (cases q) (auto simp: sv' p view_Cons)
    then show ?thesis using w(1) sv' unfolding p b
      by (intro exI [of _ "below h' (tokens_of cells)"] exI [of _ "fst st'"] exI [of _ MQTT_RC_NO_SUBSCRIPTION_EXISTED]) auto
  qed
qed

lemma sub__remove_keeps:
  assumes inv: "subs_inv C sv" and c: "c \<in> C"
    and r: "sub__remove alloc c sub reason sv = Some (rc, sv', reason')"
  shows "subs_inv C sv'"
proof (cases "sub__topic_tokenise alloc sub")
  case (Inl e)
  then show ?thesis using r inv by (cases e) (auto simp: sub__remove_def)
next
  case (Inr x)
  obtain cells sharename where t: "sub__topic_tokenise alloc sub = Inr (cells, sharename)" using Inr by (cases x) auto
  let ?p = "path_of cells"
  obtain d sv1 st where d: "snd (remove_finish c sharename ?p (view (sv_subs sv) ?p) (sv, st)) = (d, sv1, reason')"
    "view (sv_subs sv') = (view (sv_subs sv))(?p := d)" "sv' = sv1\<lparr>sv_subs := sv_subs sv'\<rparr>"
    using sub__remove_view [OF t r] by blast
  obtain rc1 where "remove_finish c sharename ?p (view (sv_subs sv) ?p) (sv, st) = (rc1, d, sv1, reason')"
    using d(1) by (metis prod.collapse)
  then have "keeps_subs C ?p sv d sv1"
    using remove_normal_keeps [OF inv c] remove_shared_keeps [OF inv c]
    by (cases sharename) (auto simp: remove_finish_def)
  then show ?thesis using d(2,3) unfolding keeps_subs_def by metis
qed

section \<open>Removing all subscriptions of a client\<close>

abbreviation others :: "nat \<Rightarrow> mosquitto__subleaf list \<Rightarrow> mosquitto__subleaf list" where
  "others c ls \<equiv> filter (\<lambda>l. sl_context l \<noteq> c) ls"

lemma node_at_update [simp]: "node_at p (update_at p g f) = None \<longleftrightarrow> node_at p f = None"
  using data_at_update [of p g f p] by (auto simp: data_at_def)

lemma clean_subs_loop_ok:
  assumes "\<And>k. count_list cs (Some k) = leafs_of c (subs_at (sv_subs sv) k) \<and> leafs_of c (subs_at (sv_subs sv) k) \<le> 1"
  shows "\<exists>f. clean_subs_loop c cs sv =
      Some (sv\<lparr>sv_subscription_count := sv_subscription_count sv - int (live_cells cs), sv_subs := f\<rparr>) \<and>
    view f = (\<lambda>p. (view (sv_subs sv) p)\<lparr>sd_subs := others c (sd_subs (view (sv_subs sv) p))\<rparr>)"
  using assms
proof (induction cs arbitrary: sv)
  case Nil
  have "others c (sd_subs (view (sv_subs sv) p)) = sd_subs (view (sv_subs sv) p)" for p
    using Nil [of p] by (auto simp: subs_at_def leafs_of_def filter_empty_conv filter_id_conv)
  then show ?case by (intro exI [of _ "sv_subs sv"]) simp
next
  case (Cons x cs)
  show ?case
  proof (cases x)
    case None
    then show ?thesis using Cons.IH [of sv] Cons.prems by auto
  next
    case (Some p)
    let ?f = "sv_subs sv"
    have one: "leafs_of c (subs_at ?f p) = 1" "count_list cs (Some p) = 0" using Cons.prems [of p] Some by auto
    obtain h where h: "node_at p ?f = Some h" using one(1) view_empty [of p ?f] by (cases "node_at p ?f") (auto simp: subs_at_def no_subs_def)
    have d: "hier_data h = view ?f p" using view_node [OF h] by simp
    obtain ls where ls: "leaf_remove c (sd_subs (view ?f p)) = Some ls"
      using one(1) leaf_remove_None [of c "sd_subs (view ?f p)"] by (cases "leaf_remove c (sd_subs (view ?f p))") (auto simp: subs_at_def)
    have lso: "ls = others c (sd_subs (view ?f p))" using leaf_remove_filter [OF ls] one(1) by (simp add: subs_at_def)
    let ?f1 = "update_at p (\<lambda>d. d\<lparr>sd_subs := ls\<rparr>) ?f"
    have v1: "view ?f1 = (view ?f)(p := (view ?f p)\<lparr>sd_subs := ls\<rparr>)" using view_update [of p ?f] h by simp
    obtain f2 where f2: "prune p ?f1 = Some f2" "view f2 = view ?f1" using prune_view [of p ?f1] h by auto
    let ?sv = "sv\<lparr>sv_subscription_count := sv_subscription_count sv - 1, sv_subs := f2\<rparr>"
    have at: "subs_at f2 = (subs_at ?f)(p := ls)" by (auto simp: subs_at_def f2(2) v1)
    have "count_list cs (Some k) = leafs_of c (subs_at f2 k) \<and> leafs_of c (subs_at f2 k) \<le> 1" for k
      using Cons.prems [of k] Some one(2) by (auto simp: at lso leafs_of_filter split: if_splits)
    then obtain f where f: "clean_subs_loop c cs ?sv =
        Some (?sv\<lparr>sv_subscription_count := sv_subscription_count ?sv - int (live_cells cs), sv_subs := f\<rparr>)"
      "view f = (\<lambda>q. (view f2 q)\<lparr>sd_subs := others c (sd_subs (view f2 q))\<rparr>)"
      using Cons.IH [of ?sv] by auto
    have "clean_subs_loop c (x # cs) sv = clean_subs_loop c cs ?sv"
      by (simp add: Some h d ls f2(1))
    moreover have "view f = (\<lambda>q. (view ?f q)\<lparr>sd_subs := others c (sd_subs (view ?f q))\<rparr>)"
      unfolding f(2) f2(2) v1 by (auto simp: lso)
    ultimately show ?thesis using f(1) Some by (intro exI [of _ f]) (simp add: algebra_simps)
  qed
qed

lemma clean_shared_loop_ok:
  assumes "\<And>k. count_list cs (Some k) = leafs_of c (shared_at (sv_subs sv) k) \<and> leafs_of c (shared_at (sv_subs sv) k) \<le> 1"
    and "\<And>p. shared_ok (sd_shared (view (sv_subs sv) p))"
  shows "\<exists>f. clean_shared_loop c cs sv =
      Some (sv\<lparr>sv_shared_subscription_count := sv_shared_subscription_count sv - int (live_cells cs), sv_subs := f\<rparr>) \<and>
    subs_at f = subs_at (sv_subs sv) \<and> shared_at f = (\<lambda>k. others c (shared_at (sv_subs sv) k)) \<and>
    (\<forall>p. shared_ok (sd_shared (view f p)))"
  using assms
proof (induction cs arbitrary: sv)
  case Nil
  have "others c (shared_at (sv_subs sv) k) = shared_at (sv_subs sv) k" for k
    using Nil(1) [of k] by (auto simp: leafs_of_def filter_empty_conv filter_id_conv)
  then show ?case using Nil(2) by (intro exI [of _ "sv_subs sv"]) auto
next
  case (Cons x cs)
  show ?case
  proof (cases x)
    case None
    then show ?thesis using Cons.IH [of sv] Cons.prems by auto
  next
    case (Some k0)
    obtain p name where k0: "k0 = (p, name)" by (cases k0)
    let ?f = "sv_subs sv" and ?sh = "sd_shared (view (sv_subs sv) p)"
    have one: "leafs_of c (shared_at ?f (p, name)) = 1" "count_list cs (Some (p, name)) = 0"
      using Cons.prems(1) [of "(p, name)"] Some k0 by auto
    obtain leafs where le: "hash_find name ?sh = Some leafs" "shared_at ?f (p, name) = leafs"
      using one(1) by (auto simp: shared_at_def split: option.splits)
    obtain h where h: "node_at p ?f = Some h"
      using le(1) view_empty [of p ?f] by (cases "node_at p ?f") (auto simp: no_subs_def)
    have d: "hier_data h = view ?f p" using view_node [OF h] by simp
    obtain ls where ls: "leaf_remove c leafs = Some ls"
      using one(1) le(2) leaf_remove_None [of c leafs] by (cases "leaf_remove c leafs") auto
    have lso: "ls = others c leafs" using leaf_remove_filter [OF ls] one(1) le(2) by simp
    let ?f1 = "update_at p (\<lambda>d. d\<lparr>sd_shared := put_shared name ls (sd_shared d)\<rparr>) ?f"
    have v1: "view ?f1 = (view ?f)(p := (view ?f p)\<lparr>sd_shared := put_shared name ls ?sh\<rparr>)"
      using view_update [of p ?f] h by simp
    obtain f2 where f2: "prune p ?f1 = Some f2" "view f2 = view ?f1" using prune_view [of p ?f1] h by auto
    let ?sv = "sv\<lparr>sv_shared_subscription_count := sv_shared_subscription_count sv - 1, sv_subs := f2\<rparr>"
    have at: "shared_at f2 = (shared_at ?f)((p, name) := ls)" "subs_at f2 = subs_at ?f"
      using le(1) by (auto simp: shared_at_def subs_at_def f2(2) v1 fun_eq_iff split: option.splits)
    have ok2: "shared_ok (sd_shared (view f2 q))" for q
      using Cons.prems(2) shared_ok_put by (simp add: f2(2) v1)
    have "count_list cs (Some k) = leafs_of c (shared_at f2 k) \<and> leafs_of c (shared_at f2 k) \<le> 1" for k
      using Cons.prems(1) [of k] Some k0 one(2) by (auto simp: at lso leafs_of_filter split: if_splits)
    then obtain f where f: "clean_shared_loop c cs ?sv =
        Some (?sv\<lparr>sv_shared_subscription_count := sv_shared_subscription_count ?sv - int (live_cells cs), sv_subs := f\<rparr>)"
      "subs_at f = subs_at f2" "shared_at f = (\<lambda>k. others c (shared_at f2 k))" "\<forall>p. shared_ok (sd_shared (view f p))"
      using Cons.IH [of ?sv] ok2 by auto
    have "clean_shared_loop c (x # cs) sv = clean_shared_loop c cs ?sv"
      by (simp add: Some k0 h d le(1) ls f2(1))
    moreover have "shared_at f = (\<lambda>k. others c (shared_at ?f k))"
      by (auto simp: f(3) at lso le(2))
    ultimately show ?thesis using f Some at(2) by (intro exI [of _ f]) (simp add: algebra_simps)
  qed
qed

lemma refs_ok_others:
  "refs_ok L R \<Longrightarrow> refs_ok (\<lambda>k. others c (L k)) (R(c := []))"
  by (auto simp: refs_ok_def leafs_of_filter)

lemma clean_session_ok:
  assumes inv: "subs_inv C sv" and c: "c \<in> C"
  shows "\<exists>sv'. sub__clean_session c sv = Some (0, sv') \<and> subs_inv C sv' \<and>
    subs_at (sv_subs sv') = (\<lambda>p. others c (subs_at (sv_subs sv) p)) \<and>
    shared_at (sv_subs sv') = (\<lambda>k. others c (shared_at (sv_subs sv) k)) \<and>
    sv_sub_refs sv' = (sv_sub_refs sv)(c := []) \<and> sv_shared_refs sv' = (sv_shared_refs sv)(c := [])"
proof -
  let ?R = "sv_sub_refs sv" and ?S = "sv_shared_refs sv"
  have R: "refs_ok (subs_at (sv_subs sv)) ?R" "cells_ok C ?R (sv_subscription_count sv)"
    and S: "refs_ok (shared_at (sv_subs sv)) ?S" "cells_ok C ?S (sv_shared_subscription_count sv)"
    and sh: "\<And>p. shared_ok (sd_shared (view (sv_subs sv) p))"
    using inv by (simp_all add: subs_inv_def)
  obtain f1 where f1: "clean_subs_loop c (?R c) sv =
      Some (sv\<lparr>sv_subscription_count := sv_subscription_count sv - int (live_cells (?R c)), sv_subs := f1\<rparr>)"
    "view f1 = (\<lambda>p. (view (sv_subs sv) p)\<lparr>sd_subs := others c (sd_subs (view (sv_subs sv) p))\<rparr>)"
    using clean_subs_loop_ok [of "?R c" c sv] R(1) by (auto simp: refs_ok_def)
  have at1: "subs_at f1 = (\<lambda>p. others c (subs_at (sv_subs sv) p))" "shared_at f1 = shared_at (sv_subs sv)"
    by (auto simp: subs_at_def shared_at_def f1(2))
  let ?sv1 = "sv\<lparr>sv_subscription_count := sv_subscription_count sv - int (live_cells (?R c)), sv_subs := f1,
    sv_sub_refs := ?R(c := [])\<rparr>"
  have "\<exists>f. clean_shared_loop c (?S c) ?sv1 =
      Some (?sv1\<lparr>sv_shared_subscription_count := sv_shared_subscription_count ?sv1 - int (live_cells (?S c)), sv_subs := f\<rparr>) \<and>
    subs_at f = subs_at (sv_subs ?sv1) \<and> shared_at f = (\<lambda>k. others c (shared_at (sv_subs ?sv1) k)) \<and>
    (\<forall>p. shared_ok (sd_shared (view f p)))"
    by (rule clean_shared_loop_ok) (use S(1) sh in \<open>auto simp: refs_ok_def at1 f1(2)\<close>)
  then obtain f2 where f2: "clean_shared_loop c (?S c) ?sv1 =
      Some (?sv1\<lparr>sv_shared_subscription_count := sv_shared_subscription_count ?sv1 - int (live_cells (?S c)), sv_subs := f2\<rparr>)"
    "subs_at f2 = subs_at f1" "shared_at f2 = (\<lambda>k. others c (shared_at f1 k))" "\<forall>p. shared_ok (sd_shared (view f2 p))"
    by auto
  let ?sv2 = "?sv1\<lparr>sv_shared_subscription_count := sv_shared_subscription_count sv - int (live_cells (?S c)), sv_subs := f2,
    sv_shared_refs := ?S(c := [])\<rparr>"
  have "sub__clean_session c sv = Some (0, ?sv2)"
    using f1(1) f2(1) by (simp add: sub__clean_session_def sub__clean_session_shared_def)
  moreover have "subs_inv C ?sv2"
    using refs_ok_others [OF R(1), of c] refs_ok_others [OF S(1), of c] cells_ok_change [OF R(2) c, of "[]"]
      cells_ok_change [OF S(2) c, of "[]"] f2(2,3,4) at1 by (simp add: subs_inv_def)
  ultimately show ?thesis using at1 f2(2,3) by (intro exI [of _ ?sv2]) simp
qed

end
