(* ===== verification/Retain.thy ===== *)
theory Retain
  imports Subs
begin

text \<open>
  \<open>src/retain.c\<close>: the tree of retained messages, sending them to a new subscriber, and
  \<open>sub__messages_queue\<close> of \<open>src/subs.c\<close>, which hands a message to the subscribers and to this
  tree.
\<close>

section \<open>Storing\<close>

definition sizeof_retainhier :: nat where
  "sizeof_retainhier = 96"

text \<open>The length of a topic is cast to 16 bits: the key is what is left of it.\<close>

definition retain__add_hier_entry ::
  "(nat \<Rightarrow> bool) \<Rightarrow> nat option forest \<Rightarrow> string \<Rightarrow> (string \<times> nat option forest) option" where
  "retain__add_hier_entry alloc siblings topic =
     (let len = length topic mod 65536; key = take len topic
      in if \<not> alloc sizeof_retainhier \<or> \<not> alloc (len + 1) then None
         else Some (key, hash_add key (Hier [] None) siblings))"

definition retain__init :: "(nat \<Rightarrow> bool) \<Rightarrow> server \<Rightarrow> int \<times> server" where
  "retain__init alloc sv =
     (case retain__add_hier_entry alloc (sv_retains sv) [] of
        None \<Rightarrow> (err_code MOSQ_ERR_NOMEM, sv)
      | Some (_, f) \<Rightarrow>
          (case retain__add_hier_entry alloc f ''$SYS'' of
             None \<Rightarrow> (err_code MOSQ_ERR_NOMEM, sv\<lparr>sv_retains := f\<rparr>)
           | Some (_, f) \<Rightarrow> (0, sv\<lparr>sv_retains := f\<rparr>)))"

text \<open>Replacing the message of a node; \<open>None\<close> follows a pointer to a message that is gone.\<close>

definition retain_set :: "string \<Rightarrow> nat \<Rightarrow> nat option \<Rightarrow> server \<Rightarrow> (int \<times> nat option \<times> server) option" where
  "retain_set topic stored retained sv =
     (let db = sv_db sv;
          db = (if take 4 topic \<noteq> ''$SYS'' then db\<lparr>db_persistence_changes := db_persistence_changes db + 1\<rparr> else db);
          cleared = (case retained of
                       None \<Rightarrow> Some (sv\<lparr>sv_db := db\<rparr>)
                     | Some a \<Rightarrow> map_option (\<lambda>db. sv\<lparr>sv_db := db, sv_retained_count := sv_retained_count sv - 1\<rparr>)
                                   (db__msg_store_ref_dec a db))
      in case cleared of
           None \<Rightarrow> None
         | Some sv \<Rightarrow>
             (case store_at (sv_db sv) stored of
                None \<Rightarrow> None
              | Some store \<Rightarrow>
                  if ms_payloadlen store \<noteq> 0 then
                    map_option (\<lambda>db. (0, Some stored, sv\<lparr>sv_db := db, sv_retained_count := sv_retained_count sv + 1\<rparr>))
                      (db__msg_store_ref_inc stored (sv_db sv))
                  else Some (0, None, sv)))"

fun retain_walk ::
  "(nat \<Rightarrow> bool) \<Rightarrow> (nat option \<Rightarrow> server \<Rightarrow> (int \<times> nat option \<times> server) option) \<Rightarrow> string list \<Rightarrow>
   retainhier \<Rightarrow> server \<Rightarrow> (int \<times> retainhier \<times> server) option" where
  "retain_walk alloc finish [] h sv = on_data finish h sv"
| "retain_walk alloc finish (t # ts) h sv =
     (case (case hash_find t (hier_children h) of
              Some branch \<Rightarrow> Some (t, hier_children h, branch)
            | None \<Rightarrow> map_option (\<lambda>(key, cs). (key, cs, Hier [] None))
                        (retain__add_hier_entry alloc (hier_children h) t)) of
        None \<Rightarrow> Some (err_code MOSQ_ERR_NOMEM, h, sv)
      | Some (key, children, branch) \<Rightarrow>
          map_option (\<lambda>(rc, branch, sv). (rc, Hier (hash_put key branch children) (hier_data h), sv))
            (retain_walk alloc finish ts branch sv))"

definition retain__store :: "(nat \<Rightarrow> bool) \<Rightarrow> string \<Rightarrow> nat \<Rightarrow> string list \<Rightarrow> server \<Rightarrow> (int \<times> server) option" where
  "retain__store alloc topic stored split_topics sv =
     (case split_topics of
        [] \<Rightarrow> None
      | root # _ \<Rightarrow>
          (case (case hash_find root (sv_retains sv) of
                   Some h \<Rightarrow> Some (root, sv_retains sv, h)
                 | None \<Rightarrow> map_option (\<lambda>(key, f). (key, f, Hier [] None)) (retain__add_hier_entry alloc (sv_retains sv) root)) of
             None \<Rightarrow> Some (err_code MOSQ_ERR_NOMEM, sv)
           | Some (key, forest, h) \<Rightarrow>
               map_option (\<lambda>(rc, h, sv). (rc, sv\<lparr>sv_retains := hash_put key h forest\<rparr>))
                 (retain_walk alloc (retain_set topic stored) split_topics h sv)))"

section \<open>Sending retained messages\<close>

text \<open>
  The access control: reading by the client, and for the original sender finding its list
  and writing.
\<close>

record retain_acl =
  ra_read :: "server \<Rightarrow> nat \<Rightarrow> mosquitto_msg_store \<Rightarrow> int"
  ra_find :: "server \<Rightarrow> mosquitto_msg_store \<Rightarrow> int"
  ra_write :: "server \<Rightarrow> mosquitto_msg_store \<Rightarrow> int"

definition retain__process ::
  "retain_acl \<Rightarrow> (nat \<Rightarrow> bool) \<Rightarrow> net \<Rightarrow> nat \<Rightarrow> nat \<Rightarrow> u32 \<Rightarrow> nat \<Rightarrow> server \<Rightarrow> (int \<times> nat option \<times> server) option" where
  "retain__process acl alloc net context sub_qos subscription_identifier retained sv =
     (case store_at (sv_db sv) retained of
        None \<Rightarrow> None
      | Some store \<Rightarrow>
          if ms_message_expiry_time store > 0 \<and> db_now_real_s (sv_db sv) \<ge> ms_message_expiry_time store then
            map_option (\<lambda>db. (0, None, sv\<lparr>sv_db := db, sv_retained_count := sv_retained_count sv - 1\<rparr>))
              (db__msg_store_ref_dec retained (sv_db sv))
          else
            let leave = (\<lambda>rc. Some (rc, Some retained, sv));
                denied = (\<lambda>rc. leave (if rc = err_code MOSQ_ERR_ACL_DENIED then 0 else rc));
                rc = ra_read acl sv context store;
                source = (cfg_check_retain_source (db_config (sv_db sv)) \<and> ms_origin store \<noteq> mosq_mo_broker);
                rc_find = ra_find acl sv store; rc_write = ra_write acl sv store
            in if rc \<noteq> 0 then denied rc
               else if source \<and> rc_find \<noteq> 0 then leave rc_find
               else if source \<and> rc_write \<noteq> 0 then denied rc_write
               else
                 let qos = (if cfg_upgrade_outgoing_qos (db_config (sv_db sv)) then sub_qos
                            else if ms_qos store > sub_qos then sub_qos else ms_qos store);
                     ctx = sv_contexts sv context;
                     (mid, ctx) = (if qos > 0 then mosquitto__mid_generate ctx else (0, ctx));
                     properties =
                       (if subscription_identifier > 0 then
                          (case mosquitto_property_add_varint alloc (Some []) MQTT_PROP_SUBSCRIPTION_IDENTIFIER
                                  subscription_identifier of Inr props \<Rightarrow> props | Inl _ \<Rightarrow> [])
                        else [])
                 in map_option (\<lambda>(rc, bk). (rc, Some retained, sv\<lparr>sv_db := bk_db bk,
                        sv_contexts := (sv_contexts sv)(context := bk_ctx bk)\<rparr>))
                      (db__message_insert alloc net (new_addr (ctx_msgs_out ctx)) mid mosq_md_out qos True retained
                         properties False \<lparr>bk_db = sv_db sv, bk_ctx = ctx\<rparr>))"

text \<open>\<open>if(branch->retained) retain__process(...)\<close>, whose return code is not looked at.\<close>

definition process_retained ::
  "('b \<Rightarrow> 's \<Rightarrow> (int \<times> 'b option \<times> 's) option) \<Rightarrow> 'b option hier \<Rightarrow> 's \<Rightarrow> ('b option hier \<times> 's) option" where
  "process_retained process branch st =
     (case hier_data branch of
        None \<Rightarrow> Some (branch, st)
      | Some retained \<Rightarrow>
          map_option (\<lambda>(rc, data, st). (Hier (hier_children branch) data, st)) (process retained st))"

text \<open>
  \<open>retain__search\<close>: the flag it returns, the node and the state. The first two functions go
  through the children, all of them for \<open>#\<close> and those with a key in \<open>sel\<close> for \<open>+\<close> (every
  key) or a level (that key, the keys being different).
\<close>

fun hash_branches ::
  "('b \<Rightarrow> 's \<Rightarrow> (int \<times> 'b option \<times> 's) option) \<Rightarrow> string list \<Rightarrow> nat \<Rightarrow> 'b option forest \<Rightarrow> 's \<Rightarrow>
   ('b option forest \<times> 's) option"
and branches ::
  "('b \<Rightarrow> 's \<Rightarrow> (int \<times> 'b option \<times> 's) option) \<Rightarrow> (string \<Rightarrow> bool) \<Rightarrow> string list \<Rightarrow> nat \<Rightarrow> 'b option forest \<Rightarrow> 's \<Rightarrow>
   ('b option forest \<times> 's) option"
and retain__search ::
  "('b \<Rightarrow> 's \<Rightarrow> (int \<times> 'b option \<times> 's) option) \<Rightarrow> string list \<Rightarrow> nat \<Rightarrow> 'b option hier \<Rightarrow> 's \<Rightarrow>
   (int \<times> 'b option hier \<times> 's) option" where
  "hash_branches process ts level [] st = Some ([], st)"
| "hash_branches process ts level ((key, branch) # cs) st =
     Option.bind (map_option (\<lambda>(b, st). (hier_data b, st)) (process_retained process branch st)) (\<lambda>(data, st).
     Option.bind (if hier_children branch \<noteq> []
                  then map_option (\<lambda>(_, b, st). (hier_children b, st)) (retain__search process ts (level + 1) branch st)
                  else Some ([], st)) (\<lambda>(children, st).
     map_option (\<lambda>(cs, st). ((key, Hier children data) # cs, st)) (hash_branches process ts level cs st)))"
| "branches process sel ts level [] st = Some ([], st)"
| "branches process sel ts level ((key, branch) # cs) st =
     Option.bind
       (if sel key then
          if ts \<noteq> [] then
            Option.bind (retain__search process ts (level + 1) branch st) (\<lambda>(flag, branch, st).
              if flag = -1 \<or> (hd ts = ''#'' \<and> level > 0) then process_retained process branch st
              else Some (branch, st))
          else process_retained process branch st
        else Some (branch, st)) (\<lambda>(branch, st).
     map_option (\<lambda>(cs, st). ((key, branch) # cs, st)) (branches process sel ts level cs st))"
| "retain__search process ts level (Hier cs data) st =
     (case ts of
        [] \<Rightarrow> None
      | t # ts' \<Rightarrow>
          if t = ''#'' \<and> ts' = [] then
            map_option (\<lambda>(cs', st). (if cs = [] then 0 else -1, Hier cs' data, st)) (hash_branches process ts level cs st)
          else
            map_option (\<lambda>(cs', st). (0, Hier cs' data, st)) (branches process (\<lambda>key. t = ''+'' \<or> key = t) ts' level cs st))"

definition retain__queue ::
  "retain_acl \<Rightarrow> (nat \<Rightarrow> bool) \<Rightarrow> net \<Rightarrow> nat \<Rightarrow> string \<Rightarrow> nat \<Rightarrow> u32 \<Rightarrow> server \<Rightarrow> (int \<times> server) option" where
  "retain__queue acl alloc net context sub sub_qos subscription_identifier sv =
     (case sub__topic_tokenise alloc sub of
        Inl (Rc rc) \<Rightarrow> Some (err_code rc, sv)
      | Inl Trap \<Rightarrow> None
      | Inr (cells, _) \<Rightarrow>
          let split_topics = tokens_of cells
          in case split_topics of
               [] \<Rightarrow> None
             | root # _ \<Rightarrow>
                 (case hash_find root (sv_retains sv) of
                    None \<Rightarrow> Some (0, sv)
                  | Some h \<Rightarrow>
                      map_option (\<lambda>(_, h, sv). (0, sv\<lparr>sv_retains := hash_put root h (sv_retains sv)\<rparr>))
                        (retain__search (retain__process acl alloc net context sub_qos subscription_identifier)
                           split_topics 0 h sv)))"

text \<open>Every message of the tree given back.\<close>

fun retain__clean :: "nat option forest \<Rightarrow> mosquitto_db \<Rightarrow> mosquitto_db option" where
  "retain__clean [] db = Some db"
| "retain__clean ((key, Hier children retained) # peers) db =
     Option.bind (case retained of None \<Rightarrow> Some db | Some a \<Rightarrow> db__msg_store_ref_dec a db) (\<lambda>db.
     Option.bind (retain__clean children db) (retain__clean peers))"

section \<open>Handing out a message\<close>

definition sub__messages_queue ::
  "acl_check \<Rightarrow> (nat \<Rightarrow> bool) \<Rightarrow> net \<Rightarrow> string option \<Rightarrow> string \<Rightarrow> nat \<Rightarrow> bool \<Rightarrow> nat \<Rightarrow> server \<Rightarrow> (int \<times> server) option" where
  "sub__messages_queue acl alloc net source_id topic qos retain stored sv =
     (case sub__topic_tokenise alloc topic of
        Inl (Rc _) \<Rightarrow> Some (1, sv)
      | Inl Trap \<Rightarrow> None
      | Inr (cells, _) \<Rightarrow>
          let split_topics = tokens_of cells
          in case split_topics of
               [] \<Rightarrow> None
             | root # _ \<Rightarrow>
                 Option.bind (db__msg_store_ref_inc stored (sv_db sv)) (\<lambda>db.
                 let sv = sv\<lparr>sv_db := db\<rparr>
                 in Option.bind
                      (case hash_find root (sv_subs sv) of
                         None \<Rightarrow> Some (0, sv)
                       | Some h \<Rightarrow>
                           map_option (\<lambda>(rc, h, sv). (rc, sv\<lparr>sv_subs := hash_put root h (sv_subs sv)\<rparr>))
                             (sub__search (subs__process (\<lambda>leaf. subs__send acl alloc net leaf topic qos retain stored) source_id)
                                split_topics h sv)) (\<lambda>(rc, sv).
                    Option.bind
                      (if retain then
                         map_option (\<lambda>(rc2, sv). (if rc2 \<noteq> 0 then rc2 else rc, sv)) (retain__store alloc topic stored split_topics sv)
                       else Some (rc, sv)) (\<lambda>(rc, sv).
                    map_option (\<lambda>db. (rc, sv\<lparr>sv_db := db\<rparr>)) (db__msg_store_ref_dec stored (sv_db sv))))))"

end
