(* ===== verification/Server_Calls.thy ===== *)
theory Server_Calls
  imports Retain
begin

text \<open>
  The operations of \<open>src/database.c\<close> that end in \<open>sub__messages_queue\<close>:
  \<open>db__message_release_incoming\<close>, which hands out a message of qos 2 when its sender has released
  it, and \<open>db__messages_easy_queue\<close>, which stores a message and hands it out. They act on the whole
  broker, since the subscribers are other clients.
\<close>

section \<open>One client of the broker\<close>

definition the_client :: "server \<Rightarrow> nat \<Rightarrow> broker" where
  "the_client sv c = \<lparr>bk_db = sv_db sv, bk_ctx = sv_contexts sv c\<rparr>"

definition put_client :: "nat \<Rightarrow> broker \<Rightarrow> server \<Rightarrow> server" where
  "put_client c bk sv = sv\<lparr>sv_db := bk_db bk, sv_contexts := (sv_contexts sv)(c := bk_ctx bk)\<rparr>"

section \<open>Releasing a message\<close>

text \<open>
  The first loop of \<open>db__message_release_incoming\<close>: \<open>Inl rc\<close> returns, \<open>Inr\<close> goes on with
  \<open>msg_index\<close> and \<open>deleted\<close>.
\<close>

fun release_inflight ::
  "acl_check \<Rightarrow> (nat \<Rightarrow> bool) \<Rightarrow> net \<Rightarrow> nat \<Rightarrow> u16 \<Rightarrow> nat list \<Rightarrow> int \<Rightarrow> bool \<Rightarrow> server \<Rightarrow>
   ((int + (int \<times> bool)) \<times> server) option" where
  "release_inflight acl alloc net context mid [] msg_index deleted sv = Some (Inr (msg_index, deleted), sv)"
| "release_inflight acl alloc net context mid (a # as) msg_index deleted sv =
     (case find_msg a (md_inflight (ctx_msgs_in (sv_contexts sv context))) of
        None \<Rightarrow> None
      | Some tail \<Rightarrow>
          if cm_mid tail = mid then
            (case store_at (sv_db sv) (cm_store tail) of
               None \<Rightarrow> None
             | Some store \<Rightarrow>
                 if ms_qos store \<noteq> 2 then Some (Inl (err_code MOSQ_ERR_PROTOCOL), sv)
                 else
                   (case ms_topic store of
                      None \<Rightarrow>
                        Option.bind (remove_msg mosq_md_in a (the_client sv context)) (\<lambda>bk.
                          release_inflight acl alloc net context mid as (msg_index + 1) True (put_client context bk sv))
                    | Some topic \<Rightarrow>
                        (case sub__messages_queue acl alloc net (Some (ms_source_id store)) topic 2 (cm_retain tail)
                                (cm_store tail) sv of
                           None \<Rightarrow> None
                         | Some (rc, sv) \<Rightarrow>
                             if rc = 0 \<or> rc = err_code MOSQ_ERR_NO_SUBSCRIBERS
                             then Option.bind (remove_msg mosq_md_in a (the_client sv context)) (\<lambda>bk.
                                    release_inflight acl alloc net context mid as (msg_index + 1) True (put_client context bk sv))
                             else Some (Inl 1, sv))))
          else release_inflight acl alloc net context mid as (msg_index + 1) deleted sv)"

definition db__message_release_incoming ::
  "acl_check \<Rightarrow> (nat \<Rightarrow> bool) \<Rightarrow> net \<Rightarrow> nat \<Rightarrow> u16 \<Rightarrow> server \<Rightarrow> (int \<times> server) option" where
  "db__message_release_incoming acl alloc net context mid sv =
     (case release_inflight acl alloc net context mid (map cm_addr (md_inflight (ctx_msgs_in (sv_contexts sv context))))
             0 False sv of
        None \<Rightarrow> None
      | Some (Inl rc, sv) \<Rightarrow> Some (rc, sv)
      | Some (Inr (msg_index, deleted), sv) \<Rightarrow>
          map_option (\<lambda>bk. (if deleted then 0 else err_code MOSQ_ERR_NOT_FOUND, put_client context bk sv))
            (release_queued net (map cm_addr (md_queued (ctx_msgs_in (sv_contexts sv context)))) msg_index
               (the_client sv context)))"

section \<open>Storing and handing out\<close>

text \<open>
  \<open>addr\<close> is the address of the new stored message, \<open>context\<close> a client or NULL. The payload is
  the memory at the pointer.
\<close>

definition sizeof_msg_store :: nat where
  "sizeof_msg_store = 128"

definition db__messages_easy_queue ::
  "acl_check \<Rightarrow> (nat \<Rightarrow> bool) \<Rightarrow> net \<Rightarrow> nat \<Rightarrow> nat option \<Rightarrow> string option \<Rightarrow> nat \<Rightarrow> u32 \<Rightarrow> u8 list \<Rightarrow> bool \<Rightarrow>
   int \<Rightarrow> mosquitto_property list \<Rightarrow> server \<Rightarrow> (int \<times> server) option" where
  "db__messages_easy_queue acl alloc net addr context topic qos payloadlen payload retain
     message_expiry_interval properties sv =
     (case topic of
        None \<Rightarrow> Some (err_code MOSQ_ERR_INVAL, sv)
      | Some t \<Rightarrow>
          if \<not> alloc sizeof_msg_store then Some (err_code MOSQ_ERR_NOMEM, sv)
          else if \<not> alloc (length t + 1) then Some (err_code MOSQ_ERR_INVAL, sv)
          else if \<not> alloc (unat (payloadlen + 1)) then Some (err_code MOSQ_ERR_NOMEM, sv)
          else if \<not> unat payloadlen \<le> length payload \<or> payloadlen + 1 = 0 then None
          else
            let source = map_option (sv_contexts sv) context;
                source_id = (case source of Some ctx \<Rightarrow> (case ctx_id ctx of Some i \<Rightarrow> i | None \<Rightarrow> []) | None \<Rightarrow> []);
                store = \<lparr>ms_db_id = 0, ms_source_id = [], ms_source_username = None, ms_dest_ids = [],
                  ms_ref_count = 0, ms_topic = Some t, ms_properties = properties,
                  ms_payload = take (unat payloadlen) payload, ms_message_expiry_time = 0,
                  ms_payloadlen = payloadlen, ms_origin = mosq_mo_client, ms_source_mid = 0, ms_mid = 0,
                  ms_qos = qos,
                  ms_retain = (if \<not> cfg_retain_available (db_config (sv_db sv)) then False else retain)\<rparr>;
                origin = (if context \<noteq> None then mosq_mo_client else mosq_mo_broker)
            in case db__message_store alloc source addr store message_expiry_interval 0 origin (sv_db sv) of
                 (rc, db) \<Rightarrow>
                   if rc \<noteq> MOSQ_ERR_SUCCESS then Some (1, sv\<lparr>sv_db := db\<rparr>)
                   else sub__messages_queue acl alloc net (Some source_id) t qos (ms_retain store) addr (sv\<lparr>sv_db := db\<rparr>))"

end
