(* ===== verification/Server_Inv.thy ===== *)
theory Server_Inv
  imports Subs_Ops Broker_Ops_Safety Server_Calls
begin

text \<open>
  The invariant of the whole broker: all clients share the stored messages. \<open>server_ok C R sv\<close>
  counts the references of the clients in \<open>C\<close> and \<open>R\<close>, the references from elsewhere. An
  operation on one client that is safe for any references from outside it is safe in the
  broker (\<open>on_client\<close>), where the outside is the other clients and \<open>R\<close>.
\<close>

section \<open>One client and the others\<close>

definition client_ok :: "mosquitto \<Rightarrow> bool" where
  "client_ok ctx \<longleftrightarrow> unique_msgs (ctx_msgs_in ctx) \<and> unique_msgs (ctx_msgs_out ctx) \<and>
     quota_ok (ctx_msgs_in ctx) \<and> quota_ok (ctx_msgs_out ctx)"

definition client_refs :: "(nat \<Rightarrow> mosquitto) \<Rightarrow> nat set \<Rightarrow> nat \<Rightarrow> int" where
  "client_refs cs C a = (\<Sum>c\<in>C. int (count_list (ctx_refs (cs c)) a))"

definition server_ok :: "nat set \<Rightarrow> (nat \<Rightarrow> int) \<Rightarrow> server \<Rightarrow> bool" where
  "server_ok C R sv \<longleftrightarrow> finite C \<and> (\<forall>a. 0 \<le> R a) \<and>
     stores_ok (\<lambda>a. client_refs (sv_contexts sv) C a + R a) (sv_db sv) [] \<and>
     (\<forall>c \<in> C. client_ok (sv_contexts sv c))"

lemma stores_ok_move:
  "(\<And>a. int (count_list rs a) + E a = E' a) \<Longrightarrow> (\<And>a. 0 \<le> E a) \<Longrightarrow> stores_ok E db rs \<longleftrightarrow> stores_ok E' db []"
proof -
  assume e: "\<And>a. int (count_list rs a) + E a = E' a" and p: "\<And>a. 0 \<le> E a"
  have "a \<in> set rs \<or> E a \<noteq> 0 \<longleftrightarrow> E' a \<noteq> 0" for a
    using e [of a] p [of a] count_list_pos [of rs a] by auto
  moreover have "0 \<le> E' a" for a using e [of a] p [of a] by (metis add_nonneg_nonneg of_nat_0_le_iff)
  ultimately show ?thesis using e p by (simp add: stores_ok_def)
qed

lemma client_refs_nonneg [simp]: "0 \<le> client_refs cs C a"
  by (simp add: client_refs_def sum_nonneg)

lemma client_refs_split:
  "finite C \<Longrightarrow> c \<in> C \<Longrightarrow> client_refs cs C a = int (count_list (ctx_refs (cs c)) a) + client_refs cs (C - {c}) a"
  by (simp add: client_refs_def sum.remove)

lemma client_refs_other: "client_refs (cs(c := ctx)) (C - {c}) a = client_refs cs (C - {c}) a"
  unfolding client_refs_def by (rule sum.cong) auto

text \<open>The references to stored messages from outside a client.\<close>

definition outside_refs :: "nat set \<Rightarrow> (nat \<Rightarrow> int) \<Rightarrow> server \<Rightarrow> nat \<Rightarrow> nat \<Rightarrow> int" where
  "outside_refs C R sv c a = client_refs (sv_contexts sv) (C - {c}) a + R a"

lemma client_inv:
  assumes ok: "server_ok C R sv" and c: "c \<in> C"
  shows "broker_inv False (outside_refs C R sv c) (the_client sv c)"
proof -
  have "int (count_list (ctx_refs (sv_contexts sv c)) a) + outside_refs C R sv c a =
      client_refs (sv_contexts sv) C a + R a" "0 \<le> outside_refs C R sv c a" for a
    using ok c by (simp_all add: server_ok_def outside_refs_def client_refs_split [of C c])
  then show ?thesis
    using ok c stores_ok_move [of "ctx_refs (sv_contexts sv c)" "outside_refs C R sv c"]
    by (auto simp: broker_inv_def safe_inv_def server_ok_def client_ok_def the_client_def)
qed

lemma put_client_ok:
  assumes ok: "server_ok C R sv" and c: "c \<in> C" and inv: "broker_inv False (outside_refs C R sv c) bk"
  shows "server_ok C R (put_client c bk sv)"
proof -
  let ?cs = "(sv_contexts sv)(c := bk_ctx bk)"
  have f: "finite C" using ok by (simp add: server_ok_def)
  have "int (count_list (ctx_refs (bk_ctx bk)) a) + outside_refs C R sv c a = client_refs ?cs C a + R a"
    "0 \<le> outside_refs C R sv c a" for a
    using ok by (simp_all add: server_ok_def outside_refs_def client_refs_split [OF f c, of ?cs] client_refs_other)
  then have "stores_ok (\<lambda>a. client_refs ?cs C a + R a) (bk_db bk) []"
    using inv stores_ok_move [of "ctx_refs (bk_ctx bk)" "outside_refs C R sv c"]
    by (auto simp: broker_inv_def safe_inv_def)
  then show ?thesis
    using ok inv by (auto simp: server_ok_def put_client_def client_ok_def broker_inv_def safe_inv_def)
qed

lemma on_client:
  assumes ok: "server_ok C R sv" and c: "c \<in> C"
    and f: "\<And>E. broker_inv False E (the_client sv c) \<Longrightarrow> ends_well False E r"
  shows "\<exists>rc bk. r = Some (rc, bk) \<and> server_ok C R (put_client c bk sv)"
  using f [OF client_inv [OF ok c]] put_client_ok [OF ok c] by (auto simp: ends_well_def)

lemma on_client_dir:
  assumes ok: "server_ok C R sv" and c: "c \<in> C"
    and f: "\<And>E. broker_inv False E (the_client sv c) \<Longrightarrow> runs False E d (the_client sv c) r"
  shows "\<exists>rc bk. r = Some (rc, bk) \<and> server_ok C R (put_client c bk sv) \<and> dir_frame d (the_client sv c) bk"
  using f [OF client_inv [OF ok c]] put_client_ok [OF ok c] by (auto simp: runs_def)

text \<open>A client changed without its messages.\<close>

lemma server_ok_ctx:
  assumes ok: "server_ok C R sv" and "ctx_msgs_in ctx = ctx_msgs_in (sv_contexts sv c)"
    "ctx_msgs_out ctx = ctx_msgs_out (sv_contexts sv c)"
  shows "server_ok C R (sv\<lparr>sv_contexts := (sv_contexts sv)(c := ctx)\<rparr>)"
proof -
  have "ctx_refs (((sv_contexts sv)(c := ctx)) d) = ctx_refs (sv_contexts sv d)" for d
    using assms by (auto simp: ctx_refs_def)
  then have "client_refs ((sv_contexts sv)(c := ctx)) C = client_refs (sv_contexts sv) C"
    by (simp add: client_refs_def [abs_def] del: fun_upd_apply)
  then show ?thesis using assms by (auto simp: server_ok_def client_ok_def)
qed

lemma server_ok_frame:
  "sv_db sv' = sv_db sv \<Longrightarrow> sv_contexts sv' = sv_contexts sv \<Longrightarrow> server_ok C R sv' = server_ok C R sv"
  by (simp add: server_ok_def)

section \<open>References of the broker itself\<close>

lemma server_ok_store: "server_ok C R sv \<Longrightarrow> 0 < R a \<Longrightarrow> store_at (sv_db sv) a \<noteq> None"
  unfolding server_ok_def stores_ok_def
  by (metis add_nonneg_pos client_refs_nonneg less_irrefl)

lemma server_ref_inc:
  assumes ok: "server_ok C R sv" and a: "store_at (sv_db sv) a \<noteq> None"
  shows "\<exists>db. db__msg_store_ref_inc a (sv_db sv) = Some db \<and> server_ok C (R(a := R a + 1)) (sv\<lparr>sv_db := db\<rparr>)"
proof -
  let ?E = "\<lambda>b. client_refs (sv_contexts sv) C b + R b"
  have s: "stores_ok ?E (sv_db sv) []" using ok by (simp add: server_ok_def)
  obtain db where db: "db__msg_store_ref_inc a (sv_db sv) = Some db" "stores_ok ?E db [a]"
    using ref_inc_ok [OF s a] by blast
  have "stores_ok (\<lambda>b. client_refs (sv_contexts sv) C b + (R(a := R a + 1)) b) db []"
    by (rule iffD1 [OF stores_ok_move [of "[a]" ?E] db(2)]) (use ok in \<open>simp_all add: server_ok_def\<close>)
  then show ?thesis using db(1) ok by (auto simp: server_ok_def)
qed

lemma server_ref_dec:
  assumes ok: "server_ok C R sv" and a: "0 < R a"
  shows "\<exists>db. db__msg_store_ref_dec a (sv_db sv) = Some db \<and> server_ok C (R(a := R a - 1)) (sv\<lparr>sv_db := db\<rparr>)"
proof -
  let ?E = "\<lambda>b. client_refs (sv_contexts sv) C b + R b"
  have s: "stores_ok ?E (sv_db sv) []" using ok by (simp add: server_ok_def)
  have p: "0 < ?E a" using a by (simp add: add_nonneg_pos)
  obtain db where db: "db__msg_store_ref_dec a (sv_db sv) = Some db" "stores_ok (?E(a := ?E a - 1)) db []"
    using ref_dec_extern_ok [where E = ?E, OF s p] by blast
  have "?E(a := ?E a - 1) = (\<lambda>b. client_refs (sv_contexts sv) C b + (R(a := R a - 1)) b)" by auto
  then show ?thesis using db ok a by (auto simp: server_ok_def)
qed

end
