(* ===== verification/Node_Visitor.thy ===== *)
theory Node_Visitor
  imports Subs_Search
begin

text \<open>
  The interface between the search of a tree and what is done at the nodes it finds: a
  \<open>process\<close> that returns and keeps an invariant of the tree and the state, at whichever node it
  is called. The search then returns and keeps the invariant as well.
\<close>

lemma visits_exist: "p \<in> set (visits ts h) \<Longrightarrow> data_at (hier_children h) p \<noteq> None"
proof (induction ts arbitrary: h p)
  case Nil
  then show ?case
    by (cases "hash_find ''#'' (hier_children h)") (auto simp: hash_paths_def child_paths_def split: if_splits)
next
  case (Cons t ts)
  have c: "data_at (hier_children h) p \<noteq> None"
    if "p \<in> set (child_paths k (\<lambda>b. visits ts b @ (if ts = [] then [[]] else [])) (hier_children h))" for k
    using that Cons.IH
    by (cases "hash_find k (hier_children h)") (auto simp: child_paths_def data_at_Cons split: if_splits)
  have "data_at (hier_children h) p \<noteq> None" if "p \<in> set (hash_paths (hier_children h))"
    using that
    by (cases "hash_find ''#'' (hier_children h)") (auto simp: hash_paths_def child_paths_def split: if_splits)
  then show ?case using Cons.prems c by auto
qed

lemma forest_ok_add: "forest_ok f \<Longrightarrow> hash_find t f = None \<Longrightarrow> hier_ok h \<Longrightarrow> forest_ok (hash_add t h f)"
  by (auto simp: forest_ok_def hash_add_def hash_find_None)

lemma forest_ok_Nil [simp]: "forest_ok []"
  by (simp add: forest_ok_def)

lemma forest_ok_update: "forest_ok f \<Longrightarrow> forest_ok (update_at p g f)"
proof (induction p g f rule: update_at.induct)
  case (2 t ts g f)
  show ?case
  proof (cases "hash_find t f")
    case None
    then show ?thesis using 2 by simp
  next
    case (Some h)
    have h: "forest_ok (hier_children h)" using forest_ok_find [OF 2(2) Some] by (simp add: hier_ok_iff [symmetric])
    have i: "hier_ok (Hier cs d) = forest_ok cs" for cs d by (simp add: hier_ok_iff del: hier_ok.simps)
    show ?thesis using Some 2 h by (simp add: forest_ok_put i del: hier_ok.simps)
  qed
qed simp

locale node_visitor =
  fixes process :: "'a \<Rightarrow> 's \<Rightarrow> (int \<times> 'a \<times> 's) option"
    and Inv :: "'a forest \<Rightarrow> 's \<Rightarrow> bool"
  assumes visit: "Inv f st \<Longrightarrow> data_at f p = Some d \<Longrightarrow>
    \<exists>rc d' st'. process d st = Some (rc, d', st') \<and> Inv (update_at p (\<lambda>_. d') f) st'"
begin

lemma run_visits_keeps:
  "Inv f st \<Longrightarrow> (\<And>p. p \<in> set ps \<Longrightarrow> data_at f p \<noteq> None) \<Longrightarrow>
   \<exists>r f' st'. run_visits process ps b f st = Some (r, f', st') \<and> Inv f' st'"
proof (induction ps arbitrary: b f st)
  case (Cons p ps)
  obtain d where d: "data_at f p = Some d" using Cons.prems(2) [of p] by auto
  obtain rc d' st' where v: "process d st = Some (rc, d', st')" "Inv (update_at p (\<lambda>_. d') f) st'"
    using visit [OF Cons.prems(1) d] by blast
  have e: "data_at (update_at p (\<lambda>_. d') f) q \<noteq> None" if "q \<in> set ps" for q
    using Cons.prems(2) [of q] that by (auto split: if_splits)
  show ?case using Cons.IH [OF v(2) e] d v by (auto simp del: update_at.simps)
qed simp

lemma search_keeps:
  assumes "Inv (hier_children h) st" and "hier_ok h" and "''+'' \<notin> set ts" "''#'' \<notin> set ts"
  shows "\<exists>rc f st'. sub__search process ts h st = Some (rc, Hier f (hier_data h), st') \<and> Inv f st'"
proof -
  obtain r f st' where r: "run_visits process (visits ts h) False (hier_children h) st = Some (r, f, st')" "Inv f st'"
    using run_visits_keeps [OF assms(1), of "visits ts h" False] visits_exist by blast
  then show ?thesis
    using search_runs_visits [OF assms(2-4), of process st] by (cases r) (auto simp: search_result_def)
qed

end

end
