(* ===== verification/Subs_Table.thy ===== *)
theory Subs_Table
  imports Subs_Ops
begin

text \<open>
  What subscribing means to a client: a table of subscriptions, indexed by the client, the path
  of the filter and the name of the shared subscription. The tree with its lists, its pruning
  and its arrays of pointers implements that table: \<open>sub__add\<close> is an update, \<open>sub__remove\<close> a
  deletion at one key.
\<close>

section \<open>The table\<close>

definition leafs_at :: "subs_data \<Rightarrow> string option \<Rightarrow> mosquitto__subleaf list" where
  "leafs_at d sharename =
     (case sharename of
        None \<Rightarrow> sd_subs d
      | Some n \<Rightarrow> (case hash_find n (sd_shared d) of None \<Rightarrow> [] | Some ls \<Rightarrow> ls))"

definition leaf_of :: "nat \<Rightarrow> mosquitto__subleaf list \<Rightarrow> mosquitto__subleaf option" where
  "leaf_of c ls = find (\<lambda>l. sl_context l = c) ls"

definition sub_table :: "server \<Rightarrow> nat \<Rightarrow> string list \<times> string option \<Rightarrow> mosquitto__subleaf option" where
  "sub_table sv c k = leaf_of c (leafs_at (view (sv_subs sv) (fst k)) (snd k))"

text \<open>
  The entry after a subscription: a new one, or the old one with its qos and identifier
  replaced. The options of the old one stay.
\<close>

definition subscribed :: "nat \<Rightarrow> nat \<Rightarrow> u32 \<Rightarrow> u8 \<Rightarrow> mosquitto__subleaf option \<Rightarrow> mosquitto__subleaf" where
  "subscribed c qos identifier options old =
     (case old of
        Some l \<Rightarrow> l\<lparr>sl_qos := qos, sl_identifier := identifier\<rparr>
      | None \<Rightarrow> \<lparr>sl_context = c, sl_identifier = identifier, sl_qos = qos,
                 sl_no_local = (options AND MQTT_SUB_OPT_NO_LOCAL \<noteq> 0),
                 sl_retain_as_published = (options AND MQTT_SUB_OPT_RETAIN_AS_PUBLISHED \<noteq> 0)\<rparr>)"

lemma leaf_of_simps [simp]:
  "leaf_of c [] = None" "leaf_of c (l # ls) = (if sl_context l = c then Some l else leaf_of c ls)"
  by (simp_all add: leaf_of_def)

lemma leaf_of_append: "leaf_of c (xs @ ys) = (case leaf_of c xs of None \<Rightarrow> leaf_of c ys | Some l \<Rightarrow> Some l)"
  by (induction xs) auto

lemma leaf_of_None: "leaf_of c ls = None \<longleftrightarrow> leafs_of c ls = 0"
  by (induction ls) auto

lemma leaf_of_others: "leaf_of d (others c ls) = (if d = c then None else leaf_of d ls)"
  by (induction ls) auto

lemma leafs_at_no_subs [simp]: "leafs_at no_subs s = []"
  by (simp add: leafs_at_def no_subs_def split: option.split)

section \<open>Lists\<close>

lemma leaf_update_leaf_of:
  assumes "leaf_update cs i q n ls = Some ls'" and "\<And>l. l \<in> set ls \<Longrightarrow> ctx_id (cs (sl_context l)) = Some i \<Longrightarrow> sl_context l = c"
    and "ctx_id (cs c) = Some i"
  shows "\<exists>l. leaf_of c ls = Some l \<and> leaf_of c ls' = Some (l\<lparr>sl_qos := q, sl_identifier := n\<rparr>) \<and>
    (\<forall>d. d \<noteq> c \<longrightarrow> leaf_of d ls' = leaf_of d ls)"
  using assms
proof (induction ls arbitrary: ls')
  case (Cons l ls)
  show ?case
  proof (cases "ctx_id (cs (sl_context l)) = Some i")
    case True
    then have "sl_context l = c" "ls' = l\<lparr>sl_qos := q, sl_identifier := n\<rparr> # ls" using Cons.prems by auto
    then show ?thesis by auto
  next
    case False
    then obtain ls2 where "leaf_update cs i q n ls = Some ls2" "ls' = l # ls2" using Cons.prems(1) by auto
    moreover have "sl_context l \<noteq> c" using False Cons.prems(3) by auto
    ultimately show ?thesis using Cons.IH [of ls2] Cons.prems(2,3) by auto
  qed
qed simp

lemma add_leaf_table:
  assumes r: "sub__add_leaf alloc cs c i q n opts ls = (rc, ls')" and id: "ctx_id (cs c) = Some i"
    and u: "\<And>d. ctx_id (cs d) = Some i \<Longrightarrow> d = c"
  shows "rc > 0 \<and> ls' = ls \<or>
    rc = (if leaf_of c ls = None then 0 else err_code MOSQ_ERR_SUB_EXISTS) \<and>
    (\<forall>d. leaf_of d ls' = (if d = c then Some (subscribed c q n opts (leaf_of c ls)) else leaf_of d ls))"
proof (cases "leaf_update cs i q n ls")
  case None
  then have "leaf_of c ls = None" using leaf_update_None [OF None id] by (simp add: leaf_of_None)
  then show ?thesis using r None
    by (auto simp: sub__add_leaf_def leaf_of_append subscribed_def split: if_splits option.split)
next
  case (Some ls2)
  obtain l where "leaf_of c ls = Some l" "leaf_of c ls2 = Some (l\<lparr>sl_qos := q, sl_identifier := n\<rparr>)"
    "\<And>d. d \<noteq> c \<Longrightarrow> leaf_of d ls2 = leaf_of d ls"
    using leaf_update_leaf_of [OF Some] u id by blast
  then show ?thesis using r Some by (auto simp: sub__add_leaf_def subscribed_def)
qed

lemma leaf_remove_table:
  "leafs_of c ls \<le> 1 \<Longrightarrow> leaf_remove c ls = Some ls' \<Longrightarrow> leaf_of d ls' = (if d = c then None else leaf_of d ls)"
  using leaf_remove_filter [of c ls ls'] leaf_of_others [of d c ls] by simp

section \<open>Subscribing\<close>

text \<open>The lists of a node with those of one key replaced.\<close>

definition puts_leafs :: "string option \<Rightarrow> mosquitto__subleaf list \<Rightarrow> subs_data \<Rightarrow> subs_data \<Rightarrow> bool" where
  "puts_leafs s ls d d' \<longleftrightarrow> (\<forall>t. leafs_at d' t = (if t = s then ls else leafs_at d t))"

lemma puts_leafs_same: "puts_leafs s (leafs_at d s) d d"
  by (simp add: puts_leafs_def)

lemma puts_leafs_normal [simp]: "puts_leafs None ls d (d\<lparr>sd_subs := ls\<rparr>)"
  by (auto simp: puts_leafs_def leafs_at_def split: option.split)

lemma puts_leafs_shared:
  assumes "sh = sd_shared d \<and> hash_find n sh \<noteq> None \<or> sh = hash_add n [] (sd_shared d) \<and> hash_find n (sd_shared d) = None"
  shows "puts_leafs (Some n) ls d (d\<lparr>sd_shared := put_shared n ls sh\<rparr>)"
  using assms by (auto simp: puts_leafs_def leafs_at_def split: option.splits)

lemma add_normal_leafs:
  assumes r: "sub__add_normal alloc c cid q n opts p d sv = (rc, d', sv')"
    and l: "sub__add_leaf alloc (sv_contexts sv) c cid q n opts (leafs_at d None) = (rc0, ls)"
  shows "rc > 0 \<and> d' = d \<or> rc0 \<le> 0 \<and> rc = add_rc (sv_contexts sv c) rc0 \<and> puts_leafs None ls d d'"
  using r l by (auto simp: sub__add_normal_def leafs_at_def Let_def split: if_splits option.splits)

lemma add_shared_leafs:
  assumes r: "sub__add_shared alloc c cid q n opts name p d sv = Some (rc, d', sv')" and ok: "shared_ok (sd_shared d)"
    and l: "sub__add_leaf alloc (sv_contexts sv) c cid q n opts (leafs_at d (Some name)) = (rc0, ls)"
  shows "rc > 0 \<and> puts_leafs (Some name) (leafs_at d (Some name)) d d' \<or>
    rc0 \<le> 0 \<and> rc = add_rc (sv_contexts sv c) rc0 \<and> puts_leafs (Some name) ls d d'"
proof -
  have main: "rc > 0 \<and> puts_leafs (Some name) leafs d d' \<or>
      rc0 \<le> 0 \<and> rc = add_rc (sv_contexts sv c) rc0 \<and> puts_leafs (Some name) ls d d'"
    if a: "add_shared_leaf alloc c cid q n opts name p (d\<lparr>sd_shared := sh\<rparr>) sv leafs = Some (rc, d', sv')"
      and sh: "sh = sd_shared d \<and> hash_find name sh \<noteq> None \<or> sh = hash_add name [] (sd_shared d) \<and> hash_find name (sd_shared d) = None"
      and le: "leafs_at d (Some name) = leafs" for sh leafs
  proof -
    have d': "d' = d\<lparr>sd_shared := put_shared name leafs sh\<rparr> \<and> rc > 0 \<or>
        rc0 \<le> 0 \<and> rc = add_rc (sv_contexts sv c) rc0 \<and> d' = d\<lparr>sd_shared := put_shared name ls sh\<rparr>"
      using a l unfolding le by (auto simp: add_shared_leaf_def Let_def split: if_splits option.splits)
    then show ?thesis using puts_leafs_shared [OF sh] by auto
  qed
  show ?thesis
  proof (cases "hash_find name (sd_shared d)")
    case None
    then have le: "leafs_at d (Some name) = []" by (simp add: leafs_at_def)
    show ?thesis
    proof (cases "alloc sizeof_subshared \<and> alloc (length name + 1)")
      case True
      then have "add_shared_leaf alloc c cid q n opts name p (d\<lparr>sd_shared := hash_add name [] (sd_shared d)\<rparr>) sv [] = Some (rc, d', sv')"
        using r None by (simp add: sub__add_shared_def)
      from main [OF this _ le] show ?thesis using None le by simp
    next
      case False
      then have "rc > 0 \<and> d' = d" using r None by (auto simp: sub__add_shared_def split: if_splits)
      then show ?thesis using puts_leafs_same by auto
    qed
  next
    case (Some leafs)
    then have le: "leafs_at d (Some name) = leafs" by (simp add: leafs_at_def)
    have "add_shared_leaf alloc c cid q n opts name p (d\<lparr>sd_shared := sd_shared d\<rparr>) sv leafs = Some (rc, d', sv')"
      using r Some by (simp add: sub__add_shared_def)
    from main [OF this _ le] show ?thesis using Some le by simp
  qed
qed

lemma add_finish_leafs:
  assumes r: "add_finish alloc c q n opts s p d sv = Some (rc, d', sv')" and id: "ctx_id (sv_contexts sv c) = Some cid"
    and ok: "shared_ok (sd_shared d)"
    and l: "sub__add_leaf alloc (sv_contexts sv) c cid q n opts (leafs_at d s) = (rc0, ls)"
  shows "rc > 0 \<and> puts_leafs s (leafs_at d s) d d' \<or>
    rc0 \<le> 0 \<and> rc = add_rc (sv_contexts sv c) rc0 \<and> puts_leafs s ls d d'"
proof (cases s)
  case None
  then show ?thesis using add_normal_leafs [of alloc c cid q n opts p d sv rc d' sv' rc0 ls] r id l puts_leafs_same [of s d]
    by (auto simp: add_finish_def)
next
  case (Some name)
  then show ?thesis using add_shared_leafs [OF _ ok, of alloc c cid q n opts name p sv rc d' sv' rc0 ls] r id l
    by (simp add: add_finish_def)
qed

text \<open>The table after \<open>sub__add\<close>.\<close>

lemma sub__add_table:
  assumes inv: "subs_inv C sv" and id: "ctx_id (sv_contexts sv c) = Some cid"
    and u: "\<And>d. ctx_id (sv_contexts sv d) = Some cid \<Longrightarrow> d = c"
    and t: "sub__topic_tokenise alloc sub = Inr (cells, s)"
    and r: "sub__add alloc c sub q n opts sv = Some (rc, sv')"
  shows "rc > 0 \<and> sub_table sv' = sub_table sv \<or>
    rc = (if sub_table sv c (path_of cells, s) = None then 0 else add_rc (sv_contexts sv c) (err_code MOSQ_ERR_SUB_EXISTS)) \<and>
    sub_table sv' = (sub_table sv)(c := (sub_table sv c)((path_of cells, s) \<mapsto>
      subscribed c q n opts (sub_table sv c (path_of cells, s))))"
proof -
  let ?p = "path_of cells" and ?v = "view (sv_subs sv)"
  from sub__add_view [OF t r] show ?thesis
  proof
    assume "rc > 0 \<and> view (sv_subs sv') = ?v \<and> sv' = sv\<lparr>sv_subs := sv_subs sv'\<rparr>"
    then show ?thesis by (auto simp: sub_table_def fun_eq_iff)
  next
    assume "\<exists>d sv1. add_finish alloc c q n opts s ?p (?v ?p) sv = Some (rc, d, sv1) \<and>
      view (sv_subs sv') = ?v(?p := d) \<and> sv' = sv1\<lparr>sv_subs := sv_subs sv'\<rparr>"
    then obtain d sv1 where d: "add_finish alloc c q n opts s ?p (?v ?p) sv = Some (rc, d, sv1)"
      "view (sv_subs sv') = ?v(?p := d)" by blast
    obtain rc0 ls where l: "sub__add_leaf alloc (sv_contexts sv) c cid q n opts (leafs_at (?v ?p) s) = (rc0, ls)" by fastforce
    have ok: "shared_ok (sd_shared (?v ?p))" using inv by (simp add: subs_inv_def)
    note lt = add_leaf_table [OF l id u]
    have tab: "sub_table sv' e k = (if k = (?p, s) then leaf_of e ls' else sub_table sv e k)"
      if "puts_leafs s ls' (?v ?p) d" for e k ls'
      using that by (cases k) (auto simp: sub_table_def d(2) puts_leafs_def)
    from add_finish_leafs [OF d(1) id ok l] show ?thesis
    proof
      assume a: "rc > 0 \<and> puts_leafs s (leafs_at (?v ?p) s) (?v ?p) d"
      have "sub_table sv' e k = sub_table sv e k" for e k
        using tab [OF conjunct2 [OF a]] by (simp add: sub_table_def)
      then show ?thesis using a by (simp add: fun_eq_iff)
    next
      assume a: "rc0 \<le> 0 \<and> rc = add_rc (sv_contexts sv c) rc0 \<and> puts_leafs s ls (?v ?p) d"
      have o: "sub_table sv e (?p, s) = leaf_of e (leafs_at (?v ?p) s)" for e by (simp add: sub_table_def)
      have "rc0 = (if leaf_of c (leafs_at (?v ?p) s) = None then 0 else err_code MOSQ_ERR_SUB_EXISTS) \<and>
        (\<forall>e. leaf_of e ls = (if e = c then Some (subscribed c q n opts (leaf_of c (leafs_at (?v ?p) s))) else leaf_of e (leafs_at (?v ?p) s)))"
        using lt a by auto
      then have rc0: "rc0 = (if sub_table sv c (?p, s) = None then 0 else err_code MOSQ_ERR_SUB_EXISTS)"
        and ls: "\<And>e. leaf_of e ls = (if e = c then Some (subscribed c q n opts (sub_table sv c (?p, s))) else sub_table sv e (?p, s))"
        by (simp_all add: o)
      have "sub_table sv' = (sub_table sv)(c := (sub_table sv c)((?p, s) \<mapsto> subscribed c q n opts (sub_table sv c (?p, s))))"
        using tab [of ls] a ls by (auto simp: fun_eq_iff)
      moreover have "rc = (if sub_table sv c (?p, s) = None then 0 else add_rc (sv_contexts sv c) (err_code MOSQ_ERR_SUB_EXISTS))"
        using a rc0 by (auto simp: add_rc_def)
      ultimately show ?thesis by blast
    qed
  qed
qed

section \<open>Unsubscribing\<close>

lemma remove_finish_leafs:
  assumes r: "snd (remove_finish c s p d (sv, st)) = (d', sv', reason')" and one: "leafs_of c (leafs_at d s) \<le> 1"
    and ok: "shared_ok (sd_shared d)"
  shows "(case leaf_remove c (leafs_at d s) of
      None \<Rightarrow> d' = d \<and> reason' = st
    | Some ls \<Rightarrow> puts_leafs s ls d d' \<and> reason' = 0)"
proof (cases s)
  case None
  then show ?thesis using r
    by (auto simp: remove_finish_def sub__remove_normal_def leafs_at_def split: option.splits)
next
  case (Some name)
  show ?thesis
  proof (cases "hash_find name (sd_shared d)")
    case None
    then show ?thesis using r Some by (simp add: remove_finish_def sub__remove_shared_def leafs_at_def)
  next
    case (Some leafs)
    then show ?thesis using r \<open>s = Some name\<close> puts_leafs_shared [of "sd_shared d" d name]
      by (auto simp: remove_finish_def sub__remove_shared_def leafs_at_def split: option.splits)
  qed
qed

lemma refs_leafs_at: "subs_inv C sv \<Longrightarrow> leafs_of c (leafs_at (view (sv_subs sv) p) s) \<le> 1"
  by (cases s) (auto simp: subs_inv_def refs_ok_def leafs_at_def subs_at_def shared_at_def split: option.splits
      dest!: spec [of _ c] spec [of _ "(p, the s)"])

lemma sub__remove_table:
  assumes inv: "subs_inv C sv" and t: "sub__topic_tokenise alloc sub = Inr (cells, s)"
    and r: "sub__remove alloc c sub reason sv = Some (rc, sv', reason')"
  shows "sub_table sv' = (sub_table sv)(c := (sub_table sv c)((path_of cells, s) := None)) \<and>
    (if sub_table sv c (path_of cells, s) \<noteq> None then reason' = 0
     else reason' = reason \<or> reason' = MQTT_RC_NO_SUBSCRIPTION_EXISTED)"
proof -
  let ?p = "path_of cells" and ?v = "view (sv_subs sv)"
  obtain d sv1 st where d: "st = reason \<or> st = MQTT_RC_NO_SUBSCRIPTION_EXISTED"
    "snd (remove_finish c s ?p (?v ?p) (sv, st)) = (d, sv1, reason')" "view (sv_subs sv') = ?v(?p := d)"
    using sub__remove_view [OF t r] by blast
  have one: "leafs_of c (leafs_at (?v ?p) s) \<le> 1" and ok: "shared_ok (sd_shared (?v ?p))"
    using refs_leafs_at [OF inv] inv by (auto simp: subs_inv_def)
  have o: "sub_table sv e (?p, s) = leaf_of e (leafs_at (?v ?p) s)" for e by (simp add: sub_table_def)
  note rl = remove_finish_leafs [OF d(2) one ok]
  show ?thesis
  proof (cases "leaf_remove c (leafs_at (?v ?p) s)")
    case None
    then have e: "leaf_of c (leafs_at (?v ?p) s) = None" by (simp add: leaf_of_None leaf_remove_None)
    have "sub_table sv' = sub_table sv" using rl None by (auto simp: sub_table_def d(3) fun_eq_iff)
    moreover have "sub_table sv = (sub_table sv)(c := (sub_table sv c)((?p, s) := None))"
      using e by (auto simp: fun_eq_iff o)
    ultimately show ?thesis using rl None d(1) e by (auto simp: o)
  next
    case (Some ls)
    then have pl: "puts_leafs s ls (?v ?p) d" "reason' = 0" using rl by auto
    have "sub_table sv c (?p, s) \<noteq> None" using Some by (auto simp: o leaf_of_None leaf_remove_None [symmetric])
    moreover have "sub_table sv' e k = ((sub_table sv)(c := (sub_table sv c)((?p, s) := None))) e k" for e k
      using pl(1) leaf_remove_table [OF one Some, of e] o
      by (cases k) (auto simp: sub_table_def d(3) puts_leafs_def)
    ultimately show ?thesis using pl(2) by (auto simp: fun_eq_iff)
  qed
qed

lemma sub__remove_returns:
  assumes "sub__topic_tokenise alloc sub = Inr (cells, s)" and "tokens_of cells \<noteq> []"
  shows "sub__remove alloc c sub reason sv \<noteq> None"
  using assms by (auto simp: sub__remove_def Let_def split: list.split option.split prod.split)

lemma sub__add_returns:
  assumes "sub__topic_tokenise alloc sub = Inr (cells, s)" and "tokens_of cells \<noteq> []" and al: "\<And>n. alloc n"
  shows "sub__add alloc c sub q n opts sv \<noteq> None"
proof -
  have "add_finish alloc c q n opts s p d sv \<noteq> None" for p d
  proof (cases "ctx_id (sv_contexts sv c)"; cases s)
    fix cid name
    assume "ctx_id (sv_contexts sv c) = Some cid" "s = Some name"
    then show ?thesis
      using al by (auto simp: add_finish_def sub__add_shared_def add_shared_leaf_def Let_def split: option.split prod.split if_split)
  qed (simp_all add: add_finish_def)
  then have "sub__add_context alloc c q n opts root h ts s sv \<noteq> None" for root h ts
    unfolding sub__add_context_eq using add_walk_returns by metis
  then show ?thesis
    using assms by (auto simp: sub__add_def Let_def split: list.split option.split simp del: not_None_eq)
qed

end
