(* ===== verification/Server_Deliver.thy ===== *)
theory Server_Deliver
  imports Server_Inv Node_Visitor Subs_Table "HOL-Library.Multiset"
begin

text \<open>
  Handing a message to the subscribers, for the whole broker: \<open>subs__send\<close> is an insertion into
  the messages of one client, \<open>subs__process\<close> rotates the clients of the shared subscriptions,
  and the search does this at every node it finds.
\<close>

section \<open>Sending to one subscriber\<close>

lemma foldr_max: "x \<in> set xs \<Longrightarrow> x \<le> foldr max xs (0::nat)"
  by (induction xs) auto

lemma new_addr_fresh: "new_addr md \<notin> cm_addr ` set (md_msgs md)"
proof
  assume "new_addr md \<in> cm_addr ` set (md_msgs md)"
  then have "new_addr md \<le> foldr max (map cm_addr (md_inflight md @ md_queued md)) 0"
    by (intro foldr_max) (simp add: md_msgs_def image_Un)
  then show False by (simp add: new_addr_def)
qed

text \<open>A message put into the queue of a client, after its identifier was taken.\<close>

lemma insert_for_client:
  assumes ok: "server_ok C R sv" and c: "c \<in> C" and al: "\<forall>n. alloc n" and st: "store_at (sv_db sv) stored \<noteq> None"
    and q: "qos \<le> 2" and ctx: "ctx_msgs_in ctx = ctx_msgs_in (sv_contexts sv c)" "ctx_msgs_out ctx = ctx_msgs_out (sv_contexts sv c)"
      "identity ctx = identity (sv_contexts sv c)"
  shows "\<exists>rc bk. db__message_insert alloc net (new_addr (ctx_msgs_out ctx)) mid mosq_md_out qos retain stored props update
        \<lparr>bk_db = sv_db sv, bk_ctx = ctx\<rparr> = Some (rc, bk) \<and>
      server_ok C R (sv\<lparr>sv_db := bk_db bk, sv_contexts := (sv_contexts sv)(c := bk_ctx bk)\<rparr>) \<and>
      ctx_msgs_in (bk_ctx bk) = ctx_msgs_in (sv_contexts sv c) \<and> stores_from (sv_db sv) (bk_db bk) \<and>
      identity (bk_ctx bk) = identity (sv_contexts sv c)"
proof -
  let ?sv = "sv\<lparr>sv_contexts := (sv_contexts sv)(c := ctx)\<rparr>"
  have ok': "server_ok C R ?sv" by (rule server_ok_ctx [OF ok ctx(1,2)])
  have cl: "the_client ?sv c = \<lparr>bk_db = sv_db sv, bk_ctx = ctx\<rparr>" by (simp add: the_client_def)
  obtain store where s: "store_at (sv_db sv) stored = Some store" using st by auto
  have "runs False E mosq_md_out (the_client ?sv c) (db__message_insert alloc net (new_addr (ctx_msgs_out ctx)) mid mosq_md_out qos
      retain stored props update (the_client ?sv c))" if "broker_inv False E (the_client ?sv c)" for E
    by (rule insert_ok [OF that, of stored store])
      (use s new_addr_fresh [of "ctx_msgs_out ctx"] q al in \<open>simp_all add: cl\<close>)
  from on_client_dir [OF ok' c this] obtain rc bk where
    "db__message_insert alloc net (new_addr (ctx_msgs_out ctx)) mid mosq_md_out qos retain stored props update
        (the_client ?sv c) = Some (rc, bk)" "server_ok C R (put_client c bk ?sv)" "dir_frame mosq_md_out (the_client ?sv c) bk" by blast
  then show ?thesis using ctx by (auto simp: cl put_client_def dir_frame_def db_frame_def)
qed

lemma mid_generate_msgs [simp]:
  "ctx_msgs_in (snd (mosquitto__mid_generate ctx)) = ctx_msgs_in ctx"
  "ctx_msgs_out (snd (mosquitto__mid_generate ctx)) = ctx_msgs_out ctx"
  "identity (snd (mosquitto__mid_generate ctx)) = identity ctx"
  by (simp_all add: mosquitto__mid_generate_def Let_def)

text \<open>
  Everything but the database and the clients, and of these the topics of the stored messages
  and the incoming messages.
\<close>

definition same_trees :: "server \<Rightarrow> server \<Rightarrow> bool" where
  "same_trees sv sv' \<longleftrightarrow> sv' = sv\<lparr>sv_db := sv_db sv', sv_contexts := sv_contexts sv'\<rparr> \<and>
     stores_from (sv_db sv) (sv_db sv') \<and> (\<forall>d. ctx_msgs_in (sv_contexts sv' d) = ctx_msgs_in (sv_contexts sv d)) \<and>
     (\<forall>d. identity (sv_contexts sv' d) = identity (sv_contexts sv d))"

lemma same_trees_refl [simp]: "same_trees sv sv"
  by (simp add: same_trees_def)

lemma same_trees_trans: "same_trees a b \<Longrightarrow> same_trees b d \<Longrightarrow> same_trees a d"
  unfolding same_trees_def using stores_from_trans
  by (metis (no_types, lifting) server.surjective server.update_convs(1,2))

definition client_step :: "nat set \<Rightarrow> (nat \<Rightarrow> int) \<Rightarrow> server \<Rightarrow> (int \<times> server) option \<Rightarrow> bool" where
  "client_step C R sv r \<longleftrightarrow> (\<exists>rc sv'. r = Some (rc, sv') \<and> server_ok C R sv' \<and> same_trees sv sv')"

lemma send_ok:
  assumes ok: "server_ok C R sv" and c: "sl_context leaf \<in> C" and al: "\<forall>n. alloc n" and st: "0 < R stored"
    and q: "sl_qos leaf \<le> 2"
  shows "client_step C R sv (subs__send acl alloc net leaf topic qos retain stored sv)"
proof -
  let ?c = "sl_context leaf"
  have s: "store_at (sv_db sv) stored \<noteq> None" by (rule server_ok_store [OF ok st])
  then obtain store where store: "store_at (sv_db sv) stored = Some store" by auto
  define mq where "mq = (if cfg_upgrade_outgoing_qos (db_config (sv_db sv)) then sl_qos leaf
      else if qos > sl_qos leaf then sl_qos leaf else qos)"
  have mq: "mq \<le> 2" using q by (simp add: mq_def)
  obtain mid ctx where m: "(if mq \<noteq> 0 then mosquitto__mid_generate (sv_contexts sv ?c) else (0, sv_contexts sv ?c)) = (mid, ctx)"
    by fastforce
  have ctx: "ctx_msgs_in ctx = ctx_msgs_in (sv_contexts sv ?c)" "ctx_msgs_out ctx = ctx_msgs_out (sv_contexts sv ?c)"
    "identity ctx = identity (sv_contexts sv ?c)"
    using m mid_generate_msgs [of "sv_contexts sv ?c"] by (cases "mq = 0"; simp)+
  define props where "props = (if sl_identifier leaf \<noteq> 0 then
      (case mosquitto_property_add_varint alloc (Some []) MQTT_PROP_SUBSCRIPTION_IDENTIFIER (sl_identifier leaf) of
         Inr props \<Rightarrow> props | Inl _ \<Rightarrow> []) else [])"
  obtain rc bk where i: "db__message_insert alloc net (new_addr (ctx_msgs_out ctx)) mid mosq_md_out mq
        (if sl_retain_as_published leaf then retain else False) stored props True \<lparr>bk_db = sv_db sv, bk_ctx = ctx\<rparr> = Some (rc, bk)"
    "server_ok C R (sv\<lparr>sv_db := bk_db bk, sv_contexts := (sv_contexts sv)(?c := bk_ctx bk)\<rparr>)"
    "ctx_msgs_in (bk_ctx bk) = ctx_msgs_in (sv_contexts sv ?c)" "stores_from (sv_db sv) (bk_db bk)"
    "identity (bk_ctx bk) = identity (sv_contexts sv ?c)"
    using insert_for_client [OF ok c al s mq ctx, of net mid "if sl_retain_as_published leaf then retain else False" props True] by blast
  have t: "same_trees sv (sv\<lparr>sv_db := bk_db bk, sv_contexts := (sv_contexts sv)(?c := bk_ctx bk)\<rparr>)"
    using i(3-5) by (simp add: same_trees_def)
  show ?thesis
    unfolding subs__send_def store option.case Let_def mq_def [symmetric] m prod.case props_def [symmetric] i(1)
    using ok i(2) t by (auto simp: client_step_def)
qed

section \<open>The subscribers of a node\<close>

definition leaf_good :: "nat set \<Rightarrow> mosquitto__subleaf \<Rightarrow> bool" where
  "leaf_good C l \<longleftrightarrow> sl_context l \<in> C \<and> sl_qos l \<le> 2"

definition rotated ::
  "(string \<times> mosquitto__subleaf list) list \<Rightarrow> (string \<times> mosquitto__subleaf list) list \<Rightarrow> bool" where
  "rotated sh sh' \<longleftrightarrow> list_all2 (\<lambda>x y. fst y = fst x \<and> mset (snd y) = mset (snd x)) sh sh'"

lemma shared_loop_ok:
  assumes al: "\<forall>n. alloc n" and st: "0 < R stored"
  shows "server_ok C R sv \<Longrightarrow> (\<And>n ls. (n, ls) \<in> set sh \<Longrightarrow> ls \<noteq> [] \<and> (\<forall>l \<in> set ls. leaf_good C l)) \<Longrightarrow>
    \<exists>rc' sh' sv'. subs__shared_loop (\<lambda>leaf. subs__send acl alloc net leaf topic qos retain stored) sh rc sv = Some (rc', sh', sv') \<and>
      server_ok C R sv' \<and> same_trees sv sv' \<and> rotated sh sh'"
proof (induction sh arbitrary: rc sv)
  case Nil
  then show ?case by (simp add: rotated_def)
next
  case (Cons x sh)
  obtain n l ls where x: "x = (n, l # ls)" using Cons.prems(2) [of "fst x" "snd x"] by (cases x; cases "snd x") auto
  have l: "sl_context l \<in> C" "sl_qos l \<le> 2" using Cons.prems(2) [of n "l # ls"] x by (auto simp: leaf_good_def)
  obtain rc2 sv2 where s: "subs__send acl alloc net l topic qos retain stored sv = Some (rc2, sv2)" "server_ok C R sv2"
    "same_trees sv sv2"
    using send_ok [OF Cons.prems(1) l(1) al st l(2)] unfolding client_step_def by blast
  obtain rc' sh' sv' where r: "subs__shared_loop (\<lambda>leaf. subs__send acl alloc net leaf topic qos retain stored) sh
      (if rc2 \<noteq> 0 then 1 else rc) sv2 = Some (rc', sh', sv')" "server_ok C R sv'" "same_trees sv2 sv'" "rotated sh sh'"
    using Cons.IH [OF s(2)] Cons.prems(2) by (metis list.set_intros(2))
  then show ?case using s x same_trees_trans [OF s(3) r(3)] by (auto simp: rotated_def)
qed

lemma leaf_loop_ok:
  assumes al: "\<forall>n. alloc n" and st: "0 < R stored"
  shows "server_ok C R sv \<Longrightarrow> (\<And>l. l \<in> set ls \<Longrightarrow> leaf_good C l) \<Longrightarrow>
    client_step C R sv (subs__leaf_loop (\<lambda>leaf. subs__send acl alloc net leaf topic qos retain stored) source_id ls rc sv)"
proof (induction ls arbitrary: rc sv)
  case Nil
  then show ?case by (simp add: client_step_def)
next
  case (Cons l ls)
  have l: "sl_context l \<in> C" "sl_qos l \<le> 2" using Cons.prems(2) [of l] by (auto simp: leaf_good_def)
  obtain rc2 sv2 where s: "subs__send acl alloc net l topic qos retain stored sv = Some (rc2, sv2)" "server_ok C R sv2"
    "same_trees sv sv2"
    using send_ok [OF Cons.prems(1) l(1) al st l(2)] unfolding client_step_def by blast
  have a: "client_step C R sv (subs__leaf_loop (\<lambda>leaf. subs__send acl alloc net leaf topic qos retain stored) source_id ls rc sv)" for rc
    using Cons.IH [OF Cons.prems(1)] Cons.prems(2) by simp
  have "client_step C R sv2 (subs__leaf_loop (\<lambda>leaf. subs__send acl alloc net leaf topic qos retain stored) source_id ls rc sv2)" for rc
    using Cons.IH [OF s(2)] Cons.prems(2) by simp
  then have b: "client_step C R sv (subs__leaf_loop (\<lambda>leaf. subs__send acl alloc net leaf topic qos retain stored) source_id ls rc sv2)" for rc
    using s(3) same_trees_trans unfolding client_step_def by blast
  show ?case using a b s(1) by (auto split: option.split)
qed

lemma process_ok:
  assumes ok: "server_ok C R sv" and al: "\<forall>n. alloc n" and st: "0 < R stored"
    and sh: "\<And>n ls. (n, ls) \<in> set (sd_shared d) \<Longrightarrow> ls \<noteq> [] \<and> (\<forall>l \<in> set ls. leaf_good C l)"
    and ls: "\<And>l. l \<in> set (sd_subs d) \<Longrightarrow> leaf_good C l"
  shows "\<exists>rc shareds sv'. subs__process (\<lambda>leaf. subs__send acl alloc net leaf topic qos retain stored) source_id d sv =
      Some (rc, d\<lparr>sd_shared := shareds\<rparr>, sv') \<and> server_ok C R sv' \<and> same_trees sv sv' \<and> rotated (sd_shared d) shareds"
proof -
  let ?send = "\<lambda>leaf. subs__send acl alloc net leaf topic qos retain stored"
  obtain rc1 shareds sv1 where 1: "subs__shared_loop ?send (sd_shared d) 0 sv = Some (rc1, shareds, sv1)" "server_ok C R sv1"
    "same_trees sv sv1" "rotated (sd_shared d) shareds"
    using shared_loop_ok [OF al st ok, of "sd_shared d"] sh by blast
  have "client_step C R sv1 (case source_id of None \<Rightarrow> Some (rc1, sv1) | Some s \<Rightarrow> subs__leaf_loop ?send s (sd_subs d) rc1 sv1)"
    using leaf_loop_ok [OF al st 1(2), of "sd_subs d"] ls 1(2) by (cases source_id) (auto simp: client_step_def)
  then obtain rc2 sv2 where 2: "(case source_id of None \<Rightarrow> Some (rc1, sv1) | Some s \<Rightarrow> subs__leaf_loop ?send s (sd_subs d) rc1 sv1) = Some (rc2, sv2)"
    "server_ok C R sv2" "same_trees sv1 sv2" unfolding client_step_def by blast
  show ?thesis
    using 1 2 same_trees_trans [OF 1(3) 2(3)] by (auto simp: subs__process_def)
qed

section \<open>The tree after a rotation\<close>

lemma rotated_find:
  "rotated sh sh' \<Longrightarrow> (case hash_find n sh of
     None \<Rightarrow> hash_find n sh' = None
   | Some ls \<Rightarrow> \<exists>ls'. hash_find n sh' = Some ls' \<and> mset ls' = mset ls)"
proof (induction sh arbitrary: sh')
  case (Cons x sh)
  then obtain y sh2 where "sh' = y # sh2" "fst y = fst x" "mset (snd y) = mset (snd x)" "rotated sh sh2"
    by (auto simp: rotated_def list_all2_Cons1)
  then show ?case using Cons.IH [of sh2] by (cases x; cases y) (auto simp: hash_find_def split: option.splits)
qed (simp add: rotated_def hash_find_def)

lemma leafs_of_mset: "mset xs = mset ys \<Longrightarrow> leafs_of c xs = leafs_of c ys"
  by (metis leafs_of_def mset_filter size_mset)

lemma rotated_leafs:
  assumes "rotated (sd_shared d) sh"
  shows "mset (leafs_at (d\<lparr>sd_shared := sh\<rparr>) s) = mset (leafs_at d s)"
  using rotated_find [OF assms, of "the s"] by (cases s) (auto simp: leafs_at_def split: option.splits)

lemma rotated_ok: "rotated sh sh' \<Longrightarrow> shared_ok sh \<Longrightarrow> shared_ok sh'"
proof -
  assume r: "rotated sh sh'" and ok: "shared_ok sh"
  have "map fst sh' = map fst sh" using r by (induction sh arbitrary: sh') (auto simp: rotated_def list_all2_Cons1)
  moreover have "\<forall>y \<in> set sh'. snd y \<noteq> []"
  proof
    fix y assume y: "y \<in> set sh'"
    obtain i where i: "i < length sh'" "y = sh' ! i" using y by (auto simp: in_set_conv_nth)
    then have "i < length sh" "mset (snd y) = mset (snd (sh ! i))" using r by (auto simp: rotated_def list_all2_conv_all_nth)
    then show "snd y \<noteq> []" using ok nth_mem [of i sh] by (auto simp: shared_ok_def split_beta)
  qed
  ultimately show ?thesis using ok by (simp add: shared_ok_def split_beta)
qed

lemma subs_inv_rotated:
  assumes inv: "subs_inv C sv" and v: "view f = (view (sv_subs sv))(p := (view (sv_subs sv) p)\<lparr>sd_shared := sh\<rparr>)"
    and r: "rotated (sd_shared (view (sv_subs sv) p)) sh"
  shows "subs_inv C (sv\<lparr>sv_subs := f\<rparr>)"
proof -
  have 1: "subs_at f = subs_at (sv_subs sv)" by (auto simp: subs_at_def v)
  have at: "shared_at g (q, n) = leafs_at (view g q) (Some n)" for g q n by (simp add: shared_at_def leafs_at_def)
  have "leafs_of c (shared_at f (q, n)) = leafs_of c (shared_at (sv_subs sv) (q, n))" for c q n
    unfolding at v using leafs_of_mset [OF rotated_leafs [OF r, of "Some n"], of c] by simp
  then have 2: "leafs_of c (shared_at f k) = leafs_of c (shared_at (sv_subs sv) k)" for c k by (cases k) auto
  have 3: "shared_ok (sd_shared (view f q))" for q
    using inv rotated_ok [OF r] by (auto simp: subs_inv_def v)
  show ?thesis using inv 3 by (simp add: subs_inv_def 1 refs_ok_def 2)
qed

section \<open>The search delivers\<close>

definition tree_inv :: "nat set \<Rightarrow> server \<Rightarrow> bool" where
  "tree_inv C sv \<longleftrightarrow> subs_inv C sv \<and> forest_ok (sv_subs sv) \<and>
     (\<forall>p s l. l \<in> set (leafs_at (view (sv_subs sv) p) s) \<longrightarrow> sl_qos l \<le> 2)"

lemma leaf_client:
  assumes inv: "subs_inv C sv" and l: "l \<in> set (leafs_at (view (sv_subs sv) p) s)"
  shows "sl_context l \<in> C"
proof (rule ccontr)
  assume "sl_context l \<notin> C"
  then have "sv_sub_refs sv (sl_context l) = []" "sv_shared_refs sv (sl_context l) = []"
    using inv by (auto simp: subs_inv_def cells_ok_def)
  then have "leafs_of (sl_context l) (leafs_at (view (sv_subs sv) p) s) = 0"
    using inv by (cases s) (auto simp: subs_inv_def refs_ok_def leafs_at_def subs_at_def shared_at_def
        split: option.splits dest!: spec [of _ "sl_context l"] spec [of _ "(p, the s)"])
  then show False using l by (auto simp: leafs_of_def filter_empty_conv)
qed

lemma tree_inv_good:
  assumes "tree_inv C sv" and "l \<in> set (leafs_at (view (sv_subs sv) p) s)"
  shows "leaf_good C l"
  using assms leaf_client by (auto simp: tree_inv_def leaf_good_def)

definition deliver_inv :: "(nat \<Rightarrow> bool) \<Rightarrow> nat set \<Rightarrow> (nat \<Rightarrow> int) \<Rightarrow> nat \<Rightarrow> string \<Rightarrow> server \<Rightarrow>
   subs_data forest \<Rightarrow> server \<Rightarrow> bool" where
  "deliver_inv alloc C R stored root sv0 f sv \<longleftrightarrow> (\<forall>n. alloc n) \<and> 0 < R stored \<and> server_ok C R sv \<and> same_trees sv0 sv \<and>
     (\<exists>h. hash_find root (sv_subs sv) = Some h \<and>
        tree_inv C (sv\<lparr>sv_subs := hash_put root (Hier f (hier_data h)) (sv_subs sv)\<rparr>))"

lemma same_trees_put: "same_trees sv sv' \<Longrightarrow> sv'\<lparr>sv_subs := f\<rparr> = (sv\<lparr>sv_subs := f\<rparr>)\<lparr>sv_db := sv_db sv', sv_contexts := sv_contexts sv'\<rparr>"
  unfolding same_trees_def by (metis (no_types, lifting) server.surjective server.update_convs(1,2,3))

lemma tree_inv_frame: "same_trees sv sv' \<Longrightarrow> tree_inv C (sv'\<lparr>sv_subs := f\<rparr>) \<longleftrightarrow> tree_inv C (sv\<lparr>sv_subs := f\<rparr>)"
  unfolding same_trees_put by (simp add: tree_inv_def subs_inv_def)

interpretation delivery: node_visitor
    "subs__process (\<lambda>leaf. subs__send acl alloc net leaf topic qos retain stored) source_id"
    "deliver_inv alloc C R stored root sv0"
  for acl alloc net topic qos retain stored source_id C R root sv0
proof
  fix f sv p d
  assume i: "deliver_inv alloc C R stored root sv0 f sv" and d: "data_at f p = Some d"
  then obtain h where al: "\<forall>n. alloc n" and st: "0 < R stored" and ok: "server_ok C R sv" and h: "hash_find root (sv_subs sv) = Some h"
    and s0: "same_trees sv0 sv" and t: "tree_inv C (sv\<lparr>sv_subs := hash_put root (Hier f (hier_data h)) (sv_subs sv)\<rparr>)"
    by (auto simp: deliver_inv_def)
  let ?F = "\<lambda>f. hash_put root (Hier f (hier_data h)) (sv_subs sv)"
  have p: "p \<noteq> []" using d by auto
  have v: "view (?F g) (u # us) = (if u = root then (if us = [] then hier_data h else view g us) else view (sv_subs sv) (u # us))" for g u us
    using h by (auto simp: view_Cons below_def)
  have vd: "view (?F f) (root # p) = d" using p d by (simp only: v if_True refl if_False) (simp add: view_def)
  have good: "leaf_good C l" if "l \<in> set (leafs_at d s)" for l s
    using tree_inv_good [OF t, of l "root # p" s] that vd by simp
  have sok: "shared_ok (sd_shared d)" using t vd by (metis server.select_convs(3) server.surjective server.update_convs(3) subs_inv_def tree_inv_def)
  have sh: "ls \<noteq> [] \<and> (\<forall>l \<in> set ls. leaf_good C l)" if "(n, ls) \<in> set (sd_shared d)" for n ls
  proof -
    have "hash_find n (sd_shared d) = Some ls" using that sok by (simp add: hash_find_def shared_ok_def)
    then show ?thesis using good [of _ "Some n"] sok that by (auto simp: leafs_at_def shared_ok_def)
  qed
  have sb: "leaf_good C l" if "l \<in> set (sd_subs d)" for l using good [of l None] that by (simp add: leafs_at_def)
  obtain rc shareds sv' where r: "subs__process (\<lambda>leaf. subs__send acl alloc net leaf topic qos retain stored) source_id d sv =
      Some (rc, d\<lparr>sd_shared := shareds\<rparr>, sv')" "server_ok C R sv'" "same_trees sv sv'" "rotated (sd_shared d) shareds"
    using process_ok [OF ok al st, of d] sh sb by blast
  let ?f = "update_at p (\<lambda>_. d\<lparr>sd_shared := shareds\<rparr>) f"
  have subs: "sv_subs sv' = sv_subs sv" using r(3) unfolding same_trees_def by (metis server.ext_inject server.surjective server.update_convs(1,2))
  have n: "node_at p f \<noteq> None" using d by (auto simp: data_at_def)
  have vf: "view ?f = (view f)(p := d\<lparr>sd_shared := shareds\<rparr>)" using view_update [OF n] by simp
  have vF: "view (?F ?f) = (view (?F f))(root # p := d\<lparr>sd_shared := shareds\<rparr>)"
  proof
    fix q show "view (?F ?f) q = ((view (?F f))(root # p := d\<lparr>sd_shared := shareds\<rparr>)) q"
      using p by (cases q) (auto simp: v vf)
  qed
  have F: "forest_ok (?F f)" using t by (simp add: tree_inv_def)
  have "hash_find root (?F f) = Some (Hier f (hier_data h))" using h by simp
  from forest_ok_find [OF F this] have fo: "forest_ok f" by (simp add: hier_ok_iff del: hier_ok.simps)
  have "forest_ok (hash_put root (Hier ?f (hier_data h)) (?F f))"
    by (rule forest_ok_put [OF F]) (simp add: hier_ok_iff forest_ok_update [OF fo] del: hier_ok.simps)
  then have F': "forest_ok (?F ?f)" by simp
  have i': "subs_inv C (sv\<lparr>sv_subs := ?F ?f\<rparr>)"
    using subs_inv_rotated [of C "sv\<lparr>sv_subs := ?F f\<rparr>" "?F ?f" "root # p" shareds] t vF r(4)
    by (simp add: tree_inv_def vd)
  have "sl_qos l \<le> 2" if "l \<in> set (leafs_at (view (?F ?f) q) s)" for q s l
  proof -
    have "mset (leafs_at (view (?F ?f) q) s) = mset (leafs_at (view (?F f) q) s)"
      using rotated_leafs [OF r(4), of s] by (auto simp: vF vd)
    then have "l \<in> set (leafs_at (view (?F f) q) s)" using that by (metis set_mset_mset)
    then show ?thesis using t by (auto simp: tree_inv_def)
  qed
  then have "tree_inv C (sv\<lparr>sv_subs := ?F ?f\<rparr>)" using i' F' by (simp add: tree_inv_def)
  then have "deliver_inv alloc C R stored root sv0 ?f sv'"
    unfolding deliver_inv_def subs using al st r(2) h tree_inv_frame [OF r(3)] same_trees_trans [OF s0 r(3)] by auto
  then show "\<exists>rc d' sv'. subs__process (\<lambda>leaf. subs__send acl alloc net leaf topic qos retain stored) source_id d sv = Some (rc, d', sv') \<and>
      deliver_inv alloc C R stored root sv0 (update_at p (\<lambda>_. d') f) sv'"
    using r(1) by blast
qed

end
