(* ===== verification/Server_Trees.thy ===== *)
theory Server_Trees
  imports Server_Deliver
begin

text \<open>
  Subscribing and unsubscribing in the broker: besides \<open>subs_inv\<close> they keep the hash tables free
  of double keys and the qos of every subscription below 3, and leave the stored messages, the
  clients and the retained messages alone.
\<close>

section \<open>Double keys\<close>

lemma forest_ok_hash_delete: "forest_ok f \<Longrightarrow> forest_ok (hash_delete t f)"
  by (auto simp: forest_ok_def hash_delete_def distinct_map_filter)

lemma hier_ok_Hier [simp]: "hier_ok (Hier f d) = forest_ok f"
  by (simp add: forest_ok_def)

declare hier_ok.simps [simp del]

lemma forest_ok_delete_at: "forest_ok f \<Longrightarrow> forest_ok (delete_at p f)"
proof (induction p f rule: delete_at.induct)
  case (2 t ts f)
  have "forest_ok (hier_children h)" if "hash_find t f = Some h" for h
    using forest_ok_find [OF 2(2) that] by (simp add: hier_ok_iff)
  then show ?case using 2 by (auto simp: forest_ok_hash_delete forest_ok_put split: option.split)
qed simp

lemma add_walk_hier_ok:
  "hier_ok h \<Longrightarrow> add_walk alloc finish path ts h sv = Some (rc, h', sv') \<Longrightarrow> hier_ok h'"
proof (induction ts arbitrary: path h h')
  case Nil
  then show ?case by (auto simp: on_data_def hier_ok_iff)
next
  case (Cons t ts)
  have f: "forest_ok (hier_children h)" using Cons.prems(1) by (simp add: hier_ok_iff)
  define cb where "cb = (case hash_find t (hier_children h) of
      Some branch \<Rightarrow> Some (hier_children h, branch)
    | None \<Rightarrow> map_option (\<lambda>cs. (cs, Hier [] no_subs)) (sub__add_hier_entry alloc (hier_children h) t))"
  show ?case
  proof (cases "length t > 65535 \<or> cb = None")
    case True
    then show ?thesis using Cons.prems by (auto simp: cb_def [symmetric] split: if_splits)
  next
    case False
    then obtain children branch where cb: "cb = Some (children, branch)" by auto
    have ok: "forest_ok children" "hier_ok branch"
      using cb f forest_ok_find [OF f] forest_ok_add [OF f]
      by (auto simp: cb_def sub__add_hier_entry_def split: option.splits if_splits)
    obtain branch' where w: "add_walk alloc finish (path @ [t]) ts branch sv = Some (rc, branch', sv')"
      and h': "h' = Hier (hash_put t branch' children) (hier_data h)"
      using Cons.prems False cb by (auto simp: cb_def [symmetric])
    show ?thesis using forest_ok_put [OF ok(1) Cons.IH [OF ok(2) w]] by (simp add: h')
  qed
qed

lemma remove_recurse_hier_ok:
  "hier_ok h \<Longrightarrow> sub__remove_recurse remove path ts h st = (rc, h', st') \<Longrightarrow> hier_ok h'"
proof (induction ts arbitrary: path h h' st st' rc)
  case Nil
  then show ?case by (auto simp: hier_ok_iff split: prod.splits)
next
  case (Cons t ts)
  have f: "forest_ok (hier_children h)" using Cons.prems(1) by (simp add: hier_ok_iff)
  show ?case
  proof (cases "hash_find t (hier_children h)")
    case None
    then show ?thesis using Cons.prems by simp
  next
    case (Some b)
    obtain rc1 b' st1 where r: "sub__remove_recurse remove (path @ [t]) ts b st = (rc1, b', st1)"
      by (cases "sub__remove_recurse remove (path @ [t]) ts b st") auto
    have "hier_ok b'" by (rule Cons.IH [OF forest_ok_find [OF f Some] r])
    then show ?thesis using Some r Cons.prems(2) f
      by (auto simp: forest_ok_put forest_ok_hash_delete split: if_splits)
  qed
qed

lemma remove_chain_forest_ok: "remove_chain p f = Some f' \<Longrightarrow> forest_ok f \<Longrightarrow> forest_ok f'"
proof (induction p f arbitrary: f' rule: remove_chain.induct)
  case (1 p f)
  have "forest_ok g" if "tmp_remove_subs p f = Some (q, g)" for q g
    using that 1(3) by (auto simp: tmp_remove_subs_def Let_def forest_ok_delete_at split: option.splits if_splits)
  then show ?case
    using 1 by (auto simp: remove_chain.simps [of p f] split: option.splits)
qed

lemma prune_forest_ok: "prune p f = Some f' \<Longrightarrow> forest_ok f \<Longrightarrow> forest_ok f'"
  by (auto simp: prune_def split: option.splits if_splits dest: remove_chain_forest_ok)

text \<open>The trees but nothing else: what the operations on subscriptions change.\<close>

definition subs_step :: "server \<Rightarrow> server \<Rightarrow> bool" where
  "subs_step sv sv' \<longleftrightarrow> sv_db sv' = sv_db sv \<and> sv_contexts sv' = sv_contexts sv \<and> sv_retains sv' = sv_retains sv \<and>
     sv_retained_count sv' = sv_retained_count sv \<and> (forest_ok (sv_subs sv) \<longrightarrow> forest_ok (sv_subs sv'))"

lemma subs_step_refl [simp]: "subs_step sv sv"
  by (simp add: subs_step_def)

lemma subs_step_trans: "subs_step a b \<Longrightarrow> subs_step b d \<Longrightarrow> subs_step a d"
  by (simp add: subs_step_def)

section \<open>Subscribing\<close>

lemma add_normal_frame:
  "sub__add_normal alloc c cid q n opts p d sv = (rc, d', sv') \<Longrightarrow> sv_subs sv' = sv_subs sv \<and> subs_step sv sv'"
  by (auto simp: sub__add_normal_def subs_step_def Let_def split: prod.splits if_splits option.splits)

lemma add_shared_frame:
  "sub__add_shared alloc c cid q n opts name p d sv = Some (rc, d', sv') \<Longrightarrow> sv_subs sv' = sv_subs sv \<and> subs_step sv sv'"
  by (auto simp: sub__add_shared_def add_shared_leaf_def subs_step_def Let_def split: prod.splits if_splits option.splits)

lemma add_walk_frame:
  assumes f: "\<And>p d sv rc d' sv'. finish p d sv = Some (rc, d', sv') \<Longrightarrow> sv_subs sv' = sv_subs sv \<and> subs_step sv sv'"
  shows "add_walk alloc finish path ts h sv = Some (rc, h', sv') \<Longrightarrow> sv_subs sv' = sv_subs sv \<and> subs_step sv sv'"
proof (induction ts arbitrary: path h h')
  case Nil
  then show ?case using f by (auto simp: on_data_def)
next
  case (Cons t ts)
  then show ?case by (auto split: option.splits if_splits prod.splits)
qed

lemma sub__add_step:
  assumes "sub__add alloc c sub q n opts sv = Some (rc, sv')"
  shows "subs_step sv sv'"
proof (cases "sub__topic_tokenise alloc sub")
  case (Inl e)
  then show ?thesis using assms by (cases e) (auto simp: sub__add_def)
next
  case (Inr x)
  obtain cells s where t: "sub__topic_tokenise alloc sub = Inr (cells, s)" using Inr by (cases x) auto
  obtain root ts where ts: "tokens_of cells = root # ts" using assms t by (cases "tokens_of cells") (auto simp: sub__add_def)
  define fh where "fh = (case hash_find root (sv_subs sv) of
      Some h \<Rightarrow> Some (sv_subs sv, h)
    | None \<Rightarrow> map_option (\<lambda>f. (f, Hier [] no_subs)) (sub__add_hier_entry alloc (sv_subs sv) root))"
  show ?thesis
  proof (cases "length root > 65535 \<or> fh = None")
    case True
    then show ?thesis using assms t by (auto simp: sub__add_def ts fh_def [symmetric] split: if_splits)
  next
    case False
    then obtain f h where fh: "fh = Some (f, h)" by auto
    obtain h' sv1 where w: "sub__add_context alloc c q n opts root h (tokens_of cells) s sv = Some (rc, h', sv1)"
      and sv': "sv' = sv1\<lparr>sv_subs := hash_put root h' f\<rparr>"
      using assms t False fh by (auto simp: sub__add_def ts fh_def [symmetric])
    have ok: "forest_ok f \<and> hier_ok h" if o: "forest_ok (sv_subs sv)"
      using fh o forest_ok_find [OF o] forest_ok_add [OF o]
      by (auto simp: fh_def sub__add_hier_entry_def split: option.splits if_splits)
    have "finish p d sv = Some (rc, d', sv') \<Longrightarrow> finish = add_finish alloc c q n opts s \<Longrightarrow>
        sv_subs sv' = sv_subs sv \<and> subs_step sv sv'" for finish p d sv rc d' sv'
      using add_normal_frame add_shared_frame
      by (auto simp: add_finish_def split: option.splits)
    from add_walk_frame [OF this [OF _ refl] w [unfolded sub__add_context_eq]] have "subs_step sv sv1" by simp
    then show ?thesis
      using add_walk_hier_ok [OF _ w [unfolded sub__add_context_eq]] ok by (auto simp: subs_step_def sv' forest_ok_put)
  qed
qed

section \<open>Unsubscribing and the end of a session\<close>

lemma remove_finish_frame:
  "remove_finish c s p d (sv, reason) = (rc, d', sv', reason') \<Longrightarrow> sv_subs sv' = sv_subs sv \<and> subs_step sv sv'"
  by (auto simp: remove_finish_def sub__remove_normal_def sub__remove_shared_def subs_step_def split: option.splits)

lemma remove_recurse_frame:
  "sub__remove_recurse (remove_finish c s) path ts h (sv, reason) = (rc, h', sv', reason') \<Longrightarrow>
   sv_subs sv' = sv_subs sv \<and> subs_step sv sv'"
proof (induction ts arbitrary: path h h' rc)
  case Nil
  then show ?case by (auto dest: remove_finish_frame split: prod.splits)
next
  case (Cons t ts)
  then show ?case by (auto split: option.splits prod.splits if_splits)
qed

lemma sub__remove_step:
  assumes "sub__remove alloc c sub reason sv = Some (rc, sv', reason')"
  shows "subs_step sv sv'"
proof (cases "sub__topic_tokenise alloc sub")
  case (Inl e)
  then show ?thesis using assms by (cases e) (auto simp: sub__remove_def)
next
  case (Inr x)
  obtain cells s where t: "sub__topic_tokenise alloc sub = Inr (cells, s)" using Inr by (cases x) auto
  obtain root ts where ts: "tokens_of cells = root # ts" using assms t by (cases "tokens_of cells") (auto simp: sub__remove_def)
  show ?thesis
  proof (cases "hash_find root (sv_subs sv)")
    case None
    then show ?thesis using assms t by (simp add: sub__remove_def ts)
  next
    case (Some h)
    obtain rc0 h' sv1 r1 where rr: "sub__remove_recurse (remove_finish c s) [root] (tokens_of cells) h (sv, MQTT_RC_NO_SUBSCRIPTION_EXISTED) =
        (rc0, h', sv1, r1)"
      by (cases "sub__remove_recurse (remove_finish c s) [root] (tokens_of cells) h (sv, MQTT_RC_NO_SUBSCRIPTION_EXISTED)") auto
    have f: "sv_subs sv1 = sv_subs sv" "subs_step sv sv1" using remove_recurse_frame [OF rr] by auto
    have "sv' = sv1\<lparr>sv_subs := hash_put root h' (sv_subs sv)\<rparr>"
      using assms t rr Some f(1) by (auto simp: sub__remove_def ts remove_finish_def Let_def split: prod.splits)
    then show ?thesis
      using f(2) remove_recurse_hier_ok [OF forest_ok_find [OF _ Some] rr] by (auto simp: subs_step_def forest_ok_put)
  qed
qed

lemma clean_subs_step: "clean_subs_loop c cs sv = Some sv' \<Longrightarrow> subs_step sv sv'"
proof (induction c cs sv rule: clean_subs_loop.induct)
  case (3 c p cs sv)
  obtain h where h: "node_at p (sv_subs sv) = Some h" using 3(2) by (auto split: option.splits)
  define sv1 where "sv1 = (case leaf_remove c (sd_subs (hier_data h)) of
                      None \<Rightarrow> sv
                    | Some leafs \<Rightarrow>
                        sv\<lparr>sv_subs := update_at p (\<lambda>d. d\<lparr>sd_subs := leafs\<rparr>) (sv_subs sv),
                           sv_subscription_count := sv_subscription_count sv - 1\<rparr>)"
  obtain f where f: "prune p (sv_subs sv1) = Some f" "clean_subs_loop c cs (sv1\<lparr>sv_subs := f\<rparr>) = Some sv'"
    using 3(2) by (auto simp: h sv1_def [symmetric] Let_def split: option.splits)
  have "subs_step (sv1\<lparr>sv_subs := f\<rparr>) sv'" using 3(1) [OF h sv1_def f(1) f(2)] .
  moreover have "subs_step sv (sv1\<lparr>sv_subs := f\<rparr>)"
    using prune_forest_ok [OF f(1)] by (auto simp: subs_step_def sv1_def forest_ok_update split: option.splits)
  ultimately show ?case using subs_step_trans by blast
qed auto

lemma clean_shared_step: "clean_shared_loop c cs sv = Some sv' \<Longrightarrow> subs_step sv sv'"
proof (induction c cs sv rule: clean_shared_loop.induct)
  case (3 c p n cs sv)
  obtain h where h: "node_at p (sv_subs sv) = Some h" using 3(2) by (auto split: option.splits)
  obtain ls where ls: "hash_find n (sd_shared (hier_data h)) = Some ls" using 3(2) h by (auto split: option.splits)
  define sv1 where "sv1 = (case leaf_remove c ls of
                           None \<Rightarrow> sv
                         | Some leafs \<Rightarrow>
                             sv\<lparr>sv_subs := update_at p (\<lambda>d. d\<lparr>sd_shared := put_shared n leafs (sd_shared d)\<rparr>) (sv_subs sv),
                                sv_shared_subscription_count := sv_shared_subscription_count sv - 1\<rparr>)"
  obtain f where f: "prune p (sv_subs sv1) = Some f" "clean_shared_loop c cs (sv1\<lparr>sv_subs := f\<rparr>) = Some sv'"
    using 3(2) by (auto simp: h ls sv1_def [symmetric] Let_def split: option.splits)
  have "subs_step (sv1\<lparr>sv_subs := f\<rparr>) sv'" using 3(1) [OF h ls sv1_def f(1) f(2)] .
  moreover have "subs_step sv (sv1\<lparr>sv_subs := f\<rparr>)"
    using prune_forest_ok [OF f(1)] by (auto simp: subs_step_def sv1_def forest_ok_update split: option.splits)
  ultimately show ?case using subs_step_trans by blast
qed auto

lemma clean_session_step: "sub__clean_session c sv = Some (rc, sv') \<Longrightarrow> subs_step sv sv'"
proof -
  assume "sub__clean_session c sv = Some (rc, sv')"
  then obtain sv1 sv2 where s: "clean_subs_loop c (sv_sub_refs sv c) sv = Some sv1"
    "clean_shared_loop c (sv_shared_refs sv1 c) (sv1\<lparr>sv_sub_refs := (sv_sub_refs sv1)(c := [])\<rparr>) = Some sv2"
    "sv' = sv2\<lparr>sv_shared_refs := (sv_shared_refs sv2)(c := [])\<rparr>"
    by (auto simp: sub__clean_session_def sub__clean_session_shared_def split: bind_splits)
  show ?thesis using clean_subs_step [OF s(1)] clean_shared_step [OF s(2)] by (auto simp: subs_step_def s(3))
qed

section \<open>The invariant of the tree\<close>

lemma leaf_of_in: "leaf_of c ls = Some l \<Longrightarrow> l \<in> set ls \<and> sl_context l = c"
  by (induction ls) (auto split: if_splits)

lemma in_leaf_of: "l \<in> set ls \<Longrightarrow> leafs_of (sl_context l) ls \<le> 1 \<Longrightarrow> leaf_of (sl_context l) ls = Some l"
proof (induction ls)
  case (Cons x ls)
  have "l \<in> set ls \<Longrightarrow> 0 < leafs_of (sl_context l) ls" by (auto simp: leafs_of_def filter_empty_conv)
  then show ?case using Cons by (auto split: if_splits)
qed simp

definition table_qos :: "server \<Rightarrow> bool" where
  "table_qos sv \<longleftrightarrow> (\<forall>c k l. sub_table sv c k = Some l \<longrightarrow> sl_qos l \<le> 2)"

lemma tree_inv_table:
  "tree_inv C sv \<longleftrightarrow> subs_inv C sv \<and> forest_ok (sv_subs sv) \<and> table_qos sv"
proof -
  have "(\<forall>p s l. l \<in> set (leafs_at (view (sv_subs sv) p) s) \<longrightarrow> sl_qos l \<le> 2) \<longleftrightarrow> table_qos sv" if i: "subs_inv C sv"
  proof
    assume a: "\<forall>p s l. l \<in> set (leafs_at (view (sv_subs sv) p) s) \<longrightarrow> sl_qos l \<le> 2"
    show "table_qos sv" using a by (auto simp: table_qos_def sub_table_def dest!: leaf_of_in)
  next
    assume t: "table_qos sv"
    have "sl_qos l \<le> 2" if "l \<in> set (leafs_at (view (sv_subs sv) p) s)" for p s l
      using in_leaf_of [OF that refs_leafs_at [OF i]] t [unfolded table_qos_def, rule_format, of "sl_context l" "(p, s)" l]
      by (simp add: sub_table_def)
    then show "\<forall>p s l. l \<in> set (leafs_at (view (sv_subs sv) p) s) \<longrightarrow> sl_qos l \<le> 2" by blast
  qed
  then show ?thesis by (auto simp: tree_inv_def)
qed

lemma sub__add_tree:
  assumes inv: "tree_inv C sv" and c: "c \<in> C" and al: "\<forall>n. alloc n" and q: "q \<le> 2"
    and id: "ctx_id (sv_contexts sv c) = Some cid" and u: "\<And>d. ctx_id (sv_contexts sv d) = Some cid \<Longrightarrow> d = c"
    and r: "sub__add alloc c sub q n opts sv = Some (rc, sv')"
  shows "tree_inv C sv'"
proof (cases "sub__topic_tokenise alloc sub")
  case (Inl e)
  then show ?thesis using r inv by (cases e) (auto simp: sub__add_def)
next
  case (Inr x)
  obtain cells s where t: "sub__topic_tokenise alloc sub = Inr (cells, s)" using Inr by (cases x) auto
  have i: "subs_inv C sv" "forest_ok (sv_subs sv)" "table_qos sv" using inv by (simp_all add: tree_inv_table)
  have "table_qos sv'"
    using sub__add_table [OF i(1) id u t r] i(3) q by (auto simp: table_qos_def subscribed_def split: if_splits option.splits)
  moreover have "subs_inv C sv'" using sub__add_keeps [where alloc = alloc, OF i(1) c _ r] al by simp
  ultimately show ?thesis using sub__add_step [OF r] i(2) by (simp add: tree_inv_table subs_step_def)
qed

lemma sub__remove_tree:
  assumes inv: "tree_inv C sv" and c: "c \<in> C" and r: "sub__remove alloc c sub reason sv = Some (rc, sv', reason')"
  shows "tree_inv C sv'"
proof (cases "sub__topic_tokenise alloc sub")
  case (Inl e)
  then show ?thesis using r inv by (cases e) (auto simp: sub__remove_def)
next
  case (Inr x)
  obtain cells s where t: "sub__topic_tokenise alloc sub = Inr (cells, s)" using Inr by (cases x) auto
  have i: "subs_inv C sv" "forest_ok (sv_subs sv)" "table_qos sv" using inv by (simp_all add: tree_inv_table)
  have "table_qos sv'" using sub__remove_table [OF i(1) t r] i(3) by (auto simp: table_qos_def split: if_splits)
  then show ?thesis using sub__remove_step [OF r] i(2) sub__remove_keeps [OF i(1) c r] by (simp add: tree_inv_table subs_step_def)
qed

lemma clean_session_tree:
  assumes inv: "tree_inv C sv" and c: "c \<in> C"
  shows "\<exists>sv'. sub__clean_session c sv = Some (0, sv') \<and> tree_inv C sv' \<and> subs_step sv sv'"
proof -
  have i: "subs_inv C sv" "forest_ok (sv_subs sv)" using inv by (simp_all add: tree_inv_def)
  obtain sv' where s: "sub__clean_session c sv = Some (0, sv')" "subs_inv C sv'"
    "subs_at (sv_subs sv') = (\<lambda>p. others c (subs_at (sv_subs sv) p))"
    "shared_at (sv_subs sv') = (\<lambda>k. others c (shared_at (sv_subs sv) k))"
    using clean_session_ok [OF i(1) c] by blast
  have at: "leafs_at (view f p) k = (case k of None \<Rightarrow> subs_at f p | Some n \<Rightarrow> shared_at f (p, n))" for f p k
    by (simp add: leafs_at_def subs_at_def shared_at_def split: option.split)
  have "leafs_at (view (sv_subs sv') p) k = others c (leafs_at (view (sv_subs sv) p) k)" for p k
    by (simp add: at s(3,4) split: option.split)
  then have "tree_inv C sv'" using inv s(2) clean_session_step [OF s(1)] by (auto simp: tree_inv_def subs_step_def)
  then show ?thesis using s(1) clean_session_step [OF s(1)] by blast
qed

end
