(* ===== verification/Retain_Search.thy ===== *)
theory Retain_Search
  imports Retain Node_Visitor
begin

text \<open>
  \<open>retain__search\<close> as a list of visits: the nodes it handles, in its order. On the list, what it
  does is a run; against the filters, the list has the nodes whose topic the filter matches.
\<close>

section \<open>Runs over retained messages\<close>

definition opt_process :: "('b \<Rightarrow> 's \<Rightarrow> (int \<times> 'b option \<times> 's) option) \<Rightarrow> 'b option \<Rightarrow> 's \<Rightarrow> ('b option \<times> 's) option" where
  "opt_process process d st =
     (case d of None \<Rightarrow> Some (None, st) | Some a \<Rightarrow> map_option (\<lambda>(rc, d, st). (d, st)) (process a st))"

fun run_all ::
  "('b \<Rightarrow> 's \<Rightarrow> (int \<times> 'b option \<times> 's) option) \<Rightarrow> string list list \<Rightarrow> 'b option forest \<Rightarrow> 's \<Rightarrow>
   ('b option forest \<times> 's) option" where
  "run_all process [] f st = Some (f, st)"
| "run_all process (p # ps) f st =
     (case data_at f p of
        None \<Rightarrow> None
      | Some d \<Rightarrow>
          (case opt_process process d st of
             None \<Rightarrow> None
           | Some (d, st) \<Rightarrow> run_all process ps (update_at p (\<lambda>_. d) f) st))"

lemma process_retained_eq:
  "process_retained process (Hier cs d) st = map_option (\<lambda>(d, st). (Hier cs d, st)) (opt_process process d st)"
  by (cases d) (auto simp: process_retained_def opt_process_def option.map_comp intro!: map_option_cong)

lemma run_all_append:
  "run_all process (ps @ qs) f st = Option.bind (run_all process ps f st) (\<lambda>(f, st). run_all process qs f st)"
  by (induction process ps f st rule: run_all.induct) (auto split: option.split simp del: update_at.simps)

lemma put_head: "k \<notin> fst ` set f \<Longrightarrow> hash_put k h ((k, b) # f) = (k, h) # f"
  using hash_put_absent [of k f h] by (simp add: hash_find_None) (simp add: hash_put_def)

lemma find_head [simp]: "hash_find j ((k, b) # f) = (if j = k then Some b else hash_find j f)"
  by (simp add: hash_find_def)

lemma run_all_self:
  "k \<notin> fst ` set f \<Longrightarrow>
   run_all process [[k]] ((k, Hier cs d) # f) st =
     map_option (\<lambda>(d, st). ((k, Hier cs d) # f, st)) (opt_process process d st)"
  by (auto simp: put_head split: option.split)

lemma run_all_head:
  "k \<notin> fst ` set f \<Longrightarrow> [] \<notin> set ps \<Longrightarrow>
   run_all process (map ((#) k) ps) ((k, Hier cs d) # f) st =
     map_option (\<lambda>(cs, st). ((k, Hier cs d) # f, st)) (run_all process ps cs st)"
proof (induction ps arbitrary: cs st)
  case (Cons p ps)
  have "p \<noteq> []" using Cons.prems(2) by auto
  then have 1: "data_at ((k, Hier cs d) # f) (k # p) = data_at cs p" by (simp add: data_at_Cons)
  have 2: "update_at (k # p) g ((k, Hier cs d) # f) = (k, Hier (update_at p g cs) d) # f" for g
    using \<open>p \<noteq> []\<close> put_head [OF Cons.prems(1)] by simp
  show ?case
    using Cons.IH Cons.prems by (auto simp: 1 2 split: option.split simp del: update_at.simps)
qed simp

lemma update_tail:
  "q \<noteq> [] \<Longrightarrow> hd q \<noteq> k \<Longrightarrow> k \<notin> fst ` set f \<Longrightarrow> update_at q g ((k, b) # f) = (k, b) # update_at q g f \<and> fst ` set (update_at q g f) = fst ` set f"
proof (cases q)
  case (Cons j js)
  assume a: "q \<noteq> []" "hd q \<noteq> k" "k \<notin> fst ` set f"
  have "hash_put j h ((k, b) # f) = (k, b) # hash_put j h f" for h
    using a(2) Cons by (simp add: hash_put_def)
  moreover have "fst ` set (hash_put j h f) = fst ` set f" for h
    by (metis list.set_map map_fst_put)
  ultimately show ?thesis using a Cons by (auto split: option.split)
qed simp

lemma run_all_tail:
  "k \<notin> fst ` set f \<Longrightarrow> (\<And>q. q \<in> set qs \<Longrightarrow> q \<noteq> [] \<and> hd q \<noteq> k) \<Longrightarrow>
   run_all process qs ((k, b) # f) st = map_option (\<lambda>(f, st). ((k, b) # f, st)) (run_all process qs f st)"
proof (induction qs arbitrary: f st)
  case (Cons q qs)
  have q: "q \<noteq> []" "hd q \<noteq> k" using Cons.prems(2) [of q] by auto
  have 1: "data_at ((k, b) # f) q = data_at f q" using q by (cases q) (auto simp: data_at_Cons)
  note u = update_tail [OF q Cons.prems(1)]
  have "run_all process qs ((k, b) # update_at q g f) st = map_option (\<lambda>(f, st). ((k, b) # f, st)) (run_all process qs (update_at q g f) st)" for g st
    using Cons.IH [of "update_at q g f"] u Cons.prems by simp
  then show ?case using u by (auto simp: 1 split: option.split simp del: update_at.simps)
qed simp

section \<open>The visits of the search\<close>

fun hash_visits :: "'a forest \<Rightarrow> string list list" where
  "hash_visits [] = []"
| "hash_visits ((k, Hier cs d) # f) = [k] # map ((#) k) (hash_visits cs) @ hash_visits f"

definition branch_visits :: "(string \<Rightarrow> bool) \<Rightarrow> string list \<Rightarrow> nat \<Rightarrow> ('a forest \<Rightarrow> string list list) \<Rightarrow> string \<times> 'a hier \<Rightarrow> string list list" where
  "branch_visits sel ts level vis kb =
     (case kb of (k, b) \<Rightarrow>
        if \<not> sel k then []
        else if ts = [] then [[k]]
        else map ((#) k) (vis (hier_children b)) @
          (if ts = [''#''] \<and> hier_children b \<noteq> [] \<or> hd ts = ''#'' \<and> level > 0 then [[k]] else []))"

fun retain_visits :: "string list \<Rightarrow> nat \<Rightarrow> 'a forest \<Rightarrow> string list list" where
  "retain_visits [] level f = []"
| "retain_visits (t # ts) level f =
     (if t = ''#'' \<and> ts = [] then hash_visits f
      else concat (map (branch_visits (\<lambda>k. t = ''+'' \<or> k = t) ts level (retain_visits ts (level + 1))) f))"

lemma hash_visits_paths: "p \<in> set (hash_visits f) \<Longrightarrow> p \<noteq> [] \<and> hd p \<in> fst ` set f"
  by (induction f rule: hash_visits.induct) auto

lemma branch_visits_paths: "p \<in> set (branch_visits sel ts level vis kb) \<Longrightarrow> p \<noteq> [] \<and> hd p = fst kb"
  by (auto simp: branch_visits_def split: prod.splits if_splits)

lemma retain_visits_paths: "p \<in> set (retain_visits ts level f) \<Longrightarrow> p \<noteq> [] \<and> hd p \<in> fst ` set f"
  by (cases ts) (auto dest!: hash_visits_paths branch_visits_paths split: if_splits)

lemma hash_branches_run:
  "forest_ok f \<Longrightarrow> hash_branches process [''#''] level f st = run_all process (hash_visits f) f st"
proof (induction f arbitrary: level st rule: hash_visits.induct)
  case (2 k cs d f)
  have k: "k \<notin> fst ` set f" and f: "forest_ok f" and cs: "forest_ok cs"
    using 2(3) by (auto simp: forest_ok_def)
  have ne: "[] \<notin> set (hash_visits cs)" using hash_visits_paths by blast
  have tl: "q \<noteq> [] \<and> hd q \<noteq> k" if "q \<in> set (hash_visits f)" for q using hash_visits_paths [OF that] k by auto
  have e: "cs = [] \<Longrightarrow> run_all process (hash_visits cs) cs st = Some ([], st)" for st by simp
  have split: "[k] # map ((#) k) (hash_visits cs) @ hash_visits f = [[k]] @ map ((#) k) (hash_visits cs) @ hash_visits f" by simp
  show ?case
  proof (cases "opt_process process d st")
    case None
    then show ?thesis unfolding hash_visits.simps split run_all_append run_all_self [OF k] by (simp add: process_retained_eq)
  next
    case (Some r)
    obtain d1 st1 where r: "r = (d1, st1)" by (cases r)
    have c: "(if cs \<noteq> [] then map_option (\<lambda>(_, b, st). (hier_children b, st)) (retain__search process [''#''] (level + 1) (Hier cs d) st1)
        else Some ([], st1)) = run_all process (hash_visits cs) cs st1"
      by (cases "run_all process (hash_visits cs) cs st1") (auto simp: 2(1) [OF cs])
    show ?thesis
      unfolding hash_visits.simps split run_all_append run_all_self [OF k]
      using c Some by (cases "run_all process (hash_visits cs) cs st1")
        (auto simp: process_retained_eq r run_all_head [OF k ne] run_all_tail [OF k tl] run_all_append 2(2) [OF f])
  qed
qed simp

declare retain__search.simps [simp del] retain_visits.simps(2) [simp del]

text \<open>One child: the search below it, and what is done with it itself.\<close>

lemma branch_run:
  assumes ih: "\<And>f d level st. forest_ok f \<Longrightarrow> ts \<noteq> [] \<Longrightarrow> retain__search process ts level (Hier f d) st =
      map_option (\<lambda>(f', st). (if ts = [''#''] \<and> f \<noteq> [] then -1 else 0, Hier f' d, st)) (run_all process (retain_visits ts level f) f st)"
    and k: "k \<notin> fst ` set f" and cs: "forest_ok cs"
  shows "map_option (\<lambda>(b, st). ((k, b) # f, st))
      (if sel k then
         if ts \<noteq> [] then
           Option.bind (retain__search process ts (level + 1) (Hier cs d) st) (\<lambda>(flag, branch, st).
             if flag = -1 \<or> (hd ts = ''#'' \<and> level > 0) then process_retained process branch st else Some (branch, st))
         else process_retained process (Hier cs d) st
       else Some (Hier cs d, st)) =
    run_all process (branch_visits sel ts level (retain_visits ts (level + 1)) (k, Hier cs d)) ((k, Hier cs d) # f) st"
proof (cases "sel k \<and> ts \<noteq> []")
  case False
  then show ?thesis
    using run_all_self [OF k, of process cs d st]
    by (auto simp: branch_visits_def process_retained_eq option.map_comp simp del: run_all.simps(2) intro!: map_option_cong)
next
  case True
  have ne: "[] \<notin> set (retain_visits ts (level + 1) cs)" using retain_visits_paths by blast
  let ?vis = "retain_visits ts (level + 1) cs" and ?e = "ts = [''#''] \<and> cs \<noteq> [] \<or> hd ts = ''#'' \<and> level > 0"
  have bv: "branch_visits sel ts level (retain_visits ts (level + 1)) (k, Hier cs d) =
      map ((#) k) ?vis @ (if ?e then [[k]] else [])"
    using True by (auto simp: branch_visits_def)
  have s: "retain__search process ts (level + 1) (Hier cs d) st =
      map_option (\<lambda>(f', st). (if ts = [''#''] \<and> cs \<noteq> [] then -1 else 0, Hier f' d, st)) (run_all process ?vis cs st)"
    using True ih [OF cs] by simp
  show ?thesis
  proof (cases "run_all process ?vis cs st")
    case None
    then show ?thesis using True s by (simp only: bv run_all_append run_all_head [OF k ne]) simp
  next
    case (Some r)
    obtain cs' st' where r: "r = (cs', st')" by (cases r)
    have "run_all process (if ?e then [[k]] else []) ((k, Hier cs' d) # f) st' =
      (if ?e then map_option (\<lambda>(d, st). ((k, Hier cs' d) # f, st)) (opt_process process d st') else Some ((k, Hier cs' d) # f, st'))"
      using run_all_self [OF k, of process cs' d st'] by (simp del: run_all.simps(2))
    then show ?thesis
      using True Some r s unfolding bv run_all_append run_all_head [OF k ne]
      by (auto simp: process_retained_eq option.map_comp simp del: run_all.simps intro!: map_option_cong)
  qed
qed

lemma branches_run:
  assumes ih: "\<And>f d level st. forest_ok f \<Longrightarrow> ts \<noteq> [] \<Longrightarrow> retain__search process ts level (Hier f d) st =
      map_option (\<lambda>(f', st). (if ts = [''#''] \<and> f \<noteq> [] then -1 else 0, Hier f' d, st)) (run_all process (retain_visits ts level f) f st)"
  shows "forest_ok f \<Longrightarrow> branches process sel ts level f st =
    run_all process (concat (map (branch_visits sel ts level (retain_visits ts (level + 1))) f)) f st"
proof (induction f arbitrary: st)
  case (Cons x f)
  obtain k cs d where x: "x = (k, Hier cs d)" by (cases x; cases "snd x") auto
  have k: "k \<notin> fst ` set f" and f: "forest_ok f" and cs: "forest_ok cs"
    using Cons.prems by (auto simp: forest_ok_def x)
  let ?vis = "branch_visits sel ts level (retain_visits ts (level + 1))"
  have tl: "q \<noteq> [] \<and> hd q \<noteq> k" if q: "q \<in> set (concat (map ?vis f))" for q
  proof -
    obtain kb where "kb \<in> set f" "q \<in> set (?vis kb)" using q unfolding set_concat set_map by blast
    then show ?thesis using branch_visits_paths [of q sel ts level _ kb] k by force
  qed
  let ?step = "if sel k then
         if ts \<noteq> [] then
           Option.bind (retain__search process ts (level + 1) (Hier cs d) st) (\<lambda>(flag, branch, st).
             if flag = -1 \<or> (hd ts = ''#'' \<and> level > 0) then process_retained process branch st else Some (branch, st))
         else process_retained process (Hier cs d) st
       else Some (Hier cs d, st)"
  have s: "branches process sel ts level (x # f) st = Option.bind ?step (\<lambda>(branch, st).
      map_option (\<lambda>(cs, st). ((k, branch) # cs, st)) (branches process sel ts level f st))"
    by (simp only: x branches.simps)
  have br: "map_option (\<lambda>(b, st). ((k, b) # f, st)) ?step = run_all process (?vis (k, Hier cs d)) ((k, Hier cs d) # f) st"
    by (rule branch_run [OF ih k cs])
  define V where "V = concat (map ?vis f)"
  note rt = run_all_tail [OF k tl, folded V_def] and fs = Cons.IH [OF f, folded V_def]
  have "run_all process (concat (map ?vis (x # f))) (x # f) st =
    Option.bind (map_option (\<lambda>(b, st). ((k, b) # f, st)) ?step) (\<lambda>(g, st). run_all process V g st)"
    unfolding br by (simp only: x list.map concat.simps run_all_append V_def)
  then show ?case unfolding s fs by (cases ?step) (simp_all only: rt split: prod.split, auto simp: rt)
qed simp

lemma retain_search_run:
  "forest_ok f \<Longrightarrow> ts \<noteq> [] \<Longrightarrow> retain__search process ts level (Hier f d) st =
     map_option (\<lambda>(f', st). (if ts = [''#''] \<and> f \<noteq> [] then -1 else 0, Hier f' d, st))
       (run_all process (retain_visits ts level f) f st)"
proof (induction ts arbitrary: f d level st)
  case (Cons t ts)
  show ?case
  proof (cases "t = ''#'' \<and> ts = []")
    case True
    then show ?thesis using hash_branches_run [OF Cons.prems(1)]
      by (auto simp: retain__search.simps retain_visits.simps(2) intro!: map_option_cong)
  next
    case False
    then show ?thesis using branches_run [OF Cons.IH Cons.prems(1)]
      by (auto simp: retain__search.simps retain_visits.simps(2))
  qed
qed simp

end
