(* ===== verification/Retained_Inv.thy ===== *)
theory Retained_Inv
  imports Server_Deliver Retain_Search
begin

text \<open>
  The tree of retained messages in the broker: every node that has a message owns one reference
  to it. Storing a message replaces what one node owns, sending retained messages to a
  subscriber takes nothing or, where a message has expired, gives it back.
\<close>

section \<open>What a tree owns\<close>

definition owned :: "nat option \<Rightarrow> nat multiset" where
  "owned d = (case d of None \<Rightarrow> {#} | Some a \<Rightarrow> {#a#})"

lemma owned_simps [simp]: "owned None = {#}" "owned (Some a) = {#a#}"
  by (simp_all add: owned_def)

fun forest_refs :: "nat option forest \<Rightarrow> nat multiset" where
  "forest_refs [] = {#}"
| "forest_refs ((k, Hier cs d) # f) = owned d + forest_refs cs + forest_refs f"

definition hier_refs :: "nat option hier \<Rightarrow> nat multiset" where
  "hier_refs h = owned (hier_data h) + forest_refs (hier_children h)"

lemma forest_refs_Cons: "forest_refs (x # f) = hier_refs (snd x) + forest_refs f"
  by (cases x; cases "snd x") (auto simp: hier_refs_def)

lemma hier_refs_simps [simp]: "hier_refs (Hier cs d) = owned d + forest_refs cs"
  by (simp add: hier_refs_def)

lemma forest_refs_append [simp]: "forest_refs (f @ g) = forest_refs f + forest_refs g"
  by (induction f rule: forest_refs.induct) auto

lemma forest_refs_put:
  "distinct (map fst f) \<Longrightarrow> hash_find k f = Some h0 \<Longrightarrow>
   forest_refs (hash_put k h f) + hier_refs h0 = forest_refs f + hier_refs h"
proof (induction f)
  case (Cons x f)
  show ?case
  proof (cases "fst x = k")
    case True
    then have "hash_find k f = None" "snd x = h0" using Cons.prems by (auto simp: hash_find_def map_of_eq_None_iff)
    moreover have "hash_put k h (x # f) = (k, h) # hash_put k h f" using True by (cases x) (simp add: hash_put_def)
    ultimately show ?thesis by (simp add: forest_refs_Cons hash_put_absent)
  next
    case False
    then have "hash_find k f = Some h0" using Cons.prems(2) by (cases x) (simp add: hash_find_def)
    moreover have "hash_put k h (x # f) = x # hash_put k h f" using False by (cases x) (simp add: hash_put_def)
    ultimately show ?thesis using Cons by (simp add: forest_refs_Cons)
  qed
qed simp

lemma shift_refs: "(X :: 'a multiset) + d0 = Y + d \<Longrightarrow> F' + Y = F + X \<Longrightarrow> F' + d0 = F + d"
proof -
  assume "X + d0 = Y + d" and "F' + Y = F + X"
  then have "(F' + d0) + Y = (F + d) + Y" by (metis (no_types) add.assoc add.commute)
  then show ?thesis by simp
qed

lemma forest_refs_update:
  "forest_ok f \<Longrightarrow> data_at f p = Some d0 \<Longrightarrow> forest_refs (update_at p (\<lambda>_. d) f) + owned d0 = forest_refs f + owned d"
proof (induction p arbitrary: f)
  case (Cons t ts)
  obtain h where h: "hash_find t f = Some h" using Cons.prems(2) by (auto simp: data_at_Cons split: option.splits)
  obtain cs e where he: "h = Hier cs e" by (cases h)
  have dk: "distinct (map fst f)" using Cons.prems(1) by (simp add: forest_ok_def)
  have cs: "forest_ok cs" using forest_ok_find [OF Cons.prems(1) h] by (simp add: he forest_ok_def)
  show ?case
  proof (cases "ts = []")
    case True
    then have "e = d0" using Cons.prems(2) h he by simp
    then show ?thesis using True forest_refs_put [OF dk h, of "Hier cs d"] by (simp add: h he)
  next
    case False
    let ?f = "hash_put t (Hier (update_at ts (\<lambda>_. d) cs) e) f"
    let ?X = "forest_refs (update_at ts (\<lambda>_. d) cs)"
    have "?X + owned d0 = forest_refs cs + owned d"
      using Cons.IH [OF cs] Cons.prems(2) False h he by (simp add: data_at_Cons)
    moreover have "forest_refs ?f + forest_refs cs = forest_refs f + ?X"
      using forest_refs_put [OF dk h, of "Hier (update_at ts (\<lambda>_. d) cs) e"] by (simp add: he)
    ultimately have "forest_refs ?f + owned d0 = forest_refs f + owned d" by (rule shift_refs)
    then show ?thesis using False h he by simp
  qed
qed simp

section \<open>References of the broker as a multiset\<close>

definition with_refs :: "(nat \<Rightarrow> int) \<Rightarrow> nat multiset \<Rightarrow> nat \<Rightarrow> int" where
  "with_refs E M a = E a + int (count M a)"

lemma with_refs_owned: "\<forall>a. 0 \<le> E a \<Longrightarrow> a \<in># M \<Longrightarrow> 0 < with_refs E M a"
  by (simp add: with_refs_def add_nonneg_pos)

lemma with_refs_add: "with_refs E (add_mset a M) = (with_refs E M)(a := with_refs E M a + 1)"
  by (auto simp: with_refs_def)

lemma server_take:
  "server_ok C (with_refs E M) sv \<Longrightarrow> store_at (sv_db sv) a \<noteq> None \<Longrightarrow>
   \<exists>db. db__msg_store_ref_inc a (sv_db sv) = Some db \<and> server_ok C (with_refs E (add_mset a M)) (sv\<lparr>sv_db := db\<rparr>)"
  unfolding with_refs_add by (rule server_ref_inc)

lemma server_give:
  assumes ok: "server_ok C (with_refs E (add_mset a M)) sv" and E: "\<forall>a. 0 \<le> E a"
  shows "\<exists>db. db__msg_store_ref_dec a (sv_db sv) = Some db \<and> server_ok C (with_refs E M) (sv\<lparr>sv_db := db\<rparr>)"
proof -
  have "(with_refs E (add_mset a M))(a := with_refs E (add_mset a M) a - 1) = with_refs E M" by (auto simp: with_refs_def)
  then show ?thesis using server_ref_dec [OF ok, of a] with_refs_owned [OF E, of a "add_mset a M"] by simp
qed

text \<open>
  Everything but the database, the clients and the number of retained messages, and of these
  the topics of the stored messages and the incoming messages.
\<close>

definition db_step :: "server \<Rightarrow> server \<Rightarrow> bool" where
  "db_step sv sv' \<longleftrightarrow> sv_subs sv' = sv_subs sv \<and> sv_retains sv' = sv_retains sv \<and> sv_sub_refs sv' = sv_sub_refs sv \<and>
     sv_shared_refs sv' = sv_shared_refs sv \<and> sv_subscription_count sv' = sv_subscription_count sv \<and>
     sv_shared_subscription_count sv' = sv_shared_subscription_count sv \<and>
     stores_from (sv_db sv) (sv_db sv') \<and> (\<forall>d. ctx_msgs_in (sv_contexts sv' d) = ctx_msgs_in (sv_contexts sv d)) \<and>
     (\<forall>d. identity (sv_contexts sv' d) = identity (sv_contexts sv d))"

lemma db_step_refl [simp]: "db_step sv sv"
  by (simp add: db_step_def)

lemma db_step_trans: "db_step a b \<Longrightarrow> db_step b d \<Longrightarrow> db_step a d"
  unfolding db_step_def using stores_from_trans by metis

lemma tree_inv_db_step: "db_step sv sv' \<Longrightarrow> tree_inv C sv' = tree_inv C sv"
  by (simp add: db_step_def tree_inv_def subs_inv_def)

lemma store_at_remove: "db__msg_store_remove a db = Some db' \<Longrightarrow> store_at db' b = (if b = a then None else store_at db b)"
  by (auto simp: db__msg_store_remove_def store_at_def filter_fst_map_of split: option.splits)

lemma ref_dec_payload:
  "db__msg_store_ref_dec a db = Some db' \<Longrightarrow> store_at db' b = Some s' \<Longrightarrow>
   \<exists>s. store_at db b = Some s \<and> ms_payloadlen s = ms_payloadlen s' \<and> ms_topic s' = ms_topic s"
  by (auto simp: db__msg_store_ref_dec_def Let_def store_at_remove split: option.splits if_splits)

lemma ref_dec_from: "db__msg_store_ref_dec a db = Some db' \<Longrightarrow> stores_from db db'"
  using ref_dec_payload unfolding stores_from_def by blast

lemma ref_inc_from: "db__msg_store_ref_inc a db = Some db' \<Longrightarrow> stores_from db db'"
  by (auto simp: db__msg_store_ref_inc_def stores_from_def split: option.splits if_splits)

lemma stores_from_changes [simp]:
  "stores_from (db\<lparr>db_persistence_changes := n\<rparr>) db' = stores_from db db'"
  by (simp add: stores_from_def store_at_def)

section \<open>Storing a message\<close>

lemma store_at_changes [simp]: "store_at (db\<lparr>db_persistence_changes := n\<rparr>) a = store_at db a"
  by (simp add: store_at_def)

lemma server_ok_changes: "server_ok C R (sv\<lparr>sv_db := db\<lparr>db_persistence_changes := n\<rparr>\<rparr>) = server_ok C R (sv\<lparr>sv_db := db\<rparr>)"
  by (simp add: server_ok_def stores_ok_def)

lemma server_ok_count: "server_ok C R (sv\<lparr>sv_retained_count := n\<rparr>) = server_ok C R sv"
  by (simp add: server_ok_def)

definition has_payload :: "server \<Rightarrow> nat \<Rightarrow> bool" where
  "has_payload sv a \<longleftrightarrow> (\<exists>s. store_at (sv_db sv) a = Some s \<and> ms_payloadlen s \<noteq> 0)"

text \<open>What the node owns is given back, and the new message taken unless it is empty.\<close>

lemma retain_set_ok:
  assumes ok: "server_ok C (with_refs E (add_mset stored (N + owned retained))) sv" and E: "\<forall>a. 0 \<le> E a"
  shows "\<exists>sv'. retain_set topic stored retained sv = Some (0, if has_payload sv stored then Some stored else None, sv') \<and>
    server_ok C (with_refs E (add_mset stored (N + owned (if has_payload sv stored then Some stored else None)))) sv' \<and> db_step sv sv'"
proof -
  define db1 where "db1 = (if take 4 topic \<noteq> ''$SYS'' then (sv_db sv)\<lparr>db_persistence_changes := db_persistence_changes (sv_db sv) + 1\<rparr>
      else sv_db sv)"
  have ok1: "server_ok C (with_refs E (add_mset stored (N + owned retained))) (sv\<lparr>sv_db := db1\<rparr>)"
    using ok by (simp add: db1_def server_ok_changes)
  have at1: "store_at db1 a = store_at (sv_db sv) a" for a by (simp add: db1_def)
  define cleared where "cleared = (case retained of None \<Rightarrow> Some (sv\<lparr>sv_db := db1\<rparr>)
     | Some a \<Rightarrow> map_option (\<lambda>db. sv\<lparr>sv_db := db, sv_retained_count := sv_retained_count sv - 1\<rparr>) (db__msg_store_ref_dec a db1))"
  have "\<exists>sv2. cleared = Some sv2 \<and> server_ok C (with_refs E (add_mset stored N)) sv2 \<and> db_step sv sv2 \<and>
      (\<forall>s'. store_at (sv_db sv2) stored = Some s' \<longrightarrow> (\<exists>s. store_at (sv_db sv) stored = Some s \<and> ms_payloadlen s = ms_payloadlen s'))"
  proof (cases retained)
    case None
    then show ?thesis using ok1 at1 by (auto simp: cleared_def db_step_def db1_def)
  next
    case (Some a)
    have "server_ok C (with_refs E (add_mset a (add_mset stored N))) (sv\<lparr>sv_db := db1\<rparr>)"
      using ok1 Some by (simp add: add_mset_commute)
    from server_give [OF this E] obtain db where db: "db__msg_store_ref_dec a db1 = Some db"
      "server_ok C (with_refs E (add_mset stored N)) (sv\<lparr>sv_db := db\<rparr>)" by auto
    have "server_ok C (with_refs E (add_mset stored N)) (sv\<lparr>sv_db := db, sv_retained_count := sv_retained_count sv - 1\<rparr>)"
      using db(2) server_ok_count [of C _ _ "sv\<lparr>sv_db := db\<rparr>"] by simp
    moreover have "stores_from (sv_db sv) db" using ref_dec_from [OF db(1)] by (simp add: db1_def split: if_splits)
    ultimately show ?thesis using db(1) Some ref_dec_payload [OF db(1), of stored] at1 by (auto simp: cleared_def db_step_def)
  qed
  then obtain sv2 where sv2: "cleared = Some sv2" "server_ok C (with_refs E (add_mset stored N)) sv2" "db_step sv sv2"
    "\<And>s'. store_at (sv_db sv2) stored = Some s' \<Longrightarrow> \<exists>s. store_at (sv_db sv) stored = Some s \<and> ms_payloadlen s = ms_payloadlen s'"
    by blast
  have "store_at (sv_db sv2) stored \<noteq> None"
    by (rule server_ok_store [OF sv2(2) with_refs_owned [OF E]]) simp
  then obtain s where s: "store_at (sv_db sv2) stored = Some s" by auto
  have p: "has_payload sv stored \<longleftrightarrow> ms_payloadlen s \<noteq> 0" using sv2(4) [OF s] by (auto simp: has_payload_def)
  have set: "retain_set topic stored retained sv = (if ms_payloadlen s \<noteq> 0 then
      map_option (\<lambda>db. (0, Some stored, sv2\<lparr>sv_db := db, sv_retained_count := sv_retained_count sv2 + 1\<rparr>))
        (db__msg_store_ref_inc stored (sv_db sv2)) else Some (0, None, sv2))"
    using sv2(1) s unfolding retain_set_def Let_def db1_def [symmetric] cleared_def [symmetric] by simp
  show ?thesis
  proof (cases "ms_payloadlen s = 0")
    case True
    then show ?thesis using set p sv2 by simp
  next
    case False
    obtain db where db: "db__msg_store_ref_inc stored (sv_db sv2) = Some db"
      "server_ok C (with_refs E (add_mset stored (add_mset stored N))) (sv2\<lparr>sv_db := db\<rparr>)"
      using server_take [OF sv2(2), of stored] s by auto
    have "server_ok C (with_refs E (add_mset stored (add_mset stored N)))
        (sv2\<lparr>sv_db := db, sv_retained_count := sv_retained_count sv2 + 1\<rparr>)"
      using db(2) server_ok_count [of C _ _ "sv2\<lparr>sv_db := db\<rparr>"] by simp
    moreover have "db_step sv (sv2\<lparr>sv_db := db, sv_retained_count := sv_retained_count sv2 + 1\<rparr>)"
      using sv2(3) ref_inc_from [OF db(1)] stores_from_trans by (auto simp: db_step_def)
    ultimately show ?thesis using set p False db(1) by simp
  qed
qed

section \<open>The tree as a map from topics\<close>

fun retained_below :: "string list \<Rightarrow> 'b option hier \<Rightarrow> 'b option" where
  "retained_below [] h = hier_data h"
| "retained_below (t # ts) h = (case hash_find t (hier_children h) of None \<Rightarrow> None | Some b \<Rightarrow> retained_below ts b)"

definition retained_at :: "'b option forest \<Rightarrow> string list \<Rightarrow> 'b option" where
  "retained_at f p = retained_below p (Hier f None)"

lemma retained_below_empty [simp]: "retained_below p (Hier [] None) = None"
  by (cases p) simp_all

text \<open>The child that the walk goes to, made when it is not there.\<close>

lemma walk_child:
  assumes al: "\<forall>n. alloc n" and ok: "hier_ok h" and t: "length t \<le> 65535"
  shows "\<exists>cs b. (case hash_find t (hier_children h) of
        Some branch \<Rightarrow> Some (t, hier_children h, branch)
      | None \<Rightarrow> map_option (\<lambda>(key, cs). (key, cs, Hier [] None)) (retain__add_hier_entry alloc (hier_children h) t)) = Some (t, cs, b) \<and>
    hash_find t cs = Some b \<and> forest_ok cs \<and> hier_ok b \<and> forest_refs cs = forest_refs (hier_children h) \<and>
    (\<forall>q. retained_below q (Hier cs (hier_data h)) = retained_below q h)"
proof (cases "hash_find t (hier_children h)")
  case None
  have f: "forest_ok (hier_children h)" using ok by (simp add: hier_ok_iff)
  have e: "retain__add_hier_entry alloc (hier_children h) t = Some (t, hash_add t (Hier [] None) (hier_children h))"
    using al t by (simp add: retain__add_hier_entry_def Let_def)
  have "retained_below q (Hier (hash_add t (Hier [] None) (hier_children h)) (hier_data h)) = retained_below q h" for q
    using None by (cases q) (auto split: option.split)
  moreover have "forest_refs (hash_add t (Hier [] None) (hier_children h)) = forest_refs (hier_children h)" by (simp add: hash_add_def)
  ultimately show ?thesis using None e forest_ok_add [OF f None] by simp
next
  case (Some b)
  have "hier_ok b" using ok Some forest_ok_find by (auto simp: hier_ok_iff)
  moreover have "Hier (hier_children h) (hier_data h) = h" by (cases h) simp
  ultimately show ?thesis using Some ok by (auto simp: hier_ok_iff)
qed

lemma retain_walk_ok:
  assumes al: "\<forall>n. alloc n"
  shows "hier_ok h \<Longrightarrow> \<forall>t \<in> set ts. length t \<le> 65535 \<Longrightarrow> finish (retained_below ts h) sv = Some (rc, d, sv') \<Longrightarrow>
    \<exists>h'. retain_walk alloc finish ts h sv = Some (rc, h', sv') \<and> hier_ok h' \<and>
      hier_refs h' + owned (retained_below ts h) = hier_refs h + owned d \<and>
      (\<forall>q. retained_below q h' = (if q = ts then d else retained_below q h))"
proof (induction ts arbitrary: h)
  case Nil
  have q: "retained_below q (Hier (hier_children h) d) = (if q = [] then d else retained_below q h)" for q
    by (cases q) simp_all
  show ?case using Nil q by (simp add: on_data_def hier_refs_def hier_ok_iff del: hier_ok.simps)
next
  case (Cons t ts)
  obtain cs b where c: "(case hash_find t (hier_children h) of
        Some branch \<Rightarrow> Some (t, hier_children h, branch)
      | None \<Rightarrow> map_option (\<lambda>(key, cs). (key, cs, Hier [] None)) (retain__add_hier_entry alloc (hier_children h) t)) = Some (t, cs, b)"
    "hash_find t cs = Some b" "forest_ok cs" "hier_ok b" "forest_refs cs = forest_refs (hier_children h)"
    "\<And>q. retained_below q (Hier cs (hier_data h)) = retained_below q h"
    using walk_child [OF al Cons.prems(1), of t] Cons.prems(2) by auto
  have at: "retained_below (t # ts) h = retained_below ts b" using c(6) [of "t # ts"] c(2) by simp
  obtain b' where b': "retain_walk alloc finish ts b sv = Some (rc, b', sv')" "hier_ok b'"
    "hier_refs b' + owned (retained_below ts b) = hier_refs b + owned d"
    "\<And>q. retained_below q b' = (if q = ts then d else retained_below q b)"
    using Cons.IH [OF c(4)] Cons.prems(2,3) at by auto
  let ?h = "Hier (hash_put t b' cs) (hier_data h)"
  have dk: "distinct (map fst cs)" using c(3) by (simp add: forest_ok_def)
  have put: "forest_refs (hash_put t b' cs) + hier_refs b = forest_refs cs + hier_refs b'" by (rule forest_refs_put [OF dk c(2)])
  have "forest_refs (hash_put t b' cs) + owned (retained_below ts b) = forest_refs cs + owned d"
    by (rule shift_refs [OF b'(3) put])
  then have r: "hier_refs ?h + owned (retained_below (t # ts) h) = hier_refs h + owned d"
    unfolding at by (simp add: hier_refs_def c(5) add.assoc)
  have q: "retained_below q ?h = (if q = t # ts then d else retained_below q h)" for q
    using c(2) b'(4) c(6) [of q] by (cases q) auto
  have "hier_ok ?h" using forest_ok_put [OF c(3) b'(2)] by (simp add: hier_ok_iff del: hier_ok.simps)
  moreover have "retain_walk alloc finish (t # ts) h sv = Some (rc, ?h, sv')" using c(1) b'(1) by simp
  ultimately show ?case using r q by blast
qed

text \<open>The root is found or made as every other node is.\<close>

lemma retain_store_walk:
  "retain__store alloc topic stored (t # ts) sv =
     map_option (\<lambda>(rc, h, sv'). (rc, sv'\<lparr>sv_retains := hier_children h\<rparr>))
       (retain_walk alloc (retain_set topic stored) (t # t # ts) (Hier (sv_retains sv) None) sv)"
proof -
  define w where "w = retain_walk alloc (retain_set topic stored) (t # ts)"
  have walk: "retain_walk alloc (retain_set topic stored) (t # t # ts) h sv =
     (case (case hash_find t (hier_children h) of
              Some branch \<Rightarrow> Some (t, hier_children h, branch)
            | None \<Rightarrow> map_option (\<lambda>(key, cs). (key, cs, Hier [] None))
                        (retain__add_hier_entry alloc (hier_children h) t)) of
        None \<Rightarrow> Some (err_code MOSQ_ERR_NOMEM, h, sv)
      | Some (key, children, branch) \<Rightarrow>
          map_option (\<lambda>(rc, branch, sv). (rc, Hier (hash_put key branch children) (hier_data h), sv)) (w branch sv))" for h
    unfolding w_def by (rule retain_walk.simps(2))
  have store: "retain__store alloc topic stored (t # ts) sv =
     (case (case hash_find t (sv_retains sv) of
              Some h \<Rightarrow> Some (t, sv_retains sv, h)
            | None \<Rightarrow> map_option (\<lambda>(key, f). (key, f, Hier [] None)) (retain__add_hier_entry alloc (sv_retains sv) t)) of
        None \<Rightarrow> Some (err_code MOSQ_ERR_NOMEM, sv)
      | Some (key, forest, h) \<Rightarrow>
          map_option (\<lambda>(rc, h, sv). (rc, sv\<lparr>sv_retains := hash_put key h forest\<rparr>)) (w h sv))"
    unfolding w_def by (simp add: retain__store_def del: retain_walk.simps(2))
  show ?thesis
    unfolding walk store by (auto simp: option.map_comp comp_def case_prod_unfold split: option.split)
qed

lemma child_refs: "hash_find k f = Some b \<Longrightarrow> hier_refs b \<subseteq># forest_refs f"
proof (induction f)
  case (Cons x f)
  then show ?case by (cases x) (auto simp: forest_refs_Cons hash_find_def subset_mset.add_increasing split: if_splits)
qed simp

lemma retained_owned: "owned (retained_below p h) \<subseteq># hier_refs h"
proof (induction p h rule: retained_below.induct)
  case (2 t ts h)
  have "hier_refs b \<subseteq># hier_refs h" if "hash_find t (hier_children h) = Some b" for b
    using child_refs [OF that] by (simp add: hier_refs_def subset_mset.add_increasing)
  then show ?case using 2 by (auto split: option.split intro: subset_mset.order_trans)
qed (simp add: hier_refs_def)

text \<open>
  Storing a message changes one topic of the map, and what the tree owns with it.
\<close>

lemma retain_store_ok:
  assumes ok: "server_ok C (with_refs E (add_mset stored (forest_refs (sv_retains sv)))) sv" and E: "\<forall>a. 0 \<le> E a"
    and al: "\<forall>n. alloc n" and fo: "forest_ok (sv_retains sv)" and len: "\<forall>x \<in> set (t # ts). length x \<le> 65535"
  shows "\<exists>sv'. retain__store alloc topic stored (t # ts) sv = Some (0, sv') \<and>
    server_ok C (with_refs E (add_mset stored (forest_refs (sv_retains sv')))) sv' \<and> forest_ok (sv_retains sv') \<and>
    retained_at (sv_retains sv') = (retained_at (sv_retains sv))(t # t # ts := if has_payload sv stored then Some stored else None) \<and>
    db_step sv (sv'\<lparr>sv_retains := sv_retains sv\<rparr>)"
proof -
  let ?h = "Hier (sv_retains sv) None" and ?p = "t # t # ts" and ?d = "if has_payload sv stored then Some stored else None"
  let ?old = "retained_below ?p ?h"
  obtain N where N: "forest_refs (sv_retains sv) = N + owned ?old"
    using retained_owned [of ?p ?h] by (auto simp: subset_mset.le_iff_add add.commute simp del: retained_below.simps)
  obtain sv1 where s: "retain_set topic stored ?old sv = Some (0, ?d, sv1)"
    "server_ok C (with_refs E (add_mset stored (N + owned ?d))) sv1" "db_step sv sv1"
    using retain_set_ok [OF ok [unfolded N] E, of topic] by blast
  have h: "hier_ok ?h" using fo by (simp add: hier_ok_iff del: hier_ok.simps)
  have len': "\<forall>x \<in> set ?p. length x \<le> 65535" using len by simp
  obtain h' where w: "retain_walk alloc (retain_set topic stored) ?p ?h sv = Some (0, h', sv1)" "hier_ok h'"
    "hier_refs h' + owned ?old = hier_refs ?h + owned ?d"
    "\<And>q. retained_below q h' = (if q = ?p then ?d else retained_below q ?h)"
    using retain_walk_ok [where alloc = alloc and finish = "retain_set topic stored", OF al h len' s(1)] by blast
  have d: "hier_data h' = None" using w(4) [of "[]"] by simp
  have "forest_refs (hier_children h') + owned ?old = N + owned ?old + owned ?d" using w(3) by (simp add: hier_refs_def d N)
  then have refs: "forest_refs (hier_children h') = N + owned ?d" by (simp add: ac_simps)
  let ?sv = "sv1\<lparr>sv_retains := hier_children h'\<rparr>"
  have "server_ok C (with_refs E (add_mset stored (forest_refs (sv_retains ?sv)))) ?sv"
    using s(2) by (simp add: refs server_ok_def)
  moreover have "Hier (hier_children h') None = h'" using d by (cases h') simp
  then have "retained_at (sv_retains ?sv) = (retained_at (sv_retains sv))(?p := ?d)"
    by (auto simp: retained_at_def w(4) simp del: retained_below.simps)
  moreover have "db_step sv (?sv\<lparr>sv_retains := sv_retains sv\<rparr>)" using s(3) by (simp add: db_step_def)
  ultimately show ?thesis using w(1,2) by (intro exI [of _ ?sv]) (simp add: retain_store_walk hier_ok_iff del: hier_ok.simps retain_walk.simps)
qed

end
