(* ===== verification/Retain_Match.thy ===== *)
theory Retain_Match
  imports Retain_Search
begin

text \<open>
  Which retained messages a new subscription is sent: the visits of \<open>retain__search\<close> against the
  filter, as \<open>Subs_Search\<close> does it for the subscriptions of a topic.
\<close>

section \<open>Every node at most once\<close>

lemma distinct_heads:
  "distinct (map fst f) \<Longrightarrow> (\<And>kb p. kb \<in> set f \<Longrightarrow> p \<in> set (g kb) \<Longrightarrow> p \<noteq> [] \<and> hd p = fst kb) \<Longrightarrow>
   (\<And>kb. kb \<in> set f \<Longrightarrow> distinct (g kb)) \<Longrightarrow> distinct (concat (map g f))"
proof (induction f)
  case (Cons x f)
  have "distinct (concat (map g f))" by (rule Cons.IH) (use Cons.prems in auto)
  moreover have "set (g x) \<inter> set (concat (map g f)) = {}"
  proof (rule ccontr)
    assume "set (g x) \<inter> set (concat (map g f)) \<noteq> {}"
    then obtain p kb where "p \<in> set (g x)" "kb \<in> set f" "p \<in> set (g kb)" by auto
    then have "fst kb = fst x" using Cons.prems(2) by (metis list.set_intros)
    then show False using Cons.prems(1) imageI [OF \<open>kb \<in> set f\<close>, of fst] by simp
  qed
  ultimately show ?case using Cons.prems(3) [of x] by simp
qed simp

lemma hash_visits_distinct: "forest_ok f \<Longrightarrow> distinct (hash_visits f)"
proof (induction f rule: hash_visits.induct)
  case (2 k cs d f)
  have k: "k \<notin> fst ` set f" and f: "forest_ok f" and cs: "forest_ok cs" using 2(3) by (auto simp: forest_ok_def)
  have "[] \<notin> set (hash_visits cs)" using hash_visits_paths by blast
  moreover have "k # q \<notin> set (hash_visits f)" for q using hash_visits_paths [of "k # q" f] k by auto
  ultimately show ?case using 2 f cs by (auto simp: distinct_map)
qed simp

lemma retain_visits_distinct: "forest_ok f \<Longrightarrow> distinct (retain_visits ts level f)"
proof (induction ts arbitrary: level f)
  case (Cons t ts)
  have "distinct (branch_visits sel ts level (retain_visits ts (level + 1)) kb)" if "kb \<in> set f" for sel kb
  proof -
    obtain k b where kb: "kb = (k, b)" by (cases kb)
    have "hier_ok b" using Cons.prems that kb by (auto simp: forest_ok_def)
    then have "distinct (retain_visits ts (level + 1) (hier_children b))" using Cons.IH hier_ok_iff by blast
    moreover have "[] \<notin> set (retain_visits ts (level + 1) (hier_children b))" using retain_visits_paths by blast
    ultimately show ?thesis by (auto simp: branch_visits_def kb distinct_map)
  qed
  moreover have "distinct (map fst f)" using Cons.prems by (simp add: forest_ok_def)
  ultimately have "distinct (concat (map (branch_visits sel ts level (retain_visits ts (level + 1))) f))" for sel
    using branch_visits_paths by (intro distinct_heads) blast+
  then show ?case using hash_visits_distinct [OF Cons.prems] by (simp add: retain_visits.simps(2))
qed simp

section \<open>The nodes of a filter\<close>

lemma hash_visits_iff: "forest_ok f \<Longrightarrow> p \<in> set (hash_visits f) \<longleftrightarrow> p \<noteq> [] \<and> node_at p f \<noteq> None"
proof (induction f arbitrary: p rule: hash_visits.induct)
  case (2 k cs d f)
  have k: "k \<notin> fst ` set f" and f: "forest_ok f" and cs: "forest_ok cs" using 2(3) by (auto simp: forest_ok_def)
  have n: "hash_find k f = None" using k by (simp add: hash_find_None)
  show ?case
  proof (cases p)
    case (Cons j js)
    have "p \<in> set (hash_visits f) \<longleftrightarrow> node_at p f \<noteq> None" using 2(2) [OF f, of p] Cons by simp
    moreover have "js \<in> set (hash_visits cs) \<longleftrightarrow> js \<noteq> [] \<and> node_at js cs \<noteq> None" by (rule 2(1) [OF cs])
    ultimately show ?thesis using Cons n by (auto split: option.split)
  qed (use hash_visits_paths in auto)
qed (auto simp: hash_find_def neq_Nil_conv)

text \<open>The filter that ends one level below a node of the first level which has no children.\<close>

definition missed :: "string list \<Rightarrow> nat \<Rightarrow> string list \<Rightarrow> 'a hier \<Rightarrow> bool" where
  "missed ss level p n \<longleftrightarrow> level = 0 \<and> length p = 1 \<and> length ss = 2 \<and> ss ! 1 = ''#'' \<and> hier_children n = []"

lemma retain_visits_iff:
  "forest_ok f \<Longrightarrow> ss \<noteq> [] \<Longrightarrow> ''#'' \<notin> set (butlast ss) \<Longrightarrow> p \<noteq> [] \<Longrightarrow> node_at p f = Some n \<Longrightarrow>
   p \<in> set (retain_visits ss level f) \<longleftrightarrow> levels_match ss p \<and> \<not> missed ss level p n"
proof (induction ss arbitrary: level f p)
  case (Cons t ts)
  obtain k q where p: "p = k # q" using Cons.prems(4) by (cases p) auto
  obtain b where b: "hash_find k f = Some b" "if q = [] then n = b else node_at q (hier_children b) = Some n"
    using Cons.prems(5) p by (auto split: option.splits if_splits)
  have dk: "distinct (map fst f)" and bk: "(k, b) \<in> set f" using Cons.prems(1) b(1)
    by (auto simp: forest_ok_def hash_find_def dest: map_of_SomeD)
  have cs: "forest_ok (hier_children b)" using forest_ok_find [OF Cons.prems(1) b(1)] by (simp add: hier_ok_iff)
  show ?case
  proof (cases "t = ''#'' \<and> ts = []")
    case True
    then show ?thesis using hash_visits_iff [OF Cons.prems(1), of p] Cons.prems(4,5)
      by (auto simp: retain_visits.simps(2) missed_def)
  next
    case False
    let ?vis = "branch_visits (\<lambda>k. t = ''+'' \<or> k = t) ts level (retain_visits ts (level + 1))"
    have "p \<in> set (?vis kb) \<Longrightarrow> kb \<in> set f \<Longrightarrow> kb = (k, b)" for kb
      using branch_visits_paths [of p _ ts level _ kb] p dk bk eq_key_imp_eq_value [of f k b "snd kb"] by (cases kb) auto
    then have "p \<in> set (concat (map ?vis f)) \<longleftrightarrow> p \<in> set (?vis (k, b))" using bk by auto
    then have l: "p \<in> set (retain_visits (t # ts) level f) \<longleftrightarrow> p \<in> set (?vis (k, b))"
      using False by (simp only: retain_visits.simps(2)) simp
    have r: "levels_match (t # ts) p \<longleftrightarrow> (t = ''+'' \<or> t = k) \<and> levels_match ts q" using False p by auto
    have nh: "ts \<noteq> [] \<Longrightarrow> t \<noteq> ''#''" "''#'' \<notin> set (butlast ts)" using Cons.prems(3) by (auto split: if_splits)
    have ne: "[] \<notin> set (retain_visits ts (level + 1) (hier_children b))" using retain_visits_paths by blast
    show ?thesis
    proof (cases "ts = []")
      case True
      then show ?thesis using l r p by (auto simp: branch_visits_def missed_def)
    next
      case ts: False
      show ?thesis
      proof (cases "q = []")
        case True
        have m: "levels_match ts [] \<longleftrightarrow> ts = [''#'']" using ts by (cases ts) auto
        have h: "hd ts = ''#'' \<longleftrightarrow> ts = [''#'']" using ts nh(2) by (cases ts) (auto split: if_splits)
        have "p \<in> set (?vis (k, b)) \<longleftrightarrow> (t = ''+'' \<or> k = t) \<and> ts = [''#''] \<and> (hier_children b \<noteq> [] \<or> level > 0)"
          using ts True p ne h by (auto simp: branch_visits_def)
        then show ?thesis using l r m True b(2) p by (auto simp: missed_def)
      next
        case False
        have "q \<in> set (retain_visits ts (level + 1) (hier_children b)) \<longleftrightarrow> levels_match ts q \<and> \<not> missed ts (level + 1) q n"
          using Cons.IH [OF cs ts nh(2) False] b(2) False by simp
        then have "p \<in> set (?vis (k, b)) \<longleftrightarrow> (t = ''+'' \<or> k = t) \<and> levels_match ts q"
          using ts False p by (auto simp: branch_visits_def missed_def)
        then show ?thesis using l r False p by (auto simp: missed_def)
      qed
    qed
  qed
qed simp

section \<open>Filters and topics\<close>

lemma filter_ok_hash: "filter_ok ls \<Longrightarrow> ''#'' \<notin> set (butlast ls)"
  by (induction ls) auto

text \<open>
  C19: A new subscription is sent the retained messages of exactly the topics its filter matches,
  each once: \<open>retain__search\<close> is a run over a list of nodes in which the node of a topic is found
  once if \<open>mosquitto_topic_matches_sub\<close> says that the filter matches. The only exception is a
  topic of a single level that starts with \<open>$\<close> and has no topic below it: the filter that ends
  in \<open>#\<close> one level below it matches, but does not find it.
\<close>
theorem retained_by_filter:
  assumes "forest_ok f" and "\<And>n. alloc n"
    and "c_string topic" "topic \<noteq> []" "mosquitto_pub_topic_check (Some topic) = MOSQ_ERR_SUCCESS"
    and "c_string sub" "sub \<noteq> []" "mosquitto_sub_topic_check (Some sub) = MOSQ_ERR_SUCCESS"
    and "sub__topic_tokenise alloc topic = Inr (tcells, None)"
    and "sub__topic_tokenise alloc sub = Inr (scells, None)"
    and "hash_find (hd (tokens_of scells)) f = Some h"
    and "node_at (hd (tokens_of tcells) # tokens_of tcells) f = Some n"
  shows "retain__search process (tokens_of scells) 0 h st =
      map_option (\<lambda>(g, st). (if tokens_of scells = [''#''] \<and> hier_children h \<noteq> [] then -1 else 0, Hier g (hier_data h), st))
        (run_all process (retain_visits (tokens_of scells) 0 (hier_children h)) (hier_children h) st) \<and>
    count_list (map ((#) (hd (tokens_of scells))) (retain_visits (tokens_of scells) 0 (hier_children h)))
        (hd (tokens_of tcells) # tokens_of tcells) =
      (if mosquitto_topic_matches_sub (Some sub) (Some topic) = Inr True \<and>
          \<not> missed (tokens_of scells) 0 (tokens_of tcells) n then 1 else 0)"
proof -
  let ?tt = "tokens_of tcells" and ?ss = "tokens_of scells" and ?f = "hier_children h"
  have nm: "name_ok topic" and fl: "filter_ok (levels sub)" using pub_check_name_ok sub_check_filter_ok assms(5,6,8) by auto
  have tt: "?tt = (if hd topic = CHR ''$'' then levels topic else [] # levels topic)"
    and ss: "?ss = (if hd sub = CHR ''$'' then levels sub else [] # levels sub)"
    using tokens_wild assms(2,4,7,9,10) by blast+
  have lv: "levels s \<noteq> []" for s by (metis levels_Cons_hd list.distinct(1))
  have ne: "?tt \<noteq> []" "?ss \<noteq> []" unfolding tt ss by (simp_all add: lv)
  have h: "forest_ok ?f" using forest_ok_find [OF assms(1,11)] by (simp add: hier_ok_iff)
  have run: "retain__search process ?ss 0 (Hier ?f (hier_data h)) st =
      map_option (\<lambda>(g, st). (if ?ss = [''#''] \<and> ?f \<noteq> [] then -1 else 0, Hier g (hier_data h), st))
        (run_all process (retain_visits ?ss 0 ?f) ?f st)"
    by (rule retain_search_run [OF h ne(2)])
  have bl: "''#'' \<notin> set (butlast ?ss)" unfolding ss using filter_ok_hash [OF fl] by simp
  have m: "mosquitto_topic_matches_sub (Some sub) (Some topic) = Inr (topic_match sub topic)"
    by (rule matcher_decides) (use assms in auto)
  have tm: "topic_match sub topic \<longleftrightarrow> hd ?ss = hd ?tt \<and> levels_match ?ss ?tt"
    unfolding tt ss by (rule tokens_match) (use assms(4,7) fl nm in auto)
  have "distinct (map ((#) (hd ?ss)) (retain_visits ?ss 0 ?f))" using retain_visits_distinct [OF h] by (simp add: distinct_map)
  then have c: "count_list (map ((#) (hd ?ss)) (retain_visits ?ss 0 ?f)) p =
      (if p \<in> set (map ((#) (hd ?ss)) (retain_visits ?ss 0 ?f)) then 1 else 0)" for p by (simp add: distinct_count)
  have "hd ?tt # ?tt \<in> set (map ((#) (hd ?ss)) (retain_visits ?ss 0 ?f)) \<longleftrightarrow>
      hd ?ss = hd ?tt \<and> ?tt \<in> set (retain_visits ?ss 0 ?f)" by auto
  also have "\<dots> \<longleftrightarrow> hd ?ss = hd ?tt \<and> levels_match ?ss ?tt \<and> \<not> missed ?ss 0 ?tt n"
  proof (cases "hd ?ss = hd ?tt")
    case True
    then have "node_at ?tt ?f = Some n" using assms(11,12) ne(1) by simp
    then show ?thesis using retain_visits_iff [OF h ne(2) bl ne(1)] True by simp
  qed simp
  finally have mem: "hd ?tt # ?tt \<in> set (map ((#) (hd ?ss)) (retain_visits ?ss 0 ?f)) \<longleftrightarrow>
      topic_match sub topic \<and> \<not> missed ?ss 0 ?tt n" using tm by blast
  show ?thesis using run unfolding c mem m by simp
qed

definition ex_retained :: "nat option forest" where
  "ex_retained = [([], Hier [([], Hier [(''a'', Hier [(''b'', Hier [] (Some 3)), (''c'', Hier [] (Some 4))] (Some 2))] None)] None),
     (''$SYS'', Hier [(''$SYS'', Hier [] (Some 5))] None)]"

theorem retained_by_filter_witness:
  "\<exists>scells h tcells. hash_find [] ex_retained = Some h \<and> tokens_of scells = [[], ''a'', ''#''] \<and> tokens_of tcells = [[], ''a''] \<and>
     retain_visits (tokens_of scells) 0 (hier_children h) = [[[], ''a'', ''b''], [[], ''a'', ''c''], [[], ''a'']] \<and>
     count_list (map ((#) []) (retain_visits (tokens_of scells) 0 (hier_children h))) ([] # tokens_of tcells) = 1"
proof -
  obtain tc where tc: "sub__topic_tokenise (\<lambda>_. True) ''a'' = Inr (tc, None)" "tokens_of tc = [[], ''a'']"
    using tokenise_cases [of "''a''" "\<lambda>_. True"] by auto
  obtain sc where sc: "sub__topic_tokenise (\<lambda>_. True) ''a/#'' = Inr (sc, None)" "tokens_of sc = [[], ''a'', ''#'']"
    using tokenise_cases [of "''a/#''" "\<lambda>_. True"] by auto
  obtain h where h: "hash_find (hd (tokens_of sc)) ex_retained = Some h"
    "retain_visits (tokens_of sc) 0 (hier_children h) = [[[], ''a'', ''b''], [[], ''a'', ''c''], [[], ''a'']]"
    by (simp add: sc ex_retained_def retain_visits.simps branch_visits_def)
  obtain n where n: "node_at (hd (tokens_of tc) # tokens_of tc) ex_retained = Some n"
    by (simp add: tc ex_retained_def)
  have m: "mosquitto_topic_matches_sub (Some ''a/#'') (Some ''a'') = Inr True"
    by (subst matcher_decides) (simp_all add: c_string_def mosquitto_sub_topic_check_def mosquitto_pub_topic_check_def
        TOPIC_HIERARCHY_LIMIT_def topic_match_def)
  have t: "c_string ''a''" "mosquitto_pub_topic_check (Some ''a'') = MOSQ_ERR_SUCCESS"
    "c_string ''a/#''" "mosquitto_sub_topic_check (Some ''a/#'') = MOSQ_ERR_SUCCESS"
    by (simp_all add: c_string_def mosquitto_sub_topic_check_def mosquitto_pub_topic_check_def TOPIC_HIERARCHY_LIMIT_def)
  have fo: "forest_ok ex_retained" by (simp add: ex_retained_def forest_ok_def)
  have "count_list (map ((#) (hd (tokens_of sc))) (retain_visits (tokens_of sc) 0 (hier_children h)))
        (hd (tokens_of tc) # tokens_of tc) =
      (if mosquitto_topic_matches_sub (Some ''a/#'') (Some ''a'') = Inr True \<and> \<not> missed (tokens_of sc) 0 (tokens_of tc) n then 1 else 0)"
    by (rule conjunct2 [OF retained_by_filter [OF fo TrueI t(1) _ t(2) t(3) _ t(4) tc(1) sc(1) h(1) n,
            where process = "\<lambda>a st. Some (0, Some a, st)" and st = "()"]]) simp_all
  moreover have "\<not> missed (tokens_of sc) 0 (tokens_of tc) n" by (simp add: missed_def sc tc)
  ultimately have "count_list (map ((#) []) (retain_visits (tokens_of sc) 0 (hier_children h))) ([] # tokens_of tc) = 1"
    by (simp only: m simp_thms if_True sc tc list.sel)
  then show ?thesis using h sc tc by (intro exI [of _ sc] exI [of _ h] exI [of _ tc]) (simp only: list.sel simp_thms refl)
qed

end
