(* ===== verification/Retained_Resend.thy ===== *)
theory Retained_Resend
  imports Retained_Inv Retain_Match
begin

text \<open>
  \<open>retain__queue\<close> in the broker: each visit of the search inserts a message into the queue of
  the new subscriber, or gives back the reference to a message that has expired.
\<close>

section \<open>One retained message\<close>

lemma retain_process_ok:
  assumes ok: "server_ok C (with_refs E (add_mset a N)) sv" and E: "\<forall>a. 0 \<le> E a" and c: "c \<in> C" and al: "\<forall>n. alloc n"
    and q: "sub_qos \<le> 2"
  shows "\<exists>rc d sv'. retain__process acl alloc net c sub_qos ident a sv = Some (rc, d, sv') \<and>
    server_ok C (with_refs E (N + owned d)) sv' \<and> db_step sv sv'"
proof -
  have "store_at (sv_db sv) a \<noteq> None" by (rule server_ok_store [OF ok with_refs_owned [OF E]]) simp
  then obtain store where s: "store_at (sv_db sv) a = Some store" by auto
  have leave: "\<exists>rc d sv'. Some (rc0, Some a, sv) = Some (rc, d, sv') \<and> server_ok C (with_refs E (N + owned d)) sv' \<and> db_step sv sv'"
    for rc0 :: int using ok by simp
  show ?thesis
  proof (cases "ms_message_expiry_time store > 0 \<and> db_now_real_s (sv_db sv) \<ge> ms_message_expiry_time store")
    case True
    obtain db where db: "db__msg_store_ref_dec a (sv_db sv) = Some db" "server_ok C (with_refs E N) (sv\<lparr>sv_db := db\<rparr>)"
      using server_give [OF ok E] by blast
    have "server_ok C (with_refs E N) (sv\<lparr>sv_db := db, sv_retained_count := sv_retained_count sv - 1\<rparr>)"
      using db(2) server_ok_count [of C _ _ "sv\<lparr>sv_db := db\<rparr>"] by simp
    then show ?thesis using True s db(1) ref_dec_from [OF db(1)] by (simp add: retain__process_def db_step_def)
  next
    case False
    define mq where "mq = (if cfg_upgrade_outgoing_qos (db_config (sv_db sv)) then sub_qos
      else if ms_qos store > sub_qos then sub_qos else ms_qos store)"
    have mq: "mq \<le> 2" using q by (simp add: mq_def)
    obtain mid ctx where m: "(if mq > 0 then mosquitto__mid_generate (sv_contexts sv c) else (0, sv_contexts sv c)) = (mid, ctx)"
      by fastforce
    have ctx: "ctx_msgs_in ctx = ctx_msgs_in (sv_contexts sv c)" "ctx_msgs_out ctx = ctx_msgs_out (sv_contexts sv c)"
      "identity ctx = identity (sv_contexts sv c)"
      using m mid_generate_msgs [of "sv_contexts sv c"] by (cases "mq = 0"; simp)+
    define props where "props = (if ident > 0 then
        (case mosquitto_property_add_varint alloc (Some []) MQTT_PROP_SUBSCRIPTION_IDENTIFIER ident of
           Inr props \<Rightarrow> props | Inl _ \<Rightarrow> []) else [])"
    have st: "store_at (sv_db sv) a \<noteq> None" using s by simp
    obtain rc bk where i: "db__message_insert alloc net (new_addr (ctx_msgs_out ctx)) mid mosq_md_out mq True a props False
        \<lparr>bk_db = sv_db sv, bk_ctx = ctx\<rparr> = Some (rc, bk)"
      "server_ok C (with_refs E (add_mset a N)) (sv\<lparr>sv_db := bk_db bk, sv_contexts := (sv_contexts sv)(c := bk_ctx bk)\<rparr>)"
      "ctx_msgs_in (bk_ctx bk) = ctx_msgs_in (sv_contexts sv c)" "stores_from (sv_db sv) (bk_db bk)"
      "identity (bk_ctx bk) = identity (sv_contexts sv c)"
      using insert_for_client [OF ok c al st mq ctx] by blast
    show ?thesis
      using i(2-5) leave
      unfolding retain__process_def s option.case if_not_P [OF False] Let_def mq_def [symmetric] m prod.case props_def [symmetric] i(1)
      by (simp add: db_step_def)
  qed
qed

section \<open>The search\<close>

lemma retain_visits_exist: "forest_ok f \<Longrightarrow> p \<in> set (retain_visits ts level f) \<Longrightarrow> data_at f p \<noteq> None"
proof (induction ts arbitrary: level f p)
  case (Cons t ts)
  show ?case
  proof (cases "t = ''#'' \<and> ts = []")
    case True
    then show ?thesis using Cons.prems hash_visits_iff [of f p] by (simp add: retain_visits.simps(2) data_at_def)
  next
    case False
    then obtain sel kb where kb: "kb \<in> set f" "p \<in> set (branch_visits sel ts level (retain_visits ts (level + 1)) kb)"
      using Cons.prems(2) by (simp only: retain_visits.simps(2)) auto
    obtain k b where b: "kb = (k, b)" by (cases kb)
    have h: "hash_find k f = Some b" using kb(1) Cons.prems(1) by (simp add: hash_find_def forest_ok_def b)
    have "forest_ok (hier_children b)" using forest_ok_find [OF Cons.prems(1) h] by (simp add: hier_ok_iff)
    then show ?thesis using kb(2) Cons.IH [of "hier_children b" _ "level + 1"] h
      by (auto simp: branch_visits_def b data_at_Cons split: if_splits)
  qed
qed simp

text \<open>The visitor of the search for retained messages, which never stops it.\<close>

definition opt_visit :: "('b \<Rightarrow> 's \<Rightarrow> (int \<times> 'b option \<times> 's) option) \<Rightarrow> 'b option \<Rightarrow> 's \<Rightarrow> (int \<times> 'b option \<times> 's) option" where
  "opt_visit process d st = map_option (\<lambda>(d, st). (0, d, st)) (opt_process process d st)"

lemma run_all_visits: "run_all process ps f st = map_option (\<lambda>(r, f, st). (f, st)) (run_visits (opt_visit process) ps b f st)"
proof (induction ps arbitrary: b f st)
  case (Cons p ps)
  show ?case
  proof (cases "data_at f p")
    case (Some d)
    then show ?thesis
      by (cases "opt_process process d st") (auto simp: opt_visit_def Cons.IH [of _ _ True] simp del: update_at.simps)
  qed simp
qed simp

definition resend_inv :: "(nat \<Rightarrow> bool) \<Rightarrow> nat set \<Rightarrow> (nat \<Rightarrow> int) \<Rightarrow> nat \<Rightarrow> nat \<Rightarrow> string \<Rightarrow> server \<Rightarrow> nat option forest \<Rightarrow> server \<Rightarrow> bool" where
  "resend_inv alloc C E c sub_qos root sv0 f sv \<longleftrightarrow> (\<forall>n. alloc n) \<and> (\<forall>a. 0 \<le> E a) \<and> c \<in> C \<and> sub_qos \<le> 2 \<and> db_step sv0 sv \<and>
     (\<exists>h. hash_find root (sv_retains sv) = Some h \<and>
        forest_ok (hash_put root (Hier f (hier_data h)) (sv_retains sv)) \<and>
        server_ok C (with_refs E (forest_refs (hash_put root (Hier f (hier_data h)) (sv_retains sv)))) sv)"

interpretation resend: node_visitor
    "opt_visit (retain__process acl alloc net c sub_qos ident)"
    "resend_inv alloc C E c sub_qos root sv0"
  for acl alloc net ident C E c sub_qos root sv0
proof
  fix f sv p d
  assume i: "resend_inv alloc C E c sub_qos root sv0 f sv" and d: "data_at f p = Some d"
  then obtain h where al: "\<forall>n. alloc n" and E: "\<forall>a. 0 \<le> E a" and c: "c \<in> C" and q: "sub_qos \<le> 2" and s0: "db_step sv0 sv"
    and h: "hash_find root (sv_retains sv) = Some h"
    and fo: "forest_ok (hash_put root (Hier f (hier_data h)) (sv_retains sv))"
    and ok: "server_ok C (with_refs E (forest_refs (hash_put root (Hier f (hier_data h)) (sv_retains sv)))) sv"
    by (auto simp: resend_inv_def)
  let ?F = "\<lambda>f. hash_put root (Hier f (hier_data h)) (sv_retains sv)"
  have p: "p \<noteq> []" using d by auto
  have u: "update_at (root # p) g (?F f) = ?F (update_at p g f)" for g using p h by simp
  have at: "data_at (?F f) (root # p) = Some d" using p h d by (simp add: data_at_Cons)
  note upd = forest_refs_update [OF fo at, unfolded u]
  have fo': "forest_ok (?F (update_at p g f))" for g using forest_ok_update [OF fo, of "root # p" g] unfolding u .
  have kept: "resend_inv alloc C E c sub_qos root sv0 (update_at p (\<lambda>_. d') f) sv'"
    if "server_ok C (with_refs E (forest_refs (?F (update_at p (\<lambda>_. d') f)))) sv'" "db_step sv sv'" for d' sv'
    using that db_step_trans [OF s0 that(2)] h fo' al E c q that(2) by (simp add: resend_inv_def db_step_def)
  show "\<exists>rc d' sv'. opt_visit (retain__process acl alloc net c sub_qos ident) d sv = Some (rc, d', sv') \<and>
      resend_inv alloc C E c sub_qos root sv0 (update_at p (\<lambda>_. d') f) sv'"
  proof (cases d)
    case None
    have "forest_refs (?F (update_at p (\<lambda>_. None) f)) = forest_refs (?F f)" using upd [of None] None by simp
    then show ?thesis using None ok kept [of None sv] by (simp add: opt_visit_def opt_process_def)
  next
    case (Some a)
    let ?N = "forest_refs (?F (update_at p (\<lambda>_. None) f))"
    have N: "forest_refs (?F f) = add_mset a ?N" using upd [of None] Some by simp
    obtain rc d' sv' where r: "retain__process acl alloc net c sub_qos ident a sv = Some (rc, d', sv')"
      "server_ok C (with_refs E (?N + owned d')) sv'" "db_step sv sv'"
      using retain_process_ok [OF ok [unfolded N] E c al q] by blast
    have "forest_refs (?F (update_at p (\<lambda>_. d') f)) = ?N + owned d'" using upd [of d'] N Some by simp
    then show ?thesis using Some r kept [of d' sv'] by (simp add: opt_visit_def opt_process_def)
  qed
qed

lemma retain_queue_ok:
  assumes ok: "server_ok C (with_refs E (forest_refs (sv_retains sv))) sv" and E: "\<forall>a. 0 \<le> E a" and c: "c \<in> C"
    and al: "\<forall>n. alloc n" and q: "sub_qos \<le> 2" and fo: "forest_ok (sv_retains sv)"
    and t: "sub__topic_tokenise alloc sub = Inr (cells, s)" "tokens_of cells \<noteq> []"
  shows "\<exists>sv'. retain__queue acl alloc net c sub sub_qos ident sv = Some (0, sv') \<and>
    server_ok C (with_refs E (forest_refs (sv_retains sv'))) sv' \<and> forest_ok (sv_retains sv') \<and>
    db_step sv (sv'\<lparr>sv_retains := sv_retains sv\<rparr>)"
proof -
  obtain root ts where ts: "tokens_of cells = root # ts" using t(2) by (cases "tokens_of cells") auto
  show ?thesis
  proof (cases "hash_find root (sv_retains sv)")
    case None
    then show ?thesis using ok fo t by (simp add: retain__queue_def ts)
  next
    case (Some h)
    let ?process = "retain__process acl alloc net c sub_qos ident"
    have ho: "forest_ok (hier_children h)" using forest_ok_find [OF fo Some] by (simp add: hier_ok_iff)
    have "hash_put root h (sv_retains sv) = sv_retains sv" using fo Some by (simp add: hash_put_same forest_ok_def)
    moreover have "Hier (hier_children h) (hier_data h) = h" by (cases h) simp
    ultimately have i: "resend_inv alloc C E c sub_qos root sv (hier_children h) sv"
      using ok E c al q fo Some by (simp add: resend_inv_def)
    let ?vs = "retain_visits (root # ts) 0 (hier_children h)"
    have v: "data_at (hier_children h) p \<noteq> None" if "p \<in> set ?vs" for p using retain_visits_exist [OF ho that] .
    obtain r f sv' where r: "run_visits (opt_visit ?process) ?vs False (hier_children h) sv = Some (r, f, sv')"
      "resend_inv alloc C E c sub_qos root sv f sv'"
      using resend.run_visits_keeps [OF i v] by blast
    then have "run_all ?process ?vs (hier_children h) sv = Some (f, sv')" by (simp add: run_all_visits [of _ _ _ _ False])
    then have "\<exists>flag. retain__search ?process (root # ts) 0 h sv = Some (flag, Hier f (hier_data h), sv')"
      using retain_search_run [OF ho, of "root # ts" ?process 0 "hier_data h" sv] by simp
    then have e: "retain__queue acl alloc net c sub sub_qos ident sv =
        Some (0, sv'\<lparr>sv_retains := hash_put root (Hier f (hier_data h)) (sv_retains sv')\<rparr>)"
      using Some t(1) by (auto simp: retain__queue_def ts)
    have d: "db_step sv sv'" using r(2) by (simp add: resend_inv_def)
    have "sv_retains sv' = sv_retains sv" using d by (simp add: db_step_def)
    moreover have "server_ok C R (sv'\<lparr>sv_retains := g\<rparr>) = server_ok C R sv'" for R g by (simp add: server_ok_def)
    ultimately show ?thesis using e r(2) Some d by (auto simp: resend_inv_def db_step_def)
  qed
qed

end
