(* ===== verification/Server_Run.thy ===== *)
theory Server_Run
  imports Server_Trees Retained_Resend Broker_Run
begin

text \<open>
  The whole broker as a transition system: publishing a message to the subscribers and the
  retained messages, sending retained messages to a new subscriber, subscribing, unsubscribing,
  the end of a session, and the operations of \<open>database.c\<close> on any client. Every call that its
  callers may make returns, and keeps the references to the stored messages, the pointers
  between clients and subscriptions and the trees consistent.
\<close>

section \<open>The invariant\<close>

definition server_inv :: "nat set \<Rightarrow> (nat \<Rightarrow> int) \<Rightarrow> server \<Rightarrow> bool" where
  "server_inv C E sv \<longleftrightarrow> (\<forall>a. 0 \<le> E a) \<and> server_ok C (with_refs E (forest_refs (sv_retains sv))) sv \<and>
     tree_inv C sv \<and> forest_ok (sv_retains sv)"

text \<open>The tokens of a topic.\<close>

lemma levels_length: "l \<in> set (levels s) \<Longrightarrow> length l \<le> length s"
proof (induction s arbitrary: l)
  case (Cons c s)
  then show ?case by (cases "levels s") (auto split: if_splits intro: le_SucI)
qed simp

lemma tokens_from_levels:
  assumes "topic \<noteq> []" and "\<forall>n. alloc n"
  shows "(\<exists>e. sub__topic_tokenise alloc topic = Inl (Rc e) \<and> e \<noteq> MOSQ_ERR_SUCCESS) \<or>
    (\<exists>cells s. sub__topic_tokenise alloc topic = Inr (cells, s) \<and> tokens_of cells \<noteq> [] \<and>
       set (tokens_of cells) \<subseteq> insert [] (set (levels topic)))"
proof -
  have lv: "levels topic \<noteq> []" by (metis levels_Cons_hd list.distinct(1))
  show ?thesis
    using tokenise_cases [of topic alloc] assms lv set_drop_subset [of 2 "levels topic"]
    by (auto simp: Let_def split: if_splits)
qed

lemma empty_topic: "sub__topic_tokenise alloc [] = Inl (Rc MOSQ_ERR_INVAL)"
  by (simp add: sub__topic_tokenise_def)

text \<open>What \<open>handle__publish\<close> has checked of a topic.\<close>

definition publishable :: "string \<Rightarrow> bool" where
  "publishable topic \<longleftrightarrow> mosquitto_pub_topic_check (Some topic) = MOSQ_ERR_SUCCESS"

lemma publishable_levels:
  assumes "publishable topic" and "l \<in> insert [] (set (levels topic))"
  shows "length l \<le> 65535" "l \<noteq> ''+''" "l \<noteq> ''#''"
proof -
  have n: "name_ok topic" using assms(1) pub_check_name_ok by (simp add: publishable_def)
  have "length topic \<le> 65535"
    using assms(1) by (simp add: publishable_def mosquitto_pub_topic_check_def pub_check_loop_eq split: if_splits)
  then show "length l \<le> 65535" using assms(2) levels_length [of l topic] by auto
  show "l \<noteq> ''+''" "l \<noteq> ''#''" using assms(2) name_ok_levels [OF n] by auto
qed

section \<open>Publishing\<close>

text \<open>What handing out a message leaves alone: topics of stored messages, and incoming messages.\<close>

definition msgs_frame :: "server \<Rightarrow> server \<Rightarrow> bool" where
  "msgs_frame sv sv' \<longleftrightarrow> stores_from (sv_db sv) (sv_db sv') \<and> (\<forall>d. ctx_msgs_in (sv_contexts sv' d) = ctx_msgs_in (sv_contexts sv d)) \<and>
     (\<forall>d. identity (sv_contexts sv' d) = identity (sv_contexts sv d))"

lemma msgs_frame_refl [simp]: "msgs_frame sv sv"
  by (simp add: msgs_frame_def)

lemma msgs_frame_trans: "msgs_frame a b \<Longrightarrow> msgs_frame b d \<Longrightarrow> msgs_frame a d"
  unfolding msgs_frame_def using stores_from_trans by metis

text \<open>What is left of it when incoming messages change: the topics, and who the clients are.\<close>

definition session_frame :: "server \<Rightarrow> server \<Rightarrow> bool" where
  "session_frame sv sv' \<longleftrightarrow> stores_from (sv_db sv) (sv_db sv') \<and>
     (\<forall>d. identity (sv_contexts sv' d) = identity (sv_contexts sv d))"

lemma session_frame_refl [simp]: "session_frame sv sv"
  by (simp add: session_frame_def)

lemma session_frame_trans: "session_frame a b \<Longrightarrow> session_frame b d \<Longrightarrow> session_frame a d"
  unfolding session_frame_def using stores_from_trans by metis

lemma session_frameI:
  "msgs_frame sv sv' \<Longrightarrow> session_frame sv sv'" "subs_step sv sv' \<Longrightarrow> session_frame sv sv'"
  "db_step sv (sv'\<lparr>sv_retains := rs\<rparr>) \<Longrightarrow> session_frame sv sv'"
  "dir_frame d (the_client sv c) bk \<Longrightarrow> session_frame sv (put_client c bk sv)"
  by (auto simp: session_frame_def msgs_frame_def subs_step_def db_step_def dir_frame_def db_frame_def the_client_def put_client_def)

lemma msgs_frame_db: "stores_from (sv_db sv) db \<Longrightarrow> msgs_frame sv (sv\<lparr>sv_db := db\<rparr>)"
  by (simp add: msgs_frame_def)

lemma search_subscribers_ok:
  assumes ok: "server_ok C R sv" and st: "0 < R stored" and al: "\<forall>n. alloc n" and tree: "tree_inv C sv"
    and w: "''+'' \<notin> set ts" "''#'' \<notin> set ts"
  shows "\<exists>rc sv'. (case hash_find root (sv_subs sv) of
        None \<Rightarrow> Some (0, sv)
      | Some h \<Rightarrow>
          map_option (\<lambda>(rc, h, sv). (rc, sv\<lparr>sv_subs := hash_put root h (sv_subs sv)\<rparr>))
            (sub__search (subs__process (\<lambda>leaf. subs__send acl alloc net leaf topic qos retain stored) source_id) ts h sv)) = Some (rc, sv') \<and>
    server_ok C R sv' \<and> tree_inv C sv' \<and> sv_retains sv' = sv_retains sv \<and> msgs_frame sv sv'"
proof (cases "hash_find root (sv_subs sv)")
  case None
  then show ?thesis using ok tree by simp
next
  case (Some h)
  have fo: "forest_ok (sv_subs sv)" using tree by (simp add: tree_inv_def)
  have h: "hier_ok h" by (rule forest_ok_find [OF fo Some])
  have "hash_put root h (sv_subs sv) = sv_subs sv" using fo Some by (simp add: hash_put_same forest_ok_def)
  moreover have "Hier (hier_children h) (hier_data h) = h" by (cases h) simp
  ultimately have i: "deliver_inv alloc C R stored root sv (hier_children h) sv"
    using ok st al tree Some by (simp add: deliver_inv_def)
  obtain rc f sv' where s: "sub__search (subs__process (\<lambda>leaf. subs__send acl alloc net leaf topic qos retain stored) source_id) ts h sv =
      Some (rc, Hier f (hier_data h), sv')" "deliver_inv alloc C R stored root sv f sv'"
    using delivery.search_keeps [OF i h w] by blast
  have t: "same_trees sv sv'" using s(2) by (simp add: deliver_inv_def)
  then have "sv' = sv\<lparr>sv_db := sv_db sv', sv_contexts := sv_contexts sv'\<rparr>" by (simp add: same_trees_def)
  then have same: "sv_subs sv' = sv_subs sv" "sv_retains sv' = sv_retains sv"
    by (metis server.select_convs server.surjective server.update_convs(1,2))+
  then show ?thesis using Some s t by (auto simp: deliver_inv_def server_ok_def same_trees_def msgs_frame_def)
qed

lemma messages_queue_ok:
  assumes inv: "server_inv C E sv" and st: "store_at (sv_db sv) stored \<noteq> None" and al: "\<forall>n. alloc n" and t: "publishable topic"
  shows "\<exists>rc sv'. sub__messages_queue acl alloc net source_id topic qos retain stored sv = Some (rc, sv') \<and> server_inv C E sv' \<and>
    msgs_frame sv sv'"
proof -
  consider e where "sub__topic_tokenise alloc topic = Inl (Rc e)"
    | cells s root ts where "sub__topic_tokenise alloc topic = Inr (cells, s)" "tokens_of cells = root # ts"
      "set (root # ts) \<subseteq> insert [] (set (levels topic))"
    using tokens_from_levels [OF _ al, of topic] empty_topic [of alloc] by (metis list.exhaust)
  then show ?thesis
  proof cases
    case 1
    then show ?thesis using inv by (simp add: sub__messages_queue_def)
  next
    case 2
    have E: "\<forall>a. 0 \<le> E a" and ok: "server_ok C (with_refs E (forest_refs (sv_retains sv))) sv" and tree: "tree_inv C sv"
      and fo: "forest_ok (sv_retains sv)" using inv by (simp_all add: server_inv_def)
    have tok: "length x \<le> 65535 \<and> x \<noteq> ''+'' \<and> x \<noteq> ''#''" if "x \<in> set (root # ts)" for x
      using publishable_levels [OF t, of x] that 2(3) by blast
    obtain db where db: "db__msg_store_ref_inc stored (sv_db sv) = Some db"
      "server_ok C (with_refs E (add_mset stored (forest_refs (sv_retains sv)))) (sv\<lparr>sv_db := db\<rparr>)"
      using server_take [OF ok st] by blast
    let ?R = "with_refs E (add_mset stored (forest_refs (sv_retains sv)))" and ?sv = "sv\<lparr>sv_db := db\<rparr>"
    have R: "0 < ?R stored" by (rule with_refs_owned [OF E]) simp
    have tree1: "tree_inv C ?sv" using tree by (simp add: tree_inv_def subs_inv_def)
    have w: "''+'' \<notin> set (root # ts)" "''#'' \<notin> set (root # ts)" using tok by blast+
    obtain rc2 sv2 where s2: "(case hash_find root (sv_subs ?sv) of
        None \<Rightarrow> Some (0, ?sv)
      | Some h \<Rightarrow>
          map_option (\<lambda>(rc, h, sv). (rc, sv\<lparr>sv_subs := hash_put root h (sv_subs sv)\<rparr>))
            (sub__search (subs__process (\<lambda>leaf. subs__send acl alloc net leaf topic qos retain stored) source_id) (root # ts) h ?sv)) =
        Some (rc2, sv2)"
      "server_ok C ?R sv2" "tree_inv C sv2" "sv_retains sv2 = sv_retains sv" "msgs_frame ?sv sv2"
      using search_subscribers_ok [OF db(2) R al tree1 w] by fastforce
    obtain rc3 sv3 where s3: "(if retain then
          map_option (\<lambda>(rc, sv). (if rc \<noteq> 0 then rc else rc2, sv)) (retain__store alloc topic stored (root # ts) sv2)
        else Some (rc2, sv2)) = Some (rc3, sv3)"
      "server_ok C (with_refs E (add_mset stored (forest_refs (sv_retains sv3)))) sv3" "tree_inv C sv3" "forest_ok (sv_retains sv3)" "msgs_frame sv2 sv3"
    proof (cases retain)
      case False
      then show ?thesis using that s2 fo by simp
    next
      case True
      have len: "\<forall>x \<in> set (root # ts). length x \<le> 65535" using tok by blast
      have ok2: "server_ok C (with_refs E (add_mset stored (forest_refs (sv_retains sv2)))) sv2" using s2(2,4) by simp
      have fo2: "forest_ok (sv_retains sv2)" using fo s2(4) by simp
      obtain sv3 where r: "retain__store alloc topic stored (root # ts) sv2 = Some (0, sv3)"
        "server_ok C (with_refs E (add_mset stored (forest_refs (sv_retains sv3)))) sv3" "forest_ok (sv_retains sv3)"
        "db_step sv2 (sv3\<lparr>sv_retains := sv_retains sv2\<rparr>)"
        using retain_store_ok [where alloc = alloc, OF ok2 E al fo2 len] by blast
      have "tree_inv C (sv3\<lparr>sv_retains := sv_retains sv2\<rparr>)" using tree_inv_db_step [OF r(4)] s2(3) by simp
      then have "tree_inv C sv3" by (simp add: tree_inv_def subs_inv_def)
      moreover have "msgs_frame sv2 sv3" using r(4) by (simp add: db_step_def msgs_frame_def)
      ultimately show ?thesis using that True r by simp
    qed
    obtain db4 where db4: "db__msg_store_ref_dec stored (sv_db sv3) = Some db4"
      "server_ok C (with_refs E (forest_refs (sv_retains sv3))) (sv3\<lparr>sv_db := db4\<rparr>)"
      using server_give [OF s3(2) E] by blast
    have "tree_inv C (sv3\<lparr>sv_db := db4\<rparr>)" using s3(3) by (simp add: tree_inv_def subs_inv_def)
    then have "server_inv C E (sv3\<lparr>sv_db := db4\<rparr>)" using E db4(2) s3(4) by (simp add: server_inv_def)
    moreover have "msgs_frame sv (sv3\<lparr>sv_db := db4\<rparr>)"
      using msgs_frame_db [OF ref_inc_from [OF db(1)]] s2(5) s3(5) msgs_frame_db [OF ref_dec_from [OF db4(1)]] msgs_frame_trans by metis
    moreover have "sub__messages_queue acl alloc net source_id topic qos retain stored sv = Some (rc3, sv3\<lparr>sv_db := db4\<rparr>)"
      by (simp only: sub__messages_queue_def Let_def 2(1,2) sum.case prod.case list.case db(1) s2(1) s3(1) db4(1)
          bind.bind_lunit option.map)
    ultimately show ?thesis by blast
  qed
qed

section \<open>Releasing\<close>

text \<open>An operation on one client, seen from the broker.\<close>

lemma put_client_frame: "subs_inv C (put_client c bk sv) = subs_inv C sv" "sv_subs (put_client c bk sv) = sv_subs sv"
  "sv_retains (put_client c bk sv) = sv_retains sv" "tree_inv C (put_client c bk sv) = tree_inv C sv"
  by (simp_all add: put_client_def subs_inv_def tree_inv_def)

lemma server_inv_put:
  "server_inv C E sv \<Longrightarrow> server_ok C (with_refs E (forest_refs (sv_retains sv))) (put_client c bk sv) \<Longrightarrow>
   server_inv C E (put_client c bk sv)"
  by (simp add: server_inv_def put_client_frame)

lemma server_inv_client:
  assumes inv: "server_inv C E sv" and c: "c \<in> C"
    and f: "\<And>E. broker_inv False E (the_client sv c) \<Longrightarrow> ends_well False E r"
  shows "\<exists>rc bk. r = Some (rc, bk) \<and> server_inv C E (put_client c bk sv)"
proof -
  have ok: "server_ok C (with_refs E (forest_refs (sv_retains sv))) sv" using inv by (simp add: server_inv_def)
  from on_client [OF ok c f] show ?thesis using server_inv_put [OF inv] by blast
qed

lemma client_addrs: "inflight_addrs mosq_md_in (the_client sv c) = map cm_addr (md_inflight (ctx_msgs_in (sv_contexts sv c)))"
  by (simp add: the_client_def)

text \<open>The topics that a client may still release are those of stored messages.\<close>

definition topics_ok :: "mosquitto_db \<Rightarrow> bool" where
  "topics_ok db \<longleftrightarrow> (\<forall>a s t. store_at db a = Some s \<longrightarrow> ms_topic s = Some t \<longrightarrow> publishable t)"

lemma topics_ok_from: "topics_ok db \<Longrightarrow> stores_from db db' \<Longrightarrow> topics_ok db'"
  unfolding topics_ok_def stores_from_def by metis

lemma remove_client:
  assumes inv: "server_inv C E sv" and c: "c \<in> C" and a: "a \<in> set (inflight_addrs mosq_md_in (the_client sv c))"
  shows "\<exists>bk. remove_msg mosq_md_in a (the_client sv c) = Some bk \<and> server_inv C E (put_client c bk sv) \<and>
    inflight_addrs mosq_md_in (the_client (put_client c bk sv) c) =
      filter (\<lambda>b. b \<noteq> a) (inflight_addrs mosq_md_in (the_client sv c)) \<and>
    session_frame sv (put_client c bk sv)"
proof -
  have ok: "server_ok C (with_refs E (forest_refs (sv_retains sv))) sv" using inv by (simp add: server_inv_def)
  let ?O = "outside_refs C (with_refs E (forest_refs (sv_retains sv))) sv c"
  obtain bk where bk: "remove_msg mosq_md_in a (the_client sv c) = Some bk" "broker_inv False ?O bk"
    "inflight_addrs mosq_md_in bk = filter (\<lambda>b. b \<noteq> a) (inflight_addrs mosq_md_in (the_client sv c))"
    "dir_frame mosq_md_in (the_client sv c) bk"
    using remove_step [OF client_inv [OF ok c] a] by blast
  moreover have "inflight_addrs mosq_md_in (the_client (put_client c bk sv) c) = inflight_addrs mosq_md_in bk"
    by (simp add: the_client_def put_client_def)
  ultimately show ?thesis
    using bk session_frameI(4) [OF bk(4)] server_inv_put [OF inv put_client_ok [OF ok c bk(2)]] by (auto simp: put_client_def)
qed

lemma release_inflight_ok:
  assumes c: "c \<in> C" and al: "\<forall>n. alloc n"
  shows "server_inv C E sv \<Longrightarrow> topics_ok (sv_db sv) \<Longrightarrow> distinct as \<Longrightarrow>
    set as \<subseteq> set (inflight_addrs mosq_md_in (the_client sv c)) \<Longrightarrow>
    \<exists>r sv'. release_inflight acl alloc net c mid as i deleted sv = Some (r, sv') \<and> server_inv C E sv' \<and> session_frame sv sv'"
proof (induction as arbitrary: sv i deleted)
  case (Cons a as)
  have ok: "server_ok C (with_refs E (forest_refs (sv_retains sv))) sv" using Cons.prems(1) by (simp add: server_inv_def)
  have a: "a \<in> set (inflight_addrs mosq_md_in (the_client sv c))" using Cons.prems(4) by simp
  obtain m s where m: "find_msg a (md_inflight (ctx_msgs_in (sv_contexts sv c))) = Some m"
    "store_at (sv_db sv) (cm_store m) = Some s"
    using inflight_lookup [OF client_inv [OF ok c] a] by (auto simp: the_client_def)
  have rem: "\<exists>r sv'. Option.bind (remove_msg mosq_md_in a (the_client sv1 c)) (\<lambda>bk.
        release_inflight acl alloc net c mid as (i + 1) True (put_client c bk sv1)) = Some (r, sv') \<and> server_inv C E sv' \<and> session_frame sv sv'"
    if v: "server_inv C E sv1" "msgs_frame sv sv1" for sv1
  proof -
    have same: "inflight_addrs mosq_md_in (the_client sv1 c) = inflight_addrs mosq_md_in (the_client sv c)"
      using v(2) by (simp add: msgs_frame_def the_client_def)
    have t: "topics_ok (sv_db sv1)" using topics_ok_from [OF Cons.prems(2)] v(2) by (simp add: msgs_frame_def)
    obtain bk where bk: "remove_msg mosq_md_in a (the_client sv1 c) = Some bk" "server_inv C E (put_client c bk sv1)"
      "inflight_addrs mosq_md_in (the_client (put_client c bk sv1) c) =
        filter (\<lambda>b. b \<noteq> a) (inflight_addrs mosq_md_in (the_client sv1 c))"
      "session_frame sv1 (put_client c bk sv1)"
      using remove_client [OF v(1) c, of a] a unfolding same by blast
    have "set as \<subseteq> set (inflight_addrs mosq_md_in (the_client (put_client c bk sv1) c))"
      unfolding bk(3) same using Cons.prems(3,4) by auto
    from Cons.IH [OF bk(2) topics_ok_from [OF t] _ this] show ?thesis
      using bk(1,4) Cons.prems(3) session_frame_trans [OF session_frame_trans [OF session_frameI(1) [OF v(2)] bk(4)]]
      by (fastforce simp: session_frame_def)
  qed
  have skip: "\<exists>r sv'. release_inflight acl alloc net c mid as (i + 1) deleted sv = Some (r, sv') \<and> server_inv C E sv' \<and> session_frame sv sv'"
    using Cons.IH [OF Cons.prems(1,2)] Cons.prems(3,4) by simp
  show ?case
  proof (cases "ms_topic s")
    case None
    then show ?thesis using m skip rem [OF Cons.prems(1)] Cons.prems(1) by simp
  next
    case (Some t)
    have "publishable t" using Cons.prems(2) m(2) Some by (auto simp: topics_ok_def)
    then obtain rc sv1 where sv1: "sub__messages_queue acl alloc net (Some (ms_source_id s)) t 2 (cm_retain m) (cm_store m) sv = Some (rc, sv1)"
      "server_inv C E sv1" "msgs_frame sv sv1"
      using messages_queue_ok [OF Cons.prems(1), of "cm_store m" alloc t acl net "Some (ms_source_id s)" 2 "cm_retain m"] m(2) al
      by blast
    then show ?thesis using Some m skip rem [OF sv1(2,3)] session_frameI(1) [OF sv1(3)] Cons.prems(1) by simp
  qed
qed simp

lemma release_incoming_ok:
  assumes inv: "server_inv C E sv" and c: "c \<in> C" and al: "\<forall>n. alloc n" and t: "topics_ok (sv_db sv)"
  shows "\<exists>rc sv'. db__message_release_incoming acl alloc net c mid sv = Some (rc, sv') \<and> server_inv C E sv' \<and> session_frame sv sv'"
proof -
  have ok: "server_ok C (with_refs E (forest_refs (sv_retains s))) s" if "server_inv C E s" for s
    using that by (simp add: server_inv_def)
  have d: "distinct (inflight_addrs mosq_md_in (the_client sv c))" by (rule inflight_distinct(1) [OF client_inv [OF ok [OF inv] c]])
  obtain r sv1 where 1: "release_inflight acl alloc net c mid (inflight_addrs mosq_md_in (the_client sv c)) 0 False sv = Some (r, sv1)"
    "server_inv C E sv1" "session_frame sv sv1"
    using release_inflight_ok [where alloc = alloc, OF c al inv t d] by blast
  let ?O = "outside_refs C (with_refs E (forest_refs (sv_retains sv1))) sv1 c"
  obtain bk where bk: "release_queued net (queued_addrs mosq_md_in (the_client sv1 c)) (fst (projr r)) (the_client sv1 c) = Some bk"
    "broker_inv False ?O bk" "dir_frame mosq_md_in (the_client sv1 c) bk"
    using release_queued_ok [OF client_inv [OF ok [OF 1(2)] c], of "[]" "queued_addrs mosq_md_in (the_client sv1 c)" net] by auto
  have "server_inv C E (put_client c bk sv1)" by (rule server_inv_put [OF 1(2) put_client_ok [OF ok [OF 1(2)] c bk(2)]])
  moreover have "session_frame sv (put_client c bk sv1)" by (rule session_frame_trans [OF 1(3) session_frameI(4) [OF bk(3)]])
  moreover have "queued_addrs mosq_md_in (the_client sv1 c) = map cm_addr (md_queued (ctx_msgs_in (sv_contexts sv1 c)))"
    by (simp add: the_client_def)
  ultimately show ?thesis
    using 1 bk(1) unfolding client_addrs by (cases r) (auto simp: db__message_release_incoming_def)
qed

text \<open>A message is stored, for which no client is needed.\<close>

lemma server_message_store:
  assumes ok: "server_ok C R sv" and new: "store_at (sv_db sv) addr = None" and rc0: "ms_ref_count store = 0"
    and r: "db__message_store alloc source addr store expiry store_id origin (sv_db sv) = (rc, db)"
  shows "server_ok C R (sv\<lparr>sv_db := db\<rparr>) \<and> (rc = MOSQ_ERR_SUCCESS \<longrightarrow> store_at db addr \<noteq> None)"
proof -
  let ?md = "\<lambda>md. md\<lparr>md_inflight := [], md_queued := [], md_inflight_quota := 0, md_inflight_maximum := 0\<rparr>"
  let ?ctx = "(sv_contexts sv 0)\<lparr>ctx_msgs_in := ?md (ctx_msgs_in (sv_contexts sv 0)), ctx_msgs_out := ?md (ctx_msgs_out (sv_contexts sv 0))\<rparr>"
  let ?bk = "\<lparr>bk_db = sv_db sv, bk_ctx = ?ctx\<rparr>" and ?E = "\<lambda>a. client_refs (sv_contexts sv) C a + R a"
  have e: "broker_inv False E \<lparr>bk_db = db, bk_ctx = ?ctx\<rparr> \<longleftrightarrow> stores_ok E db []" for E db
    by (simp add: broker_inv_def safe_inv_def ctx_refs_def md_refs_def md_msgs_def unique_msgs_def quota_ok_def)
  have "broker_inv False ?E ?bk" using ok unfolding e by (simp add: server_ok_def)
  from message_store_ok [OF this _ rc0, of addr alloc source expiry store_id origin rc db] new r
  have "broker_inv False ?E \<lparr>bk_db = db, bk_ctx = ?ctx\<rparr>" "rc = MOSQ_ERR_SUCCESS \<longrightarrow> store_at db addr \<noteq> None" by simp_all
  then show ?thesis using ok unfolding e by (simp add: server_ok_def)
qed

lemma easy_queue_ok:
  assumes inv: "server_inv C E sv" and al: "\<forall>n. alloc n" and new: "store_at (sv_db sv) addr = None"
    and len: "unat payloadlen \<le> length payload" "payloadlen + 1 \<noteq> 0" and t: "\<And>t. topic = Some t \<Longrightarrow> publishable t"
  shows "\<exists>rc sv'. db__messages_easy_queue acl alloc net addr context topic qos payloadlen payload retain
     expiry properties sv = Some (rc, sv') \<and> server_inv C E sv'"
proof -
  have ok: "server_ok C (with_refs E (forest_refs (sv_retains sv))) sv" using inv by (simp add: server_inv_def)
  have *: "\<exists>rc sv'. (case db__message_store alloc source addr store expiry 0 origin (sv_db sv) of
      (rc, db) \<Rightarrow>
        if rc \<noteq> MOSQ_ERR_SUCCESS then Some (1, sv\<lparr>sv_db := db\<rparr>)
        else sub__messages_queue acl alloc net (Some source_id) t qos (ms_retain store) addr (sv\<lparr>sv_db := db\<rparr>)) = Some (rc, sv') \<and>
      server_inv C E sv'"
    if "ms_ref_count store = 0" "publishable t" for source store origin source_id t
  proof -
    obtain rc db where r: "db__message_store alloc source addr store expiry 0 origin (sv_db sv) = (rc, db)" by fastforce
    have s: "server_ok C (with_refs E (forest_refs (sv_retains sv))) (sv\<lparr>sv_db := db\<rparr>)"
      "rc = MOSQ_ERR_SUCCESS \<longrightarrow> store_at db addr \<noteq> None"
      using server_message_store [OF ok new that(1) r] by simp_all
    have i: "server_inv C E (sv\<lparr>sv_db := db\<rparr>)" using inv s(1) by (simp add: server_inv_def tree_inv_def subs_inv_def)
    show ?thesis
    proof (cases "rc = MOSQ_ERR_SUCCESS")
      case True
      then show ?thesis using s(2) messages_queue_ok [OF i _ al that(2), of addr acl net "Some source_id" qos "ms_retain store"] r by auto
    qed (use r i in simp)
  qed
  show ?thesis
    using len t inv unfolding db__messages_easy_queue_def Let_def by (auto split: option.split intro!: *)
qed

section \<open>Calls\<close>

datatype server_op =
    Publish "string option" string nat bool nat
  | Resend nat string nat u32
  | Subscribe nat string nat u32 u8
  | Unsubscribe nat string u8
  | Clean_session nat
  | Release nat u16
  | Easy_queue nat "nat option" "string option" nat u32 "u8 list" bool int "mosquitto_property list"
  | Client nat broker_op
  | Take nat
  | Give nat

fun serve :: "acl_check \<Rightarrow> retain_acl \<Rightarrow> (nat \<Rightarrow> bool) \<Rightarrow> net \<Rightarrow> server_op \<Rightarrow> server \<Rightarrow> (int \<times> server) option" where
  "serve acl racl alloc net (Publish source_id topic qos retain stored) sv =
     sub__messages_queue acl alloc net source_id topic qos retain stored sv"
| "serve acl racl alloc net (Resend c sub qos ident) sv = retain__queue racl alloc net c sub qos ident sv"
| "serve acl racl alloc net (Subscribe c sub qos ident options) sv = sub__add alloc c sub qos ident options sv"
| "serve acl racl alloc net (Unsubscribe c sub reason) sv =
     map_option (\<lambda>(rc, sv, reason). (rc, sv)) (sub__remove alloc c sub reason sv)"
| "serve acl racl alloc net (Clean_session c) sv = sub__clean_session c sv"
| "serve acl racl alloc net (Release c mid) sv = db__message_release_incoming acl alloc net c mid sv"
| "serve acl racl alloc net (Easy_queue addr c topic qos len payload retain expiry props) sv =
     db__messages_easy_queue acl alloc net addr c topic qos len payload retain expiry props sv"
| "serve acl racl alloc net (Client c op) sv =
     map_option (\<lambda>(rc, bk). (rc, put_client c bk sv)) (perform alloc net op (the_client sv c))"
| "serve acl racl alloc net (Take a) sv =
     map_option (\<lambda>db. (0, sv\<lparr>sv_db := db\<rparr>)) (db__msg_store_ref_inc a (sv_db sv))"
| "serve acl racl alloc net (Give a) sv =
     map_option (\<lambda>db. (0, sv\<lparr>sv_db := db\<rparr>)) (db__msg_store_ref_dec a (sv_db sv))"

text \<open>
  What the callers ensure: topics have passed the check of \<open>handle__publish\<close>, stored messages are
  there, clients have different identifiers, and references are given back by who has them.
\<close>

fun takes_reference :: "broker_op \<Rightarrow> bool" where
  "takes_reference (Op_ref_inc a) \<longleftrightarrow> True"
| "takes_reference (Op_ref_dec a) \<longleftrightarrow> True"
| "takes_reference _ \<longleftrightarrow> False"

fun server_allowed :: "(nat \<Rightarrow> bool) \<Rightarrow> nat set \<Rightarrow> (nat \<Rightarrow> int) \<Rightarrow> server_op \<Rightarrow> server \<Rightarrow> bool" where
  "server_allowed alloc C E (Publish source_id topic qos retain stored) sv \<longleftrightarrow>
     store_at (sv_db sv) stored \<noteq> None \<and> publishable topic"
| "server_allowed alloc C E (Resend c sub qos ident) sv \<longleftrightarrow> c \<in> C \<and> qos \<le> 2"
| "server_allowed alloc C E (Subscribe c sub qos ident options) sv \<longleftrightarrow>
     c \<in> C \<and> qos \<le> 2 \<and> (\<exists>cid. ctx_id (sv_contexts sv c) = Some cid \<and> (\<forall>d. ctx_id (sv_contexts sv d) = Some cid \<longrightarrow> d = c))"
| "server_allowed alloc C E (Unsubscribe c sub reason) sv \<longleftrightarrow> c \<in> C"
| "server_allowed alloc C E (Clean_session c) sv \<longleftrightarrow> c \<in> C"
| "server_allowed alloc C E (Release c mid) sv \<longleftrightarrow> c \<in> C \<and> topics_ok (sv_db sv)"
| "server_allowed alloc C E (Easy_queue addr c topic qos len payload retain expiry props) sv \<longleftrightarrow>
     store_at (sv_db sv) addr = None \<and> unat len \<le> length payload \<and> len + 1 \<noteq> 0 \<and>
     (case topic of None \<Rightarrow> True | Some t \<Rightarrow> publishable t)"
| "server_allowed alloc C E (Client c op) sv \<longleftrightarrow> c \<in> C \<and> \<not> takes_reference op \<and> allowed alloc E op (the_client sv c)"
| "server_allowed alloc C E (Take a) sv \<longleftrightarrow> store_at (sv_db sv) a \<noteq> None"
| "server_allowed alloc C E (Give a) sv \<longleftrightarrow> 0 < E a"

fun server_outside :: "server_op \<Rightarrow> (nat \<Rightarrow> int) \<Rightarrow> (nat \<Rightarrow> int)" where
  "server_outside (Take a) E = E(a := E a + 1)"
| "server_outside (Give a) E = E(a := E a - 1)"
| "server_outside _ E = E"

inductive server_step ::
  "acl_check \<Rightarrow> retain_acl \<Rightarrow> (nat \<Rightarrow> bool) \<Rightarrow> net \<Rightarrow> nat set \<Rightarrow> (nat \<Rightarrow> int) \<times> server \<Rightarrow> (nat \<Rightarrow> int) \<times> server \<Rightarrow> bool"
  for acl racl alloc net C where
  server_call: "server_allowed alloc C E op sv \<Longrightarrow> serve acl racl alloc net op sv = Some (rc, sv') \<Longrightarrow>
    server_step acl racl alloc net C (E, sv) (server_outside op E, sv')"

inductive_cases server_stepE: "server_step acl racl alloc net C (E, sv) st"

text \<open>The broker after \<open>db__open\<close> and the connection of clients without messages.\<close>

definition server_initial :: "nat set \<Rightarrow> (nat \<Rightarrow> int) \<times> server \<Rightarrow> bool" where
  "server_initial C st \<longleftrightarrow> finite C \<and> fst st = (\<lambda>_. 0) \<and>
     (\<forall>c \<in> C. empty_msgs (ctx_msgs_in (sv_contexts (snd st) c)) \<and> empty_msgs (ctx_msgs_out (sv_contexts (snd st) c))) \<and>
     db_msg_store (sv_db (snd st)) = [] \<and> db_msg_store_count (sv_db (snd st)) = 0 \<and> db_msg_store_bytes (sv_db (snd st)) = 0 \<and>
     forest_ok (sv_subs (snd st)) \<and> (\<forall>p. view (sv_subs (snd st)) p = no_subs) \<and>
     sv_sub_refs (snd st) = (\<lambda>_. []) \<and> sv_shared_refs (snd st) = (\<lambda>_. []) \<and>
     sv_subscription_count (snd st) = 0 \<and> sv_shared_subscription_count (snd st) = 0 \<and>
     forest_ok (sv_retains (snd st)) \<and> forest_refs (sv_retains (snd st)) = {#}"

definition server_reachable ::
  "acl_check \<Rightarrow> retain_acl \<Rightarrow> (nat \<Rightarrow> bool) \<Rightarrow> net \<Rightarrow> nat set \<Rightarrow> (nat \<Rightarrow> int) \<times> server \<Rightarrow> bool" where
  "server_reachable acl racl alloc net C st \<longleftrightarrow>
     (\<exists>st0. server_initial C st0 \<and> (server_step acl racl alloc net C)\<^sup>*\<^sup>* st0 st)"

section \<open>Every call of the broker keeps the invariant\<close>

lemma server_initial_inv: "server_initial C (E, sv) \<Longrightarrow> server_inv C E sv"
  by (auto simp: server_initial_def server_inv_def with_refs_def [abs_def] server_ok_def client_refs_def client_ok_def empty_msgs_def
      stores_ok_def ctx_refs_def md_refs_def md_msgs_def unique_msgs_def store_at_def store_bytes_def tree_inv_def subs_inv_def
      refs_ok_def cells_ok_def subs_at_def shared_at_def no_subs_def shared_ok_def leafs_at_def split: option.splits)

lemma tokenise_result:
  assumes "\<forall>n. alloc n"
  shows "(\<exists>e. sub__topic_tokenise alloc sub = Inl (Rc e)) \<or>
    (\<exists>cells s. sub__topic_tokenise alloc sub = Inr (cells, s) \<and> tokens_of cells \<noteq> [])"
proof (cases "sub = []")
  case True
  then show ?thesis by (simp add: sub__topic_tokenise_def)
next
  case False
  then show ?thesis using tokens_from_levels [OF False assms] by blast
qed

lemma server_inv_subs_step: "server_inv C E sv \<Longrightarrow> subs_step sv sv' \<Longrightarrow> tree_inv C sv' \<Longrightarrow> server_inv C E sv'"
  by (simp add: server_inv_def subs_step_def server_ok_def)

lemma serve_subscribe:
  assumes inv: "server_inv C E sv" and al: "\<forall>n. alloc n" and c: "c \<in> C" and q: "q \<le> 2"
    and id: "ctx_id (sv_contexts sv c) = Some cid" and u: "\<And>d. ctx_id (sv_contexts sv d) = Some cid \<Longrightarrow> d = c"
  shows "\<exists>rc sv'. sub__add alloc c sub q n opts sv = Some (rc, sv') \<and> server_inv C E sv' \<and> session_frame sv sv'"
proof -
  have tree: "tree_inv C sv" using inv by (simp add: server_inv_def)
  have "sub__add alloc c sub q n opts sv \<noteq> None"
  proof (cases "\<exists>e. sub__topic_tokenise alloc sub = Inl (Rc e)")
    case True
    then show ?thesis by (auto simp: sub__add_def)
  next
    case False
    then obtain cells s where "sub__topic_tokenise alloc sub = Inr (cells, s)" "tokens_of cells \<noteq> []"
      using tokenise_result [OF al] by blast
    then show ?thesis using al by (intro sub__add_returns) auto
  qed
  then obtain rc sv' where r: "sub__add alloc c sub q n opts sv = Some (rc, sv')" by fastforce
  then show ?thesis
    using session_frameI(2) [OF sub__add_step [OF r]] server_inv_subs_step [OF inv sub__add_step [OF r] sub__add_tree [where alloc = alloc, OF tree c al q id u r]] by blast
qed

lemma serve_unsubscribe:
  assumes inv: "server_inv C E sv" and al: "\<forall>n. alloc n" and c: "c \<in> C"
  shows "\<exists>rc sv' reason'. sub__remove alloc c sub reason sv = Some (rc, sv', reason') \<and> server_inv C E sv' \<and> session_frame sv sv'"
proof -
  have tree: "tree_inv C sv" using inv by (simp add: server_inv_def)
  have "sub__remove alloc c sub reason sv \<noteq> None"
  proof (cases "\<exists>e. sub__topic_tokenise alloc sub = Inl (Rc e)")
    case True
    then show ?thesis by (auto simp: sub__remove_def)
  next
    case False
    then obtain cells s where "sub__topic_tokenise alloc sub = Inr (cells, s)" "tokens_of cells \<noteq> []"
      using tokenise_result [OF al] by blast
    then show ?thesis by (rule sub__remove_returns)
  qed
  then obtain rc sv' reason' where r: "sub__remove alloc c sub reason sv = Some (rc, sv', reason')" by (metis not_None_eq prod_cases3)
  then show ?thesis using session_frameI(2) [OF sub__remove_step [OF r]] server_inv_subs_step [OF inv sub__remove_step [OF r] sub__remove_tree [OF tree c r]] by blast
qed

lemma serve_resend:
  assumes inv: "server_inv C E sv" and al: "\<forall>n. alloc n" and c: "c \<in> C" and q: "q \<le> 2"
  shows "\<exists>rc sv'. retain__queue racl alloc net c sub q n sv = Some (rc, sv') \<and> server_inv C E sv' \<and> session_frame sv sv' \<and> sv_subs sv' = sv_subs sv"
proof (cases "\<exists>e. sub__topic_tokenise alloc sub = Inl (Rc e)")
  case True
  then show ?thesis using inv by (auto simp: retain__queue_def)
next
  case False
  then obtain cells s where t: "sub__topic_tokenise alloc sub = Inr (cells, s)" "tokens_of cells \<noteq> []"
    using tokenise_result [OF al] by blast
  have i: "server_ok C (with_refs E (forest_refs (sv_retains sv))) sv" "\<forall>a. 0 \<le> E a" "forest_ok (sv_retains sv)" "tree_inv C sv"
    using inv by (simp_all add: server_inv_def)
  obtain sv' where r: "retain__queue racl alloc net c sub q n sv = Some (0, sv')"
    "server_ok C (with_refs E (forest_refs (sv_retains sv'))) sv'" "forest_ok (sv_retains sv')"
    "db_step sv (sv'\<lparr>sv_retains := sv_retains sv\<rparr>)"
    using retain_queue_ok [OF i(1,2) c al q i(3) t] by blast
  have "tree_inv C (sv'\<lparr>sv_retains := sv_retains sv\<rparr>)" using tree_inv_db_step [OF r(4)] i(4) by simp
  then have "tree_inv C sv'" by (simp add: tree_inv_def subs_inv_def)
  then show ?thesis using r i(2) session_frameI(3) [OF r(4)] by (simp add: server_inv_def db_step_def)
qed

lemma serve_client:
  assumes inv: "server_inv C E sv" and c: "c \<in> C" and t: "\<not> takes_reference op" and al: "allowed alloc E op (the_client sv c)"
  shows "\<exists>rc bk. perform alloc net op (the_client sv c) = Some (rc, bk) \<and> server_inv C E (put_client c bk sv)"
proof (rule server_inv_client [OF inv c])
  fix E' assume i: "broker_inv False E' (the_client sv c)"
  have "allowed alloc E' op (the_client sv c)" using al t by (cases op) auto
  moreover have "outside op E' = E'" using t by (cases op) auto
  ultimately show "ends_well False E' (perform alloc net op (the_client sv c))" using perform_ok [OF i, of alloc op net] by simp
qed

lemma serve_references:
  assumes inv: "server_inv C E sv"
  shows "store_at (sv_db sv) a \<noteq> None \<Longrightarrow>
      \<exists>db. db__msg_store_ref_inc a (sv_db sv) = Some db \<and> server_inv C (E(a := E a + 1)) (sv\<lparr>sv_db := db\<rparr>)"
    "0 < E a \<Longrightarrow> \<exists>db. db__msg_store_ref_dec a (sv_db sv) = Some db \<and> server_inv C (E(a := E a - 1)) (sv\<lparr>sv_db := db\<rparr>)"
proof -
  let ?M = "forest_refs (sv_retains sv)"
  have ok: "server_ok C (with_refs E ?M) sv" and E: "\<forall>a. 0 \<le> E a" using inv by (simp_all add: server_inv_def)
  have up: "(with_refs E ?M)(a := with_refs E ?M a + 1) = with_refs (E(a := E a + 1)) ?M"
    "(with_refs E ?M)(a := with_refs E ?M a - 1) = with_refs (E(a := E a - 1)) ?M" by (auto simp: with_refs_def)
  have tree: "tree_inv C (sv\<lparr>sv_db := db\<rparr>)" for db using inv by (simp add: server_inv_def tree_inv_def subs_inv_def)
  have fo: "forest_ok (sv_retains sv)" using inv by (simp add: server_inv_def)
  have keep: "server_inv C E' (sv\<lparr>sv_db := db\<rparr>)"
    if "server_ok C (with_refs E' ?M) (sv\<lparr>sv_db := db\<rparr>)" "\<forall>a. 0 \<le> E' a" for E' db
    using that tree fo by (simp add: server_inv_def)
  show "\<exists>db. db__msg_store_ref_inc a (sv_db sv) = Some db \<and> server_inv C (E(a := E a + 1)) (sv\<lparr>sv_db := db\<rparr>)"
    if st: "store_at (sv_db sv) a \<noteq> None"
  proof -
    obtain db where db: "db__msg_store_ref_inc a (sv_db sv) = Some db" "server_ok C (with_refs (E(a := E a + 1)) ?M) (sv\<lparr>sv_db := db\<rparr>)"
      using server_ref_inc [OF ok st] unfolding up by blast
    have "\<forall>b. 0 \<le> (E(a := E a + 1)) b" using E by simp
    from keep [OF db(2) this] show ?thesis using db(1) by blast
  qed
  show "\<exists>db. db__msg_store_ref_dec a (sv_db sv) = Some db \<and> server_inv C (E(a := E a - 1)) (sv\<lparr>sv_db := db\<rparr>)"
    if p: "0 < E a"
  proof -
    have "0 < with_refs E ?M a" using p by (simp add: with_refs_def)
    from server_ref_dec [OF ok this] obtain db where db: "db__msg_store_ref_dec a (sv_db sv) = Some db"
      "server_ok C (with_refs (E(a := E a - 1)) ?M) (sv\<lparr>sv_db := db\<rparr>)" unfolding up by blast
    have "\<forall>b. 0 \<le> (E(a := E a - 1)) b" using E p by simp
    from keep [OF db(2) this] show ?thesis using db(1) by blast
  qed
qed

lemma serve_ok:
  assumes inv: "server_inv C E sv" and al: "\<forall>n. alloc n" and ok: "server_allowed alloc C E op sv"
  shows "\<exists>rc sv'. serve acl racl alloc net op sv = Some (rc, sv') \<and> server_inv C (server_outside op E) sv'"
proof (cases op)
  case (Publish source_id topic qos retain stored)
  then show ?thesis
    using messages_queue_ok [OF inv, of stored alloc topic acl net source_id qos retain] al ok by auto
next
  case (Resend c sub q n)
  then show ?thesis using serve_resend [OF inv al, of c q racl net sub n] ok by auto
next
  case (Subscribe c sub q n opts)
  have "c \<in> C \<and> q \<le> 2 \<and> (\<exists>cid. ctx_id (sv_contexts sv c) = Some cid \<and> (\<forall>d. ctx_id (sv_contexts sv d) = Some cid \<longrightarrow> d = c))"
    using ok unfolding Subscribe server_allowed.simps .
  then obtain cid where s: "c \<in> C" "q \<le> 2" "ctx_id (sv_contexts sv c) = Some cid"
    "\<And>d. ctx_id (sv_contexts sv d) = Some cid \<Longrightarrow> d = c" by blast
  show ?thesis unfolding Subscribe serve.simps server_outside.simps using serve_subscribe [OF inv al s] by blast
next
  case (Unsubscribe c sub reason)
  then show ?thesis using serve_unsubscribe [OF inv al, of c sub reason] ok by auto
next
  case (Clean_session c)
  have "tree_inv C sv" using inv by (simp add: server_inv_def)
  then show ?thesis using clean_session_tree [of C sv c] server_inv_subs_step [OF inv] ok Clean_session by auto
next
  case (Release c mid)
  then show ?thesis using release_incoming_ok [OF inv _ al, of c acl net mid] ok by auto
next
  case (Easy_queue addr c topic q len payload retain expiry props)
  then show ?thesis
    using easy_queue_ok [OF inv al, of addr len payload topic acl net c q retain expiry props] ok by (auto split: option.splits)
next
  case (Client c op')
  then show ?thesis using serve_client [OF inv, of c op' alloc net] ok by auto
next
  case (Take a)
  then show ?thesis using serve_references(1) [OF inv, of a] ok by auto
next
  case (Give a)
  then show ?thesis using serve_references(2) [OF inv, of a] ok by auto
qed

lemma server_reachable_inv:
  assumes "server_reachable acl racl alloc net C st" and al: "\<forall>n. alloc n"
  shows "server_inv C (fst st) (snd st)"
proof -
  obtain st0 where "server_initial C st0" "(server_step acl racl alloc net C)\<^sup>*\<^sup>* st0 st" using assms(1) by (auto simp: server_reachable_def)
  from this(2,1) show ?thesis
  proof (induction rule: rtranclp_induct)
    case base
    then show ?case using server_initial_inv [of C "fst st0" "snd st0"] by simp
  next
    case (step st st')
    obtain E sv where st: "st = (E, sv)" by fastforce
    have inv: "server_inv C E sv" using step.IH [OF step.prems] st by simp
    obtain op rc sv' where c: "server_allowed alloc C E op sv" "serve acl racl alloc net op sv = Some (rc, sv')"
      "st' = (server_outside op E, sv')"
      using step.hyps(2) unfolding st by (auto elim: server_stepE)
    show ?case using serve_ok [OF inv al c(1), of acl racl net] c(2,3) by auto
  qed
qed

end
