(* ===== verification/Subs_Props.thy ===== *)
theory Subs_Props
  imports Subs_Table Broker_Props
begin

text \<open>
  The properties of subscribing: the tree with its lists and arrays of pointers behaves as a
  table, and removing a client's subscriptions removes them all, follows no pointer that is
  gone and ends.
\<close>

section \<open>An example\<close>

definition ex_server :: server where
  "ex_server = \<lparr>sv_db = ex_db, sv_contexts = (\<lambda>i. if i = 1 then ex_ctx else ex_ctx\<lparr>ctx_id := None\<rparr>), sv_subs = [],
     sv_sub_refs = (\<lambda>_. []), sv_shared_refs = (\<lambda>_. []), sv_subscription_count = 0,
     sv_shared_subscription_count = 0, sv_retains = [], sv_retained_count = 0\<rparr>"

lemma ex_server_inv: "subs_inv {1} ex_server"
  by (simp add: subs_inv_def ex_server_def refs_ok_def cells_ok_def subs_at_def shared_at_def no_subs_def shared_ok_def)

lemma ex_server_id: "ctx_id (sv_contexts ex_server 1) = Some ''c''"
  "ctx_id (sv_contexts ex_server d) = Some ''c'' \<Longrightarrow> d = 1"
  by (auto simp: ex_server_def ex_ctx_def split: if_splits)

lemma ex_tokens: "\<exists>cells. sub__topic_tokenise (\<lambda>_. True) ''a/b'' = Inr (cells, None) \<and> tokens_of cells = [[], ''a'', ''b'']"
  using tokenise_cases [of "''a/b''" "\<lambda>_. True"] by simp

definition ex_subscribed :: server where
  "ex_subscribed = snd (the (sub__add (\<lambda>_. True) 1 ''a/b'' 1 5 0 ex_server))"

lemma ex_add: "sub__add (\<lambda>_. True) 1 ''a/b'' 1 5 0 ex_server = Some (0, ex_subscribed)"
proof -
  obtain cells where c: "sub__topic_tokenise (\<lambda>_. True) ''a/b'' = Inr (cells, None)" "tokens_of cells = [[], ''a'', ''b'']"
    using ex_tokens by blast
  have "\<exists>sv. sub__add (\<lambda>_. True) 1 ''a/b'' 1 5 0 ex_server = Some (0, sv)"
    by (simp add: sub__add_def c sub__add_hier_entry_def sub__add_context_def ex_server_def ex_ctx_def on_data_def
        hash_put_def hash_add_def hash_find_def sub__add_normal_def sub__add_leaf_def no_subs_def add_rc_def)
  then show ?thesis by (auto simp: ex_subscribed_def)
qed

lemma ex_subscribed_inv: "subs_inv {1} ex_subscribed"
  by (rule sub__add_keeps [OF ex_server_inv _ _ ex_add]) simp_all

lemma tokens_nonempty:
  assumes "sub__topic_tokenise alloc sub = Inr (cells, s)" and "\<And>n. alloc n"
  shows "tokens_of cells \<noteq> []"
proof -
  have "sub \<noteq> []" using assms(1) by (auto simp: sub__topic_tokenise_def)
  moreover have "levels t \<noteq> []" for t by (metis levels_Cons_hd list.distinct(1))
  ultimately show ?thesis
    using tokenise_cases [of sub alloc] assms by (auto simp: Let_def split: if_splits)
qed

section \<open>Subscribing and unsubscribing\<close>

text \<open>
  C21: Subscribing returns, and either fails and leaves every subscription as it is, or changes
  exactly the subscription of this client to this filter: a new one takes the options given, and
  of an existing one the qos and the identifier are replaced while its options stay. The return
  code tells the two apart for MQTT 3.1 and MQTT 5 clients only.
\<close>
theorem subscribe_refines_table:
  assumes "subs_inv C sv" and "ctx_id (sv_contexts sv c) = Some cid"
    and "\<And>d. ctx_id (sv_contexts sv d) = Some cid \<Longrightarrow> d = c"
    and "sub__topic_tokenise alloc sub = Inr (cells, s)" and "\<And>n. alloc n"
  shows "\<exists>rc sv'. sub__add alloc c sub q n opts sv = Some (rc, sv') \<and>
    (rc > 0 \<and> sub_table sv' = sub_table sv \<or>
     rc = (if sub_table sv c (path_of cells, s) = None then 0
           else add_rc (sv_contexts sv c) (err_code MOSQ_ERR_SUB_EXISTS)) \<and>
     sub_table sv' = (sub_table sv)(c := (sub_table sv c)((path_of cells, s) \<mapsto>
       subscribed c q n opts (sub_table sv c (path_of cells, s)))))"
proof -
  obtain rc sv' where r: "sub__add alloc c sub q n opts sv = Some (rc, sv')"
    using sub__add_returns [OF assms(4) tokens_nonempty [OF assms(4,5)] assms(5)] by fastforce
  show ?thesis using r sub__add_table [OF assms(1-4) r] by blast
qed

theorem subscribe_refines_table_witness:
  "\<exists>cells sv'. tokens_of cells = [[], ''a'', ''b''] \<and> sub__add (\<lambda>_. True) 1 ''a/b'' 1 5 0 ex_server = Some (0, sv') \<and>
     sub_table sv' 1 (path_of cells, None) =
       Some \<lparr>sl_context = 1, sl_identifier = 5, sl_qos = 1, sl_no_local = False, sl_retain_as_published = False\<rparr>"
proof -
  obtain cells where c: "sub__topic_tokenise (\<lambda>_. True) ''a/b'' = Inr (cells, None)" "tokens_of cells = [[], ''a'', ''b'']"
    using ex_tokens by blast
  have "sub_table ex_server 1 k = None" for k by (cases k) (simp add: sub_table_def ex_server_def)
  then have "sub_table ex_subscribed 1 (path_of cells, None) = Some (subscribed 1 1 5 0 None)"
    using subscribe_refines_table [OF ex_server_inv ex_server_id c(1), of 1 5 0] ex_add by auto
  then show ?thesis using c(2) ex_add by (intro exI [of _ cells] exI [of _ ex_subscribed]) (simp add: subscribed_def)
qed

text \<open>
  C22: Unsubscribing returns, takes exactly the subscription of this client to this filter out,
  and reports with its reason whether there was one.
\<close>
theorem unsubscribe_refines_table:
  assumes "subs_inv C sv" and "sub__topic_tokenise alloc sub = Inr (cells, s)" and "\<And>n. alloc n"
  shows "\<exists>rc sv' reason'. sub__remove alloc c sub reason sv = Some (rc, sv', reason') \<and>
    sub_table sv' = (sub_table sv)(c := (sub_table sv c)((path_of cells, s) := None)) \<and>
    (if sub_table sv c (path_of cells, s) \<noteq> None then reason' = 0
     else reason' = reason \<or> reason' = MQTT_RC_NO_SUBSCRIPTION_EXISTED)"
proof -
  obtain rc sv' reason' where r: "sub__remove alloc c sub reason sv = Some (rc, sv', reason')"
    using sub__remove_returns [OF assms(2) tokens_nonempty [OF assms(2,3)]] by (metis not_None_eq prod_cases3)
  show ?thesis using r sub__remove_table [OF assms(1,2) r] by blast
qed

theorem unsubscribe_refines_table_witness:
  "\<exists>cells rc sv'. tokens_of cells = [[], ''a'', ''b''] \<and> sub_table ex_subscribed 1 (path_of cells, None) \<noteq> None \<and>
     sub__remove (\<lambda>_. True) 1 ''a/b'' 99 ex_subscribed = Some (rc, sv', 0) \<and> sub_table sv' 1 (path_of cells, None) = None"
proof -
  obtain cells where c: "sub__topic_tokenise (\<lambda>_. True) ''a/b'' = Inr (cells, None)" "tokens_of cells = [[], ''a'', ''b'']"
    using ex_tokens by blast
  have "sub_table ex_subscribed 1 (path_of cells, None) \<noteq> None"
    using sub__add_table [OF ex_server_inv ex_server_id c(1) ex_add] by auto
  then show ?thesis
    using unsubscribe_refines_table [OF ex_subscribed_inv c(1), of 1 99] c(2) by (intro exI [of _ cells]) auto
qed

section \<open>The end of a session\<close>

text \<open>
  C18: Removing all subscriptions of a client ends, follows no pointer to a node or a shared
  subscription that is gone, takes out every subscription of the client and no other, and leaves
  the pointers of the remaining clients and the counters in agreement with the tree.
\<close>
theorem clean_session_removes_all:
  assumes "subs_inv C sv" and "c \<in> C"
  shows "\<exists>sv'. sub__clean_session c sv = Some (0, sv') \<and> subs_inv C sv' \<and>
    sub_table sv' = (sub_table sv)(c := (\<lambda>_. None)) \<and>
    sv_sub_refs sv' = (sv_sub_refs sv)(c := []) \<and> sv_shared_refs sv' = (sv_shared_refs sv)(c := [])"
proof -
  obtain sv' where sv': "sub__clean_session c sv = Some (0, sv')" "subs_inv C sv'"
    "subs_at (sv_subs sv') = (\<lambda>p. others c (subs_at (sv_subs sv) p))"
    "shared_at (sv_subs sv') = (\<lambda>k. others c (shared_at (sv_subs sv) k))"
    "sv_sub_refs sv' = (sv_sub_refs sv)(c := [])" "sv_shared_refs sv' = (sv_shared_refs sv)(c := [])"
    using clean_session_ok [OF assms] by blast
  have t: "sub_table s d (p, k) = leaf_of d (case k of None \<Rightarrow> subs_at (sv_subs s) p | Some n \<Rightarrow> shared_at (sv_subs s) (p, n))" for s d p k
    by (auto simp: sub_table_def leafs_at_def subs_at_def shared_at_def split: option.split)
  have "sub_table sv' d k = ((sub_table sv)(c := (\<lambda>_. None))) d k" for d k
    by (cases k) (auto simp: t sv'(3,4) leaf_of_others split: option.split)
  then show ?thesis using sv' by (auto simp: fun_eq_iff)
qed

theorem clean_session_removes_all_witness:
  "\<exists>cells sv'. tokens_of cells = [[], ''a'', ''b''] \<and> sub_table ex_subscribed 1 (path_of cells, None) \<noteq> None \<and>
     sub__clean_session 1 ex_subscribed = Some (0, sv') \<and> sub_table sv' 1 (path_of cells, None) = None"
proof -
  obtain cells where c: "sub__topic_tokenise (\<lambda>_. True) ''a/b'' = Inr (cells, None)" "tokens_of cells = [[], ''a'', ''b'']"
    using ex_tokens by blast
  have "sub_table ex_subscribed 1 (path_of cells, None) \<noteq> None"
    using sub__add_table [OF ex_server_inv ex_server_id c(1) ex_add] by auto
  then show ?thesis
    using clean_session_removes_all [OF ex_subscribed_inv, of 1] c(2) by (intro exI [of _ cells]) auto
qed

end
