(* ===== verification/Server_Props.thy ===== *)
theory Server_Props
  imports Server_Run Subs_Props
begin

text \<open>
  What holds of the whole broker after any sequence of calls, whichever clients publish,
  subscribe, acknowledge and leave, in whatever order.
\<close>

section \<open>An example\<close>

abbreviation ex_acl :: acl_check where
  "ex_acl \<equiv> \<lambda>_ _ _ _. 0"

definition ex_racl :: retain_acl where
  "ex_racl = \<lparr>ra_read = (\<lambda>_ _ _. 0), ra_find = (\<lambda>_ _. 0), ra_write = (\<lambda>_ _. 0)\<rparr>"

lemma ex_client: "\<exists>cid. ctx_id (sv_contexts ex_server 1) = Some cid \<and> (\<forall>d. ctx_id (sv_contexts ex_server d) = Some cid \<longrightarrow> d = 1)"
  using ex_server_id by blast

lemma ex_server_initial: "server_initial {1} ((\<lambda>_. 0), ex_server)"
  by (simp add: server_initial_def ex_server_def ex_defs empty_msgs_def quota_ok_def)

lemma ex_server_reachable: "server_reachable ex_acl ex_racl (\<lambda>_. True) ex_net {1} ((\<lambda>_. 0), ex_server)"
  using ex_server_initial unfolding server_reachable_def by blast

text \<open>The server after it has published a retained message of its own.\<close>

definition ex_op :: server_op where
  "ex_op = Easy_queue 100 None (Some ''a'') 1 1 [7] True 0 []"

definition ex_kept :: server where
  "ex_kept = snd (the (serve ex_acl ex_racl (\<lambda>_. True) ex_net ex_op ex_server))"

lemma ex_op_allowed: "server_allowed (\<lambda>_. True) {1} (\<lambda>_. 0) ex_op ex_server"
  by (simp add: ex_op_def ex_server_def ex_defs store_at_def publishable_def mosquitto_pub_topic_check_def TOPIC_HIERARCHY_LIMIT_def)

lemma ex_op_serve: "serve ex_acl ex_racl (\<lambda>_. True) ex_net ex_op ex_server = Some (0, ex_kept)"
  "retained_at (sv_retains ex_kept) [[], [], ''a''] = Some 100" "forest_refs (sv_retains ex_kept) = {#100#}" "sv_contexts ex_kept = sv_contexts ex_server"
  "\<exists>s. store_at (sv_db ex_kept) 100 = Some s \<and> ms_payloadlen s = 1"
proof -
  obtain cells where c: "sub__topic_tokenise (\<lambda>_. True) ''a'' = Inr (cells, None)" "tokens_of cells = [[], ''a'']"
    using tokenise_cases [of "''a''" "\<lambda>_. True"] by auto
  have "\<exists>sv. serve ex_acl ex_racl (\<lambda>_. True) ex_net ex_op ex_server = Some (0, sv) \<and>
      sv_retains sv = [([], Hier [([], Hier [(''a'', Hier [] (Some 100))] None)] None)] \<and>
      sv_contexts sv = sv_contexts ex_server \<and> (\<exists>s. store_at (sv_db sv) 100 = Some s \<and> ms_payloadlen s = 1)"
    by (simp add: ex_op_def db__messages_easy_queue_def ex_server_def ex_defs db__message_store_def db__msg_store_add_def Let_def
        sub__messages_queue_def c db__msg_store_ref_inc_def store_at_def update_store_def retain__store_def retain__add_hier_entry_def
        hash_find_def hash_add_def hash_put_def on_data_def retain_set_def db__msg_store_ref_dec_def)
  then obtain sv where "serve ex_acl ex_racl (\<lambda>_. True) ex_net ex_op ex_server = Some (0, sv)"
    "sv_retains sv = [([], Hier [([], Hier [(''a'', Hier [] (Some 100))] None)] None)]"
    "sv_contexts sv = sv_contexts ex_server" "\<exists>s. store_at (sv_db sv) 100 = Some s \<and> ms_payloadlen s = 1" by blast
  then show "serve ex_acl ex_racl (\<lambda>_. True) ex_net ex_op ex_server = Some (0, ex_kept)"
    "retained_at (sv_retains ex_kept) [[], [], ''a''] = Some 100" "forest_refs (sv_retains ex_kept) = {#100#}"
    "sv_contexts ex_kept = sv_contexts ex_server" "\<exists>s. store_at (sv_db ex_kept) 100 = Some s \<and> ms_payloadlen s = 1"
    by (simp_all add: ex_kept_def retained_at_def hash_find_def)
qed

lemma ex_kept_reachable: "server_reachable ex_acl ex_racl (\<lambda>_. True) ex_net {1} ((\<lambda>_. 0), ex_kept)"
proof -
  have "server_step ex_acl ex_racl (\<lambda>_. True) ex_net {1} ((\<lambda>_. 0), ex_server) (server_outside ex_op (\<lambda>_. 0), ex_kept)"
    by (rule server_step.server_call [OF ex_op_allowed ex_op_serve(1)])
  then show ?thesis using ex_server_initial unfolding server_reachable_def by (auto simp: ex_op_def)
qed

section \<open>The broker as a whole\<close>

text \<open>
  C8: Whatever the clients have done before, every call of the broker that its callers may make
  returns: publishing to all subscribers and to the tree of retained messages, sending retained
  messages to a new subscriber, subscribing, unsubscribing, ending a session, releasing a message
  of qos 2 and every operation on the messages of a client. No pointer to a stored message, a
  client, a node or a shared subscription is followed when it is gone.
\<close>
theorem server_calls_return:
  assumes "server_reachable acl racl alloc net C (E, sv)" and "\<And>n. alloc n" and "server_allowed alloc C E op sv"
  shows "\<exists>rc sv'. serve acl racl alloc net op sv = Some (rc, sv') \<and>
    server_reachable acl racl alloc net C (server_outside op E, sv')"
proof -
  have al: "\<forall>n. alloc n" using assms(2) by simp
  have inv: "server_inv C E sv" using server_reachable_inv [OF assms(1) al] by simp
  obtain rc sv' where r: "serve acl racl alloc net op sv = Some (rc, sv')" using serve_ok [OF inv al assms(3)] by blast
  with assms(3) have "server_step acl racl alloc net C (E, sv) (server_outside op E, sv')" by (rule server_step.server_call)
  then show ?thesis using assms(1) r unfolding server_reachable_def by (meson rtranclp.rtrancl_into_rtrancl)
qed

theorem server_calls_return_witness:
  "\<exists>rc sv'. sub__add (\<lambda>_. True) 1 ''a/#'' 1 0 0 ex_kept = Some (rc, sv') \<and>
     server_reachable ex_acl ex_racl (\<lambda>_. True) ex_net {1} ((\<lambda>_. 0), sv')"
proof -
  have "server_allowed (\<lambda>_. True) {1} (\<lambda>_. 0) (Subscribe 1 ''a/#'' 1 0 0) ex_kept"
    unfolding server_allowed.simps ex_op_serve(4) by (intro conjI ex_client) simp_all
  from server_calls_return [OF ex_kept_reachable TrueI this] show ?thesis by simp
qed

text \<open>
  C9: In every reachable state the reference count of a stored message is the number of messages
  of all clients that refer to it, plus the number of topics that retain it, plus the references
  held elsewhere; and no client and no topic refers to a message that is gone.
\<close>
theorem server_reference_counts:
  assumes "server_reachable acl racl alloc net C (E, sv)" and "\<And>n. alloc n"
  shows "(\<forall>a s. store_at (sv_db sv) a = Some s \<longrightarrow>
      ms_ref_count s = (\<Sum>c\<in>C. int (count_list (ctx_refs (sv_contexts sv c)) a)) + int (count (forest_refs (sv_retains sv)) a) + E a) \<and>
    (\<forall>c \<in> C. \<forall>a \<in> set (ctx_refs (sv_contexts sv c)). store_at (sv_db sv) a \<noteq> None) \<and>
    (\<forall>a \<in> set_mset (forest_refs (sv_retains sv)). store_at (sv_db sv) a \<noteq> None)"
proof -
  have al: "\<forall>n. alloc n" using assms(2) by simp
  have inv: "server_inv C E sv" using server_reachable_inv [OF assms(1) al] by simp
  let ?R = "with_refs E (forest_refs (sv_retains sv))"
  have ok: "server_ok C ?R sv" and E: "\<forall>a. 0 \<le> E a" using inv by (simp_all add: server_inv_def)
  have st: "stores_ok (\<lambda>a. client_refs (sv_contexts sv) C a + ?R a) (sv_db sv) []" using ok by (simp add: server_ok_def)
  have 1: "ms_ref_count s = (\<Sum>c\<in>C. int (count_list (ctx_refs (sv_contexts sv c)) a)) + int (count (forest_refs (sv_retains sv)) a) + E a"
    if "store_at (sv_db sv) a = Some s" for a s
    using st that by (simp add: stores_ok_def client_refs_def with_refs_def)
  have 2: "store_at (sv_db sv) a \<noteq> None" if c: "c \<in> C" and a: "a \<in> set (ctx_refs (sv_contexts sv c))" for c a
    using client_inv [OF ok c] a stores_okD(1) [of "outside_refs C ?R sv c" "sv_db sv" "ctx_refs (sv_contexts sv c)" a]
    by (simp add: broker_inv_def safe_inv_def the_client_def)
  have 3: "store_at (sv_db sv) a \<noteq> None" if "a \<in># forest_refs (sv_retains sv)" for a
    by (rule server_ok_store [OF ok with_refs_owned [OF E that]])
  show ?thesis using 1 2 3 by blast
qed

theorem server_reference_counts_witness:
  "\<exists>s. store_at (sv_db ex_kept) 100 = Some s \<and> retained_at (sv_retains ex_kept) [[], [], ''a''] = Some 100 \<and> ms_ref_count s = 1"
proof -
  obtain s where s: "store_at (sv_db ex_kept) 100 = Some s" using ex_op_serve(5) by blast
  have "ms_ref_count s = (\<Sum>c\<in>{1}. int (count_list (ctx_refs (sv_contexts ex_kept c)) 100)) +
      int (count (forest_refs (sv_retains ex_kept)) 100) + 0"
    using conjunct1 [OF server_reference_counts [OF ex_kept_reachable TrueI]] s by blast
  then show ?thesis using s ex_op_serve(2)
    by (simp add: ex_op_serve(3,4) ex_server_def ex_defs ctx_refs_def md_refs_def md_msgs_def)
qed

text \<open>
  C10: In every reachable state the pointers from clients to subscriptions and the lists of
  subscribers agree: a client has a pointer to a node or shared subscription exactly if it is in
  the list there, both at most once; only clients of the broker are in a list; a shared
  subscription without clients does not exist; and both counters count the pointers.
\<close>
theorem server_subscription_pointers:
  assumes "server_reachable acl racl alloc net C (E, sv)" and "\<And>n. alloc n"
  shows "(\<forall>c p. count_list (sv_sub_refs sv c) (Some p) = leafs_of c (sd_subs (view (sv_subs sv) p)) \<and>
      leafs_of c (sd_subs (view (sv_subs sv) p)) \<le> 1) \<and>
    (\<forall>c k. count_list (sv_shared_refs sv c) (Some k) = leafs_of c (shared_at (sv_subs sv) k) \<and>
      leafs_of c (shared_at (sv_subs sv) k) \<le> 1) \<and>
    (\<forall>c p s. sub_table sv c (p, s) \<noteq> None \<longrightarrow> c \<in> C) \<and>
    (\<forall>p n. hash_find n (sd_shared (view (sv_subs sv) p)) \<noteq> Some []) \<and>
    sv_subscription_count sv = (\<Sum>c\<in>C. int (live_cells (sv_sub_refs sv c))) \<and>
    sv_shared_subscription_count sv = (\<Sum>c\<in>C. int (live_cells (sv_shared_refs sv c)))"
proof -
  have al: "\<forall>n. alloc n" using assms(2) by simp
  have "server_inv C E sv" using server_reachable_inv [OF assms(1) al] by simp
  then have i: "subs_inv C sv" by (simp add: server_inv_def tree_inv_def)
  have "c \<in> C" if "sub_table sv c (p, s) \<noteq> None" for c p s
  proof -
    obtain l where "leaf_of c (leafs_at (view (sv_subs sv) p) s) = Some l" using \<open>sub_table sv c (p, s) \<noteq> None\<close> by (auto simp: sub_table_def)
    then show ?thesis using leaf_of_in leaf_client [OF i] by metis
  qed
  moreover have "hash_find n (sd_shared (view (sv_subs sv) p)) \<noteq> Some []" for p n
    using i shared_ok_find by (auto simp: subs_inv_def)
  ultimately show ?thesis using i by (simp add: subs_inv_def refs_ok_def cells_ok_def subs_at_def)
qed

theorem server_subscription_pointers_witness:
  "\<exists>rc sv'. sub__add (\<lambda>_. True) 1 ''a/b'' 1 5 0 ex_server = Some (rc, sv') \<and>
     sv_subscription_count sv' = int (live_cells (sv_sub_refs sv' 1)) \<and>
     count_list (sv_sub_refs sv' 1) (Some [[], [], ''a'', ''b'']) = leafs_of 1 (sd_subs (view (sv_subs sv') [[], [], ''a'', ''b'']))"
proof -
  have "server_allowed (\<lambda>_. True) {1} (\<lambda>_. 0) (Subscribe 1 ''a/b'' 1 5 0) ex_server"
    unfolding server_allowed.simps by (intro conjI ex_client) simp_all
  moreover have "serve ex_acl ex_racl (\<lambda>_. True) ex_net (Subscribe 1 ''a/b'' 1 5 0) ex_server = Some (0, ex_subscribed)"
    unfolding serve.simps by (rule ex_add)
  ultimately have "server_step ex_acl ex_racl (\<lambda>_. True) ex_net {1} ((\<lambda>_. 0), ex_server)
      (server_outside (Subscribe 1 ''a/b'' 1 5 0) (\<lambda>_. 0), ex_subscribed)" by (rule server_step.server_call)
  then have "server_reachable ex_acl ex_racl (\<lambda>_. True) ex_net {1} ((\<lambda>_. 0), ex_subscribed)"
    using ex_server_initial unfolding server_reachable_def by (auto simp del: server_step.simps)
  from server_subscription_pointers [OF this TrueI] show ?thesis
    using ex_add by (intro exI [of _ 0] exI [of _ ex_subscribed]) auto
qed

section \<open>Retained messages\<close>

text \<open>
  C20: The tree of retained messages implements a map from topics to messages: storing a message
  returns, sets its topic to it, or to nothing if its payload is empty, and leaves every other
  topic as it is. The caller owns a reference to the message.
\<close>
theorem retained_store_refines_map:
  assumes "server_inv C E sv" and "0 < E stored" and "\<And>n. alloc n" and "publishable topic"
    and "sub__topic_tokenise alloc topic = Inr (cells, None)"
  shows "\<exists>sv'. retain__store alloc topic stored (tokens_of cells) sv = Some (0, sv') \<and> server_inv C E sv' \<and>
    retained_at (sv_retains sv') = (retained_at (sv_retains sv))(hd (tokens_of cells) # tokens_of cells :=
      if has_payload sv stored then Some stored else None)"
proof -
  have al: "\<forall>n. alloc n" using assms(3) by simp
  have ne: "topic \<noteq> []" using assms(5) empty_topic [of alloc] by auto
  have tk: "tokens_of cells \<noteq> [] \<and> set (tokens_of cells) \<subseteq> insert [] (set (levels topic))"
    using tokens_from_levels [OF ne al] assms(5) by auto
  obtain t ts where ts: "tokens_of cells = t # ts" using tk by (cases "tokens_of cells") auto
  have len: "\<forall>x \<in> set (t # ts). length x \<le> 65535" using publishable_levels(1) [OF assms(4)] tk ts by auto
  define E' where "E' = E(stored := E stored - 1)"
  let ?M = "forest_refs (sv_retains sv)"
  have eq: "with_refs E M = with_refs E' (add_mset stored M)" for M by (auto simp: E'_def with_refs_def)
  have E: "\<forall>a. 0 \<le> E a" and fo: "forest_ok (sv_retains sv)" and tree: "tree_inv C sv"
    and ok: "server_ok C (with_refs E' (add_mset stored ?M)) sv"
    using assms(1) by (simp_all add: server_inv_def eq)
  have E': "\<forall>a. 0 \<le> E' a" using E assms(2) by (simp add: E'_def)
  obtain sv' where r: "retain__store alloc topic stored (t # ts) sv = Some (0, sv')"
    "server_ok C (with_refs E' (add_mset stored (forest_refs (sv_retains sv')))) sv'" "forest_ok (sv_retains sv')"
    "retained_at (sv_retains sv') = (retained_at (sv_retains sv))(t # t # ts := if has_payload sv stored then Some stored else None)"
    "db_step sv (sv'\<lparr>sv_retains := sv_retains sv\<rparr>)"
    using retain_store_ok [where alloc = alloc, OF ok E' al fo len] by blast
  have "tree_inv C (sv'\<lparr>sv_retains := sv_retains sv\<rparr>)" using tree_inv_db_step [OF r(5)] tree by simp
  then have "tree_inv C sv'" by (simp add: tree_inv_def subs_inv_def)
  then have "server_inv C E sv'" using E r(2,3) by (simp add: server_inv_def eq)
  then show ?thesis using r(1,4) by (auto simp: ts)
qed

theorem retained_store_refines_map_witness:
  "\<exists>db cells sv'. db__msg_store_ref_inc 100 (sv_db ex_kept) = Some db \<and> tokens_of cells = [[], ''b''] \<and>
     retain__store (\<lambda>_. True) ''b'' 100 (tokens_of cells) (ex_kept\<lparr>sv_db := db\<rparr>) = Some (0, sv') \<and>
     retained_at (sv_retains sv') [[], [], ''b''] = Some 100 \<and> retained_at (sv_retains sv') [[], [], ''a''] = Some 100"
proof -
  have inv: "server_inv {1} (\<lambda>_. 0) ex_kept" using server_reachable_inv [OF ex_kept_reachable] by simp
  obtain s where s: "store_at (sv_db ex_kept) 100 = Some s" "ms_payloadlen s = 1" using ex_op_serve(5) by blast
  obtain db where db: "db__msg_store_ref_inc 100 (sv_db ex_kept) = Some db" "server_inv {1} ((\<lambda>_. 0)(100 := 0 + 1)) (ex_kept\<lparr>sv_db := db\<rparr>)"
    using serve_references(1) [OF inv, of 100] s(1) by auto
  have p: "has_payload (ex_kept\<lparr>sv_db := db\<rparr>) 100"
    using db(1) s by (auto simp: has_payload_def db__msg_store_ref_inc_def)
  obtain cells where c: "sub__topic_tokenise (\<lambda>_. True) ''b'' = Inr (cells, None)" "tokens_of cells = [[], ''b'']"
    using tokenise_cases [of "''b''" "\<lambda>_. True"] by auto
  have t: "publishable ''b''" by (simp add: publishable_def mosquitto_pub_topic_check_def TOPIC_HIERARCHY_LIMIT_def)
  have "\<exists>sv'. retain__store (\<lambda>_. True) ''b'' 100 (tokens_of cells) (ex_kept\<lparr>sv_db := db\<rparr>) = Some (0, sv') \<and>
      retained_at (sv_retains sv') = (retained_at (sv_retains ex_kept))([[], [], ''b''] := Some 100)"
    using retained_store_refines_map [OF db(2) _ TrueI t c(1), of 100] p c(2) by auto
  then show ?thesis using db(1) c(2) ex_op_serve(2) by auto
qed

end
