(* ===== verification/Packet_IO.thy ===== *)
theory Packet_IO
  imports Broker_State
begin

text \<open>
  \<open>lib/packet_mosq.c\<close>: reading packets from the socket of a client piece by piece, the queue of
  outgoing packets, and writing it piece by piece. The operating system, \<open>handle__packet\<close> and
  \<open>send__disconnect\<close> are arguments; \<open>None\<close> is an access outside a buffer.
\<close>

section \<open>Positions\<close>

lemma unat_small: "n \<le> unat (x :: 'a::len word) \<Longrightarrow> unat (of_nat n :: 'a word) = n"
  by (metis le_unat_uoi)

lemma unat_minus_nat: "n \<le> unat (x :: 'a::len word) \<Longrightarrow> unat (x - of_nat n) = unat x - n"
  by (metis unat_small unat_sub word_le_nat_alt)

section \<open>State\<close>

text \<open>
  The fields of \<open>struct mosquitto\<close> for input and output. The list \<open>cn_out_packet\<close> is the chain from
  \<open>out_packet\<close> to \<open>out_packet_last\<close>; \<open>cn_want_out\<close> says whether \<open>mux__add_out\<close> has asked for the socket
  to be watched for output.
\<close>

record connection = mosquitto +
  cn_in_packet :: packet
  cn_current_out_packet :: "packet option"
  cn_out_packet :: "packet list"
  cn_keepalive :: u16
  cn_last_msg_in :: int
  cn_next_msg_out :: int
  cn_maximum_packet_size :: u32
  cn_want_out :: bool

text \<open>What \<open>errno\<close> is looked at for; \<open>net__read\<close> and \<open>net__write\<close> set it to 0 first.\<close>

datatype errno = EAGAIN | EWOULDBLOCK | ECONNRESET | EINTR | Errno nat

datatype read_result = Got "u8 list" | Read_failed errno

datatype write_result = Wrote nat | Write_failed errno

text \<open>
  The operating system and the rest of the broker. \<open>w_os\<close> is whatever the operating system keeps,
  beside the counters of \<open>src/sys_tree.h\<close>.
\<close>

record 's world =
  w_os :: 's
  g_bytes_received :: "64 word"
  g_bytes_sent :: "64 word"
  g_msgs_received :: "64 word"
  g_msgs_sent :: "64 word"
  g_pub_msgs_received :: "64 word"
  g_pub_msgs_sent :: "64 word"

record 's host =
  h_read :: "nat \<Rightarrow> 's \<Rightarrow> read_result \<times> 's"
  h_write :: "u8 list \<Rightarrow> 's \<Rightarrow> write_result \<times> 's"
  h_alloc :: "nat \<Rightarrow> bool"
  h_now :: int
  h_max_packet_size :: u32
  h_handle :: "connection \<Rightarrow> int \<times> connection"
  h_disconnect :: "connection \<Rightarrow> connection"

definition net__read :: "'s host \<Rightarrow> nat \<Rightarrow> 's world \<Rightarrow> read_result \<times> 's world" where
  "net__read host n w = (case h_read host n (w_os w) of (r, s) \<Rightarrow> (r, w\<lparr>w_os := s\<rparr>))"

definition net__write :: "'s host \<Rightarrow> u8 list \<Rightarrow> 's world \<Rightarrow> write_result \<times> 's world" where
  "net__write host buf w = (case h_write host buf (w_os w) of (r, s) \<Rightarrow> (r, w\<lparr>w_os := s\<rparr>))"

abbreviation (input) CMD_CONNECT :: u8 where
  "CMD_CONNECT \<equiv> 0x10"

abbreviation (input) CMD_PUBLISH :: u8 where
  "CMD_PUBLISH \<equiv> 0x30"

definition errno_rc :: "errno \<Rightarrow> int" where
  "errno_rc e =
     (case e of
        EAGAIN \<Rightarrow> err_code MOSQ_ERR_SUCCESS
      | EWOULDBLOCK \<Rightarrow> err_code MOSQ_ERR_SUCCESS
      | ECONNRESET \<Rightarrow> err_code MOSQ_ERR_CONN_LOST
      | EINTR \<Rightarrow> err_code MOSQ_ERR_SUCCESS
      | Errno _ \<Rightarrow> err_code MOSQ_ERR_ERRNO)"

definition keepalive__update :: "'s host \<Rightarrow> connection \<Rightarrow> connection" where
  "keepalive__update host mosq = mosq\<lparr>cn_last_msg_in := h_now host\<rparr>"

section \<open>Allocating, queueing and releasing packets\<close>

definition packet__cleanup :: "packet \<Rightarrow> packet" where
  "packet__cleanup packet =
     packet\<lparr>pk_command := 0, pk_remaining_count := 0, pk_remaining_mult := 1, pk_remaining_length := 0,
            pk_payload := [], pk_to_process := 0, pk_pos := 0\<rparr>"

text \<open>The digits of the remaining length, at most \<open>n\<close> of them.\<close>

fun length_bytes :: "nat \<Rightarrow> u32 \<Rightarrow> u8 list" where
  "length_bytes 0 remaining_length = []"
| "length_bytes (Suc n) remaining_length =
     (let byte = ucast (remaining_length mod 128); remaining_length = remaining_length div 128
      in if remaining_length > 0 then (byte OR 0x80) # length_bytes n remaining_length else [byte])"

text \<open>A packet with its memory, which holds anything behind the header; here \<open>fill\<close>.\<close>

definition packet__alloc :: "(nat \<Rightarrow> bool) \<Rightarrow> u8 list \<Rightarrow> packet \<Rightarrow> int \<times> packet" where
  "packet__alloc alloc fill packet =
     (let remaining_bytes = length_bytes 5 (pk_remaining_length packet); count = length remaining_bytes;
          packet = packet\<lparr>pk_payload := [], pk_remaining_count := int count\<rparr>
      in if count = 5 then (err_code MOSQ_ERR_PAYLOAD_SIZE, packet)
         else
           let packet = packet\<lparr>pk_packet_length := pk_remaining_length packet + 1 + of_nat count\<rparr>
           in if \<not> alloc (unat (pk_packet_length packet)) then (err_code MOSQ_ERR_NOMEM, packet)
              else (err_code MOSQ_ERR_SUCCESS,
                packet\<lparr>pk_payload := take (unat (pk_packet_length packet)) (pk_command packet # remaining_bytes @ fill),
                       pk_pos := 1 + of_nat count\<rparr>))"

text \<open>The first packet of the queue taken out of it.\<close>

definition next_packet :: "connection \<Rightarrow> connection" where
  "next_packet mosq =
     (case cn_out_packet mosq of
        [] \<Rightarrow> mosq\<lparr>cn_current_out_packet := None\<rparr>
      | packet # packets \<Rightarrow> mosq\<lparr>cn_current_out_packet := Some packet, cn_out_packet := packets\<rparr>)"

lemma next_packet_less:
  "cn_current_out_packet mosq \<noteq> None \<Longrightarrow>
   length (cn_out_packet (next_packet mosq)) + (case cn_current_out_packet (next_packet mosq) of None \<Rightarrow> 0 | Some _ \<Rightarrow> 1) <
     length (cn_out_packet mosq) + (case cn_current_out_packet mosq of None \<Rightarrow> 0 | Some _ \<Rightarrow> 1)"
  by (auto simp: next_packet_def split: list.split option.split)

function cleanup_loop :: "connection \<Rightarrow> connection" where
  "cleanup_loop mosq = (if cn_current_out_packet mosq = None then mosq else cleanup_loop (next_packet mosq))"
  by pat_completeness auto

termination
  by (relation "measure (\<lambda>mosq. length (cn_out_packet mosq) + (case cn_current_out_packet mosq of None \<Rightarrow> 0 | Some _ \<Rightarrow> 1))")
    (simp_all only: wf_measure in_measure next_packet_less not_False_eq_True)

declare cleanup_loop.simps [simp del]

definition packet__cleanup_all_no_locks :: "connection \<Rightarrow> connection" where
  "packet__cleanup_all_no_locks mosq =
     (let mosq = cleanup_loop (if cn_out_packet mosq \<noteq> [] \<and> cn_current_out_packet mosq = None then next_packet mosq else mosq)
      in mosq\<lparr>ctx_out_packet_count := 0, cn_in_packet := packet__cleanup (cn_in_packet mosq)\<rparr>)"

definition packet__check_oversize :: "connection \<Rightarrow> u32 \<Rightarrow> int" where
  "packet__check_oversize mosq remaining_length =
     (if cn_maximum_packet_size mosq = 0 then err_code MOSQ_ERR_SUCCESS
      else if remaining_length + of_nat (packet__varint_bytes remaining_length) > cn_maximum_packet_size mosq
      then err_code MOSQ_ERR_OVERSIZE_PACKET else err_code MOSQ_ERR_SUCCESS)"

section \<open>A new client\<close>

definition no_messages :: "int \<Rightarrow> mosquitto_msg_data" where
  "no_messages inflight_maximum =
     \<lparr>md_inflight = [], md_queued = [], md_msg_bytes = 0, md_msg_bytes12 = 0, md_msg_count = 0, md_msg_count12 = 0,
      md_inflight_quota = inflight_maximum, md_inflight_maximum = inflight_maximum\<rparr>"

text \<open>
  \<open>context__init\<close>: the fields it sets and those that \<open>calloc\<close> clears. \<open>address\<close> is what
  \<open>net__socket_get_address\<close> finds, \<open>max_inflight_messages\<close> is from the configuration.
\<close>

definition context__init :: "'s host \<Rightarrow> int \<Rightarrow> bool \<Rightarrow> string option \<Rightarrow> int \<Rightarrow> connection option" where
  "context__init host max_inflight_messages memory address sock =
     (if \<not> memory then None
      else if sock \<ge> 0 \<and> address = None then None
      else Some
        \<lparr>ctx_sock = sock, ctx_protocol = mosq_p_invalid, ctx_id = None, ctx_username = None, ctx_last_mid = 0,
         ctx_state = mosq_cs_new, ctx_out_packet_count = 0, ctx_clean_start = True, ctx_is_dropping = False,
         ctx_bridge = None, ctx_msgs_in = no_messages max_inflight_messages, ctx_msgs_out = no_messages max_inflight_messages,
         ctx_max_qos = 2, ctx_aliases = [], ctx_sent = [],
         cn_in_packet = packet__cleanup
           \<lparr>pk_payload = [], pk_remaining_mult = 0, pk_remaining_length = 0, pk_packet_length = 0, pk_to_process = 0,
            pk_pos = 0, pk_mid = 0, pk_command = 0, pk_remaining_count = 0\<rparr>,
         cn_current_out_packet = None, cn_out_packet = [], cn_keepalive = 60, cn_last_msg_in = h_now host,
         cn_next_msg_out = h_now host + 60, cn_maximum_packet_size = 0, cn_want_out = False\<rparr>)"

section \<open>Writing\<close>

text \<open>The inner loop: \<open>Inl rc\<close> returns, \<open>Inr\<close> has written the whole packet.\<close>

function write_packet :: "'s host \<Rightarrow> packet \<Rightarrow> 's world \<Rightarrow> ((int + unit) \<times> packet \<times> 's world) option" where
  "write_packet host packet w =
     (if pk_to_process packet = 0 then Some (Inr (), packet, w)
      else if \<not> unat (pk_pos packet) + unat (pk_to_process packet) \<le> length (pk_payload packet) then None
      else
        (case net__write host (take (unat (pk_to_process packet)) (drop (unat (pk_pos packet)) (pk_payload packet))) w of
           (Wrote n, w) \<Rightarrow>
             if n = 0 then Some (Inl (errno_rc (Errno 0)), packet, w)
             else if n > unat (pk_to_process packet) then None
             else write_packet host
               (packet\<lparr>pk_to_process := pk_to_process packet - of_nat n, pk_pos := pk_pos packet + of_nat n\<rparr>)
               (w\<lparr>g_bytes_sent := g_bytes_sent w + of_nat n\<rparr>)
         | (Write_failed e, w) \<Rightarrow> Some (Inl (errno_rc e), packet, w)))"
  by pat_completeness auto

termination
proof (relation "measure (\<lambda>(_, packet, _). unat (pk_to_process packet))")
  fix packet :: packet and n :: nat and host :: "'s host" and w w' :: "'s world"
  assume "pk_to_process packet \<noteq> 0" "n \<noteq> 0" "\<not> n > unat (pk_to_process packet)"
  then have "unat (pk_to_process packet - of_nat n) < unat (pk_to_process packet)"
    by (simp add: unat_minus_nat unat_gt_0)
  then show "((host, packet\<lparr>pk_to_process := pk_to_process packet - of_nat n, pk_pos := pk_pos packet + of_nat n\<rparr>, w'),
      (host, packet, w)) \<in> measure (\<lambda>(_, packet, _). unat (pk_to_process packet))" by simp
qed simp

declare write_packet.simps [simp del]

definition count_sent :: "packet \<Rightarrow> 's world \<Rightarrow> 's world" where
  "count_sent packet w =
     (let w = w\<lparr>g_msgs_sent := g_msgs_sent w + 1\<rparr>
      in if pk_command packet AND 0xF6 = CMD_PUBLISH then w\<lparr>g_pub_msgs_sent := g_pub_msgs_sent w + 1\<rparr>
         else if pk_command packet AND 0xF0 = CMD_PUBLISH then w\<lparr>g_pub_msgs_sent := g_pub_msgs_sent w + 1\<rparr>
         else w)"

text \<open>The next packet of the queue, and what \<open>packet__write\<close> notes for it.\<close>

definition packet_written :: "'s host \<Rightarrow> connection \<Rightarrow> connection" where
  "packet_written host mosq =
     (let count = (if cn_out_packet mosq \<noteq> [] then ctx_out_packet_count mosq - 1 else ctx_out_packet_count mosq)
      in (next_packet mosq)\<lparr>ctx_out_packet_count := count, cn_next_msg_out := h_now host + uint (cn_keepalive mosq)\<rparr>)"

function write_loop :: "'s host \<Rightarrow> connection \<Rightarrow> 's world \<Rightarrow> (int \<times> connection \<times> 's world) option" where
  "write_loop host mosq w =
     (case cn_current_out_packet mosq of
        None \<Rightarrow> Some (err_code MOSQ_ERR_SUCCESS, mosq\<lparr>cn_want_out := False\<rparr>, w)
      | Some packet \<Rightarrow>
          (case write_packet host packet w of
             None \<Rightarrow> None
           | Some (Inl rc, packet, w) \<Rightarrow> Some (rc, mosq\<lparr>cn_current_out_packet := Some packet\<rparr>, w)
           | Some (Inr _, packet, w) \<Rightarrow> write_loop host (packet_written host mosq) (count_sent packet w)))"
  by pat_completeness auto

termination
proof (relation "measure (\<lambda>(_, mosq, _). length (cn_out_packet mosq) + (case cn_current_out_packet mosq of None \<Rightarrow> 0 | Some _ \<Rightarrow> 1))")
  fix host :: "'s host" and mosq :: connection and w w' :: "'s world" and packet
  assume "cn_current_out_packet mosq = Some packet"
  then show "((host, packet_written host mosq, w'), (host, mosq, w)) \<in>
      measure (\<lambda>(_, mosq, _). length (cn_out_packet mosq) + (case cn_current_out_packet mosq of None \<Rightarrow> 0 | Some _ \<Rightarrow> 1))"
    using next_packet_less [of mosq] by (simp add: packet_written_def Let_def)
qed simp

declare write_loop.simps [simp del]

definition packet__write :: "'s host \<Rightarrow> connection \<Rightarrow> 's world \<Rightarrow> (int \<times> connection \<times> 's world) option" where
  "packet__write host mosq w =
     (if ctx_sock mosq = INVALID_SOCKET then Some (err_code MOSQ_ERR_NO_CONN, mosq, w)
      else
        let mosq = (if cn_out_packet mosq \<noteq> [] \<and> cn_current_out_packet mosq = None
                    then (next_packet mosq)\<lparr>ctx_out_packet_count := ctx_out_packet_count mosq - 1\<rparr> else mosq);
            mosq = (if cn_current_out_packet mosq \<noteq> None then mosq\<lparr>cn_want_out := True\<rparr> else mosq)
        in if mosquitto__get_state (mosquitto.truncate mosq) = mosq_cs_connect_pending
           then Some (err_code MOSQ_ERR_SUCCESS, mosq, w)
           else write_loop host mosq w)"

definition packet__queue :: "'s host \<Rightarrow> connection \<Rightarrow> packet \<Rightarrow> 's world \<Rightarrow> (int \<times> connection \<times> 's world) option" where
  "packet__queue host mosq packet w =
     (let packet = packet\<lparr>pk_pos := 0, pk_to_process := pk_packet_length packet\<rparr>
      in packet__write host
           (mosq\<lparr>cn_out_packet := cn_out_packet mosq @ [packet], ctx_out_packet_count := ctx_out_packet_count mosq + 1\<rparr>) w)"

section \<open>Reading\<close>

text \<open>
  The loop over the bytes of the remaining length. \<open>Inl rc\<close> returns, \<open>Inr\<close> goes on. More bytes
  than were asked for are outside the buffer.
\<close>

function length_loop :: "'s host \<Rightarrow> packet \<Rightarrow> 's world \<Rightarrow> ((int + unit) \<times> packet \<times> 's world) option" where
  "length_loop host p w =
     (case net__read host 1 w of
        (Got [], w) \<Rightarrow> Some (Inl (err_code MOSQ_ERR_CONN_LOST), p, w)
      | (Got [byte], w) \<Rightarrow>
          let p = p\<lparr>pk_remaining_count := pk_remaining_count p - 1\<rparr>
          in if pk_remaining_count p < -4 then Some (Inl (err_code MOSQ_ERR_PROTOCOL), p, w)
             else
               let w = w\<lparr>g_bytes_received := g_bytes_received w + 1\<rparr>;
                   p = p\<lparr>pk_remaining_length := pk_remaining_length p + ucast (byte AND 127) * pk_remaining_mult p,
                         pk_remaining_mult := pk_remaining_mult p * 128\<rparr>
               in if byte AND 128 \<noteq> 0 then length_loop host p w else Some (Inr (), p, w)
      | (Got _, w) \<Rightarrow> None
      | (Read_failed e, w) \<Rightarrow> Some (Inl (errno_rc e), p, w))"
  by pat_completeness auto

termination
  by (relation "measure (\<lambda>(_, p, _). nat (pk_remaining_count p + 5))") auto

declare length_loop.simps [simp del]

text \<open>The loop over the payload; \<open>Inl rc\<close> returns.\<close>

definition put_bytes :: "nat \<Rightarrow> u8 list \<Rightarrow> u8 list \<Rightarrow> u8 list" where
  "put_bytes i bytes buf = take i buf @ bytes @ drop (i + length bytes) buf"

function payload_loop :: "'s host \<Rightarrow> connection \<Rightarrow> 's world \<Rightarrow> ((int + unit) \<times> connection \<times> 's world) option" where
  "payload_loop host mosq w =
     (let p = cn_in_packet mosq
      in if pk_to_process p = 0 then Some (Inr (), mosq, w)
         else if \<not> unat (pk_pos p) + unat (pk_to_process p) \<le> length (pk_payload p) then None
         else
           (case net__read host (unat (pk_to_process p)) w of
              (Got bytes, w) \<Rightarrow>
                if bytes = [] then Some (Inl (errno_rc (Errno 0)), mosq, w)
                else if length bytes > unat (pk_to_process p) then None
                else payload_loop host
                  (mosq\<lparr>cn_in_packet := p\<lparr>pk_payload := put_bytes (unat (pk_pos p)) bytes (pk_payload p),
                     pk_to_process := pk_to_process p - of_nat (length bytes), pk_pos := pk_pos p + of_nat (length bytes)\<rparr>\<rparr>)
                  (w\<lparr>g_bytes_received := g_bytes_received w + of_nat (length bytes)\<rparr>)
            | (Read_failed e, w) \<Rightarrow>
                Some (Inl (errno_rc e),
                  if (e = EAGAIN \<or> e = EWOULDBLOCK) \<and> pk_to_process p > 1000 then keepalive__update host mosq else mosq, w)))"
  by pat_completeness auto

termination
proof (relation "measure (\<lambda>(_, mosq, _). unat (pk_to_process (cn_in_packet mosq)))")
  fix host :: "'s host" and mosq mosq' :: connection and w w' :: "'s world" and p :: packet and bytes :: "u8 list"
  assume "p = cn_in_packet mosq" "pk_to_process p \<noteq> 0" "bytes \<noteq> []" "\<not> length bytes > unat (pk_to_process p)"
  then have "unat (pk_to_process p - of_nat (length bytes)) < unat (pk_to_process p)"
    by (simp add: unat_minus_nat unat_gt_0)
  then show "((host, mosq\<lparr>cn_in_packet := p\<lparr>pk_payload := put_bytes (unat (pk_pos p)) bytes (pk_payload p),
       pk_to_process := pk_to_process p - of_nat (length bytes), pk_pos := pk_pos p + of_nat (length bytes)\<rparr>\<rparr>, w'),
      (host, mosq, w)) \<in> measure (\<lambda>(_, mosq, _). unat (pk_to_process (cn_in_packet mosq)))"
    using \<open>p = cn_in_packet mosq\<close> by simp
qed simp

declare payload_loop.simps [simp del]

text \<open>Reading the command byte, when there is none yet.\<close>

definition read_command :: "'s host \<Rightarrow> connection \<Rightarrow> 's world \<Rightarrow> ((int + unit) \<times> connection \<times> 's world) option" where
  "read_command host mosq w =
     (if pk_command (cn_in_packet mosq) \<noteq> 0 then Some (Inr (), mosq, w)
      else
        (case net__read host 1 w of
           (Got [], w) \<Rightarrow> Some (Inl (err_code MOSQ_ERR_CONN_LOST), mosq, w)
         | (Got [byte], w) \<Rightarrow>
             let state = mosquitto__get_state (mosquitto.truncate mosq);
                 mosq = mosq\<lparr>cn_in_packet := (cn_in_packet mosq)\<lparr>pk_command := byte\<rparr>\<rparr>;
                 w = w\<lparr>g_bytes_received := g_bytes_received w + 1\<rparr>
             in if ctx_bridge mosq = None \<and> state = mosq_cs_connected \<and> byte AND 0xF0 \<noteq> CMD_CONNECT
                then Some (Inl (err_code MOSQ_ERR_PROTOCOL), mosq, w) else Some (Inr (), mosq, w)
         | (Got _, w) \<Rightarrow> None
         | (Read_failed e, w) \<Rightarrow> Some (Inl (errno_rc e), mosq, w)))"

text \<open>Reading the remaining length, unless it is complete, and making room for the payload.\<close>

definition read_length :: "'s host \<Rightarrow> connection \<Rightarrow> 's world \<Rightarrow> ((int + unit) \<times> connection \<times> 's world) option" where
  "read_length host mosq w =
     (if pk_remaining_count (cn_in_packet mosq) > 0 then Some (Inr (), mosq, w)
      else
        (case length_loop host (cn_in_packet mosq) w of
           None \<Rightarrow> None
         | Some (Inl rc, p, w) \<Rightarrow> Some (Inl rc, mosq\<lparr>cn_in_packet := p\<rparr>, w)
         | Some (Inr _, p, w) \<Rightarrow>
             let p = p\<lparr>pk_remaining_count := pk_remaining_count p * -1\<rparr>; mosq = mosq\<lparr>cn_in_packet := p\<rparr>
             in if h_max_packet_size host > 0 \<and> pk_remaining_length p + 1 > h_max_packet_size host then
                  Some (Inl (err_code MOSQ_ERR_OVERSIZE_PACKET),
                    if ctx_protocol mosq = mosq_p_mqtt5 then h_disconnect host mosq else mosq, w)
                else if pk_remaining_length p > 0 then
                  if \<not> h_alloc host (unat (pk_remaining_length p)) then Some (Inl (err_code MOSQ_ERR_NOMEM), mosq, w)
                  else Some (Inr (), mosq\<lparr>cn_in_packet := p\<lparr>pk_payload := replicate (unat (pk_remaining_length p)) 0,
                         pk_to_process := pk_remaining_length p\<rparr>\<rparr>, w)
                else Some (Inr (), mosq, w)))"

definition count_received :: "packet \<Rightarrow> 's world \<Rightarrow> 's world" where
  "count_received p w =
     (let w = w\<lparr>g_msgs_received := g_msgs_received w + 1\<rparr>
      in if pk_command p AND 0xF5 = CMD_PUBLISH then w\<lparr>g_pub_msgs_received := g_pub_msgs_received w + 1\<rparr> else w)"

text \<open>One part after the other, as long as none returns.\<close>

definition continue ::
  "((int + unit) \<times> connection \<times> 's world) option \<Rightarrow>
   (connection \<Rightarrow> 's world \<Rightarrow> (int \<times> connection \<times> 's world) option) \<Rightarrow> (int \<times> connection \<times> 's world) option" where
  "continue r k =
     (case r of
        None \<Rightarrow> None
      | Some (Inl rc, mosq, w) \<Rightarrow> Some (rc, mosq, w)
      | Some (Inr _, mosq, w) \<Rightarrow> k mosq w)"

definition packet__read :: "'s host \<Rightarrow> connection \<Rightarrow> 's world \<Rightarrow> (int \<times> connection \<times> 's world) option" where
  "packet__read host mosq w =
     (if ctx_sock mosq = INVALID_SOCKET then Some (err_code MOSQ_ERR_NO_CONN, mosq, w)
      else if mosquitto__get_state (mosquitto.truncate mosq) = mosq_cs_connect_pending
      then Some (err_code MOSQ_ERR_SUCCESS, mosq, w)
      else
        continue (read_command host mosq w) (\<lambda>mosq w.
        continue (read_length host mosq w) (\<lambda>mosq w.
        continue (payload_loop host mosq w) (\<lambda>mosq w.
          let mosq = mosq\<lparr>cn_in_packet := (cn_in_packet mosq)\<lparr>pk_pos := 0\<rparr>\<rparr>;
              w = count_received (cn_in_packet mosq) w;
              (rc, mosq) = h_handle host mosq
          in Some (rc, keepalive__update host (mosq\<lparr>cn_in_packet := packet__cleanup (cn_in_packet mosq)\<rparr>), w)))))"

end
