(* ===== verification/Packet_Write.thy ===== *)
theory Packet_Write
  imports Packet_IO
begin

text \<open>
  Writing packets against the stream of bytes the socket has taken: whatever part of a packet the
  socket takes at a time, the stream is the packets in the order they were queued, each once.
\<close>

section \<open>What is documented of \<open>write\<close>\<close>

text \<open>
  \<open>write(2)\<close> takes a first part of the buffer and says how long it is, or takes nothing;
  \<open>taken\<close> is what the peer will receive.
\<close>

definition writes_stream :: "'s host \<Rightarrow> ('s \<Rightarrow> u8 list) \<Rightarrow> bool" where
  "writes_stream host taken \<longleftrightarrow> (\<forall>buf s.
     case h_write host buf s of
       (Wrote n, s') \<Rightarrow> n \<le> length buf \<and> taken s' = taken s @ take n buf
     | (Write_failed e, s') \<Rightarrow> taken s' = taken s)"

text \<open>A socket that is ready takes at least a byte.\<close>

definition always_writes :: "'s host \<Rightarrow> bool" where
  "always_writes host \<longleftrightarrow> (\<forall>buf s. buf \<noteq> [] \<longrightarrow> (case h_write host buf s of (Wrote n, s') \<Rightarrow> 0 < n | (Write_failed e, s') \<Rightarrow> False))"

section \<open>What is still to be written\<close>

definition unsent_packet :: "packet \<Rightarrow> u8 list" where
  "unsent_packet p = take (unat (pk_to_process p)) (drop (unat (pk_pos p)) (pk_payload p))"

definition unsent :: "connection \<Rightarrow> u8 list" where
  "unsent mosq = (case cn_current_out_packet mosq of None \<Rightarrow> [] | Some p \<Rightarrow> unsent_packet p) @
     concat (map unsent_packet (cn_out_packet mosq))"

definition ready :: "packet \<Rightarrow> bool" where
  "ready p \<longleftrightarrow> unat (pk_pos p) + unat (pk_to_process p) \<le> length (pk_payload p) \<and>
     unat (pk_pos p) + unat (pk_to_process p) < 2 ^ 32"

definition queue_ok :: "connection \<Rightarrow> bool" where
  "queue_ok mosq \<longleftrightarrow> (\<forall>p \<in> set (cn_out_packet mosq). ready p) \<and>
     (\<forall>p. cn_current_out_packet mosq = Some p \<longrightarrow> ready p) \<and>
     ctx_out_packet_count mosq = int (length (cn_out_packet mosq))"

lemma write_packet_ok:
  "writes_stream host taken \<Longrightarrow> ready p \<Longrightarrow> \<exists>r p' w'. write_packet host p w = Some (r, p', w') \<and> ready p' \<and>
    taken (w_os w') @ unsent_packet p' = taken (w_os w) @ unsent_packet p \<and>
    (r = Inr () \<longrightarrow> pk_to_process p' = 0) \<and> (always_writes host \<longrightarrow> r = Inr ())"
proof (induction host p w rule: write_packet.induct)
  case (1 host p w)
  note os = 1(2)
  show ?case
  proof (cases "pk_to_process p = 0")
    case True
    then show ?thesis using 1(3) by (simp add: write_packet.simps [of host p])
  next
    case False
    have rd: "unat (pk_pos p) + unat (pk_to_process p) \<le> length (pk_payload p)" "unat (pk_pos p) + unat (pk_to_process p) < 2 ^ 32"
      using 1(3) by (simp_all add: ready_def)
    let ?buf = "unsent_packet p"
    have buf: "take (unat (pk_to_process p)) (drop (unat (pk_pos p)) (pk_payload p)) = ?buf" by (simp add: unsent_packet_def)
    have len: "length ?buf = unat (pk_to_process p)" using rd by (simp add: unsent_packet_def)
    then have ne: "?buf \<noteq> []" using False by (metis list.size(3) unat_eq_zero)
    obtain r s where r: "h_write host ?buf (w_os w) = (r, s)" by (cases "h_write host ?buf (w_os w)")
    have nw: "net__write host ?buf w = (r, w\<lparr>w_os := s\<rparr>)" by (simp add: net__write_def r)
    have eq: "write_packet host p w = (case (r, w\<lparr>w_os := s\<rparr>) of
           (Wrote n, w) \<Rightarrow>
             if n = 0 then Some (Inl (errno_rc (Errno 0)), p, w)
             else if n > unat (pk_to_process p) then None
             else write_packet host
               (p\<lparr>pk_to_process := pk_to_process p - of_nat n, pk_pos := pk_pos p + of_nat n\<rparr>)
               (w\<lparr>g_bytes_sent := g_bytes_sent w + of_nat n\<rparr>)
         | (Write_failed e, w) \<Rightarrow> Some (Inl (errno_rc e), p, w))"
      unfolding write_packet.simps [of host p w] buf nw using False rd(1) by (simp only: if_False not_True_eq_False)
    have stream: "case (r, s) of (Wrote n, s') \<Rightarrow> n \<le> length ?buf \<and> taken s' = taken (w_os w) @ take n ?buf
       | (Write_failed e, s') \<Rightarrow> taken s' = taken (w_os w)"
      using os [unfolded writes_stream_def, rule_format, of ?buf "w_os w"] unfolding r .
    have always: "always_writes host \<Longrightarrow> case (r, s) of (Wrote n, s') \<Rightarrow> 0 < n | (Write_failed e, s') \<Rightarrow> False"
      by (drule always_writes_def [THEN iffD1, rule_format, OF _ ne, where s = "w_os w"]) (simp only: r)
    show ?thesis
    proof (cases r)
      case (Write_failed e)
      then show ?thesis using eq stream always 1(3) by auto
    next
      case (Wrote n)
      show ?thesis
      proof (cases "n = 0")
        case True
        then show ?thesis using eq stream always 1(3) Wrote by auto
      next
        case n: False
        have nle: "n \<le> unat (pk_to_process p)" using stream Wrote len by simp
        let ?p = "p\<lparr>pk_to_process := pk_to_process p - of_nat n, pk_pos := pk_pos p + of_nat n\<rparr>"
        let ?w = "(w\<lparr>w_os := s\<rparr>)\<lparr>g_bytes_sent := g_bytes_sent w + of_nat n\<rparr>"
        have u: "unat (pk_to_process p - of_nat n) = unat (pk_to_process p) - n" by (rule unat_minus_nat [OF nle])
        have v: "unat (pk_pos p + of_nat n) = unat (pk_pos p) + n"
          using rd(2) nle by (simp add: unat_word_ariths unat_small [OF nle])
        have "ready ?p" using rd nle by (simp add: ready_def u v)
        moreover have "unsent_packet ?p = drop n ?buf" by (simp add: unsent_packet_def u v drop_take, simp add: add.commute)
        ultimately obtain r' p' w' where ih: "write_packet host ?p ?w = Some (r', p', w')" "ready p'"
          "taken (w_os w') @ unsent_packet p' = taken s @ drop n ?buf"
          "r' = Inr () \<longrightarrow> pk_to_process p' = 0" "always_writes host \<longrightarrow> r' = Inr ()"
          using 1(1) [OF False _ nw [unfolded buf [symmetric], symmetric] Wrote n _ os] rd(1) nle by auto
        have "taken s @ drop n ?buf = taken (w_os w) @ ?buf" using stream Wrote by simp
        then show ?thesis using ih eq Wrote n nle by auto
      qed
    qed
  qed
qed

text \<open>The queue after a packet is written.\<close>

lemma next_packet_simps [simp]:
  "ctx_out_packet_count (next_packet mosq) = ctx_out_packet_count mosq"
  "ctx_sock (next_packet mosq) = ctx_sock mosq" "ctx_state (next_packet mosq) = ctx_state mosq"
  by (simp_all add: next_packet_def split: list.split)

lemma packet_written_queue:
  "queue_ok mosq \<Longrightarrow> queue_ok (packet_written host mosq) \<and>
   unsent (packet_written host mosq) = concat (map unsent_packet (cn_out_packet mosq))"
  by (auto simp: queue_ok_def packet_written_def unsent_def next_packet_def Let_def split: list.split)

lemma count_sent_os [simp]: "w_os (count_sent p w) = w_os w"
  by (simp add: count_sent_def Let_def)

lemma write_stream_ok:
  "writes_stream host taken \<Longrightarrow> queue_ok mosq \<Longrightarrow> \<exists>rc mosq' w'. write_loop host mosq w = Some (rc, mosq', w') \<and> queue_ok mosq' \<and>
    taken (w_os w') @ unsent mosq' = taken (w_os w) @ unsent mosq \<and>
    (always_writes host \<longrightarrow> cn_current_out_packet mosq \<noteq> None \<or> cn_out_packet mosq = [] \<longrightarrow> rc = 0 \<and> unsent mosq' = [])"
proof (induction host mosq w rule: write_loop.induct)
  case (1 host mosq w)
  note os = 1(2)
  show ?case
  proof (cases "cn_current_out_packet mosq")
    case None
    then show ?thesis using 1(3) by (auto simp: write_loop.simps [of host mosq] queue_ok_def unsent_def)
  next
    case (Some p)
    have "ready p" using 1(3) Some by (simp add: queue_ok_def)
    from write_packet_ok [where w = w, OF os this] obtain r p' w1 where wp: "write_packet host p w = Some (r, p', w1)" "ready p'"
      "taken (w_os w1) @ unsent_packet p' = taken (w_os w) @ unsent_packet p" "r = Inr () \<longrightarrow> pk_to_process p' = 0"
      "always_writes host \<longrightarrow> r = Inr ()" by blast
    show ?thesis
    proof (cases r)
      case (Inl rc)
      have "queue_ok (mosq\<lparr>cn_current_out_packet := Some p'\<rparr>)" using 1(3) wp(2) by (simp add: queue_ok_def)
      moreover have "taken (w_os w1) @ unsent (mosq\<lparr>cn_current_out_packet := Some p'\<rparr>) = taken (w_os w) @ unsent mosq"
        using wp(3) Some by (simp add: unsent_def)
      ultimately show ?thesis using Inl wp(1,5) Some by (auto simp: write_loop.simps [of host mosq])
    next
      case (Inr u)
      let ?m = "packet_written host mosq" and ?w = "count_sent p' w1"
      have q: "queue_ok ?m" "unsent ?m = concat (map unsent_packet (cn_out_packet mosq))" using packet_written_queue [OF 1(3)] by auto
      have z: "unsent_packet p' = []" using wp(4) Inr by (simp add: unsent_packet_def)
      have next_one: "cn_current_out_packet ?m \<noteq> None \<or> cn_out_packet ?m = []"
        by (auto simp: packet_written_def next_packet_def Let_def split: list.split)
      obtain rc mosq' w' where ih: "write_loop host ?m ?w = Some (rc, mosq', w')" "queue_ok mosq'"
        "taken (w_os w') @ unsent mosq' = taken (w_os ?w) @ unsent ?m"
        "always_writes host \<longrightarrow> rc = 0 \<and> unsent mosq' = []"
        using 1(1) [OF Some wp(1) refl Inr refl os q(1)] next_one by auto
      have "taken (w_os ?w) @ unsent ?m = taken (w_os w) @ unsent mosq"
        using wp(3) z q(2) Some by (simp add: unsent_def)
      then show ?thesis using ih Some wp(1) Inr by (auto simp: write_loop.simps [of host mosq])
    qed
  qed
qed

text \<open>While bytes are left, the socket is watched for output.\<close>

lemma write_loop_watched:
  "write_loop host mosq w = Some (rc, mosq', w') \<Longrightarrow> cn_current_out_packet mosq \<noteq> None \<or> cn_out_packet mosq = [] \<Longrightarrow>
   cn_want_out mosq \<Longrightarrow> unsent mosq' \<noteq> [] \<Longrightarrow> cn_want_out mosq'"
proof (induction host mosq w rule: write_loop.induct)
  case (1 host mosq w)
  have next_one: "cn_current_out_packet (packet_written host mosq) \<noteq> None \<or> cn_out_packet (packet_written host mosq) = []"
    and want: "cn_want_out (packet_written host mosq) = cn_want_out mosq"
    by (auto simp: packet_written_def next_packet_def Let_def split: list.split)
  show ?case
  proof (cases "cn_current_out_packet mosq")
    case None
    then show ?thesis using 1(2-5) by (auto simp: write_loop.simps [of host mosq] unsent_def)
  next
    case (Some p)
    obtain r p' w1 where wp: "write_packet host p w = Some (r, p', w1)"
      using 1(2) Some by (cases "write_packet host p w") (auto simp: write_loop.simps [of host mosq])
    show ?thesis
    proof (cases r)
      case (Inl rc)
      then show ?thesis using 1(2,4) Some wp by (auto simp: write_loop.simps [of host mosq])
    next
      case (Inr u)
      have "write_loop host (packet_written host mosq) (count_sent p' w1) = Some (rc, mosq', w')"
        using 1(2) Some wp Inr by (simp add: write_loop.simps [of host mosq])
      then show ?thesis using 1(1) [OF Some wp refl Inr refl _ next_one] 1(4,5) want by blast
    qed
  qed
qed

section \<open>\<open>packet__write\<close> and \<open>packet__queue\<close>\<close>

definition may_write :: "connection \<Rightarrow> bool" where
  "may_write mosq \<longleftrightarrow> ctx_sock mosq \<noteq> INVALID_SOCKET \<and> mosquitto__get_state (mosquitto.truncate mosq) \<noteq> mosq_cs_connect_pending"

text \<open>The first packet of the queue made the current one, as \<open>packet__write\<close> begins.\<close>

definition taken_up :: "connection \<Rightarrow> connection" where
  "taken_up mosq = (if cn_out_packet mosq \<noteq> [] \<and> cn_current_out_packet mosq = None
     then (next_packet mosq)\<lparr>ctx_out_packet_count := ctx_out_packet_count mosq - 1\<rparr> else mosq)"

lemma taken_up_ok:
  "queue_ok mosq \<Longrightarrow> queue_ok (taken_up mosq) \<and> unsent (taken_up mosq) = unsent mosq \<and>
   (cn_current_out_packet (taken_up mosq) \<noteq> None \<or> cn_out_packet (taken_up mosq) = [])"
  by (cases "cn_out_packet mosq") (auto simp: taken_up_def queue_ok_def unsent_def next_packet_def)

lemma get_state_cong:
  "ctx_state (a :: connection) = ctx_state b \<Longrightarrow>
   mosquitto__get_state (mosquitto.truncate a) = mosquitto__get_state (mosquitto.truncate b)"
  by (simp add: mosquitto__get_state_def mosquitto.defs)

lemma packet__write_eq:
  "packet__write host mosq w =
     (if ctx_sock mosq = INVALID_SOCKET then Some (err_code MOSQ_ERR_NO_CONN, mosq, w)
      else let mosq' = (taken_up mosq)\<lparr>cn_want_out := cn_want_out mosq \<or> cn_current_out_packet (taken_up mosq) \<noteq> None\<rparr>
        in if may_write mosq then write_loop host mosq' w else Some (err_code MOSQ_ERR_SUCCESS, mosq', w))"
proof -
  have "mosquitto__get_state (mosquitto.truncate (if cn_current_out_packet (taken_up mosq) \<noteq> None
      then (taken_up mosq)\<lparr>cn_want_out := True\<rparr> else taken_up mosq)) = mosquitto__get_state (mosquitto.truncate mosq)"
    by (rule get_state_cong) (simp add: taken_up_def)
  moreover have "(if cn_current_out_packet (taken_up mosq) \<noteq> None then (taken_up mosq)\<lparr>cn_want_out := True\<rparr> else taken_up mosq) =
    (taken_up mosq)\<lparr>cn_want_out := cn_want_out mosq \<or> cn_current_out_packet (taken_up mosq) \<noteq> None\<rparr>"
    by (auto simp: taken_up_def next_packet_def split: list.split)
  ultimately show ?thesis
    unfolding packet__write_def taken_up_def [symmetric] Let_def may_write_def by auto
qed

text \<open>
  The result of a call on a client \<open>mosq\<close> that adds the bytes \<open>added\<close>.
\<close>

definition keeps_stream ::
  "'s host \<Rightarrow> ('s \<Rightarrow> u8 list) \<Rightarrow> connection \<Rightarrow> 's world \<Rightarrow> u8 list \<Rightarrow> (int \<times> connection \<times> 's world) option \<Rightarrow> bool" where
  "keeps_stream host taken mosq w added r \<longleftrightarrow> (\<exists>rc mosq' w'. r = Some (rc, mosq', w') \<and> queue_ok mosq' \<and>
     taken (w_os w') @ unsent mosq' = taken (w_os w) @ unsent mosq @ added \<and>
     (ctx_sock mosq \<noteq> INVALID_SOCKET \<longrightarrow> unsent mosq' \<noteq> [] \<longrightarrow> cn_want_out mosq') \<and>
     (always_writes host \<longrightarrow> may_write mosq \<longrightarrow> rc = 0 \<and> unsent mosq' = []))"

lemma packet_write_ok:
  assumes os: "writes_stream host taken" and q: "queue_ok mosq"
  shows "keeps_stream host taken mosq w [] (packet__write host mosq w)"
proof (cases "ctx_sock mosq = INVALID_SOCKET")
  case True
  then show ?thesis using q by (simp add: keeps_stream_def packet__write_eq may_write_def)
next
  case sock: False
  let ?m = "(taken_up mosq)\<lparr>cn_want_out := cn_want_out mosq \<or> cn_current_out_packet (taken_up mosq) \<noteq> None\<rparr>"
  have m: "queue_ok ?m" "unsent ?m = unsent mosq" "cn_current_out_packet ?m \<noteq> None \<or> cn_out_packet ?m = []"
    using taken_up_ok [OF q] by (auto simp: queue_ok_def unsent_def)
  show ?thesis
  proof (cases "may_write mosq")
    case False
    then show ?thesis using sock m by (auto simp: keeps_stream_def packet__write_eq Let_def unsent_def)
  next
    case True
    obtain rc mosq' w' where r: "write_loop host ?m w = Some (rc, mosq', w')" "queue_ok mosq'"
      "taken (w_os w') @ unsent mosq' = taken (w_os w) @ unsent ?m" "always_writes host \<longrightarrow> rc = 0 \<and> unsent mosq' = []"
      using write_stream_ok [OF os m(1), of w] m(3) by blast
    have "cn_want_out mosq'" if "unsent mosq' \<noteq> []"
    proof (cases "cn_current_out_packet ?m")
      case None
      then have "mosq' = ?m\<lparr>cn_want_out := False\<rparr>" using r(1) unfolding write_loop.simps [of host ?m] by simp
      then have "unsent mosq' = []" using None m(3) by (simp add: unsent_def)
      then show ?thesis using that by simp
    next
      case (Some p)
      then show ?thesis using write_loop_watched [OF r(1) m(3) _ that] by simp
    qed
    then show ?thesis using r m(2) sock True by (simp add: keeps_stream_def packet__write_eq Let_def)
  qed
qed

text \<open>
  C14: The bytes of the packets of a client go out in the order the packets were queued, none lost and none
  twice, however few of them the socket takes at a time: after any call of \<open>packet__write\<close> the bytes the
  socket has taken followed by those still to be written are what they were, and after \<open>packet__queue\<close>
  the bytes of the new packet come behind them. Neither reads outside a packet; the count of the queue
  stays right; while something is left the socket is watched for output; and a socket that takes at
  least a byte each time is sent everything.
\<close>

theorem packet_write_in_order:
  assumes "writes_stream host taken" and "queue_ok mosq" and "unat (pk_packet_length p) \<le> length (pk_payload p)"
  shows "keeps_stream host taken mosq w [] (packet__write host mosq w) \<and>
     keeps_stream host taken mosq w (take (unat (pk_packet_length p)) (pk_payload p)) (packet__queue host mosq p w)"
proof (rule conjI)
  show "keeps_stream host taken mosq w [] (packet__write host mosq w)"
    using packet_write_ok [OF assms(1,2)] .
next
  let ?p = "p\<lparr>pk_pos := 0, pk_to_process := pk_packet_length p\<rparr>"
  let ?m = "mosq\<lparr>cn_out_packet := cn_out_packet mosq @ [?p], ctx_out_packet_count := ctx_out_packet_count mosq + 1\<rparr>"
  have "unat (pk_packet_length p) < 2 ^ 32" using unsigned_less [of "pk_packet_length p", where 'a = nat] by simp
  then have q: "queue_ok ?m" using assms(2,3) by (auto simp: queue_ok_def ready_def)
  have u: "unsent ?m = unsent mosq @ take (unat (pk_packet_length p)) (pk_payload p)"
    by (simp add: unsent_def unsent_packet_def)
  have "may_write ?m = may_write mosq" using get_state_cong [of ?m mosq] by (simp add: may_write_def)
  then show "keeps_stream host taken mosq w (take (unat (pk_packet_length p)) (pk_payload p)) (packet__queue host mosq p w)"
    using packet_write_ok [OF assms(1) q, of w] by (simp add: keeps_stream_def packet__queue_def u)
qed

text \<open>A socket that takes two bytes at a time.\<close>

definition ex_writer :: "u8 list host" where
  "ex_writer = \<lparr>h_read = \<lambda>n s. (Read_failed EAGAIN, s), h_write = \<lambda>buf s. (Wrote (min 2 (length buf)), s @ take 2 buf),
     h_alloc = \<lambda>n. True, h_now = 7, h_max_packet_size = 0, h_handle = \<lambda>m. (0, m), h_disconnect = \<lambda>m. m\<rparr>"

definition ex_writing :: connection where
  "ex_writing = the (context__init ex_writer 20 True (Some ''10.0.0.1'') 5)"

definition ex_packet :: "u8 list \<Rightarrow> packet" where
  "ex_packet bytes = \<lparr>pk_payload = bytes, pk_remaining_mult = 1, pk_remaining_length = of_nat (length bytes - 2),
     pk_packet_length = of_nat (length bytes), pk_to_process = 0, pk_pos = 0, pk_mid = 0, pk_command = hd bytes, pk_remaining_count = 1\<rparr>"

definition ex_world :: "'s \<Rightarrow> 's world" where
  "ex_world s = \<lparr>w_os = s, g_bytes_received = 0, g_bytes_sent = 0, g_msgs_received = 0, g_msgs_sent = 0,
     g_pub_msgs_received = 0, g_pub_msgs_sent = 0\<rparr>"

lemma ex_writer_stream: "writes_stream ex_writer (\<lambda>s. s)"
  by (simp add: writes_stream_def ex_writer_def min_def)

lemma ex_writer_always: "always_writes ex_writer"
  by (simp add: always_writes_def ex_writer_def)

lemma ex_writing_ok: "queue_ok ex_writing" "may_write ex_writing" "unsent ex_writing = []"
  by (simp_all add: queue_ok_def may_write_def unsent_def ex_writing_def context__init_def ex_writer_def mosquitto.defs
      mosquitto__get_state_def)

theorem packet_write_in_order_witness:
  "keeps_stream ex_writer (\<lambda>s. s) ex_writing (ex_world [9]) [] (packet__write ex_writer ex_writing (ex_world [9])) \<and>
   (\<exists>mosq' w'. packet__queue ex_writer ex_writing (ex_packet [0xC0, 0, 1]) (ex_world [9]) = Some (0, mosq', w') \<and>
      w_os w' = [9, 0xC0, 0, 1])"
proof -
  have "unat (pk_packet_length (ex_packet [0xC0, 0, 1])) \<le> length (pk_payload (ex_packet [0xC0, 0, 1]))"
    by (simp add: ex_packet_def)
  note both = packet_write_in_order [where w = "ex_world [9]", OF ex_writer_stream ex_writing_ok(1) this]
  then show ?thesis
    using both ex_writing_ok ex_writer_always by (auto simp: keeps_stream_def ex_packet_def ex_world_def)
qed

end
