(* ===== verification/Packet_Read.thy ===== *)
theory Packet_Read
  imports Packet_Write
begin

text \<open>
  Reading packets against the stream of bytes the peer has sent: wherever the socket breaks the stream
  off, \<open>packet__read\<close> hands the packets to \<open>handle__packet\<close> one by one and whole.
\<close>

section \<open>What is documented of \<open>read\<close>\<close>

text \<open>
  \<open>read(2)\<close> gives a first part of what the peer has sent and is not read yet, at most as long as asked,
  or fails and takes nothing.
\<close>

definition reads_stream :: "'s host \<Rightarrow> ('s \<Rightarrow> u8 list) \<Rightarrow> bool" where
  "reads_stream host pending \<longleftrightarrow> (\<forall>n s.
     case h_read host n s of
       (Got bytes, s') \<Rightarrow> length bytes \<le> n \<and> pending s = bytes @ pending s'
     | (Read_failed e, s') \<Rightarrow> pending s' = pending s)"

text \<open>A socket that never fails, and so never has the caller wait.\<close>

definition never_fails :: "'s host \<Rightarrow> bool" where
  "never_fails host \<longleftrightarrow> (\<forall>n s e. fst (h_read host n s) \<noteq> Read_failed e)"

text \<open>A socket that moreover never comes to the end of the stream.\<close>

definition always_reads :: "'s host \<Rightarrow> bool" where
  "always_reads host \<longleftrightarrow> never_fails host \<and> (\<forall>n s. n > 0 \<longrightarrow> fst (h_read host n s) \<noteq> Got [])"

lemma net__read_stream:
  assumes os: "reads_stream host pending" and r: "net__read host n w = (r, w')"
  shows "case r of
       Got bytes \<Rightarrow> length bytes \<le> n \<and> pending (w_os w) = bytes @ pending (w_os w') \<and>
         (n > 0 \<longrightarrow> bytes = [] \<longrightarrow> \<not> always_reads host)
     | Read_failed e \<Rightarrow> pending (w_os w') = pending (w_os w) \<and> \<not> never_fails host"
proof -
  obtain s' where s: "h_read host n (w_os w) = (r, s')" and w': "w' = w\<lparr>w_os := s'\<rparr>"
    using r by (cases "h_read host n (w_os w)") (auto simp: net__read_def)
  have a: "case (r, s') of (Got bytes, s') \<Rightarrow> length bytes \<le> n \<and> pending (w_os w) = bytes @ pending s'
       | (Read_failed e, s') \<Rightarrow> pending s' = pending (w_os w)"
    using os [unfolded reads_stream_def, rule_format, of n "w_os w"] unfolding s .
  have "\<not> never_fails host" if "r = Read_failed e" for e
    unfolding never_fails_def using s that by (metis fst_conv)
  moreover have "\<not> always_reads host" if "r = Got []" "n > 0"
    unfolding always_reads_def using s that by (metis fst_conv)
  ultimately show ?thesis using a w' by (cases r) simp_all
qed

section \<open>Packets on the wire\<close>

text \<open>The remaining length: seven bits a byte, the low ones first, the top bit saying that more follow.\<close>

fun length_value :: "u8 list \<Rightarrow> nat" where
  "length_value [] = 0"
| "length_value (b # bs) = unat (b AND 127) + 128 * length_value bs"

definition length_field :: "u8 list \<Rightarrow> bool" where
  "length_field ls \<longleftrightarrow> ls \<noteq> [] \<and> length ls \<le> 4 \<and> (\<forall>b \<in> set (butlast ls). b AND 128 \<noteq> 0) \<and> last ls AND 128 = 0"

lemma length_value_append: "length_value (bs @ [b]) = length_value bs + unat (b AND 127) * 128 ^ length bs"
  by (induction bs) (simp_all add: algebra_simps)

lemma low_bits: "unat ((b :: u8) AND 127) < 128"
proof -
  have "b AND 127 < 128" by (rule le_less_trans [OF word_and_le1]) simp
  then show ?thesis by (simp add: word_less_nat_alt)
qed

lemma length_value_less: "length_value bs < 128 ^ length bs"
proof (induction bs)
  case (Cons b bs)
  then show ?case using low_bits [of b] by (simp add: algebra_simps)
qed simp

lemma length_value_fits: "length ls \<le> 4 \<Longrightarrow> unat (of_nat (length_value ls) :: u32) = length_value ls"
proof -
  assume "length ls \<le> 4"
  then have "(128 :: nat) ^ length ls \<le> 128 ^ 4" by (rule power_increasing) simp
  then have "length_value ls < 2 ^ 32" using length_value_less [of ls] by simp
  then show ?thesis by (simp add: unsigned_of_nat take_bit_nat_eq_self)
qed

text \<open>A whole packet and the bytes it came from.\<close>

definition frame :: "u8 list \<Rightarrow> packet \<Rightarrow> bool" where
  "frame bytes p \<longleftrightarrow> (\<exists>ls. bytes = pk_command p # ls @ pk_payload p \<and> length_field ls \<and>
     length_value ls = length (pk_payload p) \<and> unat (pk_remaining_length p) = length_value ls \<and>
     pk_remaining_count p = int (length ls) \<and> pk_pos p = 0)"

section \<open>Packets that are being read\<close>

definition length_part :: "u8 list \<Rightarrow> packet \<Rightarrow> bool" where
  "length_part ls p \<longleftrightarrow> length ls \<le> 4 \<and> pk_remaining_count p = - int (length ls) \<and>
     pk_remaining_length p = of_nat (length_value ls) \<and> pk_remaining_mult p = 128 ^ length ls"

definition payload_part :: "u8 list \<Rightarrow> packet \<Rightarrow> bool" where
  "payload_part body p \<longleftrightarrow> unat (pk_pos p) = length body \<and> length body + unat (pk_to_process p) = length (pk_payload p) \<and>
     length (pk_payload p) = unat (pk_remaining_length p) \<and> take (length body) (pk_payload p) = body"

definition no_payload :: "packet \<Rightarrow> bool" where
  "no_payload p \<longleftrightarrow> pk_payload p = [] \<and> pk_to_process p = 0 \<and> pk_pos p = 0"

text \<open>\<open>in_packet\<close> when \<open>bytes\<close> is what has been read of the packet.\<close>

definition partial_packet :: "u8 list \<Rightarrow> packet \<Rightarrow> bool" where
  "partial_packet bytes p \<longleftrightarrow>
     (bytes = [] \<and> pk_command p = 0 \<and> length_part [] p \<and> no_payload p) \<or>
     (\<exists>ls. bytes = pk_command p # ls \<and> pk_command p \<noteq> 0 \<and> length_part ls p \<and> no_payload p \<and>
        (\<forall>b \<in> set ls. b AND 128 \<noteq> 0)) \<or>
     (\<exists>ls body. bytes = pk_command p # ls @ body \<and> pk_command p \<noteq> 0 \<and> length_field ls \<and>
        pk_remaining_count p = int (length ls) \<and> pk_remaining_length p = of_nat (length_value ls) \<and>
        payload_part body p)"

lemma partial_packet_cleanup: "partial_packet [] (packet__cleanup p)"
  by (simp add: partial_packet_def packet__cleanup_def length_part_def no_payload_def)

section \<open>Giving up\<close>

definition socket_error :: "'s host \<Rightarrow> int \<Rightarrow> bool" where
  "socket_error host rc \<longleftrightarrow> rc \<in> {err_code MOSQ_ERR_CONN_LOST, err_code MOSQ_ERR_ERRNO} \<and> \<not> always_reads host"

lemma socket_error_errno: "\<not> never_fails host \<Longrightarrow> errno_rc e \<noteq> 0 \<Longrightarrow> socket_error host (errno_rc e)"
  by (cases e) (auto simp: socket_error_def errno_rc_def always_reads_def)

text \<open>Four length bytes that all say that more follow, and a fifth one.\<close>

definition overlong :: "u8 list \<Rightarrow> bool" where
  "overlong bytes \<longleftrightarrow> (\<exists>ls b rest. bytes = ls @ b # rest \<and> length ls = 4 \<and> (\<forall>b \<in> set ls. b AND 128 \<noteq> 0))"

text \<open>Why a call gives up with \<open>rc\<close>, when \<open>stream\<close> begins with the packet.\<close>

definition gives_up :: "'s host \<Rightarrow> connection \<Rightarrow> u8 list \<Rightarrow> int \<Rightarrow> bool" where
  "gives_up host mosq stream rc \<longleftrightarrow>
     socket_error host rc \<or>
     (\<exists>cmd rest. stream = cmd # rest \<and>
       (rc = err_code MOSQ_ERR_PROTOCOL \<and> (overlong rest \<or> cmd AND 0xF0 \<noteq> CMD_CONNECT \<and> ctx_bridge mosq = None \<and>
          mosquitto__get_state (mosquitto.truncate mosq) = mosq_cs_connected) \<or>
        (\<exists>ls rest'. rest = ls @ rest' \<and> length_field ls \<and>
          (rc = err_code MOSQ_ERR_OVERSIZE_PACKET \<and> h_max_packet_size host > 0 \<and>
             of_nat (length_value ls) + 1 > h_max_packet_size host \<or>
           rc = err_code MOSQ_ERR_NOMEM \<and> \<not> h_alloc host (length_value ls)))))"

lemma gives_up_in [simp]: "gives_up host (mosq\<lparr>cn_in_packet := p\<rparr>) stream rc = gives_up host mosq stream rc"
  by (simp add: gives_up_def mosquitto.defs mosquitto__get_state_def)

lemma gives_up_socket: "socket_error host rc \<Longrightarrow> gives_up host mosq stream rc"
  by (simp add: gives_up_def)

section \<open>The loops\<close>

lemma length_part_next:
  "length_part ls p \<Longrightarrow> length ls < 4 \<Longrightarrow>
   length_part (ls @ [byte]) (p\<lparr>pk_remaining_count := pk_remaining_count p - 1,
     pk_remaining_length := pk_remaining_length p + ucast (byte AND 127) * pk_remaining_mult p,
     pk_remaining_mult := pk_remaining_mult p * 128\<rparr>)"
  by (simp add: length_part_def length_value_append unsigned_ucast_eq of_nat_unat)

lemma length_loop_ok:
  "reads_stream host pending \<Longrightarrow> length_part ls p \<Longrightarrow> \<forall>b \<in> set ls. b AND 128 \<noteq> 0 \<Longrightarrow>
   \<exists>r ls' c l m w'. length_loop host p w =
      Some (r, p\<lparr>pk_remaining_count := c, pk_remaining_length := l, pk_remaining_mult := m\<rparr>, w') \<and>
     (r \<in> {Inr (), Inl 0} \<longrightarrow> ls' @ pending (w_os w') = ls @ pending (w_os w) \<and>
        length_part ls' (p\<lparr>pk_remaining_count := c, pk_remaining_length := l, pk_remaining_mult := m\<rparr>)) \<and>
     (r = Inr () \<longrightarrow> length_field ls') \<and>
     (r = Inl 0 \<longrightarrow> (\<forall>b \<in> set ls'. b AND 128 \<noteq> 0) \<and> \<not> never_fails host) \<and>
     (\<forall>rc. r = Inl rc \<longrightarrow> rc \<noteq> 0 \<longrightarrow> socket_error host rc \<or>
        rc = err_code MOSQ_ERR_PROTOCOL \<and> overlong (ls @ pending (w_os w)))"
proof (induction host p w arbitrary: ls rule: length_loop.induct)
  case (1 host p w)
  note os = 1(2) and part = 1(3) and more = 1(4)
  obtain r w1 where net: "net__read host 1 w = (r, w1)" by (cases "net__read host 1 w")
  note stream = net__read_stream [OF os net]
  show ?case
  proof (cases r)
    case (Read_failed e)
    then show ?thesis
      using stream part more Read_failed net
      by - (rule exI [of _ "Inl (errno_rc e)"], rule exI [of _ ls], rule exI [of _ "pk_remaining_count p"],
          rule exI [of _ "pk_remaining_length p"], rule exI [of _ "pk_remaining_mult p"],
          rule exI [of _ w1], simp add: length_loop.simps [of host p] socket_error_errno)
  next
    case (Got bytes)
    show ?thesis
    proof (cases bytes)
      case Nil
      then show ?thesis
        using net Got stream
      by - (rule exI [of _ "Inl (err_code MOSQ_ERR_CONN_LOST)"], rule exI [of _ ls],
          rule exI [of _ "pk_remaining_count p"], rule exI [of _ "pk_remaining_length p"],
          rule exI [of _ "pk_remaining_mult p"], rule exI [of _ w1],
          simp add: length_loop.simps [of host p] socket_error_def)
    next
      case (Cons byte bs)
      then have one: "bytes = [byte]" and pend: "pending (w_os w) = byte # pending (w_os w1)"
        using stream Got by simp_all
      let ?p = "p\<lparr>pk_remaining_count := pk_remaining_count p - 1\<rparr>"
      let ?q = "p\<lparr>pk_remaining_count := pk_remaining_count p - 1,
         pk_remaining_length := pk_remaining_length p + ucast (byte AND 127) * pk_remaining_mult p,
         pk_remaining_mult := pk_remaining_mult p * 128\<rparr>"
      let ?w = "w1\<lparr>g_bytes_received := g_bytes_received w1 + 1\<rparr>"
      show ?thesis
      proof (cases "length ls < 4")
        case False
        then have "length_loop host p w = Some (Inl (err_code MOSQ_ERR_PROTOCOL), ?p, w1)"
          using net Got one part by (simp add: length_loop.simps [of host p] length_part_def)
        moreover have "overlong (ls @ pending (w_os w))"
          using part more False pend unfolding overlong_def length_part_def by (intro exI [of _ ls]) auto
        ultimately show ?thesis
      by - (rule exI [of _ "Inl (err_code MOSQ_ERR_PROTOCOL)"], rule exI [of _ ls],
          rule exI [of _ "pk_remaining_count p - 1"], rule exI [of _ "pk_remaining_length p"],
          rule exI [of _ "pk_remaining_mult p"], rule exI [of _ w1], simp)
      next
        case len: True
        have part': "length_part (ls @ [byte]) ?q" using length_part_next [OF part len] .
        have small: "\<not> pk_remaining_count ?p < -4" using part len by (simp add: length_part_def)
        show ?thesis
        proof (cases "byte AND 128 = 0")
          case True
          then have eq: "length_loop host p w = Some (Inr (), ?q, ?w)"
            using net Got one small by (simp add: length_loop.simps [of host p])
          have "length_field (ls @ [byte])" using more True len by (simp add: length_field_def)
          then show ?thesis using eq part' pend
      by - (rule exI [of _ "Inr ()"], rule exI [of _ "ls @ [byte]"], rule exI [of _ "pk_remaining_count p - 1"],
          rule exI [of _ "pk_remaining_length p + ucast (byte AND 127) * pk_remaining_mult p"],
          rule exI [of _ "pk_remaining_mult p * 128"], rule exI [of _ ?w], simp)
        next
          case cont: False
          have more': "\<forall>b \<in> set (ls @ [byte]). b AND 128 \<noteq> 0" using more cont by simp
          have eq: "length_loop host p w = length_loop host ?q ?w"
            using net Got one small cont by (simp add: length_loop.simps [of host p])
          have part2: "length_part (ls @ [byte]) (?p\<lparr>pk_remaining_length := pk_remaining_length ?p +
              ucast (byte AND 127) * pk_remaining_mult ?p, pk_remaining_mult := pk_remaining_mult ?p * 128\<rparr>)"
            using part' by simp
          have bs: "bs = []" using one Cons by simp
          from 1(1) [OF net [symmetric] Got Cons bs refl small refl refl cont os part2 more']
          show ?thesis unfolding eq by (simp add: pend)
        qed
      qed
    qed
  qed
qed

lemma payload_part_next:
  assumes part: "payload_part body p" and n: "length bytes \<le> unat (pk_to_process p)"
  shows "payload_part (body @ bytes) (p\<lparr>pk_payload := put_bytes (unat (pk_pos p)) bytes (pk_payload p),
    pk_to_process := pk_to_process p - of_nat (length bytes), pk_pos := pk_pos p + of_nat (length bytes)\<rparr>)"
proof -
  have pos: "unat (pk_pos p) = length body" and len: "length body + unat (pk_to_process p) = length (pk_payload p)"
    and rl: "length (pk_payload p) = unat (pk_remaining_length p)" and body: "take (length body) (pk_payload p) = body"
    using part by (simp_all add: payload_part_def)
  have "unat (pk_remaining_length p) < 2 ^ 32" using unsigned_less [of "pk_remaining_length p", where 'a = nat] by simp
  then have "unat (pk_pos p) + length bytes < 2 ^ 32" using pos len rl n by linarith
  then have u: "unat (pk_pos p + of_nat (length bytes)) = length body + length bytes"
    using pos by (simp add: unat_word_ariths unat_small [OF n])
  have v: "unat (pk_to_process p - of_nat (length bytes)) = unat (pk_to_process p) - length bytes"
    by (rule unat_minus_nat [OF n])
  have "length (put_bytes (length body) bytes (pk_payload p)) = length (pk_payload p)"
    using len n by (simp add: put_bytes_def)
  moreover have "take (length body + length bytes) (put_bytes (length body) bytes (pk_payload p)) = body @ bytes"
    using len by (simp add: put_bytes_def body)
  ultimately show ?thesis using len rl n pos u v by (simp add: payload_part_def)
qed

lemma payload_loop_ok:
  "reads_stream host pending \<Longrightarrow> payload_part body (cn_in_packet mosq) \<Longrightarrow>
   \<exists>r buf n i t body' w'. payload_loop host mosq w =
      Some (r, mosq\<lparr>cn_in_packet := (cn_in_packet mosq)\<lparr>pk_payload := buf, pk_to_process := n, pk_pos := i\<rparr>, cn_last_msg_in := t\<rparr>, w') \<and>
     body' @ pending (w_os w') = body @ pending (w_os w) \<and>
     payload_part body' ((cn_in_packet mosq)\<lparr>pk_payload := buf, pk_to_process := n, pk_pos := i\<rparr>) \<and>
     (r = Inr () \<longrightarrow> n = 0 \<and> t = cn_last_msg_in mosq) \<and> (r = Inl 0 \<longrightarrow> \<not> never_fails host) \<and>
     (\<forall>rc. r = Inl rc \<longrightarrow> rc \<noteq> 0 \<longrightarrow> socket_error host rc)"
proof (induction host mosq w arbitrary: body rule: payload_loop.induct)
  case (1 host mosq w)
  note os = 1(2) and part = 1(3)
  let ?p = "cn_in_packet mosq"
  have room: "unat (pk_pos ?p) + unat (pk_to_process ?p) \<le> length (pk_payload ?p)" using part by (simp add: payload_part_def)
  have same: "mosq\<lparr>cn_in_packet := ?p\<lparr>pk_payload := pk_payload ?p, pk_to_process := pk_to_process ?p, pk_pos := pk_pos ?p\<rparr>,
      cn_last_msg_in := cn_last_msg_in mosq\<rparr> = mosq" by simp
  show ?case
  proof (cases "pk_to_process ?p = 0")
    case True
    then have "payload_loop host mosq w = Some (Inr (), mosq, w)" by (simp add: payload_loop.simps [of host mosq])
    moreover have same: "?p\<lparr>pk_to_process := 0\<rparr> = ?p" using True by (cases ?p) simp
    have "payload_part body (?p\<lparr>pk_to_process := 0\<rparr>)" unfolding same by (rule part)
    ultimately show ?thesis using part True
      by - (rule exI [of _ "Inr ()"], rule exI [of _ "pk_payload ?p"], rule exI [of _ "pk_to_process ?p"],
          rule exI [of _ "pk_pos ?p"], rule exI [of _ "cn_last_msg_in mosq"], rule exI [of _ body],
          rule exI [of _ w], simp)
  next
    case left_over: False
    obtain r w1 where net: "net__read host (unat (pk_to_process ?p)) w = (r, w1)" by (cases "net__read host (unat (pk_to_process ?p)) w")
    note stream = net__read_stream [OF os net]
    show ?thesis
    proof (cases r)
      case (Read_failed e)
      let ?t = "if (e = EAGAIN \<or> e = EWOULDBLOCK) \<and> pk_to_process ?p > 1000 then h_now host else cn_last_msg_in mosq"
      have "payload_loop host mosq w = Some (Inl (errno_rc e), mosq\<lparr>cn_last_msg_in := ?t\<rparr>, w1)"
        using left_over room net Read_failed by (auto simp: payload_loop.simps [of host mosq] Let_def keepalive__update_def)
      then show ?thesis using part stream Read_failed
      by - (rule exI [of _ "Inl (errno_rc e)"], rule exI [of _ "pk_payload ?p"], rule exI [of _ "pk_to_process ?p"],
          rule exI [of _ "pk_pos ?p"], rule exI [of _ ?t], rule exI [of _ body], rule exI [of _ w1], simp add: socket_error_errno)
    next
      case (Got bytes)
      then have n: "length bytes \<le> unat (pk_to_process ?p)" and pend: "pending (w_os w) = bytes @ pending (w_os w1)"
        using stream by simp_all
      show ?thesis
      proof (cases "bytes = []")
        case True
        then have "payload_loop host mosq w = Some (Inl (errno_rc (Errno 0)), mosq, w1)"
          using left_over room net Got by (simp add: payload_loop.simps [of host mosq] Let_def)
        moreover have "\<not> always_reads host" using stream Got True left_over by (simp add: unat_gt_0)
        ultimately show ?thesis using part pend True
      by - (rule exI [of _ "Inl (errno_rc (Errno 0))"], rule exI [of _ "pk_payload ?p"],
          rule exI [of _ "pk_to_process ?p"], rule exI [of _ "pk_pos ?p"], rule exI [of _ "cn_last_msg_in mosq"],
          rule exI [of _ body], rule exI [of _ w1], simp add: errno_rc_def socket_error_def)
      next
        case ne: False
        let ?q = "?p\<lparr>pk_payload := put_bytes (unat (pk_pos ?p)) bytes (pk_payload ?p),
           pk_to_process := pk_to_process ?p - of_nat (length bytes), pk_pos := pk_pos ?p + of_nat (length bytes)\<rparr>"
        let ?w = "w1\<lparr>g_bytes_received := g_bytes_received w1 + of_nat (length bytes)\<rparr>"
        have eq: "payload_loop host mosq w = payload_loop host (mosq\<lparr>cn_in_packet := ?q\<rparr>) ?w"
          using left_over room net Got ne n by (simp add: payload_loop.simps [of host mosq] Let_def)
        have part': "payload_part (body @ bytes) (cn_in_packet (mosq\<lparr>cn_in_packet := ?q\<rparr>))"
          using payload_part_next [OF part n] by simp
        have nn: "\<not> \<not> unat (pk_pos ?p) + unat (pk_to_process ?p) \<le> length (pk_payload ?p)"
          "\<not> unat (pk_to_process ?p) < length bytes" using room n by simp_all
        from 1(1) [OF refl left_over nn(1) net [symmetric] Got ne nn(2) os part']
        show ?thesis unfolding eq by (simp add: pend)
      qed
    qed
  qed
qed

section \<open>\<open>packet__read\<close>\<close>

text \<open>What a call may change without a packet to hand on.\<close>

definition no_packet :: "'s host \<Rightarrow> connection \<Rightarrow> connection \<Rightarrow> bool" where
  "no_packet host mosq mosq' \<longleftrightarrow> (\<exists>p t. mosq' = mosq\<lparr>cn_in_packet := p, cn_last_msg_in := t\<rparr> \<or>
     mosq' = h_disconnect host (mosq\<lparr>cn_in_packet := p\<rparr>))"

lemma no_packet_in [simp]: "no_packet host (mosq\<lparr>cn_in_packet := p\<rparr>) mosq' = no_packet host mosq mosq'"
  by (simp add: no_packet_def)

lemma no_packetI:
  "no_packet host mosq mosq" "no_packet host mosq (mosq\<lparr>cn_in_packet := p\<rparr>)"
  "no_packet host mosq (mosq\<lparr>cn_in_packet := p, cn_last_msg_in := t\<rparr>)"
  "no_packet host mosq (h_disconnect host (mosq\<lparr>cn_in_packet := p\<rparr>))"
proof -
  have "mosq = mosq\<lparr>cn_in_packet := cn_in_packet mosq, cn_last_msg_in := cn_last_msg_in mosq\<rparr>"
    "mosq\<lparr>cn_in_packet := p\<rparr> = mosq\<lparr>cn_in_packet := p, cn_last_msg_in := cn_last_msg_in mosq\<rparr>" by simp_all
  then show "no_packet host mosq mosq" "no_packet host mosq (mosq\<lparr>cn_in_packet := p\<rparr>)"
    unfolding no_packet_def by blast+
qed (auto simp: no_packet_def)

text \<open>
  The result of a call on a client that has read \<open>bytes\<close> of a packet: either it waits for more, with
  nothing of the stream lost, or it gives up, or one packet has gone to \<open>handle__packet\<close>, whole.
\<close>

definition reads_packets ::
  "'s host \<Rightarrow> ('s \<Rightarrow> u8 list) \<Rightarrow> connection \<Rightarrow> u8 list \<Rightarrow> 's world \<Rightarrow> (int \<times> connection \<times> 's world) option \<Rightarrow> bool" where
  "reads_packets host pending mosq bytes w r \<longleftrightarrow> (\<exists>rc mosq' w' bytes'. r = Some (rc, mosq', w') \<and>
     (rc \<noteq> 0 \<and> no_packet host mosq mosq' \<and> gives_up host mosq (bytes @ pending (w_os w)) rc \<or>
      rc = 0 \<and> no_packet host mosq mosq' \<and> \<not> never_fails host \<and>
        bytes' @ pending (w_os w') = bytes @ pending (w_os w) \<and> partial_packet bytes' (cn_in_packet mosq') \<or>
      bytes' @ pending (w_os w') = bytes @ pending (w_os w) \<and>
        (\<exists>p m. frame bytes' p \<and> h_handle host (mosq\<lparr>cn_in_packet := p\<rparr>) = (rc, m) \<and>
          mosq' = keepalive__update host (m\<lparr>cn_in_packet := packet__cleanup (cn_in_packet m)\<rparr>))))"

text \<open>The same of a part of the function that goes on with \<open>Q\<close>.\<close>

definition reads_part ::
  "'s host \<Rightarrow> ('s \<Rightarrow> u8 list) \<Rightarrow> connection \<Rightarrow> u8 list \<Rightarrow> 's world \<Rightarrow> (packet \<Rightarrow> bool) \<Rightarrow>
   ((int + unit) \<times> connection \<times> 's world) option \<Rightarrow> bool" where
  "reads_part host pending mosq bytes w Q r \<longleftrightarrow> (\<exists>s mosq' w' bytes'. r = Some (s, mosq', w') \<and>
     (s \<in> {Inr (), Inl 0} \<longrightarrow>
        bytes' @ pending (w_os w') = bytes @ pending (w_os w) \<and> partial_packet bytes' (cn_in_packet mosq')) \<and>
     (s \<noteq> Inr () \<longrightarrow> no_packet host mosq mosq') \<and>
     (\<forall>rc. s = Inl rc \<longrightarrow> rc \<noteq> 0 \<longrightarrow> gives_up host mosq (bytes @ pending (w_os w)) rc) \<and> (s = Inl 0 \<longrightarrow> \<not> never_fails host) \<and>
     (s = Inr () \<longrightarrow> (\<exists>p. mosq' = mosq\<lparr>cn_in_packet := p\<rparr>) \<and> Q (cn_in_packet mosq')))"

lemma reads_stop:
  assumes "rc \<noteq> 0" and "no_packet host mosq mosq'" and "gives_up host mosq (bytes @ pending (w_os w)) rc"
  shows "reads_part host pending mosq bytes w Q (Some (Inl rc, mosq', w'))"
    and "reads_packets host pending mosq bytes w (Some (rc, mosq', w'))"
  using assms by (simp_all add: reads_part_def reads_packets_def)

lemma reads_wait:
  assumes "bytes' @ pending (w_os w') = bytes @ pending (w_os w)" and "partial_packet bytes' (cn_in_packet mosq')"
    and "no_packet host mosq mosq'" and "\<not> never_fails host"
  shows "reads_part host pending mosq bytes w Q (Some (Inl 0, mosq', w'))"
    and "reads_packets host pending mosq bytes w (Some (0, mosq', w'))"
  using assms by (auto simp: reads_part_def reads_packets_def)

lemma reads_go:
  assumes "bytes' @ pending (w_os w') = bytes @ pending (w_os w)" and "partial_packet bytes' p" and "Q p"
  shows "reads_part host pending mosq bytes w Q (Some (Inr (), mosq\<lparr>cn_in_packet := p\<rparr>, w'))"
proof -
  have "\<exists>q. mosq\<lparr>cn_in_packet := p\<rparr> = mosq\<lparr>cn_in_packet := q\<rparr>" by (rule exI, rule refl)
  moreover have "cn_in_packet (mosq\<lparr>cn_in_packet := p\<rparr>) = p" by simp
  ultimately show ?thesis unfolding reads_part_def using assms by (metis (no_types, lifting) sum.distinct(1))
qed

lemma reads_go_same:
  assumes "partial_packet bytes (cn_in_packet mosq)" and "Q (cn_in_packet mosq)"
  shows "reads_part host pending mosq bytes w Q (Some (Inr (), mosq, w))"
  using reads_go [where bytes' = bytes and w' = w and p = "cn_in_packet mosq" and Q = Q and mosq = mosq and pending = pending, OF refl assms]
  by simp

lemma reads_part_cases:
  assumes "reads_part host pending mosq bytes w Q r"
  obtains (stop) rc mosq' w' where "r = Some (Inl rc, mosq', w')" and "rc \<noteq> 0" and "no_packet host mosq mosq'"
      and "gives_up host mosq (bytes @ pending (w_os w)) rc"
  | (wait) mosq' w' bytes' where "r = Some (Inl 0, mosq', w')"
      and "bytes' @ pending (w_os w') = bytes @ pending (w_os w)" and "partial_packet bytes' (cn_in_packet mosq')"
      and "no_packet host mosq mosq'" and "\<not> never_fails host"
  | (go) p w' bytes' where "r = Some (Inr (), mosq\<lparr>cn_in_packet := p\<rparr>, w')"
      and "bytes' @ pending (w_os w') = bytes @ pending (w_os w)" and "partial_packet bytes' p" and "Q p"
proof -
  obtain s mosq' w' bytes' where r: "r = Some (s, mosq', w')"
    and stream: "s \<in> {Inr (), Inl 0} \<longrightarrow>
        bytes' @ pending (w_os w') = bytes @ pending (w_os w) \<and> partial_packet bytes' (cn_in_packet mosq')"
    and quit: "s \<noteq> Inr () \<longrightarrow> no_packet host mosq mosq'"
        "\<forall>rc. s = Inl rc \<longrightarrow> rc \<noteq> 0 \<longrightarrow> gives_up host mosq (bytes @ pending (w_os w)) rc" "s = Inl 0 \<longrightarrow> \<not> never_fails host"
    and ahead: "s = Inr () \<longrightarrow> (\<exists>p. mosq' = mosq\<lparr>cn_in_packet := p\<rparr>) \<and> Q (cn_in_packet mosq')"
    using assms unfolding reads_part_def by (elim exE conjE) (rule that)
  show thesis
  proof (cases s)
    case (Inl rc)
    show thesis
    proof (cases "rc = 0")
      case True
      then show thesis using wait r stream quit Inl by blast
    next
      case False
      then show thesis using stop r quit Inl by blast
    qed
  next
    case (Inr u)
    then obtain p where p: "mosq' = mosq\<lparr>cn_in_packet := p\<rparr>" and q: "Q p" using ahead by auto
    have "r = Some (Inr (), mosq\<lparr>cn_in_packet := p\<rparr>, w')" using r p Inr by simp
    moreover have "bytes' @ pending (w_os w') = bytes @ pending (w_os w)" and "partial_packet bytes' p"
      using stream p Inr by simp_all
    ultimately show thesis using q by (rule go)
  qed
qed

lemma reads_continue:
  assumes part: "reads_part host pending mosq bytes w Q r"
    and rest: "\<And>p w' bytes'. bytes' @ pending (w_os w') = bytes @ pending (w_os w) \<Longrightarrow> partial_packet bytes' p \<Longrightarrow> Q p \<Longrightarrow>
      reads_packets host pending (mosq\<lparr>cn_in_packet := p\<rparr>) bytes' w' (k (mosq\<lparr>cn_in_packet := p\<rparr>) w')"
  shows "reads_packets host pending mosq bytes w (continue r k)"
  using part
proof (cases rule: reads_part_cases)
  case (stop rc mosq' w')
  then show ?thesis by (simp add: continue_def reads_stop)
next
  case (wait mosq' w' bytes')
  then show ?thesis by (simp add: continue_def reads_wait)
next
  case (go p w' bytes')
  have "reads_packets host pending mosq bytes w (k (mosq\<lparr>cn_in_packet := p\<rparr>) w')"
    using rest [OF go(2-4)] unfolding reads_packets_def go(2) by simp
  then show ?thesis using go(1) by (simp add: continue_def)
qed

section \<open>The parts of the function\<close>

lemma read_command_ok:
  assumes os: "reads_stream host pending" and part: "partial_packet bytes (cn_in_packet mosq)"
    and first: "\<forall>rest. bytes @ pending (w_os w) \<noteq> 0 # rest"
  shows "reads_part host pending mosq bytes w (\<lambda>p. pk_command p \<noteq> 0) (read_command host mosq w)"
proof (cases "pk_command (cn_in_packet mosq) = 0")
  case False
  then have "read_command host mosq w = Some (Inr (), mosq, w)" by (simp add: read_command_def)
  then show ?thesis using reads_go_same [OF part, of "\<lambda>p. pk_command p \<noteq> 0"] False by simp
next
  case True
  let ?p = "cn_in_packet mosq"
  have clean: "bytes = []" "length_part [] ?p" "no_payload ?p" using part True by (auto simp: partial_packet_def)
  obtain r w1 where net: "net__read host 1 w = (r, w1)" by (cases "net__read host 1 w")
  note stream = net__read_stream [OF os net]
  show ?thesis
  proof (cases r)
    case (Read_failed e)
    then have eq: "read_command host mosq w = Some (Inl (errno_rc e), mosq, w1)" using True net by (simp add: read_command_def)
    have same: "bytes @ pending (w_os w1) = bytes @ pending (w_os w)" and nf: "\<not> never_fails host" using stream Read_failed by simp_all
    show ?thesis
    proof (cases "errno_rc e = 0")
      case True
      show ?thesis unfolding eq True by (rule reads_wait(1) [OF same part no_packetI(1) nf])
    next
      case False
      then show ?thesis unfolding eq using socket_error_errno [OF nf False] by (simp add: reads_stop no_packetI gives_up_socket)
    qed
  next
    case (Got bs)
    show ?thesis
    proof (cases bs)
      case Nil
      then have "socket_error host (err_code MOSQ_ERR_CONN_LOST)" using stream Got by (simp add: socket_error_def)
      then show ?thesis using True net Got Nil by (simp add: read_command_def reads_stop no_packetI gives_up_socket)
    next
      case (Cons byte bs')
      then have one: "bs = [byte]" and pend: "[byte] @ pending (w_os w1) = bytes @ pending (w_os w)"
        using stream Got clean(1) by simp_all
      let ?m = "mosq\<lparr>cn_in_packet := ?p\<lparr>pk_command := byte\<rparr>\<rparr>"
      let ?w = "w1\<lparr>g_bytes_received := g_bytes_received w1 + 1\<rparr>"
      have "byte \<noteq> 0" using first pend by (metis append_Cons)
      then have part': "partial_packet [byte] (?p\<lparr>pk_command := byte\<rparr>)"
        using clean by (simp add: partial_packet_def length_part_def no_payload_def)
      have "read_command host mosq w = Some (Inr (), ?m, ?w) \<or>
          read_command host mosq w = Some (Inl (err_code MOSQ_ERR_PROTOCOL), ?m, ?w) \<and>
          gives_up host mosq (bytes @ pending (w_os w)) (err_code MOSQ_ERR_PROTOCOL)"
        using True net Got one by (simp add: read_command_def Let_def gives_up_def pend [symmetric])
      moreover have "reads_part host pending mosq bytes w (\<lambda>p. pk_command p \<noteq> 0) (Some (Inr (), ?m, ?w))"
        by (rule reads_go [OF _ part']) (use pend \<open>byte \<noteq> 0\<close> in simp_all)
      moreover have "reads_part host pending mosq bytes w (\<lambda>p. pk_command p \<noteq> 0) (Some (Inl (err_code MOSQ_ERR_PROTOCOL), ?m, ?w))"
        if "gives_up host mosq (bytes @ pending (w_os w)) (err_code MOSQ_ERR_PROTOCOL)"
        by (rule reads_stop) (use that in \<open>simp_all add: no_packetI\<close>)
      ultimately show ?thesis by auto
    qed
  qed
qed

lemma payload_part_start:
  "no_payload p \<Longrightarrow> pk_remaining_length p = l \<Longrightarrow>
   payload_part [] (if l > 0 then p\<lparr>pk_payload := replicate (unat l) 0, pk_to_process := l\<rparr> else p)"
  by (auto simp: payload_part_def no_payload_def word_gt_0)

lemma read_length_ok:
  assumes os: "reads_stream host pending" and part: "partial_packet bytes (cn_in_packet mosq)"
    and cmd: "pk_command (cn_in_packet mosq) \<noteq> 0"
  shows "reads_part host pending mosq bytes w (\<lambda>p. pk_remaining_count p > 0) (read_length host mosq w)"
proof (cases "pk_remaining_count (cn_in_packet mosq) > 0")
  case True
  then have "read_length host mosq w = Some (Inr (), mosq, w)" by (simp add: read_length_def)
  then show ?thesis using reads_go_same [OF part, of "\<lambda>p. pk_remaining_count p > 0"] True by simp
next
  case False
  let ?p = "cn_in_packet mosq"
  from part False cmd obtain ls where ls: "bytes = pk_command ?p # ls" "length_part ls ?p" "no_payload ?p"
      "\<forall>b \<in> set ls. b AND 128 \<noteq> 0"
    by (auto simp: partial_packet_def length_field_def)
  obtain r ls' c l m w' where loop: "length_loop host ?p w = Some (r, ?p\<lparr>pk_remaining_count := c, pk_remaining_length := l, pk_remaining_mult := m\<rparr>, w')"
    and got: "r \<in> {Inr (), Inl 0} \<longrightarrow> ls' @ pending (w_os w') = ls @ pending (w_os w) \<and>
        length_part ls' (?p\<lparr>pk_remaining_count := c, pk_remaining_length := l, pk_remaining_mult := m\<rparr>)"
    and full: "r = Inr () \<longrightarrow> length_field ls'"
    and wait: "r = Inl 0 \<longrightarrow> (\<forall>b \<in> set ls'. b AND 128 \<noteq> 0) \<and> \<not> never_fails host"
    and quit: "\<forall>rc. r = Inl rc \<longrightarrow> rc \<noteq> 0 \<longrightarrow> socket_error host rc \<or>
        rc = err_code MOSQ_ERR_PROTOCOL \<and> overlong (ls @ pending (w_os w))"
    using length_loop_ok [where w = w, OF os ls(2,4)] by (elim exE conjE) (rule that)
  let ?q = "?p\<lparr>pk_remaining_count := c, pk_remaining_length := l, pk_remaining_mult := m\<rparr>"
  show ?thesis
  proof (cases r)
    case (Inl rc)
    have eq: "read_length host mosq w = Some (Inl rc, mosq\<lparr>cn_in_packet := ?q\<rparr>, w')"
      using False loop Inl by (simp add: read_length_def)
    show ?thesis
    proof (cases "rc = 0")
      case True
      have "(pk_command ?p # ls') @ pending (w_os w') = bytes @ pending (w_os w)" using got Inl True ls(1) by simp
      moreover have "partial_packet (pk_command ?p # ls') ?q"
        using got Inl True wait ls(3) cmd by (simp add: partial_packet_def no_payload_def)
      ultimately show ?thesis unfolding eq True using wait Inl True by (intro reads_wait) (simp_all add: no_packetI)
    next
      case False
      then have "gives_up host mosq (bytes @ pending (w_os w)) rc" using quit Inl ls(1) by (auto simp: gives_up_def)
      then show ?thesis unfolding eq using False by (simp add: reads_stop no_packetI)
    qed
  next
    case (Inr u)
    let ?r = "?q\<lparr>pk_remaining_count := c * -1\<rparr>"
    let ?s = "if l > 0 then ?r\<lparr>pk_payload := replicate (unat l) 0, pk_to_process := l\<rparr> else ?r"
    have field: "length_field ls'" and lp: "length_part ls' ?q" and pend: "ls' @ pending (w_os w') = ls @ pending (w_os w)"
      using got full Inr by simp_all
    have nonempty: "length ls' > 0" using field by (simp add: length_field_def)
    have "payload_part [] ?s" by (rule payload_part_start) (use ls(3) in \<open>simp_all add: no_payload_def\<close>)
    then have part': "partial_packet (pk_command ?p # ls' @ []) ?s"
      using field lp cmd unfolding partial_packet_def by (intro disjI2 exI [of _ ls'] exI [of _ "[]"]) (simp add: length_part_def)
    have l: "l = of_nat (length_value ls')" "unat l = length_value ls'"
      using lp length_value_fits [of ls'] by (simp_all add: length_part_def)
    have stream: "bytes @ pending (w_os w) = pk_command ?p # ls' @ pending (w_os w')" using pend ls(1) by simp
    have go: "reads_part host pending mosq bytes w (\<lambda>p. pk_remaining_count p > 0) (Some (Inr (), mosq\<lparr>cn_in_packet := ?s\<rparr>, w'))"
      by (rule reads_go [OF _ part']) (use pend ls(1) lp nonempty in \<open>simp_all add: length_part_def\<close>)
    have nomem: "reads_part host pending mosq bytes w (\<lambda>p. pk_remaining_count p > 0)
        (Some (Inl (err_code MOSQ_ERR_NOMEM), mosq\<lparr>cn_in_packet := ?r\<rparr>, w'))" if "\<not> h_alloc host (unat l)"
      using that field l(2) by (intro reads_stop) (auto simp: no_packetI gives_up_def stream)
    have oversize: "reads_part host pending mosq bytes w (\<lambda>p. pk_remaining_count p > 0)
        (Some (Inl (err_code MOSQ_ERR_OVERSIZE_PACKET),
          if ctx_protocol mosq = mosq_p_mqtt5 then h_disconnect host (mosq\<lparr>cn_in_packet := ?r\<rparr>) else mosq\<lparr>cn_in_packet := ?r\<rparr>, w'))"
      if "h_max_packet_size host > 0 \<and> l + 1 > h_max_packet_size host"
      using that field l(1) by (intro reads_stop) (auto simp: no_packetI gives_up_def stream)
    have eq: "read_length host mosq w =
        (if h_max_packet_size host > 0 \<and> l + 1 > h_max_packet_size host
         then Some (Inl (err_code MOSQ_ERR_OVERSIZE_PACKET),
           if ctx_protocol mosq = mosq_p_mqtt5 then h_disconnect host (mosq\<lparr>cn_in_packet := ?r\<rparr>) else mosq\<lparr>cn_in_packet := ?r\<rparr>, w')
         else if l > 0 \<and> \<not> h_alloc host (unat l) then Some (Inl (err_code MOSQ_ERR_NOMEM), mosq\<lparr>cn_in_packet := ?r\<rparr>, w')
         else Some (Inr (), mosq\<lparr>cn_in_packet := ?s\<rparr>, w'))"
      using False loop Inr by (auto simp: read_length_def Let_def)
    show ?thesis
    proof (cases "h_max_packet_size host > 0 \<and> l + 1 > h_max_packet_size host")
      case True
      show ?thesis unfolding eq if_P [OF True] by (rule oversize [OF True])
    next
      case small: False
      show ?thesis
      proof (cases "l > 0 \<and> \<not> h_alloc host (unat l)")
        case True
        show ?thesis unfolding eq if_not_P [OF small] if_P [OF True] by (rule nomem) (use True in simp)
      next
        case room: False
        show ?thesis unfolding eq if_not_P [OF small] if_not_P [OF room] by (rule go)
      qed
    qed
  qed
qed

lemma payload_part_partial:
  assumes "partial_packet bytes p" and "pk_remaining_count p > 0"
  obtains ls body where "bytes = pk_command p # ls @ body" "pk_command p \<noteq> 0" "length_field ls"
    "pk_remaining_count p = int (length ls)" "pk_remaining_length p = of_nat (length_value ls)" "payload_part body p"
proof -
  from assms consider (payload) "\<exists>ls body. bytes = pk_command p # ls @ body \<and> pk_command p \<noteq> 0 \<and> length_field ls \<and>
      pk_remaining_count p = int (length ls) \<and> pk_remaining_length p = of_nat (length_value ls) \<and> payload_part body p"
    | (empty) "length_part [] p" | (len) ls where "length_part ls p"
    unfolding partial_packet_def by blast
  then show thesis
  proof cases
    case payload
    then show thesis using that by blast
  qed (use assms(2) in \<open>simp_all add: length_part_def\<close>)
qed

lemma payload_loop_part:
  assumes os: "reads_stream host pending" and part: "partial_packet bytes (cn_in_packet mosq)"
    and count: "pk_remaining_count (cn_in_packet mosq) > 0"
  shows "reads_part host pending mosq bytes w (\<lambda>p. pk_remaining_count p > 0 \<and> pk_to_process p = 0) (payload_loop host mosq w)"
proof -
  let ?p = "cn_in_packet mosq"
  obtain ls body where pp: "bytes = pk_command ?p # ls @ body" "pk_command ?p \<noteq> 0" "length_field ls"
    "pk_remaining_count ?p = int (length ls)" "pk_remaining_length ?p = of_nat (length_value ls)" "payload_part body ?p"
    using payload_part_partial [OF part count] by blast
  obtain r buf n i t body' w' where loop: "payload_loop host mosq w =
      Some (r, mosq\<lparr>cn_in_packet := ?p\<lparr>pk_payload := buf, pk_to_process := n, pk_pos := i\<rparr>, cn_last_msg_in := t\<rparr>, w')"
    and pend: "body' @ pending (w_os w') = body @ pending (w_os w)"
    and part': "payload_part body' (?p\<lparr>pk_payload := buf, pk_to_process := n, pk_pos := i\<rparr>)"
    and full: "r = Inr () \<longrightarrow> n = 0 \<and> t = cn_last_msg_in mosq" and wait: "r = Inl 0 \<longrightarrow> \<not> never_fails host"
    and quit: "\<forall>rc. r = Inl rc \<longrightarrow> rc \<noteq> 0 \<longrightarrow> socket_error host rc"
    using payload_loop_ok [where w = w, OF os pp(6)] by (elim exE conjE) (rule that)
  let ?q = "?p\<lparr>pk_payload := buf, pk_to_process := n, pk_pos := i\<rparr>"
  have stream: "(pk_command ?p # ls @ body') @ pending (w_os w') = bytes @ pending (w_os w)" using pend pp(1) by simp
  have partial: "partial_packet (pk_command ?p # ls @ body') ?q"
    using pp(2-5) part' unfolding partial_packet_def by (intro disjI2 exI [of _ ls] exI [of _ body']) simp
  show ?thesis
  proof (cases r)
    case (Inl rc)
    show ?thesis
    proof (cases "rc = 0")
      case True
      show ?thesis unfolding loop Inl True using wait Inl True
        by (intro reads_wait(1) [OF stream]) (simp_all add: no_packetI partial)
    next
      case False
      then show ?thesis unfolding loop Inl using quit Inl by (simp add: reads_stop no_packetI gives_up_socket)
    qed
  next
    case (Inr u)
    have "mosq\<lparr>cn_in_packet := ?q, cn_last_msg_in := cn_last_msg_in mosq\<rparr> = mosq\<lparr>cn_in_packet := ?q\<rparr>" by simp
    then have eq: "payload_loop host mosq w = Some (Inr (), mosq\<lparr>cn_in_packet := ?q\<rparr>, w')" using loop full Inr by simp
    show ?thesis unfolding eq by (rule reads_go [OF stream partial]) (use full Inr count in simp)
  qed
qed

lemma whole_frame:
  assumes part: "partial_packet bytes p" and count: "pk_remaining_count p > 0" and all: "pk_to_process p = 0"
  shows "frame bytes (p\<lparr>pk_pos := 0\<rparr>)"
proof -
  obtain ls body where pp: "bytes = pk_command p # ls @ body" "length_field ls"
    "pk_remaining_count p = int (length ls)" "pk_remaining_length p = of_nat (length_value ls)" "payload_part body p"
    using payload_part_partial [OF part count] by blast
  have len: "unat (pk_remaining_length p) = length_value ls"
    using pp(2,4) length_value_fits [of ls] by (simp add: length_field_def)
  have body: "pk_payload p = body" and "length body = unat (pk_remaining_length p)"
    using pp(5) all unfolding payload_part_def by (metis add.right_neutral take_all unat_0 order_refl)+
  then show ?thesis using pp(1-3) len unfolding frame_def by (intro exI [of _ ls]) simp
qed

lemma frame_reads_packets:
  assumes "bytes' @ pending (w_os w') = bytes @ pending (w_os w)" and "frame bytes' p"
    and "h_handle host (mosq\<lparr>cn_in_packet := p\<rparr>) = (rc, m)"
  shows "reads_packets host pending mosq bytes w
    (Some (rc, keepalive__update host (m\<lparr>cn_in_packet := packet__cleanup (cn_in_packet m)\<rparr>), w'))"
  unfolding reads_packets_def using assms by (intro exI conjI disjI2) (rule refl | assumption)+

lemma count_received_os [simp]: "w_os (count_received p w) = w_os w"
  by (simp add: count_received_def Let_def)

text \<open>
  C13: Packets are put together from the stream as they were sent. Wherever the socket breaks the
  stream off, and whatever part of a packet earlier calls have read, a call of \<open>packet__read\<close> returns,
  writes inside the payload it allocated, and does one of three things: it gives up with an error; it
  returns success having handed nothing on, only when the socket had the caller wait, and what has been
  read and what is still to come are the same stream as before; or it gives \<open>handle__packet\<close> one whole
  packet, whose command byte, length field and payload are the next bytes of the stream and which
  has exactly the length its length field says, and starts afresh behind it. This is as long as no
  packet begins with a zero byte.
\<close>

theorem packet_read_reassembles:
  assumes "reads_stream host pending" and "partial_packet bytes (cn_in_packet mosq)"
    and "\<forall>rest. bytes @ pending (w_os w) \<noteq> 0 # rest"
    and "ctx_sock mosq \<noteq> INVALID_SOCKET" and "mosquitto__get_state (mosquitto.truncate mosq) \<noteq> mosq_cs_connect_pending"
  shows "reads_packets host pending mosq bytes w (packet__read host mosq w)"
proof -
  have last_step: "reads_packets host pending m bytes' w' (let m = m\<lparr>cn_in_packet := (cn_in_packet m)\<lparr>pk_pos := 0\<rparr>\<rparr>;
      w'' = count_received (cn_in_packet m) w'; (rc, m) = h_handle host m
      in Some (rc, keepalive__update host (m\<lparr>cn_in_packet := packet__cleanup (cn_in_packet m)\<rparr>), w''))"
    if "partial_packet bytes' (cn_in_packet m)" "pk_remaining_count (cn_in_packet m) > 0" "pk_to_process (cn_in_packet m) = 0"
    for m :: connection and bytes' and w' :: "'a world"
    using frame_reads_packets [where w = w' and mosq = m and bytes = bytes', OF _ whole_frame [OF that]]
    by (auto simp: Let_def split: prod.split)
  show ?thesis
    unfolding packet__read_def using assms(4,5)
    by (simp only: if_False)
      (intro reads_continue [OF read_command_ok [OF assms(1-3)]] reads_continue [OF read_length_ok [OF assms(1)]]
        reads_continue [OF payload_loop_part [OF assms(1)]] last_step; simp)
qed

text \<open>A socket that has the peer's bytes in pieces, and has the caller wait after each.\<close>

fun read_piece :: "nat \<Rightarrow> u8 list list \<Rightarrow> read_result \<times> u8 list list" where
  "read_piece n [] = (Read_failed EAGAIN, [])"
| "read_piece n ([] # pieces) = (Read_failed EAGAIN, pieces)"
| "read_piece n (bytes # pieces) = (Got (take n bytes), drop n bytes # pieces)"

definition ex_reader :: "u8 list list host" where
  "ex_reader = \<lparr>h_read = read_piece, h_write = \<lambda>buf s. (Write_failed EAGAIN, s), h_alloc = \<lambda>n. True, h_now = 7,
     h_max_packet_size = 0, h_handle = \<lambda>m. (if pk_payload (cn_in_packet m) = [1, 2] then 0 else 99, m), h_disconnect = \<lambda>m. m\<rparr>"

definition ex_reading :: connection where
  "ex_reading = (the (context__init ex_reader 20 True (Some ''10.0.0.1'') 5))
     \<lparr>cn_in_packet := (ex_packet [])\<lparr>pk_command := 0x30, pk_remaining_count := 0, pk_remaining_length := 0\<rparr>\<rparr>"

lemma ex_reader_stream: "reads_stream ex_reader concat"
proof -
  have "case read_piece n s of (Got bytes, s') \<Rightarrow> length bytes \<le> n \<and> concat s = bytes @ concat s'
     | (Read_failed e, s') \<Rightarrow> concat s' = concat s" for n s
    by (cases "(n, s)" rule: read_piece.cases) simp_all
  then show ?thesis by (simp add: reads_stream_def ex_reader_def)
qed

theorem packet_read_reassembles_witness:
  "reads_packets ex_reader concat ex_reading [0x30] (ex_world [[2, 1], [2, 0xC0]])
     (packet__read ex_reader ex_reading (ex_world [[2, 1], [2, 0xC0]])) \<and>
   (\<exists>mosq' w'. packet__read ex_reader ex_reading (ex_world [[2, 1], [2, 0xC0]]) = Some (0, mosq', w') \<and>
      pk_payload (cn_in_packet mosq') = [1, 0])"
proof -
  have "partial_packet [0x30] (cn_in_packet ex_reading)"
    by (simp add: partial_packet_def ex_reading_def ex_packet_def length_part_def no_payload_def)
  moreover have "\<forall>rest. [0x30 :: u8] @ concat (w_os (ex_world [[2, 1], [2, 0xC0]])) \<noteq> 0 # rest" by (simp add: ex_world_def)
  moreover have "ctx_sock ex_reading \<noteq> INVALID_SOCKET" "mosquitto__get_state (mosquitto.truncate ex_reading) \<noteq> mosq_cs_connect_pending"
    by (simp_all add: ex_reading_def context__init_def mosquitto.defs mosquitto__get_state_def)
  ultimately have "reads_packets ex_reader concat ex_reading [0x30] (ex_world [[2, 1], [2, 0xC0]])
     (packet__read ex_reader ex_reading (ex_world [[2, 1], [2, 0xC0]]))"
    by (rule packet_read_reassembles [OF ex_reader_stream])
  moreover have "\<exists>mosq' w'. packet__read ex_reader ex_reading (ex_world [[2, 1], [2, 0xC0]]) = Some (0, mosq', w') \<and>
      pk_payload (cn_in_packet mosq') = [1, 0]"
    by (simp add: packet__read_def continue_def read_command_def read_length_def length_loop.simps payload_loop.simps
        net__read_def ex_reader_def ex_world_def ex_reading_def context__init_def ex_packet_def mosquitto.defs
        mosquitto__get_state_def put_bytes_def errno_rc_def keepalive__update_def Let_def)
  ultimately show ?thesis by blast
qed

end
