(* ===== verification/Packet_Frames.thy ===== *)
theory Packet_Frames
  imports Packet_Read Field_Codecs
begin

text \<open>
  The header \<open>packet__alloc\<close> writes is the one \<open>packet__read\<close> reads; and what the counters and the size
  limit of \<open>lib/packet_mosq.c\<close> get wrong.
\<close>

section \<open>The length field\<close>

lemma length_bytes_enc:
  "length (enc_varint (unat n)) \<le> k \<Longrightarrow> length_bytes k n = enc_varint (unat n)"
proof (induction k arbitrary: n)
  case 0
  then show ?case by (subst (asm) enc_varint.simps) (simp split: if_splits)
next
  case (Suc k)
  have dv: "unat (n div 128) = unat n div 128" by (simp add: unat_div_distrib)
  show ?case
  proof (cases "unat n < 128")
    case True
    then have "n div 128 = 0" by (simp add: word_unat_eq_iff dv)
    then show ?thesis using True by (simp add: enc_varint.simps [of "unat n"] varint_byte)
  next
    case False
    then have "0 < unat n div 128" by (simp add: div_greater_zero_iff)
    then have pos: "0 < n div 128" by (simp add: word_less_nat_alt dv)
    have "length_bytes k (n div 128) = enc_varint (unat n div 128)"
      using Suc.IH [of "n div 128"] Suc.prems False by (simp add: dv enc_varint.simps [of "unat n"])
    then show ?thesis using False pos by (simp add: enc_varint.simps [of "unat n"] varint_byte(2) Let_def del: of_nat_add)
  qed
qed

lemma length_bytes_length: "length (length_bytes k n) \<le> k"
  by (induction k arbitrary: n) (simp_all add: Let_def)

lemma length_bytes_long:
  "k \<le> length (enc_varint (unat n)) \<Longrightarrow> length (length_bytes k n) = k"
proof (induction k arbitrary: n)
  case (Suc k)
  have dv: "unat (n div 128) = unat n div 128" by (simp add: unat_div_distrib)
  show ?case
  proof (cases "unat n < 128")
    case True
    then have "k = 0" using Suc.prems by (simp add: enc_varint.simps [of "unat n"])
    then show ?thesis by (simp add: Let_def)
  next
    case False
    then have "0 < unat n div 128" by (simp add: div_greater_zero_iff)
    then have pos: "0 < n div 128" by (simp add: word_less_nat_alt dv)
    have "length (length_bytes k (n div 128)) = k"
      using Suc.IH [of "n div 128"] Suc.prems False by (simp add: dv enc_varint.simps [of "unat n"])
    then show ?thesis using pos by (simp add: Let_def)
  qed
qed simp

lemma enc_varint_field:
  "(\<forall>b \<in> set (butlast (enc_varint v)). b AND 128 \<noteq> 0) \<and> last (enc_varint v) AND 128 = 0 \<and>
   enc_varint v \<noteq> [] \<and> length_value (enc_varint v) = v"
proof (induction v rule: enc_varint.induct)
  case (1 v)
  show ?case
  proof (cases "v < 128")
    case True
    then show ?thesis by (simp add: enc_varint.simps [of v] byte_arith unat_word_of_nat_u8)
  next
    case False
    have b: "unat (word_of_nat (128 + v mod 128) :: u8) = 128 + v mod 128" by (simp add: unat_word_of_nat_u8 del: of_nat_add)
    show ?thesis using 1 False b by (simp add: enc_varint.simps [of v] byte_arith del: of_nat_add)
  qed
qed

section \<open>\<open>packet__alloc\<close>\<close>

definition max_remaining :: nat where
  "max_remaining = 268435456"

lemma length_bytes_field:
  assumes "unat n < max_remaining"
  shows "length_field (length_bytes 5 n) \<and> length_value (length_bytes 5 n) = unat n"
proof -
  have len: "length (enc_varint (unat n)) \<le> 4" using assms enc_varint_length [of "unat n"] by (auto simp: max_remaining_def)
  then have "length_bytes 5 n = enc_varint (unat n)" by (intro length_bytes_enc) simp
  then show ?thesis using len enc_varint_field [of "unat n"] by (simp add: length_field_def)
qed

lemma length_bytes_five: "length (length_bytes 5 n) = 5 \<longleftrightarrow> max_remaining \<le> unat n"
proof
  assume "max_remaining \<le> unat n"
  then have "5 \<le> length (enc_varint (unat n))"
    using enc_varint_length [of "unat n"] enc_varint_field [of "unat n div 268435456"]
    by (auto simp: max_remaining_def Suc_le_eq)
  then show "length (length_bytes 5 n) = 5" by (rule length_bytes_long)
next
  assume five: "length (length_bytes 5 n) = 5"
  show "max_remaining \<le> unat n"
  proof (rule ccontr)
    assume "\<not> max_remaining \<le> unat n"
    then show False using length_bytes_field [of n] five by (simp add: length_field_def)
  qed
qed

text \<open>The packet the reader has when it gets the bytes of another.\<close>

definition received_as :: "u8 \<Rightarrow> u8 list \<Rightarrow> packet \<Rightarrow> bool" where
  "received_as command payload q \<longleftrightarrow> pk_command q = command \<and> pk_payload q = payload \<and>
     unat (pk_remaining_length q) = length payload"

lemma length_field_unique:
  "length_field ls \<Longrightarrow> length_field ls' \<Longrightarrow> ls @ xs = ls' @ ys \<Longrightarrow> ls = ls' \<and> xs = ys"
proof (induction ls arbitrary: ls')
  case (Cons b ls)
  have "ls' \<noteq> []" using Cons.prems(2) by (simp add: length_field_def)
  then obtain ls'' where ls': "ls' = b # ls''" using Cons.prems(3) by (cases ls') simp_all
  have eq: "ls @ xs = ls'' @ ys" using Cons.prems(3) ls' by simp
  show ?case
  proof (cases "b AND 128 = 0")
    case True
    then have "ls = []" "ls'' = []" using Cons.prems(1,2) ls' by (auto simp: length_field_def split: if_splits)
    then show ?thesis using eq ls' by simp
  next
    case False
    then have "ls \<noteq> []" "ls'' \<noteq> []" using Cons.prems(1,2) ls' by (auto simp: length_field_def)
    then have "length_field ls" "length_field ls''" using Cons.prems(1,2) ls' by (auto simp: length_field_def)
    then show ?thesis using Cons.IH [OF _ _ eq] ls' by simp
  qed
qed (simp add: length_field_def)

text \<open>
  C15: What is allocated for sending can be read by the other side. \<open>packet__alloc\<close> refuses exactly the
  packets of 2 to the 28 bytes and more, and those there is no memory for. Otherwise the memory has room
  for just the packet, and holds the command and a length field; once the rest is filled in, the only
  packet \<open>packet__read\<close> can make of these bytes has that command and that payload.
\<close>

theorem packet_alloc_read_back:
  "packet__alloc alloc fill p = (rc, p') \<Longrightarrow>
   rc = (if max_remaining \<le> unat (pk_remaining_length p) then err_code MOSQ_ERR_PAYLOAD_SIZE
      else if \<not> alloc (unat (pk_packet_length p')) then err_code MOSQ_ERR_NOMEM else 0) \<and>
   (rc = 0 \<longrightarrow> length fill = unat (pk_remaining_length p) \<longrightarrow>
      length (pk_payload p') = unat (pk_packet_length p') \<and> drop (unat (pk_pos p')) (pk_payload p') = fill \<and>
      (\<forall>q. frame (pk_payload p') q \<longrightarrow> received_as (pk_command p) fill q) \<and>
      (\<exists>q. frame (pk_payload p') q))"
proof -
  assume alloc: "packet__alloc alloc fill p = (rc, p')"
  let ?n = "pk_remaining_length p" and ?ls = "length_bytes 5 (pk_remaining_length p)"
  show ?thesis
  proof (cases "max_remaining \<le> unat ?n")
    case True
    then show ?thesis using alloc length_bytes_five [of ?n] by (simp add: packet__alloc_def Let_def)
  next
    case False
    then have field: "length_field ?ls" "length_value ?ls = unat ?n" and ne5: "length ?ls \<noteq> 5"
      using length_bytes_field [of ?n] length_bytes_five [of ?n] by simp_all
    have len: "length ?ls \<le> 4" using field(1) by (simp add: length_field_def)
    have small: "unat ?n < 268435456" using False by (simp add: max_remaining_def)
    have pl: "unat (?n + 1 + of_nat (length ?ls)) = unat ?n + 1 + length ?ls"
      using small len by (simp add: unat_word_ariths unsigned_of_nat take_bit_nat_eq_self)
    have pos: "unat (1 + of_nat (length ?ls) :: u32) = 1 + length ?ls"
      using len by (simp add: unat_word_ariths unsigned_of_nat take_bit_nat_eq_self)
    have rc: "rc = (if \<not> alloc (unat (pk_packet_length p')) then err_code MOSQ_ERR_NOMEM else 0)"
      using alloc ne5 by (auto simp: packet__alloc_def Let_def split: if_splits)
    moreover have "length (pk_payload p') = unat (pk_packet_length p') \<and> drop (unat (pk_pos p')) (pk_payload p') = fill \<and>
      (\<forall>q. frame (pk_payload p') q \<longrightarrow> received_as (pk_command p) fill q) \<and> (\<exists>q. frame (pk_payload p') q)"
      if ok: "rc = 0" and fill: "length fill = unat ?n"
    proof -
      have p': "p' = p\<lparr>pk_remaining_count := int (length ?ls), pk_packet_length := ?n + 1 + of_nat (length ?ls),
          pk_payload := pk_command p # ?ls @ fill, pk_pos := 1 + of_nat (length ?ls)\<rparr>"
        using alloc ne5 ok fill by (auto simp: packet__alloc_def Let_def pl split: if_splits)
      have "received_as (pk_command p) fill q" if "frame (pk_payload p') q" for q
      proof -
        obtain ls where ls: "pk_command p # ?ls @ fill = pk_command q # ls @ pk_payload q" "length_field ls"
          "length_value ls = length (pk_payload q)" "unat (pk_remaining_length q) = length_value ls"
          using \<open>frame (pk_payload p') q\<close> by (auto simp: frame_def p')
        then show ?thesis using length_field_unique [OF field(1) ls(2), of fill "pk_payload q"] by (simp add: received_as_def)
      qed
      moreover have "frame (pk_payload p') (p\<lparr>pk_payload := fill, pk_remaining_count := int (length ?ls), pk_pos := 0\<rparr>)"
        unfolding frame_def by (rule exI [of _ ?ls]) (simp add: p' field fill)
      ultimately show ?thesis using fill by (auto simp: p' pl pos)
    qed
    ultimately show ?thesis using False by simp
  qed
qed

text \<open>A packet of four bytes.\<close>

lemma length_bytes_two: "length_bytes 5 2 = [2]"
proof -
  have "length_bytes (Suc 4) 2 = [2]" by (simp only: length_bytes.simps Let_def) simp
  then show ?thesis by simp
qed

theorem packet_alloc_read_back_witness:
  "fst (packet__alloc (\<lambda>n. n < 9) [5, 6] (ex_packet [0x30, 2, 5, 6])) = 0 \<and>
   (\<exists>q. frame [0x30, 2, 5, 6] q \<and> received_as 0x30 [5, 6] q)"
proof -
  let ?p = "ex_packet [0x30, 2, 5, 6]"
  have eq: "packet__alloc (\<lambda>n. n < 9) [5, 6] ?p = (0, ?p\<lparr>pk_pos := 2\<rparr>)"
    using length_bytes_two by (simp add: packet__alloc_def ex_packet_def Let_def)
  from packet_alloc_read_back [OF this] have "\<exists>q. frame [0x30, 2, 5, 6] q \<and> received_as 0x30 [5, 6] q"
    by (auto simp: ex_packet_def)
  then show ?thesis using eq by simp
qed

section \<open>What is counted wrongly\<close>

text \<open>
  The size that \<open>packet__check_oversize\<close> compares leaves out the command byte: a packet one byte
  longer than the maximum of the client passes.
\<close>

lemma oversize_by_one_passes:
  assumes "packet__alloc alloc fill p = (0, p')"
  shows "packet__check_oversize (mosq\<lparr>cn_maximum_packet_size := pk_packet_length p' - 1\<rparr>) (pk_remaining_length p) = 0"
proof -
  let ?n = "pk_remaining_length p"
  have ne5: "length (length_bytes 5 ?n) \<noteq> 5" and pl: "pk_packet_length p' = ?n + 1 + of_nat (length (length_bytes 5 ?n))"
    using assms by (auto simp: packet__alloc_def Let_def split: if_splits)
  have "length (enc_varint (unat ?n)) \<le> 5"
    using ne5 length_bytes_long [of 5 ?n] by (metis nat_le_linear)
  then have "length_bytes 5 ?n = enc_varint (unat ?n)" by (rule length_bytes_enc)
  then show ?thesis by (simp add: packet__check_oversize_def varint_bytes_enc pl)
qed

text \<open>
  \<open>packet__write\<close> counts every packet of the type \<open>PUBLISH\<close> as sent, \<open>packet__read\<close> counts as received
  only those of qos 0 and 1 that are not retained.
\<close>

lemma publish_counters_differ:
  "pk_command p AND 0xF0 = CMD_PUBLISH \<Longrightarrow>
   g_pub_msgs_sent (count_sent p w) = g_pub_msgs_sent w + 1 \<and>
   (g_pub_msgs_received (count_received p w) = g_pub_msgs_received w + 1 \<longleftrightarrow> pk_command p AND 0x05 = 0)"
proof -
  let ?b = "pk_command p"
  assume pub: "?b AND 0xF0 = CMD_PUBLISH"
  have "(0xF5 :: u8) = 0xF0 OR 0x05" by simp
  then have split5: "?b AND 0xF5 = 0x30 OR (?b AND 0x05)" using pub by (simp only: bit.conj_disj_distrib)
  have "(?b AND 0x05) AND 0x30 = 0" by (simp add: and.assoc)
  then have "0x30 OR (?b AND 0x05) = 0x30 \<longleftrightarrow> ?b AND 0x05 = 0"
    by (metis and.commute bit.disj_zero_right or.commute word_ao_absorbs(7))
  then show ?thesis using pub split5 by (simp add: count_sent_def count_received_def Let_def)
qed

end
