(* ===== verification/Handlers.thy ===== *)
theory Handlers
  imports Server_Calls
begin

text \<open>
  The packets a client sends while it is connected, and what the broker does for each: the handlers
  of \<open>lib/handle_ping.c\<close>, \<open>lib/handle_pubackcomp.c\<close>, \<open>lib/handle_pubrec.c\<close>, \<open>lib/handle_pubrel.c\<close>,
  \<open>src/handle_publish.c\<close>, \<open>src/handle_subscribe.c\<close> and \<open>src/handle_unsubscribe.c\<close>, and the dispatch of
  \<open>src/read_handle.c\<close>. A handler takes the packet as it was received and the client it came from;
  \<open>None\<close> is an execution that follows a NULL or dangling pointer or reads outside the packet.
\<close>

section \<open>What the handlers use\<close>

text \<open>
  The listener of a client, and the rest of the broker: the return codes of the functions that send
  a reply (\<open>send__command_with_mid\<close> for a command, a message id and a reason), the access control,
  plugins, \<open>control__process\<close> and the topic mapping of bridges.
\<close>

record listener =
  ls_max_topic_alias :: u16
  ls_mount_point :: "string option"

record services =
  sr_listener :: "mosquitto \<Rightarrow> listener option"
  sr_is_bridge :: "mosquitto \<Rightarrow> bool"
  sr_out_idle :: "mosquitto \<Rightarrow> bool"
  sr_message_size_limit :: u32
  sr_send :: "mosquitto \<Rightarrow> int \<Rightarrow> u16 \<Rightarrow> u8 \<Rightarrow> int"
  sr_pingresp :: "mosquitto \<Rightarrow> int"
  sr_suback :: "mosquitto \<Rightarrow> u16 \<Rightarrow> u8 list \<Rightarrow> int"
  sr_unsuback :: "mosquitto \<Rightarrow> u16 \<Rightarrow> u8 list \<Rightarrow> int"
  sr_write_acl :: "mosquitto \<Rightarrow> mosquitto_msg_store \<Rightarrow> int"
  sr_subscribe_acl :: "mosquitto \<Rightarrow> string \<Rightarrow> u8 \<Rightarrow> int"
  sr_unsubscribe_acl :: "mosquitto \<Rightarrow> string \<Rightarrow> int"
  sr_control :: "mosquitto \<Rightarrow> mosquitto_msg_store \<Rightarrow> int"
  sr_plugin :: "mosquitto \<Rightarrow> mosquitto_msg_store \<Rightarrow> int \<times> mosquitto_msg_store"
  sr_remap_in :: "mosquitto \<Rightarrow> string option \<Rightarrow> int \<times> string option"

abbreviation (input) MQTT_RC_NO_MATCHING_SUBSCRIBERS :: u8 where
  "MQTT_RC_NO_MATCHING_SUBSCRIBERS \<equiv> 16"

abbreviation (input) MQTT_RC_NOT_AUTHORIZED :: u8 where
  "MQTT_RC_NOT_AUTHORIZED \<equiv> 135"

abbreviation (input) MQTT_RC_PACKET_TOO_LARGE :: u8 where
  "MQTT_RC_PACKET_TOO_LARGE \<equiv> 149"

abbreviation (input) MQTT_RC_QUOTA_EXCEEDED :: u8 where
  "MQTT_RC_QUOTA_EXCEEDED \<equiv> 151"

abbreviation (input) MQTT_SUB_OPT_SEND_RETAIN_ALWAYS :: u8 where
  "MQTT_SUB_OPT_SEND_RETAIN_ALWAYS \<equiv> 0x00"

abbreviation (input) MQTT_SUB_OPT_SEND_RETAIN_NEW :: u8 where
  "MQTT_SUB_OPT_SEND_RETAIN_NEW \<equiv> 0x10"

text \<open>
  Reading a field: an error code goes to \<open>err\<close>. A string that was read is a C string up to its
  first NUL.
\<close>

definition reading :: "fault + 'a \<Rightarrow> (mosq_err_t \<Rightarrow> 'r option) \<Rightarrow> ('a \<Rightarrow> 'r option) \<Rightarrow> 'r option" where
  "reading r err k = (case r of Inl Trap \<Rightarrow> None | Inl (Rc e) \<Rightarrow> err e | Inr x \<Rightarrow> k x)"

definition c_str :: "mqtt__string \<Rightarrow> string option" where
  "c_str s = map_option (\<lambda>bytes. map (\<lambda>b. char_of (unat b)) (takeWhile (\<lambda>b. b \<noteq> 0) bytes)) (ms_v s)"

text \<open>A change of the client, and an operation of \<open>database.c\<close> on it.\<close>

definition with_ctx :: "nat \<Rightarrow> mosquitto \<Rightarrow> server \<Rightarrow> server" where
  "with_ctx c ctx sv = sv\<lparr>sv_contexts := (sv_contexts sv)(c := ctx)\<rparr>"

definition on_broker :: "nat \<Rightarrow> (broker \<Rightarrow> (int \<times> broker) option) \<Rightarrow> server \<Rightarrow> (int \<times> server) option" where
  "on_broker c f sv = map_option (\<lambda>(rc, bk). (rc, put_client c bk sv)) (f (the_client sv c))"

section \<open>Replies\<close>

definition send__puback :: "services \<Rightarrow> nat \<Rightarrow> u16 \<Rightarrow> u8 \<Rightarrow> server \<Rightarrow> int \<times> server" where
  "send__puback srv c mid reason_code sv =
     (let ctx = util__increment_receive_quota (sv_contexts sv c)
      in (sr_send srv ctx CMD_PUBACK mid reason_code, with_ctx c ctx sv))"

definition send__pubcomp :: "services \<Rightarrow> nat \<Rightarrow> u16 \<Rightarrow> server \<Rightarrow> int \<times> server" where
  "send__pubcomp srv c mid sv =
     (let ctx = util__increment_receive_quota (sv_contexts sv c)
      in (sr_send srv ctx CMD_PUBCOMP mid 0, with_ctx c ctx sv))"

text \<open>\<open>send__pubrec\<close> with a reason; the one in \<open>Database\<close> is for reason 0.\<close>

definition send__pubrec_reason :: "services \<Rightarrow> nat \<Rightarrow> u16 \<Rightarrow> u8 \<Rightarrow> server \<Rightarrow> int \<times> server" where
  "send__pubrec_reason srv c mid reason_code sv =
     (let ctx = sv_contexts sv c;
          ctx = (if reason_code \<ge> 0x80 \<and> ctx_protocol ctx = mosq_p_mqtt5 then util__increment_receive_quota ctx else ctx)
      in (sr_send srv ctx CMD_PUBREC mid reason_code, with_ctx c ctx sv))"

section \<open>Acknowledgements\<close>

text \<open>The message id, and for MQTT 5 the reason and properties, which are not used.\<close>

definition read_ack :: "(nat \<Rightarrow> bool) \<Rightarrow> int \<Rightarrow> mosquitto \<Rightarrow> packet \<Rightarrow> fault + (u16 \<times> u8)" where
  "read_ack alloc command ctx p =
     seq (packet__read_uint16 p) (\<lambda>(mid, p).
       if mid = 0 then Inl (Rc MOSQ_ERR_PROTOCOL)
       else if ctx_protocol ctx = mosq_p_mqtt5 \<and> pk_remaining_length p > 2 then
         seq (packet__read_byte p) (\<lambda>(reason_code, p).
           if pk_remaining_length p > 3
           then seq (property__read_all alloc command p) (\<lambda>_. Inr (mid, reason_code))
           else Inr (mid, reason_code))
       else Inr (mid, 0))"

definition handle__pubackcomp ::
  "(nat \<Rightarrow> bool) \<Rightarrow> net \<Rightarrow> nat \<Rightarrow> string \<Rightarrow> packet \<Rightarrow> server \<Rightarrow> (int \<times> server) option" where
  "handle__pubackcomp alloc net c type p sv =
     (let ctx = sv_contexts sv c
      in if mosquitto__get_state ctx \<noteq> mosq_cs_active then Some (err_code MOSQ_ERR_PROTOCOL, sv)
         else
           let ctx = util__increment_send_quota ctx; sv = with_ctx c ctx sv; qos = (if type ! 3 = CHR ''A'' then 1 else 2)
           in reading (read_ack alloc CMD_PUBACK ctx p) (\<lambda>e. Some (err_code e, sv)) (\<lambda>(mid, _).
                map_option (\<lambda>(rc, sv). (if rc = err_code MOSQ_ERR_NOT_FOUND then 0 else rc, sv))
                  (on_broker c (db__message_delete_outgoing net mid mosq_ms_wait_for_pubcomp qos) sv)))"

definition handle__pubrec :: "(nat \<Rightarrow> bool) \<Rightarrow> net \<Rightarrow> nat \<Rightarrow> packet \<Rightarrow> server \<Rightarrow> (int \<times> server) option" where
  "handle__pubrec alloc net c p sv =
     (if mosquitto__get_state (sv_contexts sv c) \<noteq> mosq_cs_active then Some (err_code MOSQ_ERR_PROTOCOL, sv)
      else
        reading (read_ack alloc CMD_PUBREC (sv_contexts sv c) p) (\<lambda>e. Some (err_code e, sv)) (\<lambda>(mid, reason_code).
          if reason_code < 0x80 then
            Option.bind (on_broker c (\<lambda>bk. Some (db__message_update_outgoing mid mosq_ms_wait_for_pubcomp 2 bk)) sv) (\<lambda>(rc, sv).
              if rc \<noteq> 0 \<and> rc \<noteq> err_code MOSQ_ERR_NOT_FOUND then Some (rc, sv)
              else let (rc, ctx) = send__pubrel net mid (sv_contexts sv c) in Some (rc, with_ctx c ctx sv))
          else on_broker c (db__message_delete_outgoing net mid mosq_ms_wait_for_pubrec 2) sv))"

definition handle__pubrel ::
  "services \<Rightarrow> acl_check \<Rightarrow> (nat \<Rightarrow> bool) \<Rightarrow> net \<Rightarrow> nat \<Rightarrow> packet \<Rightarrow> server \<Rightarrow> (int \<times> server) option" where
  "handle__pubrel srv acl alloc net c p sv =
     (let ctx = sv_contexts sv c
      in if mosquitto__get_state ctx \<noteq> mosq_cs_active then Some (err_code MOSQ_ERR_PROTOCOL, sv)
         else if ctx_protocol ctx \<noteq> mosq_p_mqtt31 \<and> pk_command p AND 0x0F \<noteq> 0x02
         then Some (err_code MOSQ_ERR_PROTOCOL, sv)
         else
           reading (read_ack alloc CMD_PUBREL ctx p) (\<lambda>e. Some (err_code e, sv)) (\<lambda>(mid, _).
             Option.bind (db__message_release_incoming acl alloc net c mid sv) (\<lambda>(rc, sv).
               if rc \<noteq> err_code MOSQ_ERR_NOT_FOUND \<and> rc \<noteq> 0 then Some (rc, sv)
               else Some (send__pubcomp srv c mid sv))))"

definition handle__pingreq :: "services \<Rightarrow> nat \<Rightarrow> server \<Rightarrow> (int \<times> server) option" where
  "handle__pingreq srv c sv =
     (if mosquitto__get_state (sv_contexts sv c) \<noteq> mosq_cs_active then Some (err_code MOSQ_ERR_PROTOCOL, sv)
      else Some (sr_pingresp srv (sv_contexts sv c), sv))"

text \<open>Only \<open>ping_t\<close> is set, which the broker does not look at.\<close>

definition handle__pingresp :: "nat \<Rightarrow> server \<Rightarrow> (int \<times> server) option" where
  "handle__pingresp c sv =
     (if mosquitto__get_state (sv_contexts sv c) \<noteq> mosq_cs_active then Some (err_code MOSQ_ERR_PROTOCOL, sv) else Some (0, sv))"

section \<open>Publishing\<close>

text \<open>Every error of a reader is \<open>MOSQ_ERR_MALFORMED_PACKET\<close>, or only \<open>MOSQ_ERR_PROTOCOL\<close> is.\<close>

definition malformed :: "fault + 'a \<Rightarrow> fault + 'a" where
  "malformed r = (case r of Inl (Rc _) \<Rightarrow> Inl (Rc MOSQ_ERR_MALFORMED_PACKET) | _ \<Rightarrow> r)"

definition protocol_malformed :: "fault + 'a \<Rightarrow> fault + 'a" where
  "protocol_malformed r =
     (case r of Inl (Rc e) \<Rightarrow> Inl (Rc (if e = MOSQ_ERR_PROTOCOL then MOSQ_ERR_MALFORMED_PACKET else e)) | _ \<Rightarrow> r)"

definition publish_header :: "mosquitto__config \<Rightarrow> mosquitto \<Rightarrow> u8 \<Rightarrow> mosq_err_t + (nat \<times> bool)" where
  "publish_header cfg ctx header =
     (let qos = unat (drop_bit 1 (header AND 0x06)); retain = (header AND 0x01 \<noteq> 0)
      in if qos = 3 then Inl MOSQ_ERR_MALFORMED_PACKET
         else if qos > ctx_max_qos ctx then Inl MOSQ_ERR_QOS_NOT_SUPPORTED
         else if retain \<and> \<not> cfg_retain_available cfg then Inl MOSQ_ERR_RETAIN_NOT_SUPPORTED
         else Inr (qos, retain))"

text \<open>The topic, the message id and the properties, with the packet from the payload on.\<close>

definition publish_fields ::
  "(nat \<Rightarrow> bool) \<Rightarrow> mosquitto \<Rightarrow> nat \<Rightarrow> packet \<Rightarrow> fault + (string option \<times> u16 \<times> mosquitto_property list \<times> packet)" where
  "publish_fields alloc ctx qos p =
     seq (malformed (packet__read_string alloc p)) (\<lambda>(s, p).
       if ms_len s = 0 \<and> ctx_protocol ctx \<noteq> mosq_p_mqtt5 then Inl (Rc MOSQ_ERR_MALFORMED_PACKET)
       else seq (if qos > 0 then malformed (packet__read_uint16 p) else Inr (0, p)) (\<lambda>(mid, p).
         if qos > 0 \<and> mid = 0 then Inl (Rc MOSQ_ERR_PROTOCOL)
         else seq (if ctx_protocol ctx = mosq_p_mqtt5 then protocol_malformed (property__read_all alloc CMD_PUBLISH p)
                   else Inr ([], p)) (\<lambda>(properties, p).
           Inr (c_str s, mid, properties, p))))"

text \<open>The properties that stay with the message, the topic alias (-1 when there is none) and the expiry interval.\<close>

fun publish_properties ::
  "mosquitto_property list \<Rightarrow> mosquitto_property list \<times> int \<times> u32 \<Rightarrow> mosquitto_property list \<times> int \<times> u32" where
  "publish_properties [] (kept, topic_alias, expiry) = (kept, topic_alias, expiry)"
| "publish_properties (p # ps) (kept, topic_alias, expiry) =
     publish_properties ps
       (if pr_identifier p \<in> {MQTT_PROP_CONTENT_TYPE, MQTT_PROP_CORRELATION_DATA, MQTT_PROP_PAYLOAD_FORMAT_INDICATOR,
           MQTT_PROP_RESPONSE_TOPIC, MQTT_PROP_USER_PROPERTY} then (kept @ [p], topic_alias, expiry)
        else if pr_identifier p = MQTT_PROP_TOPIC_ALIAS then (kept, uint (pr_i16 p), expiry)
        else if pr_identifier p = MQTT_PROP_MESSAGE_EXPIRY_INTERVAL then (kept, topic_alias, pr_i32 p)
        else (kept, topic_alias, expiry))"

definition publish_alias ::
  "services \<Rightarrow> (nat \<Rightarrow> bool) \<Rightarrow> string option \<Rightarrow> int \<Rightarrow> mosquitto \<Rightarrow> (fault + string option) \<times> mosquitto" where
  "publish_alias srv alloc topic topic_alias ctx =
     (if topic_alias = 0 \<or>
         (case sr_listener srv ctx of None \<Rightarrow> False | Some l \<Rightarrow> topic_alias > uint (ls_max_topic_alias l))
      then (Inl (Rc MOSQ_ERR_TOPIC_ALIAS_INVALID), ctx)
      else if topic_alias > 0 then
        (case topic of
           Some t \<Rightarrow>
             (case alias__add (alloc (16 * (length (ctx_aliases ctx) + 1))) (alloc (length t + 1)) ctx t (of_int topic_alias) of
                (rc, ctx) \<Rightarrow> (if rc \<noteq> MOSQ_ERR_SUCCESS then Inl (Rc rc) else Inr topic, ctx))
         | None \<Rightarrow>
             (case alias__find (alloc 65536) ctx (of_int topic_alias) of
                Inl Trap \<Rightarrow> (Inl Trap, ctx)
              | Inl (Rc _) \<Rightarrow> (Inl (Rc MOSQ_ERR_PROTOCOL), ctx)
              | Inr t \<Rightarrow> (Inr (Some t), ctx)))
      else (Inr topic, ctx))"

text \<open>The label \<open>process_bad_message\<close>.\<close>

definition publish_refused :: "services \<Rightarrow> nat \<Rightarrow> mosquitto_msg_store \<Rightarrow> u8 \<Rightarrow> server \<Rightarrow> (int \<times> server) option" where
  "publish_refused srv c msg reason_code sv =
     (if ms_qos msg = 0 then Some (0, sv)
      else if ms_qos msg = 1 then Some (send__puback srv c (ms_source_mid msg) reason_code sv)
      else if ms_qos msg = 2 then Some (send__pubrec_reason srv c (ms_source_mid msg) reason_code sv)
      else Some (1, sv))"

text \<open>Whether a message with a reused message id is another one; \<open>None\<close> is a NULL pointer in \<open>strcmp\<close>.\<close>

definition differs :: "mosquitto_msg_store \<Rightarrow> mosquitto_msg_store \<Rightarrow> bool option" where
  "differs stored msg =
     (if ms_qos stored \<noteq> ms_qos msg \<or> ms_payloadlen stored \<noteq> ms_payloadlen msg then Some True
      else
        (case (ms_topic stored, ms_topic msg) of
           (Some t, Some t') \<Rightarrow>
             Some (t \<noteq> t' \<or> take (unat (ms_payloadlen msg)) (ms_payload stored) \<noteq> take (unat (ms_payloadlen msg)) (ms_payload msg))
         | _ \<Rightarrow> None))"

text \<open>\<open>malloc\<close> gives a stored message an address that is not in use.\<close>

definition new_store_addr :: "mosquitto_db \<Rightarrow> nat" where
  "new_store_addr db = Suc (foldr max (map fst (db_msg_store db)) 0)"

text \<open>The switch on the qos, at the end of the function.\<close>

definition publish_deliver ::
  "services \<Rightarrow> acl_check \<Rightarrow> (nat \<Rightarrow> bool) \<Rightarrow> net \<Rightarrow> nat \<Rightarrow> u16 \<Rightarrow> bool \<Rightarrow> nat \<Rightarrow> server \<Rightarrow> (int \<times> server) option" where
  "publish_deliver srv acl alloc net c mid dup stored sv =
     Option.bind (store_at (sv_db sv) stored) (\<lambda>s.
     let queue = (\<lambda>sv. Option.bind (ms_topic s) (\<lambda>topic.
           sub__messages_queue acl alloc net (ctx_id (sv_contexts sv c)) topic (ms_qos s) (ms_retain s) stored sv))
     in Option.bind
       (if ms_qos s = 0 then map_option (\<lambda>(rc2, sv). (if rc2 > 0 then 1 else 0, sv)) (queue sv)
        else if ms_qos s = 1 then
          Option.bind (queue (with_ctx c (util__decrement_receive_quota (sv_contexts sv c)) sv)) (\<lambda>(rc2, sv).
            let reply = (\<lambda>reason_code. case send__puback srv c mid reason_code sv of (rc, sv) \<Rightarrow> Some (if rc \<noteq> 0 then 1 else 0, sv))
            in if rc2 = 0 \<or> ctx_protocol (sv_contexts sv c) \<noteq> mosq_p_mqtt5 then reply 0
               else if rc2 = err_code MOSQ_ERR_NO_SUBSCRIBERS then reply MQTT_RC_NO_MATCHING_SUBSCRIBERS
               else Some (rc2, sv))
        else if ms_qos s = 2 then
          Option.bind
            (if dup then Some (0, sv)
             else on_broker c (db__message_insert alloc net (new_addr (ctx_msgs_in (sv_contexts sv c))) (ms_source_mid s)
                    mosq_md_in (ms_qos s) (ms_retain s) stored [] False) sv) (\<lambda>(res, sv).
            if res = 0 then
              Option.bind (store_at (sv_db sv) stored) (\<lambda>s.
                case send__pubrec net (ms_source_mid s) (sv_contexts sv c) of
                  (rc, ctx) \<Rightarrow> Some (if rc \<noteq> 0 then 1 else 0, with_ctx c ctx sv))
            else Some (if res = 1 then 1 else 0, sv))
        else Some (0, sv)) (\<lambda>(rc, sv).
     map_option (\<lambda>(_, sv). (rc, sv)) (on_broker c (db__message_write_queued_in net) sv)))"

definition publish_store ::
  "services \<Rightarrow> acl_check \<Rightarrow> (nat \<Rightarrow> bool) \<Rightarrow> net \<Rightarrow> nat \<Rightarrow> mosquitto_msg_store \<Rightarrow> u32 \<Rightarrow> server \<Rightarrow> (int \<times> server) option" where
  "publish_store srv acl alloc net c msg message_expiry_interval sv =
     (let mid = ms_source_mid msg; qos = ms_qos msg
      in Option.bind
        (if qos > 0 then map_option snd (db__message_store_find mid (the_client sv c)) else Some None) (\<lambda>found.
      Option.bind
        (case found of
           None \<Rightarrow> Some (None, sv)
         | Some a \<Rightarrow>
             Option.bind (store_at (sv_db sv) a) (\<lambda>stored.
             Option.bind (if mid \<noteq> 0 then differs stored msg else Some False) (\<lambda>other.
               if other then map_option (\<lambda>(_, sv). (None, sv)) (on_broker c (db__message_remove_incoming mid) sv)
               else Some (Some a, sv)))) (\<lambda>(stored, sv).
      case stored of
        Some a \<Rightarrow> publish_deliver srv acl alloc net c mid True a sv
      | None \<Rightarrow>
          let ctx = sv_contexts sv c; cfg = db_config (sv_db sv)
          in if qos = 0 \<or> db__ready_for_flight cfg ctx mosq_md_in qos \<or> db__ready_for_queue cfg ctx qos (ctx_msgs_in ctx) then
               let a = new_store_addr (sv_db sv)
               in (case db__message_store alloc (Some ctx) a msg (uint message_expiry_interval) 0 mosq_mo_client (sv_db sv) of
                     (rc, db) \<Rightarrow>
                       if rc \<noteq> MOSQ_ERR_SUCCESS then Some (err_code rc, sv\<lparr>sv_db := db\<rparr>)
                       else publish_deliver srv acl alloc net c mid False a (sv\<lparr>sv_db := db\<rparr>))
             else publish_refused srv c msg MQTT_RC_QUOTA_EXCEEDED sv)))"

text \<open>From the payload on: mount point, payload, access control, \<open>$CONTROL\<close> and plugins.\<close>

definition publish_message ::
  "services \<Rightarrow> acl_check \<Rightarrow> (nat \<Rightarrow> bool) \<Rightarrow> net \<Rightarrow> nat \<Rightarrow> packet \<Rightarrow> mosquitto_msg_store \<Rightarrow> string \<Rightarrow> u32 \<Rightarrow> server \<Rightarrow>
   (int \<times> server) option" where
  "publish_message srv acl alloc net c p msg topic message_expiry_interval sv =
     (let ctx = sv_contexts sv c; payloadlen = pk_remaining_length p - pk_pos p;
          mount = (case sr_listener srv ctx of None \<Rightarrow> None | Some l \<Rightarrow> ls_mount_point l);
          topic_mount = (case mount of None \<Rightarrow> topic | Some m \<Rightarrow> m @ topic);
          msg = msg\<lparr>ms_topic := Some topic_mount, ms_payloadlen := payloadlen\<rparr>
      in if mount \<noteq> None \<and> \<not> alloc (length topic_mount + 2) then Some (err_code MOSQ_ERR_NOMEM, sv)
         else if payloadlen \<noteq> 0 \<and> sr_message_size_limit srv \<noteq> 0 \<and> payloadlen > sr_message_size_limit srv
         then publish_refused srv c msg MQTT_RC_PACKET_TOO_LARGE sv
         else if payloadlen \<noteq> 0 \<and> \<not> alloc (unat (payloadlen + 1)) then Some (err_code MOSQ_ERR_NOMEM, sv)
         else
           reading (if payloadlen \<noteq> 0 then malformed (packet__read_bytes payloadlen p) else Inr ([], p))
             (\<lambda>e. Some (err_code e, sv)) (\<lambda>(payload, _).
           let msg = msg\<lparr>ms_payload := payload\<rparr>; rc = sr_write_acl srv ctx msg
           in if rc = err_code MOSQ_ERR_ACL_DENIED then publish_refused srv c msg MQTT_RC_NOT_AUTHORIZED sv
              else if rc \<noteq> 0 then Some (rc, sv)
              else if take 9 topic_mount = ''$CONTROL/'' then Some (sr_control srv ctx msg, sv)
              else
                (case sr_plugin srv ctx msg of
                   (rc, msg) \<Rightarrow>
                     if rc = err_code MOSQ_ERR_ACL_DENIED then publish_refused srv c msg MQTT_RC_NOT_AUTHORIZED sv
                     else if rc \<noteq> 0 then Some (rc, sv)
                     else publish_store srv acl alloc net c msg message_expiry_interval sv)))"

definition handle__publish ::
  "services \<Rightarrow> acl_check \<Rightarrow> (nat \<Rightarrow> bool) \<Rightarrow> net \<Rightarrow> nat \<Rightarrow> packet \<Rightarrow> server \<Rightarrow> (int \<times> server) option" where
  "handle__publish srv acl alloc net c p sv =
     (let ctx = sv_contexts sv c
      in if ctx_state ctx \<noteq> mosq_cs_active then Some (err_code MOSQ_ERR_PROTOCOL, sv)
         else if \<not> alloc sizeof_msg_store then Some (err_code MOSQ_ERR_NOMEM, sv)
         else
           (case publish_header (db_config (sv_db sv)) ctx (pk_command p) of
              Inl e \<Rightarrow> Some (err_code e, sv)
            | Inr (qos, retain) \<Rightarrow>
                reading (publish_fields alloc ctx qos p) (\<lambda>e. Some (err_code e, sv)) (\<lambda>(topic, mid, properties, p).
                case publish_properties properties ([], -1, 0) of (kept, topic_alias, message_expiry_interval) \<Rightarrow>
                (case publish_alias srv alloc topic topic_alias ctx of (r, ctx) \<Rightarrow>
                let sv = with_ctx c ctx sv
                in reading r (\<lambda>e. Some (err_code e, sv)) (\<lambda>topic.
                case sr_remap_in srv ctx topic of (rc, topic) \<Rightarrow>
                  if rc \<noteq> 0 then Some (rc, sv)
                  else if mosquitto_pub_topic_check topic \<noteq> MOSQ_ERR_SUCCESS then Some (err_code MOSQ_ERR_PROTOCOL, sv)
                  else Option.bind topic (\<lambda>t.
                    publish_message srv acl alloc net c p
                      \<lparr>ms_db_id = 0, ms_source_id = [], ms_source_username = None, ms_dest_ids = [], ms_ref_count = 0,
                       ms_topic = Some t, ms_properties = kept, ms_payload = [], ms_message_expiry_time = 0, ms_payloadlen = 0,
                       ms_origin = mosq_mo_client, ms_source_mid = mid, ms_mid = 0, ms_qos = qos, ms_retain = retain\<rparr>
                      t message_expiry_interval sv))))))"

section \<open>Subscribing\<close>

text \<open>
  The options of one filter: the qos, the options and the retain handling; \<open>None\<close> is malformed.
  The retain handling of MQTT 3.1 and 3.1.1 is not set.
\<close>

definition subscribe_options :: "services \<Rightarrow> mosquitto \<Rightarrow> u8 \<Rightarrow> u8 \<Rightarrow> (u8 \<times> u8 \<times> u8) option" where
  "subscribe_options srv ctx retain_handling subscription_options =
     (let parsed =
        (if ctx_protocol ctx = mosq_p_mqtt31 \<or> ctx_protocol ctx = mosq_p_mqtt311 then
           Some (subscription_options,
             if sr_is_bridge srv ctx then MQTT_SUB_OPT_RETAIN_AS_PUBLISHED OR MQTT_SUB_OPT_NO_LOCAL else subscription_options,
             retain_handling)
         else
           let qos = subscription_options AND 0x03; subscription_options = subscription_options AND 0xFC;
               retain_handling = subscription_options AND 0x30
           in if retain_handling = 0x30 \<or> subscription_options AND 0xC0 \<noteq> 0 then None
              else Some (qos, subscription_options, retain_handling))
      in Option.bind parsed (\<lambda>(qos, subscription_options, retain_handling).
           if qos > 2 then None
           else Some (if unat qos > ctx_max_qos ctx then of_nat (ctx_max_qos ctx) else qos, subscription_options, retain_handling)))"

text \<open>
  One filter, once its options are known: \<open>Inl rc\<close> returns, \<open>Inr\<close> goes on with the reason code
  for the \<open>SUBACK\<close> and \<open>rc\<close>.
\<close>

definition subscribe_filter ::
  "services \<Rightarrow> retain_acl \<Rightarrow> (nat \<Rightarrow> bool) \<Rightarrow> net \<Rightarrow> nat \<Rightarrow> string \<Rightarrow> u8 \<times> u8 \<times> u8 \<Rightarrow> u32 \<Rightarrow> int \<Rightarrow> server \<Rightarrow>
   ((int + (u8 \<times> int)) \<times> server) option" where
  "subscribe_filter srv racl alloc net c sub opts subscription_identifier rc sv =
     (case opts of (qos, subscription_options, retain_handling) \<Rightarrow>
      let ctx = sv_contexts sv c; rc2 = sr_subscribe_acl srv ctx sub qos
      in if rc2 = err_code MOSQ_ERR_ACL_DENIED then
           Some (Inr (if ctx_protocol ctx = mosq_p_mqtt5 then MQTT_RC_NOT_AUTHORIZED
                      else if ctx_protocol ctx = mosq_p_mqtt311 then 0x80 else qos, rc), sv)
         else if rc2 \<noteq> 0 then Some (Inl rc2, sv)
         else
           Option.bind (sub__add alloc c sub (unat qos) subscription_identifier subscription_options sv) (\<lambda>(rc2, sv).
             if rc2 > 0 then Some (Inl rc2, sv)
             else
               let old = (ctx_protocol ctx = mosq_p_mqtt311 \<or> ctx_protocol ctx = mosq_p_mqtt31)
               in if (if old then rc2 = 0 \<or> rc2 = err_code MOSQ_ERR_SUB_EXISTS
                      else retain_handling = MQTT_SUB_OPT_SEND_RETAIN_ALWAYS \<or> (rc2 = 0 \<and> retain_handling = MQTT_SUB_OPT_SEND_RETAIN_NEW))
                  then map_option (\<lambda>(rc3, sv). (Inr (qos, if rc3 \<noteq> 0 then 1 else rc), sv))
                         (retain__queue racl alloc net c sub (unat qos) (if old then 0 else subscription_identifier) sv)
                  else Some (Inr (qos, rc), sv)))"

text \<open>
  The loop over the filters; \<open>n\<close> bounds the rounds, of which each takes at least two bytes. An empty
  filter is read as NULL and passed over.
\<close>

fun subscribe_loop ::
  "nat \<Rightarrow> services \<Rightarrow> retain_acl \<Rightarrow> (nat \<Rightarrow> bool) \<Rightarrow> net \<Rightarrow> nat \<Rightarrow> u32 \<Rightarrow> packet \<Rightarrow> u8 \<Rightarrow> u8 list \<Rightarrow> int \<Rightarrow> server \<Rightarrow>
   ((int + (u8 list \<times> int)) \<times> server) option" where
  "subscribe_loop 0 srv racl alloc net c subscription_identifier p retain_handling payload rc sv = None"
| "subscribe_loop (Suc n) srv racl alloc net c subscription_identifier p retain_handling payload rc sv =
     (if \<not> pk_pos p < pk_remaining_length p then Some (Inr (payload, rc), sv)
      else
        let bad = Some (Inl (err_code MOSQ_ERR_MALFORMED_PACKET), sv)
        in reading (packet__read_string alloc p) (\<lambda>_. bad) (\<lambda>(s, p).
        case c_str s of
          None \<Rightarrow> subscribe_loop n srv racl alloc net c subscription_identifier p retain_handling payload rc sv
        | Some sub \<Rightarrow>
            if ms_len s = 0 then bad
            else if mosquitto_sub_topic_check (Some sub) \<noteq> MOSQ_ERR_SUCCESS then bad
            else reading (packet__read_byte p) (\<lambda>_. bad) (\<lambda>(subscription_options, p).
              case subscribe_options srv (sv_contexts sv c) retain_handling subscription_options of
                None \<Rightarrow> bad
              | Some (qos, subscription_options, retain_handling) \<Rightarrow>
                  let mount = (case sr_listener srv (sv_contexts sv c) of None \<Rightarrow> None | Some l \<Rightarrow> ls_mount_point l);
                      sub_mount = (case mount of None \<Rightarrow> sub | Some m \<Rightarrow> m @ sub)
                  in if mount \<noteq> None \<and> \<not> alloc (length sub_mount + 2) then Some (Inl (err_code MOSQ_ERR_NOMEM), sv)
                     else
                       Option.bind (subscribe_filter srv racl alloc net c sub_mount (qos, subscription_options, retain_handling)
                           subscription_identifier rc sv) (\<lambda>(r, sv).
                         case r of
                           Inl rc \<Rightarrow> Some (Inl rc, sv)
                         | Inr (code, rc) \<Rightarrow>
                             if \<not> alloc (length payload + 1) then Some (Inl (err_code MOSQ_ERR_NOMEM), sv)
                             else subscribe_loop n srv racl alloc net c subscription_identifier p retain_handling
                                    (payload @ [code]) rc sv))))"

text \<open>The message id and the subscription identifier, 0 when there is none.\<close>

definition subscribe_fields :: "(nat \<Rightarrow> bool) \<Rightarrow> mosquitto \<Rightarrow> packet \<Rightarrow> fault + (u16 \<times> u32 \<times> packet)" where
  "subscribe_fields alloc ctx p =
     seq (malformed (packet__read_uint16 p)) (\<lambda>(mid, p).
       if mid = 0 then Inl (Rc MOSQ_ERR_MALFORMED_PACKET)
       else if ctx_protocol ctx \<noteq> mosq_p_mqtt5 then Inr (mid, 0, p)
       else seq (protocol_malformed (property__read_all alloc CMD_SUBSCRIBE p)) (\<lambda>(properties, p).
         case mosquitto_property_read_varint properties MQTT_PROP_SUBSCRIPTION_IDENTIFIER False of
           None \<Rightarrow> Inr (mid, 0, p)
         | Some (subscription_identifier, _) \<Rightarrow>
             if subscription_identifier = 0 then Inl (Rc MOSQ_ERR_MALFORMED_PACKET) else Inr (mid, subscription_identifier, p)))"

definition handle__subscribe ::
  "services \<Rightarrow> retain_acl \<Rightarrow> (nat \<Rightarrow> bool) \<Rightarrow> net \<Rightarrow> nat \<Rightarrow> packet \<Rightarrow> server \<Rightarrow> (int \<times> server) option" where
  "handle__subscribe srv racl alloc net c p sv =
     (let ctx = sv_contexts sv c
      in if ctx_state ctx \<noteq> mosq_cs_active then Some (err_code MOSQ_ERR_PROTOCOL, sv)
         else if ctx_protocol ctx \<noteq> mosq_p_mqtt31 \<and> pk_command p AND 0x0F \<noteq> 0x02
         then Some (err_code MOSQ_ERR_MALFORMED_PACKET, sv)
         else
           reading (subscribe_fields alloc ctx p) (\<lambda>e. Some (err_code e, sv)) (\<lambda>(mid, subscription_identifier, p).
             Option.bind (subscribe_loop (unat (pk_remaining_length p) + 1) srv racl alloc net c subscription_identifier p 0 [] 0 sv)
               (\<lambda>(r, sv).
             case r of
               Inl rc \<Rightarrow> Some (rc, sv)
             | Inr (payload, rc) \<Rightarrow>
                 if ctx_protocol ctx \<noteq> mosq_p_mqtt31 \<and> payload = [] then Some (err_code MOSQ_ERR_MALFORMED_PACKET, sv)
                 else
                   let rc = (if sr_suback srv (sv_contexts sv c) mid payload \<noteq> 0 then 1 else rc);
                       sv = sv\<lparr>sv_db := (sv_db sv)\<lparr>db_persistence_changes := db_persistence_changes (sv_db sv) + 1\<rparr>\<rparr>
                   in if sr_out_idle srv (sv_contexts sv c) then
                        Option.bind (on_broker c db__message_write_queued_out sv) (\<lambda>(rc, sv).
                          if rc \<noteq> 0 then Some (rc, sv)
                          else on_broker c (db__message_write_inflight_out_latest net) sv)
                      else Some (rc, sv))))"

section \<open>Unsubscribing\<close>

text \<open>
  The loop over the filters: \<open>reason\<close> keeps its value from one round to the next, \<open>reason_code_max\<close> is
  the size of the array of reason codes.
\<close>

fun unsubscribe_loop ::
  "nat \<Rightarrow> services \<Rightarrow> (nat \<Rightarrow> bool) \<Rightarrow> nat \<Rightarrow> packet \<Rightarrow> u8 \<Rightarrow> u8 list \<Rightarrow> nat \<Rightarrow> server \<Rightarrow> ((int + u8 list) \<times> server) option" where
  "unsubscribe_loop 0 srv alloc c p reason reason_codes reason_code_max sv = None"
| "unsubscribe_loop (Suc n) srv alloc c p reason reason_codes reason_code_max sv =
     (if \<not> pk_pos p < pk_remaining_length p then Some (Inr reason_codes, sv)
      else
        let bad = Some (Inl (err_code MOSQ_ERR_MALFORMED_PACKET), sv)
        in reading (packet__read_string alloc p) (\<lambda>_. bad) (\<lambda>(s, p).
             if ms_len s = 0 then bad
             else
               Option.bind (c_str s) (\<lambda>sub.
               if mosquitto_sub_topic_check (Some sub) \<noteq> MOSQ_ERR_SUCCESS then bad
               else
                 let rc = sr_unsubscribe_acl srv (sv_contexts sv c) sub
                 in if rc \<noteq> 0 \<and> rc \<noteq> err_code MOSQ_ERR_ACL_DENIED then Some (Inl rc, sv)
                    else
                      Option.bind (if rc = 0 then sub__remove alloc c sub reason sv else Some (0, sv, MQTT_RC_NOT_AUTHORIZED))
                        (\<lambda>(rc, sv, reason).
                        if rc \<noteq> 0 then Some (Inl rc, sv)
                        else
                          let reason_codes = reason_codes @ [reason]; full = (length reason_codes = reason_code_max)
                          in if full \<and> \<not> alloc (reason_code_max * 2) then Some (Inl (err_code MOSQ_ERR_NOMEM), sv)
                             else unsubscribe_loop n srv alloc c p reason reason_codes
                                    (if full then reason_code_max * 2 else reason_code_max) sv))))"

definition unsubscribe_fields :: "(nat \<Rightarrow> bool) \<Rightarrow> mosquitto \<Rightarrow> packet \<Rightarrow> fault + (u16 \<times> packet)" where
  "unsubscribe_fields alloc ctx p =
     seq (malformed (packet__read_uint16 p)) (\<lambda>(mid, p).
       if mid = 0 then Inl (Rc MOSQ_ERR_MALFORMED_PACKET)
       else seq (if ctx_protocol ctx = mosq_p_mqtt5 then protocol_malformed (property__read_all alloc CMD_UNSUBSCRIBE p)
                 else Inr ([], p)) (\<lambda>(_, p).
         if (ctx_protocol ctx = mosq_p_mqtt311 \<or> ctx_protocol ctx = mosq_p_mqtt5) \<and> pk_pos p = pk_remaining_length p
         then Inl (Rc MOSQ_ERR_MALFORMED_PACKET) else Inr (mid, p)))"

definition handle__unsubscribe ::
  "services \<Rightarrow> (nat \<Rightarrow> bool) \<Rightarrow> nat \<Rightarrow> packet \<Rightarrow> server \<Rightarrow> (int \<times> server) option" where
  "handle__unsubscribe srv alloc c p sv =
     (let ctx = sv_contexts sv c
      in if ctx_state ctx \<noteq> mosq_cs_active then Some (err_code MOSQ_ERR_PROTOCOL, sv)
         else if ctx_protocol ctx \<noteq> mosq_p_mqtt31 \<and> pk_command p AND 0x0F \<noteq> 0x02
         then Some (err_code MOSQ_ERR_MALFORMED_PACKET, sv)
         else
           reading (unsubscribe_fields alloc ctx p) (\<lambda>e. Some (err_code e, sv)) (\<lambda>(mid, p).
             if \<not> alloc 10 then Some (err_code MOSQ_ERR_NOMEM, sv)
             else
               Option.bind (unsubscribe_loop (unat (pk_remaining_length p) + 1) srv alloc c p 0 [] 10 sv) (\<lambda>(r, sv).
               case r of
                 Inl rc \<Rightarrow> Some (rc, sv)
               | Inr reason_codes \<Rightarrow>
                   Some (sr_unsuback srv (sv_contexts sv c) mid reason_codes,
                     sv\<lparr>sv_db := (sv_db sv)\<lparr>db_persistence_changes := db_persistence_changes (sv_db sv) + 1\<rparr>\<rparr>))))"

section \<open>Dispatch\<close>

text \<open>
  \<open>handle__packet\<close>, for the packets of a session; \<open>other\<close> stands for the handlers of \<open>CONNECT\<close>,
  \<open>DISCONNECT\<close>, \<open>AUTH\<close> and of the packets to bridges.
\<close>

type_synonym other_packets = "int \<Rightarrow> nat \<Rightarrow> packet \<Rightarrow> server \<Rightarrow> (int \<times> server) option"

definition handle__packet ::
  "other_packets \<Rightarrow> services \<Rightarrow> acl_check \<Rightarrow> retain_acl \<Rightarrow> (nat \<Rightarrow> bool) \<Rightarrow> net \<Rightarrow> nat \<Rightarrow> packet \<Rightarrow> server \<Rightarrow>
   (int \<times> server) option" where
  "handle__packet other srv acl racl alloc net c p sv =
     (let command = uint (pk_command p AND 0xF0)
      in if command = CMD_PINGREQ then handle__pingreq srv c sv
         else if command = CMD_PINGRESP then handle__pingresp c sv
         else if command = CMD_PUBACK then handle__pubackcomp alloc net c ''PUBACK'' p sv
         else if command = CMD_PUBCOMP then handle__pubackcomp alloc net c ''PUBCOMP'' p sv
         else if command = CMD_PUBLISH then handle__publish srv acl alloc net c p sv
         else if command = CMD_PUBREC then handle__pubrec alloc net c p sv
         else if command = CMD_PUBREL then handle__pubrel srv acl alloc net c p sv
         else if command = CMD_SUBSCRIBE then handle__subscribe srv racl alloc net c p sv
         else if command = CMD_UNSUBSCRIBE then handle__unsubscribe srv alloc c p sv
         else if command \<in> {CMD_CONNECT, CMD_DISCONNECT, CMD_CONNACK, CMD_SUBACK, CMD_UNSUBACK, CMD_AUTH}
         then other command c p sv
         else Some (err_code MOSQ_ERR_PROTOCOL, sv))"

text \<open>
  The reason of the \<open>DISCONNECT\<close> that \<open>handle__packet\<close> sends to a client of MQTT 5 for an error of
  \<open>handle__publish\<close>, \<open>handle__subscribe\<close>, \<open>handle__unsubscribe\<close> or an unknown command.
\<close>

definition disconnect_reason :: "int \<Rightarrow> u8 option" where
  "disconnect_reason rc =
     (if rc = err_code MOSQ_ERR_PROTOCOL then Some 130
      else if rc = err_code MOSQ_ERR_MALFORMED_PACKET then Some 129
      else if rc = err_code MOSQ_ERR_QOS_NOT_SUPPORTED then Some 155
      else if rc = err_code MOSQ_ERR_RETAIN_NOT_SUPPORTED then Some 154
      else if rc = err_code MOSQ_ERR_TOPIC_ALIAS_INVALID then Some 148
      else if rc = err_code MOSQ_ERR_UNKNOWN \<or> rc = err_code MOSQ_ERR_NOMEM then Some 128
      else None)"

end
