(* ===== verification/Session.thy ===== *)
theory Session
  imports Handlers Server_Run Property_Laws
begin

text \<open>
  The invariant of the broker while its clients send packets, and rules for the steps of a handler:
  reading a field, an operation of \<open>database.c\<close>, a reply, and the next step with its result.
\<close>

section \<open>The invariant\<close>

text \<open>The topics of stored messages have passed \<open>mosquitto_pub_topic_check\<close>.\<close>

definition known_topics :: "mosquitto_db \<Rightarrow> bool" where
  "known_topics db \<longleftrightarrow> (\<forall>a s. store_at db a = Some s \<longrightarrow> (\<exists>t. ms_topic s = Some t \<and> publishable t))"

text \<open>Connected clients have different identifiers, and topics for their aliases.\<close>

definition known_clients :: "nat set \<Rightarrow> server \<Rightarrow> bool" where
  "known_clients C sv \<longleftrightarrow> (\<forall>c \<in> C.
     (\<exists>cid. ctx_id (sv_contexts sv c) = Some cid \<and> (\<forall>d. ctx_id (sv_contexts sv d) = Some cid \<longrightarrow> d = c)) \<and>
     None \<notin> fst ` set (ctx_aliases (sv_contexts sv c)))"

definition session_inv :: "nat set \<Rightarrow> (nat \<Rightarrow> int) \<Rightarrow> server \<Rightarrow> bool" where
  "session_inv C E sv \<longleftrightarrow> server_inv C E sv \<and> known_topics (sv_db sv) \<and> known_clients C sv"

lemma known_topics_ok: "known_topics db \<Longrightarrow> topics_ok db"
  by (force simp: known_topics_def topics_ok_def)

lemma known_topics_from: "known_topics db \<Longrightarrow> stores_from db db' \<Longrightarrow> known_topics db'"
  unfolding known_topics_def stores_from_def by metis

lemma known_clients_identity:
  "known_clients C sv \<Longrightarrow> \<forall>d. identity (sv_contexts sv' d) = identity (sv_contexts sv d) \<Longrightarrow> known_clients C sv'"
  by (simp add: known_clients_def identity_def)

lemma session_step: "session_inv C E sv \<Longrightarrow> server_inv C E sv' \<Longrightarrow> session_frame sv sv' \<Longrightarrow> session_inv C E sv'"
  using known_topics_from known_clients_identity by (auto simp: session_inv_def session_frame_def)

lemma session_client:
  assumes "session_inv C E sv" and "c \<in> C"
  obtains cid where "ctx_id (sv_contexts sv c) = Some cid" "\<And>d. ctx_id (sv_contexts sv d) = Some cid \<Longrightarrow> d = c"
  using assms unfolding session_inv_def known_clients_def by blast

section \<open>Steps of a handler\<close>

text \<open>A step that ends and keeps the invariant.\<close>

definition handled :: "nat set \<Rightarrow> (nat \<Rightarrow> int) \<Rightarrow> ('a \<times> server) option \<Rightarrow> bool" where
  "handled C E r \<longleftrightarrow> (\<exists>x sv. r = Some (x, sv) \<and> session_inv C E sv)"

named_theorems handled_intros \<open>steps that end and keep the invariant\<close>

lemma handled_Some [simp]: "handled C E (Some y) \<longleftrightarrow> session_inv C E (snd y)"
  by (cases y) (simp add: handled_def)

lemma handled_bind [handled_intros]:
  assumes "handled C E r" and "\<And>x sv. r = Some (x, sv) \<Longrightarrow> session_inv C E sv \<Longrightarrow> handled C E (k (x, sv))"
  shows "handled C E (Option.bind r k)"
  using assms by (auto simp: handled_def)

lemma handled_map:
  assumes "handled C E r" and "\<And>x sv. session_inv C E sv \<Longrightarrow> session_inv C E (snd (f (x, sv)))"
  shows "handled C E (map_option f r)"
  using assms by (fastforce simp: handled_def intro: prod.collapse [symmetric])

lemma handled_reading:
  assumes "r \<noteq> Inl Trap" and "\<And>e. handled C E (err e)" and "\<And>x. r = Inr x \<Longrightarrow> handled C E (k x)"
  shows "handled C E (reading r err k)"
  using assms by (auto simp: reading_def split: sum.split fault.split)

lemma handled_step:
  "session_inv C E sv \<Longrightarrow> \<exists>x sv'. r = Some (x, sv') \<and> server_inv C E sv' \<and> session_frame sv sv' \<Longrightarrow> handled C E r"
  using session_step by (auto simp: handled_def)

lemma handled_result: "handled C E r \<Longrightarrow> r = Some (x, sv) \<Longrightarrow> session_inv C E sv"
  by (simp add: handled_def)

text \<open>An operation on the messages of a client.\<close>

lemma on_broker_handled:
  assumes inv: "session_inv C E sv" and c: "c \<in> C"
    and f: "\<And>E. broker_inv False E (the_client sv c) \<Longrightarrow> runs False E d (the_client sv c) (f (the_client sv c))"
  shows "handled C E (on_broker c f sv)"
proof -
  have sv: "server_inv C E sv" using inv by (simp add: session_inv_def)
  then have ok: "server_ok C (with_refs E (forest_refs (sv_retains sv))) sv" by (simp add: server_inv_def)
  obtain rc bk where bk: "f (the_client sv c) = Some (rc, bk)" "server_ok C (with_refs E (forest_refs (sv_retains sv))) (put_client c bk sv)"
    "dir_frame d (the_client sv c) bk"
    using on_client_dir [OF ok c f] by blast
  then show ?thesis
    using session_step [OF inv server_inv_put [OF sv bk(2)] session_frameI(4) [OF bk(3)]] by (simp add: on_broker_def)
qed

lemma with_ctx_client: "with_ctx c ctx sv = put_client c ((the_client sv c)\<lparr>bk_ctx := ctx\<rparr>) sv"
  by (simp add: with_ctx_def put_client_def the_client_def)

lemma with_ctx_ok:
  assumes inv: "session_inv C E sv" and c: "c \<in> C"
    and f: "\<And>E. broker_inv False E (the_client sv c) \<Longrightarrow> broker_inv False E ((the_client sv c)\<lparr>bk_ctx := ctx\<rparr>) \<and>
      same_lists d (the_client sv c) ((the_client sv c)\<lparr>bk_ctx := ctx\<rparr>)"
  shows "session_inv C E (with_ctx c ctx sv)"
proof -
  have "handled C E (on_broker c (\<lambda>bk. Some (0, bk\<lparr>bk_ctx := ctx\<rparr>)) sv)"
    by (rule on_broker_handled [OF inv c, of d]) (use f in \<open>simp add: runs_Some same_lists_def\<close>)
  then show ?thesis by (simp add: on_broker_def with_ctx_client)
qed

lemma quota_sent:
  assumes "session_inv C E sv" and "c \<in> C"
  shows "session_inv C E (with_ctx c (util__increment_send_quota (sv_contexts sv c)) sv)"
    "session_inv C E (with_ctx c (util__increment_receive_quota (sv_contexts sv c)) sv)"
    "session_inv C E (with_ctx c (util__decrement_receive_quota (sv_contexts sv c)) sv)"
    "session_inv C E (with_ctx c (snd (send__pubrel net mid (sv_contexts sv c))) sv)"
    "session_inv C E (with_ctx c (snd (send__pubrec net mid (sv_contexts sv c))) sv)"
proof -
  have b: "bk_ctx (the_client sv c) = sv_contexts sv c" by (simp add: the_client_def)
  show "session_inv C E (with_ctx c (util__increment_send_quota (sv_contexts sv c)) sv)"
    by (rule with_ctx_ok [OF assms, of _ mosq_md_out]) (use inv_quota(1) same_lists_quota(1) in \<open>metis b\<close>)
  show "session_inv C E (with_ctx c (util__increment_receive_quota (sv_contexts sv c)) sv)"
    by (rule with_ctx_ok [OF assms, of _ mosq_md_in]) (use inv_quota(3) same_lists_quota(3) in \<open>metis b\<close>)
  show "session_inv C E (with_ctx c (util__decrement_receive_quota (sv_contexts sv c)) sv)"
    by (rule with_ctx_ok [OF assms, of _ mosq_md_in]) (use inv_quota(4) same_lists_quota(4) in \<open>metis b\<close>)
  show "session_inv C E (with_ctx c (snd (send__pubrel net mid (sv_contexts sv c))) sv)"
    by (rule with_ctx_ok [OF assms, of _ mosq_md_in]) (use sent_keeps(3,4) in \<open>metis b\<close>)
  show "session_inv C E (with_ctx c (snd (send__pubrec net mid (sv_contexts sv c))) sv)"
    by (rule with_ctx_ok [OF assms, of _ mosq_md_in]) (use sent_keeps(5,6) in \<open>metis b\<close>)
qed

lemma replies_ok:
  assumes "session_inv C E sv" and "c \<in> C"
  shows "session_inv C E (snd (send__puback srv c mid reason_code sv))"
    "session_inv C E (snd (send__pubcomp srv c mid sv))"
    "session_inv C E (snd (send__pubrec_reason srv c mid reason_code sv))"
proof -
  have "with_ctx c (sv_contexts sv c) sv = sv" by (simp add: with_ctx_def)
  then show "session_inv C E (snd (send__puback srv c mid reason_code sv))"
    "session_inv C E (snd (send__pubcomp srv c mid sv))"
    "session_inv C E (snd (send__pubrec_reason srv c mid reason_code sv))"
    using assms quota_sent(2) [OF assms]
    by (simp_all add: send__puback_def send__pubcomp_def send__pubrec_reason_def Let_def)
qed

section \<open>Reading\<close>

lemma read_all_within [within_intros]:
  assumes "readable p"
  shows "reads_within p (property__read_all alloc command p)"
proof (cases "property__read_all alloc command p")
  case (Inl e)
  then show ?thesis using read_all_exact [OF assms, of alloc command] by (simp add: reads_within_def)
next
  case (Inr r)
  obtain xs p' where r: "r = (xs, p')" by (cases r)
  obtain proplen b q where q: "packet__read_varint p = Inr (proplen, b, q)" "advances (unat proplen) q p'"
    using read_all_exact [OF assms, of alloc command] Inr r by blast
  obtain n where "advances n p q" using read_varint_advances(1) [OF assms q(1)] by blast
  from advances_trans [OF this q(2)] show ?thesis using Inr r by (auto simp: reads_within_def advances_def)
qed

text \<open>The fields in front of a list or of the payload, with the rest of the packet.\<close>

definition fields_ok :: "('a \<Rightarrow> packet) \<Rightarrow> fault + 'a \<Rightarrow> bool" where
  "fields_ok f r \<longleftrightarrow> (case r of Inl e \<Rightarrow> e \<noteq> Trap | Inr x \<Rightarrow> readable (f x))"

lemma fields_ok_simps [simp]:
  "fields_ok f (Inl (Rc e))" "fields_ok f (Inr x) \<longleftrightarrow> readable (f x)"
  by (simp_all add: fields_ok_def)

lemma fields_ok_seq:
  assumes r: "fields_ok snd r" and k: "\<And>x p'. readable p' \<Longrightarrow> fields_ok f (k (x, p'))"
  shows "fields_ok f (seq r k)"
proof (cases r)
  case (Inr y)
  then have "fields_ok f (k (fst y, snd y))" using r by (intro k) simp
  then show ?thesis using Inr by (simp add: seq_def)
qed (use r in \<open>simp add: fields_ok_def seq_def\<close>)

lemma within_fields_ok: "reads_within p r \<Longrightarrow> fields_ok snd r"
  by (auto simp: reads_within_def fields_ok_def split: sum.splits)

lemma readers_ok [simp]:
  assumes "readable p"
  shows "fields_ok snd (packet__read_byte p)" "fields_ok snd (packet__read_uint16 p)" "fields_ok snd (packet__read_string alloc p)"
    "fields_ok snd (property__read_all alloc command p)"
  using assms by (auto intro: within_fields_ok within_intros)

lemma malformed_ok [simp]:
  "fields_ok f (malformed r) = fields_ok f r" "fields_ok f (protocol_malformed r) = fields_ok f r"
  by (auto simp: fields_ok_def malformed_def protocol_malformed_def split: sum.splits fault.splits)

lemma handled_fields:
  assumes "fields_ok f r" and "\<And>e. handled C E (err e)" and "\<And>x. r = Inr x \<Longrightarrow> readable (f x) \<Longrightarrow> handled C E (k x)"
  shows "handled C E (reading r err k)"
  using assms by (auto simp: fields_ok_def reading_def split: sum.splits fault.splits)

lemma unsubscribe_fields_ok: "readable p \<Longrightarrow> fields_ok snd (unsubscribe_fields alloc ctx p)"
  by (auto simp: unsubscribe_fields_def intro!: fields_ok_seq)

lemma subscribe_fields_ok: "readable p \<Longrightarrow> fields_ok (\<lambda>(mid, ident, q). q) (subscribe_fields alloc ctx p)"
  by (auto simp: subscribe_fields_def intro!: fields_ok_seq split: option.split)

lemma publish_fields_ok: "readable p \<Longrightarrow> fields_ok (\<lambda>(topic, mid, props, q). q) (publish_fields alloc ctx qos p)"
  by (auto simp: publish_fields_def intro!: fields_ok_seq)

lemma read_ack_ok: "readable p \<Longrightarrow> fields_ok (\<lambda>_. p) (read_ack alloc command ctx p)"
  by (auto simp: read_ack_def intro!: fields_ok_seq)

end
