(* ===== verification/Handlers_Safety.thy ===== *)
theory Handlers_Safety
  imports Session
begin

text \<open>
  Every packet of a connected client is handled: the handler returns, follows no pointer that is
  gone, reads nothing outside the packet, and keeps the invariant of the broker.
\<close>

section \<open>Acknowledgements\<close>

lemma pubackcomp_handled:
  assumes inv: "session_inv C E sv" and c: "c \<in> C" and rd: "readable p"
  shows "handled C E (handle__pubackcomp alloc net c type p sv)"
proof -
  have "session_inv C E (with_ctx c (util__increment_send_quota (sv_contexts sv c)) sv)" by (rule quota_sent(1) [OF inv c])
  from on_broker_handled [OF this c, of mosq_md_out] delete_outgoing_ok
  have "handled C E (on_broker c (db__message_delete_outgoing net mid mosq_ms_wait_for_pubcomp q)
      (with_ctx c (util__increment_send_quota (sv_contexts sv c)) sv))" for mid q by blast
  then show ?thesis
    using inv quota_sent(1) [OF inv c]
    by (auto simp: handle__pubackcomp_def Let_def intro!: handled_fields [OF read_ack_ok [OF rd]] handled_map)
qed

lemma pubrec_handled:
  assumes inv: "session_inv C E sv" and c: "c \<in> C" and rd: "readable p"
  shows "handled C E (handle__pubrec alloc net c p sv)"
proof -
  have u: "handled C E (on_broker c (\<lambda>bk. Some (db__message_update_outgoing mid st q bk)) sv)" for mid st q
    using on_broker_handled [OF inv c, of mosq_md_out "\<lambda>bk. Some (db__message_update_outgoing mid st q bk)"] update_outgoing_ok by blast
  have d: "handled C E (on_broker c (db__message_delete_outgoing net mid st q) sv)" for mid st q
    using on_broker_handled [OF inv c, of mosq_md_out] delete_outgoing_ok by blast
  show ?thesis
    using inv quota_sent(4) [OF _ c, of E _ net]
    by (auto simp: handle__pubrec_def Let_def split_beta intro!: handled_fields [OF read_ack_ok [OF rd]] handled_bind u d)
qed

lemma pubrel_handled:
  assumes inv: "session_inv C E sv" and c: "c \<in> C" and rd: "readable p" and al: "\<forall>n. alloc n"
  shows "handled C E (handle__pubrel srv acl alloc net c p sv)"
proof -
  have "server_inv C E sv" "topics_ok (sv_db sv)" using inv by (simp_all add: session_inv_def known_topics_ok)
  then have r: "handled C E (db__message_release_incoming acl alloc net c mid sv)" for mid
    using release_incoming_ok [OF _ c al, of E sv acl net mid] by (intro handled_step [OF inv]) blast
  show ?thesis
    using inv replies_ok(2) [OF _ c, of E _ srv]
    by (auto simp: handle__pubrel_def Let_def intro!: handled_fields [OF read_ack_ok [OF rd]] handled_bind r)
qed

lemma ping_handled:
  assumes "session_inv C E sv"
  shows "handled C E (handle__pingreq srv c sv)" "handled C E (handle__pingresp c sv)"
  using assms by (simp_all add: handle__pingreq_def handle__pingresp_def)

section \<open>Unsubscribing\<close>

text \<open>The string that a reader gives is a C string.\<close>

lemma read_string_c:
  assumes "packet__read_string alloc p = Inr (s, p')" and "ms_len s \<noteq> 0"
  shows "\<exists>sub. c_str s = Some sub"
  using read_binary_buffer [OF read_string_binary [OF assms(1)] assms(2)] by (auto simp: c_str_def)

text \<open>A round of the loops over filters takes at least two bytes.\<close>

definition rounds_left :: "nat \<Rightarrow> packet \<Rightarrow> bool" where
  "rounds_left n p \<longleftrightarrow> readable p \<and> unat (pk_remaining_length p) < unat (pk_pos p) + n"

lemma rounds_left_0 [simp]: "\<not> rounds_left 0 p"
  by (simp add: rounds_left_def readable_def)

lemma rounds_left_start: "readable p \<Longrightarrow> rounds_left (Suc (unat (pk_remaining_length p))) p"
  by (simp add: rounds_left_def)

lemma rounds_left_advance: "rounds_left (Suc n) p \<Longrightarrow> advances k p p' \<Longrightarrow> 0 < k \<Longrightarrow> rounds_left n p'"
  by (auto simp: rounds_left_def advances_def skip_def)

lemma rounds_left_readable: "rounds_left n p \<Longrightarrow> readable p"
  by (simp add: rounds_left_def)

lemma rounds_left_string: "rounds_left (Suc n) p \<Longrightarrow> packet__read_string alloc p = Inr (s, p') \<Longrightarrow> rounds_left n p'"
  using read_string_advances [of p alloc s p'] rounds_left_advance [of n p "2 + unat (ms_len s)" p'] by (simp add: rounds_left_def)

lemma filter_handled:
  assumes p: "rounds_left (Suc n) p" and "\<And>e. handled C E (err e)"
    and k: "\<And>s p'. packet__read_string alloc p = Inr (s, p') \<Longrightarrow> rounds_left n p' \<Longrightarrow> handled C E (k (s, p'))"
  shows "handled C E (reading (packet__read_string alloc p) err k)"
proof (rule handled_fields [where f = snd])
  show "fields_ok snd (packet__read_string alloc p)" using rounds_left_readable [OF p] by simp
  show "handled C E (k x)" if "packet__read_string alloc p = Inr x" for x
    using k [of "fst x" "snd x"] rounds_left_string [OF p, of alloc "fst x" "snd x"] that by simp
qed fact

lemma option_handled:
  assumes p: "rounds_left n p" and "\<And>e. handled C E (err e)" and k: "\<And>b q. rounds_left n q \<Longrightarrow> handled C E (k (b, q))"
  shows "handled C E (reading (packet__read_byte p) err k)"
proof (rule handled_fields [where f = snd])
  show "fields_ok snd (packet__read_byte p)" using rounds_left_readable [OF p] by simp
  fix x assume x: "packet__read_byte p = Inr x"
  have "advances 1 p (snd x)" using read_byte_advances [OF rounds_left_readable [OF p], of "fst x" "snd x"] x by simp
  then have "rounds_left n (snd x)" using p by (auto simp: rounds_left_def advances_def skip_def)
  then show "handled C E (k x)" using k [of "snd x" "fst x"] by simp
qed fact

lemma unsubscribe_loop_handled:
  assumes c: "c \<in> C" and al: "\<forall>n. alloc n"
  shows "session_inv C E sv \<Longrightarrow> rounds_left n p \<Longrightarrow> handled C E (unsubscribe_loop n srv alloc c p reason codes m sv)"
proof (induction n arbitrary: sv p reason codes m)
  case (Suc n)
  have rem: "handled C E (Option.bind (sub__remove alloc c sub r sv) k)"
    if "\<And>rc sv' r'. session_inv C E sv' \<Longrightarrow> handled C E (k (rc, sv', r'))" for sub r and k :: "_ \<Rightarrow> ((int + u8 list) \<times> server) option"
    using serve_unsubscribe [OF _ al c, of E sv sub r] Suc.prems(1) session_step [OF Suc.prems(1)] that by (auto simp: session_inv_def)
  obtain f where f: "\<And>s p'. packet__read_string alloc p = Inr (s, p') \<Longrightarrow> ms_len s \<noteq> 0 \<Longrightarrow> c_str s = Some (f s)"
    using read_string_c by metis
  show ?case
    using Suc.prems(1)
    by (auto simp: Let_def f intro!: filter_handled [OF Suc.prems(2)] rem Suc.IH)
qed simp

lemma changes_ok [simp]:
  "session_inv C E (sv\<lparr>sv_db := (sv_db sv)\<lparr>db_persistence_changes := n\<rparr>\<rparr>) = session_inv C E sv"
  by (simp add: session_inv_def server_inv_def server_ok_changes tree_inv_def subs_inv_def known_topics_def known_clients_def)

lemma unsubscribe_handled:
  assumes inv: "session_inv C E sv" and c: "c \<in> C" and rd: "readable p" and al: "\<forall>n. alloc n"
  shows "handled C E (handle__unsubscribe srv alloc c p sv)"
  using inv
  by (auto simp: handle__unsubscribe_def Let_def simp del: unsubscribe_loop.simps intro!: handled_fields [OF unsubscribe_fields_ok [OF rd]] handled_bind
      unsubscribe_loop_handled [OF c al] rounds_left_start split: sum.split)

section \<open>Subscribing\<close>

lemma subscribe_options_qos:
  assumes "subscribe_options srv ctx rh b = Some (qos, opts, rh')"
  shows "unat qos \<le> 2"
proof -
  obtain q where q: "\<not> 2 < q" "qos = (if unat q > ctx_max_qos ctx then of_nat (ctx_max_qos ctx) else q)"
    using assms by (auto simp: subscribe_options_def Let_def bind_eq_Some_conv simp del: if_image_distrib split: if_split_asm)
  have "unat q \<le> 2" using q(1) by (simp add: word_less_nat_alt)
  moreover have "unat (of_nat n :: u8) \<le> n" for n by (simp add: unsigned_of_nat take_bit_nat_less_eq_self)
  ultimately show ?thesis unfolding q(2) by (metis (full_types) order_trans less_imp_le)
qed

lemma subscribe_filter_handled:
  assumes inv: "session_inv C E sv" and c: "c \<in> C" and al: "\<forall>n. alloc n" and q: "unat qos \<le> 2"
  shows "handled C E (subscribe_filter srv racl alloc net c sub (qos, opts, rh) ident rc sv)"
proof -
  have add: "handled C E (sub__add alloc c sub (unat qos) ident opts sv)"
  proof -
    obtain cid where "ctx_id (sv_contexts sv c) = Some cid" "\<And>d. ctx_id (sv_contexts sv d) = Some cid \<Longrightarrow> d = c"
      using session_client [OF inv c] by blast
    from serve_subscribe [OF _ al c q this] show ?thesis using inv by (intro handled_step [OF inv]) (auto simp: session_inv_def)
  qed
  have ret: "handled C E (retain__queue racl alloc net c sub (unat qos) n sv')" if "session_inv C E sv'" for sv' n
    using serve_resend [OF _ al c q, of E sv' racl net sub n] that by (intro handled_step [OF that]) (auto simp: session_inv_def)
  show ?thesis
    using inv by (auto simp: subscribe_filter_def Let_def intro!: handled_bind add handled_map ret)
qed

lemma subscribe_loop_handled:
  assumes c: "c \<in> C" and al: "\<forall>n. alloc n"
  shows "session_inv C E sv \<Longrightarrow> rounds_left n p \<Longrightarrow>
    handled C E (subscribe_loop n srv racl alloc net c ident p rh payload rc sv)"
proof (induction n arbitrary: sv p rh payload rc)
  case (Suc n)
  have filt: "handled C E (Option.bind (subscribe_filter srv racl alloc net c sub (qos, opts, rh') ident rc sv) k)"
    if "subscribe_options srv (sv_contexts sv c) rh b = Some (qos, opts, rh')" "\<And>x sv'. session_inv C E sv' \<Longrightarrow> handled C E (k (x, sv'))"
    for sub qos opts rh' b and k :: "_ \<Rightarrow> ((int + u8 list \<times> int) \<times> server) option"
    by (rule handled_bind [OF subscribe_filter_handled [OF Suc.prems(1) c al subscribe_options_qos [OF that(1)]]]) (rule that(2))
  show ?case
    using Suc.prems(1)
    by (auto simp: Let_def intro!: filter_handled [OF Suc.prems(2)] option_handled filt Suc.IH split: option.split sum.split)
qed simp

lemma subscribe_handled:
  assumes inv: "session_inv C E sv" and c: "c \<in> C" and rd: "readable p" and al: "\<forall>n. alloc n"
  shows "handled C E (handle__subscribe srv racl alloc net c p sv)"
proof -
  have out: "handled C E (on_broker c db__message_write_queued_out sv')" "handled C E (on_broker c (db__message_write_inflight_out_latest net) sv')"
    if "session_inv C E sv'" for sv'
    using on_broker_handled [OF that c, of mosq_md_out] write_queued_out_ok write_latest_ok by blast+
  show ?thesis
    using inv
    by (auto simp: handle__subscribe_def Let_def simp del: subscribe_loop.simps
        intro!: handled_fields [OF subscribe_fields_ok [OF rd]] handled_bind subscribe_loop_handled [OF c al] rounds_left_start out
        split: sum.split)
qed

end
