(* ===== verification/Publish_Safety.thy ===== *)
theory Publish_Safety
  imports Handlers_Safety
begin

text \<open>
  \<open>handle__publish\<close> returns and keeps the invariant, whatever is in the packet. The topic that is
  stored must be one that \<open>mosquitto_pub_topic_check\<close> lets through: there is no mount point in front
  of it, and plugins keep to it.
\<close>

definition services_ok :: "services \<Rightarrow> bool" where
  "services_ok srv \<longleftrightarrow>
     (\<forall>ctx l. sr_listener srv ctx = Some l \<longrightarrow> ls_mount_point l = None) \<and>
     (\<forall>ctx msg t. ms_topic msg = Some t \<longrightarrow> publishable t \<longrightarrow> ms_ref_count msg = 0 \<longrightarrow>
        (\<exists>t'. ms_topic (snd (sr_plugin srv ctx msg)) = Some t' \<and> publishable t') \<and> ms_ref_count (snd (sr_plugin srv ctx msg)) = 0)"

section \<open>Topic aliases\<close>

lemma alias_replace_topics:
  "alias_replace True topic a xs = Some (rc, ys) \<Longrightarrow> None \<notin> fst ` set xs \<Longrightarrow> None \<notin> fst ` set ys"
proof (induction xs arbitrary: ys)
  case (Cons x xs)
  obtain t b where x: "x = (t, b)" by (cases x)
  show ?case
  proof (cases "b = a")
    case True
    then show ?thesis using Cons.prems x by auto
  next
    case False
    then obtain zs where "alias_replace True topic a xs = Some (rc, zs)" "ys = (t, b) # zs" using Cons.prems x by auto
    then show ?thesis using Cons.IH [of zs] Cons.prems x by simp
  qed
qed simp

lemma alias_lookup_topics: "None \<notin> fst ` set xs \<Longrightarrow> alias_lookup xs alias \<noteq> Some None"
  by (induction xs) (auto split: if_splits)

lemma publish_alias_ok:
  assumes "\<forall>n. alloc n" and "None \<notin> fst ` set (ctx_aliases ctx)" and r: "publish_alias srv alloc topic topic_alias ctx = (r, ctx')"
  shows "r \<noteq> Inl Trap \<and> (\<exists>aliases. ctx' = ctx\<lparr>ctx_aliases := aliases\<rparr> \<and> None \<notin> fst ` set aliases)"
proof -
  have same: "\<exists>aliases. ctx = ctx\<lparr>ctx_aliases := aliases\<rparr> \<and> None \<notin> fst ` set aliases"
    using assms(2) by (intro exI [of _ "ctx_aliases ctx"]) simp
  have add': "\<exists>aliases. snd (alias__add True True ctx t a) = ctx\<lparr>ctx_aliases := aliases\<rparr> \<and> None \<notin> fst ` set aliases" for t a
  proof (cases "alias_replace True t a (ctx_aliases ctx)")
    case None
    then show ?thesis using assms(2) by (intro exI [of _ "ctx_aliases ctx @ [(Some t, a)]"]) (simp add: alias__add_def)
  next
    case (Some y)
    obtain rc ys where y: "y = (rc, ys)" by (cases y)
    then have "None \<notin> fst ` set ys" using alias_replace_topics [OF _ assms(2)] Some by blast
    then show ?thesis using Some y by (intro exI [of _ ys]) (simp add: alias__add_def)
  qed
  have find': "alias__find True ctx a \<noteq> Inl Trap" for a
    using alias_lookup_topics [OF assms(2), of a] by (auto simp: alias__find_def split: option.split)
  have alloc: "alloc = (\<lambda>_. True)" using assms(1) by auto
  let ?bad = "topic_alias = 0 \<or> (case sr_listener srv ctx of None \<Rightarrow> False | Some l \<Rightarrow> topic_alias > uint (ls_max_topic_alias l))"
  consider (bad) ?bad | (none) "\<not> ?bad" "\<not> 0 < topic_alias" | (add) t where "\<not> ?bad" "0 < topic_alias" "topic = Some t"
    | (find) "\<not> ?bad" "0 < topic_alias" "topic = None" by (cases topic) blast+
  then show ?thesis
  proof cases
    case bad
    then have "r = Inl (Rc MOSQ_ERR_TOPIC_ALIAS_INVALID)" "ctx' = ctx" using r unfolding publish_alias_def by simp_all
    then show ?thesis using same by simp
  next
    case none
    then have "r = Inr topic" "ctx' = ctx" using r unfolding publish_alias_def by simp_all
    then show ?thesis using same by simp
  next
    case add
    let ?r = "alias__add True True ctx t (of_int topic_alias)"
    have "ctx' = snd ?r" "r = Inl (Rc (fst ?r)) \<or> r = Inr topic"
      using r add unfolding publish_alias_def alloc by (auto simp: split_beta split: if_split_asm)
    then show ?thesis using add' [of t "of_int topic_alias"] by auto
  next
    case find
    have "ctx' = ctx" "r \<noteq> Inl Trap"
      using r find find' [of "of_int topic_alias"] unfolding publish_alias_def alloc
      by (simp_all split: sum.splits fault.splits) auto
    then show ?thesis using same by simp
  qed
qed

lemma with_alias_ok:
  assumes inv: "session_inv C E sv" and "None \<notin> fst ` set aliases"
  shows "session_inv C E (with_ctx c ((sv_contexts sv c)\<lparr>ctx_aliases := aliases\<rparr>) sv)"
proof -
  let ?sv = "with_ctx c ((sv_contexts sv c)\<lparr>ctx_aliases := aliases\<rparr>) sv"
  have "server_ok C (with_refs E (forest_refs (sv_retains sv))) ?sv"
    unfolding with_ctx_def using inv by (intro server_ok_ctx) (simp_all add: session_inv_def server_inv_def)
  then have "server_inv C E ?sv"
    using inv by (simp add: session_inv_def server_inv_def with_ctx_def tree_inv_def subs_inv_def)
  moreover have id: "ctx_id (sv_contexts ?sv d) = ctx_id (sv_contexts sv d)" for d by (simp add: with_ctx_def)
  have "known_clients C ?sv"
    using inv assms(2) unfolding session_inv_def known_clients_def id by (simp add: with_ctx_def)
  ultimately show ?thesis using inv by (simp add: session_inv_def with_ctx_def)
qed

section \<open>Stored messages\<close>

lemma new_store_addr_free: "store_at db (new_store_addr db) = None"
proof -
  have "a < new_store_addr db" if "a \<in> set (map fst (db_msg_store db))" for a
    unfolding new_store_addr_def using foldr_max [OF that] by (rule le_imp_less_Suc)
  from this [of "new_store_addr db"] show ?thesis by (auto simp: store_at_def map_of_eq_None_iff)
qed

lemma store_keeps_topics:
  assumes "known_topics db" and "ms_topic msg = Some t" "publishable t"
    and "db__message_store alloc source a msg expiry store_id origin db = (rc, db')"
  shows "known_topics db'"
  using assms
  by (auto simp: known_topics_def db__message_store_def db__msg_store_add_def store_at_def Let_def split: if_splits)

lemma store_session:
  assumes inv: "session_inv C E sv" and new: "store_at (sv_db sv) a = None" and msg: "ms_ref_count msg = 0" "ms_topic msg = Some t" "publishable t"
    and r: "db__message_store alloc source a msg expiry store_id origin (sv_db sv) = (rc, db)"
  shows "session_inv C E (sv\<lparr>sv_db := db\<rparr>)" "rc = MOSQ_ERR_SUCCESS \<Longrightarrow> store_at db a \<noteq> None"
proof -
  have s: "server_inv C E sv" using inv by (simp add: session_inv_def)
  then have "server_ok C (with_refs E (forest_refs (sv_retains sv))) sv" by (simp add: server_inv_def)
  from server_message_store [OF this new msg(1) r]
  have m: "server_ok C (with_refs E (forest_refs (sv_retains sv))) (sv\<lparr>sv_db := db\<rparr>)"
    "rc = MOSQ_ERR_SUCCESS \<longrightarrow> store_at db a \<noteq> None" by simp_all
  have "server_inv C E (sv\<lparr>sv_db := db\<rparr>)" using s m(1) by (simp add: server_inv_def tree_inv_def subs_inv_def)
  then show "session_inv C E (sv\<lparr>sv_db := db\<rparr>)"
    using inv store_keeps_topics [OF _ msg(2,3) r] by (simp add: session_inv_def known_clients_def)
  show "rc = MOSQ_ERR_SUCCESS \<Longrightarrow> store_at db a \<noteq> None" using m(2) by simp
qed

lemma store_find_loop_ok:
  assumes "\<And>m. m \<in> set ms \<Longrightarrow> store_at db (cm_store m) \<noteq> None"
  shows "\<exists>r. store_find_loop mid db ms = Some r \<and> (\<forall>a. r = Some a \<longrightarrow> store_at db a \<noteq> None)"
  using assms by (induction ms) (auto split: option.split)

lemma store_find_ok:
  assumes inv: "session_inv C E sv" and c: "c \<in> C"
  shows "\<exists>rc r. db__message_store_find mid (the_client sv c) = Some (rc, r) \<and> (\<forall>a. r = Some a \<longrightarrow> store_at (sv_db sv) a \<noteq> None)"
proof -
  have "server_ok C (with_refs E (forest_refs (sv_retains sv))) sv" using inv by (simp add: session_inv_def server_inv_def)
  from client_inv [OF this c]
  have "store_at (sv_db sv) (cm_store m) \<noteq> None" if "m \<in> set (md_msgs (ctx_msgs_in (sv_contexts sv c)))" for m
    using that stores_okD(1) by (fastforce simp: broker_inv_def safe_inv_def the_client_def ctx_refs_def md_refs_def)
  then show ?thesis
    using store_find_loop_ok [of "md_inflight (ctx_msgs_in (sv_contexts sv c))" "sv_db sv" mid]
      store_find_loop_ok [of "md_queued (ctx_msgs_in (sv_contexts sv c))" "sv_db sv" mid]
    by (fastforce simp: db__message_store_find_def the_client_def md_msgs_def split: option.split)
qed

text \<open>A message of qos 2 that is put into the list of its sender stays where it is.\<close>

lemma insert_keeps_store:
  assumes "db__message_insert alloc net addr mid mosq_md_in qos retain stored props False bk = Some (rc, bk')"
    and "store_at (bk_db bk) stored \<noteq> None"
  shows "store_at (bk_db bk') stored \<noteq> None"
proof -
  have f: "store_at (bk_db bk2) stored \<noteq> None"
    if "insert_finish net mosq_md_in False msg rc1 bk1 = Some (rc2, bk2)" "store_at (bk_db bk1) stored \<noteq> None" for msg rc1 bk1 rc2 bk2
    using that by (auto simp: insert_finish_def Let_def split: if_splits option.splits)
  have i: "store_at db' stored \<noteq> None" if "db__msg_store_ref_inc stored db = Some db'" for db db'
    using that by (auto simp: db__msg_store_ref_inc_def split: option.splits)
  show ?thesis
    using assms
    by (auto simp: db__message_insert_def Let_def dest!: f i split: option.splits sum.splits prod.splits if_splits)
qed

section \<open>Handing out\<close>

lemma queue_handled:
  assumes inv: "session_inv C E sv" and "store_at (sv_db sv) stored \<noteq> None" and "\<forall>n. alloc n" and "publishable t"
  shows "handled C E (sub__messages_queue acl alloc net source_id t qos retain stored sv)"
  using messages_queue_ok [OF _ assms(2-4), of C E acl net source_id qos retain] inv session_frameI(1)
  by (intro handled_step [OF inv]) (force simp: session_inv_def)

lemma publish_deliver_handled:
  assumes inv: "session_inv C E sv" and c: "c \<in> C" and al: "\<forall>n. alloc n" and st: "store_at (sv_db sv) stored \<noteq> None"
  shows "handled C E (publish_deliver srv acl alloc net c mid dup stored sv)"
proof -
  obtain s t where s: "store_at (sv_db sv) stored = Some s" "ms_topic s = Some t" "publishable t"
    using st inv by (force simp: session_inv_def known_topics_def)
  have db: "sv_db (with_ctx c ctx sv) = sv_db sv" for ctx by (simp add: with_ctx_def)
  have queue: "handled C E (sub__messages_queue acl alloc net source_id t qos retain stored sv')"
    if "session_inv C E sv'" "sv_db sv' = sv_db sv" for source_id qos retain sv'
    by (rule queue_handled [OF that(1) _ al s(3)]) (use st that(2) in simp)
  have ins: "handled C E (on_broker c (db__message_insert alloc net (new_addr (ctx_msgs_in (sv_contexts sv c))) m mosq_md_in q r stored [] False) sv)"
    if "q \<le> 2" for m q r
    by (rule on_broker_handled [OF inv c, of mosq_md_in], rule insert_ok [where store = s])
      (use s(1) that al new_addr_fresh in \<open>simp_all add: the_client_def\<close>)
  have stay: "store_at (sv_db sv') stored \<noteq> None"
    if "on_broker c (db__message_insert alloc net a m mosq_md_in q r stored [] False) sv = Some (rc, sv')" for a m q r rc sv'
    using that insert_keeps_store st by (fastforce simp: on_broker_def the_client_def put_client_def)
  have win: "handled C E (on_broker c (db__message_write_queued_in net) sv')" if "session_inv C E sv'" for sv'
    using on_broker_handled [OF that c, of mosq_md_in] write_queued_in_ok by blast
  have finish: "handled C E (Option.bind r (\<lambda>(rc, sv). map_option (\<lambda>(_, sv). (rc, sv)) (on_broker c (db__message_write_queued_in net) sv)))"
    if "handled C E r" for r :: "(int \<times> server) option"
    by (rule handled_bind [OF that]) (auto intro!: handled_map win)
  have reply: "handled C E (case send__puback srv c mid reason sv' of (rc, sv) \<Rightarrow> Some (if rc \<noteq> 0 then 1 else 0 :: int, sv))"
    if "session_inv C E sv'" for sv' reason
    using replies_ok(1) [OF that c, of srv mid reason] by (simp add: split_beta)
  have first: "session_inv C E (with_ctx c (util__decrement_receive_quota (sv_contexts sv c)) sv)" by (rule quota_sent(3) [OF inv c])
  have second: "handled C E (Option.bind (store_at (sv_db sv') stored) (\<lambda>s.
      case send__pubrec net (ms_source_mid s) (sv_contexts sv' c) of (rc, ctx) \<Rightarrow> Some (if rc \<noteq> 0 then 1 else 0 :: int, with_ctx c ctx sv')))"
    if "session_inv C E sv'" "store_at (sv_db sv') stored \<noteq> None" for sv'
    using that quota_sent(5) [OF that(1) c, of net] by (auto simp: split_beta)
  show ?thesis
    unfolding publish_deliver_def s(1) bind.bind_lunit Let_def s(2)
    using inv
    by (intro finish, cases dup) (auto intro!: handled_map handled_bind queue reply first second [OF inv st] simp: db,
      auto intro!: handled_map handled_bind queue reply first second ins stay simp: db)
qed

text \<open>The label \<open>process_bad_message\<close>, and the choice of the stored message.\<close>

lemma publish_refused_handled:
  assumes "session_inv C E sv" and "c \<in> C"
  shows "handled C E (publish_refused srv c msg reason_code sv)"
  using assms replies_ok [OF assms] by (simp add: publish_refused_def)

lemma publish_store_handled:
  assumes inv: "session_inv C E sv" and c: "c \<in> C" and al: "\<forall>n. alloc n"
    and msg: "ms_ref_count msg = 0" "ms_topic msg = Some t" "publishable t"
  shows "handled C E (publish_store srv acl alloc net c msg expiry sv)"
proof -
  have rem: "handled C E (on_broker c (db__message_remove_incoming mid) sv)" for mid
    using on_broker_handled [OF inv c, of mosq_md_in] remove_incoming_ok by blast
  obtain found where found: "(if ms_qos msg > 0 then map_option snd (db__message_store_find (ms_source_mid msg) (the_client sv c)) else Some None) =
      Some found" "\<And>a. found = Some a \<Longrightarrow> store_at (sv_db sv) a \<noteq> None"
    using store_find_ok [OF inv c, of "ms_source_mid msg"] by (cases "ms_qos msg > 0") auto
  let ?choice = "case found of
      None \<Rightarrow> Some (None, sv)
    | Some a \<Rightarrow>
        Option.bind (store_at (sv_db sv) a) (\<lambda>stored.
        Option.bind (if ms_source_mid msg \<noteq> 0 then differs stored msg else Some False) (\<lambda>other.
          if other then map_option (\<lambda>(_, sv). (None, sv)) (on_broker c (db__message_remove_incoming (ms_source_mid msg)) sv)
          else Some (Some a, sv)))"
  have dif: "\<exists>b. differs s msg = Some b" if a: "store_at (sv_db sv) a = Some s" for a s
  proof -
    obtain t' where "ms_topic s = Some t'" using inv a unfolding session_inv_def known_topics_def by blast
    then show ?thesis using msg(2) by (auto simp: differs_def)
  qed
  have choice: "handled C E ?choice \<and> (\<forall>a sv'. ?choice = Some (Some a, sv') \<longrightarrow> store_at (sv_db sv') a \<noteq> None)"
  proof (cases found)
    case None
    then show ?thesis using inv by simp
  next
    case (Some a)
    obtain s where s: "store_at (sv_db sv) a = Some s" using found(2) [OF Some] by auto
    obtain b where b: "(if ms_source_mid msg \<noteq> 0 then differs s msg else Some False) = Some b"
      using dif [OF s] by metis
    have "?choice = (if b then map_option (\<lambda>(_, sv). (None, sv)) (on_broker c (db__message_remove_incoming (ms_source_mid msg)) sv)
        else Some (Some a, sv))"
      by (simp only: Some s b option.case bind.bind_lunit)
    moreover have "handled C E (map_option (\<lambda>(_, sv). (None :: nat option, sv)) (on_broker c (db__message_remove_incoming (ms_source_mid msg)) sv))"
      by (rule handled_map [OF rem]) simp
    ultimately show ?thesis using inv s by auto
  qed
  have new: "handled C E (case db__message_store alloc (Some (sv_contexts sv' c)) (new_store_addr (sv_db sv')) msg e 0 mosq_mo_client (sv_db sv') of
      (rc, db) \<Rightarrow>
        if rc \<noteq> MOSQ_ERR_SUCCESS then Some (err_code rc, sv'\<lparr>sv_db := db\<rparr>)
        else publish_deliver srv acl alloc net c (ms_source_mid msg) False (new_store_addr (sv_db sv')) (sv'\<lparr>sv_db := db\<rparr>))"
    if "session_inv C E sv'" for sv' e
    using store_session [OF that new_store_addr_free msg] publish_deliver_handled [OF _ c al] by (auto split: prod.split)
  show ?thesis
    unfolding publish_store_def Let_def found(1) bind.bind_lunit
    by (rule handled_bind [OF conjunct1 [OF choice]])
      (use choice new publish_refused_handled [OF _ c] publish_deliver_handled [OF _ c al] in \<open>auto split: option.split\<close>)
qed

section \<open>The handler\<close>

lemma payload_ok:
  assumes "readable p" and "payloadlen = pk_remaining_length p - pk_pos p"
  shows "fields_ok snd (if payloadlen \<noteq> 0 then malformed (packet__read_bytes payloadlen p) else Inr ([], p))"
proof -
  have "unat payloadlen < 2 ^ 31"
    using assms by (auto simp: readable_def unat_sub word_le_nat_alt)
  then have "fields_ok snd (packet__read_bytes payloadlen p)" using assms(1) within_fields_ok [OF read_bytes_within] by blast
  then show ?thesis using assms(1) by simp
qed

lemma handled_if: "(b \<Longrightarrow> handled C E x) \<Longrightarrow> (\<not> b \<Longrightarrow> handled C E y) \<Longrightarrow> handled C E (if b then x else y)"
  by simp

lemma publish_message_handled:
  assumes inv: "session_inv C E sv" and c: "c \<in> C" and al: "\<forall>n. alloc n" and rd: "readable p" and srv: "services_ok srv"
    and msg: "ms_ref_count msg = 0" and t: "publishable t"
  shows "handled C E (publish_message srv acl alloc net c p msg t expiry sv)"
proof -
  have mount: "(case sr_listener srv ctx of None \<Rightarrow> None | Some l \<Rightarrow> ls_mount_point l) = None" for ctx
    using srv by (auto simp: services_ok_def split: option.split)
  have plugin: "handled C E (case sr_plugin srv ctx msg' of
       (rc, msg) \<Rightarrow>
         if rc = 12 then publish_refused srv c msg MQTT_RC_NOT_AUTHORIZED sv
         else if rc \<noteq> 0 then Some (rc, sv)
         else publish_store srv acl alloc net c msg e sv)"
    if m: "ms_topic msg' = Some t" "ms_ref_count msg' = 0" for ctx msg' e
  proof -
    obtain rc msg2 where p: "sr_plugin srv ctx msg' = (rc, msg2)" by fastforce
    obtain t2 where t2: "ms_topic msg2 = Some t2" "publishable t2" "ms_ref_count msg2 = 0"
      using srv m t p unfolding services_ok_def by (metis snd_conv)
    show ?thesis
      using publish_store_handled [OF inv c al t2(3,1,2)] publish_refused_handled [OF inv c] inv by (simp add: p)
  qed
  show ?thesis
    unfolding publish_message_def Let_def mount option.case
    by (intro handled_if handled_fields [OF payload_ok [OF rd refl]])
      (auto intro!: publish_refused_handled [OF inv c] plugin simp: msg inv simp del: not_None_eq)
qed

lemma publish_handled:
  assumes inv: "session_inv C E sv" and c: "c \<in> C" and al: "\<forall>n. alloc n" and rd: "readable p" and srv: "services_ok srv"
  shows "handled C E (handle__publish srv acl alloc net c p sv)"
proof -
  have al_ok: "r \<noteq> Inl Trap" "session_inv C E (with_ctx c ctx sv)"
    if "publish_alias srv alloc topic ta (sv_contexts sv c) = (r, ctx)" for topic ta r ctx
  proof -
    have n: "None \<notin> fst ` set (ctx_aliases (sv_contexts sv c))" using inv c by (simp add: session_inv_def known_clients_def)
    from publish_alias_ok [OF al n that] show "r \<noteq> Inl Trap" "session_inv C E (with_ctx c ctx sv)"
      using with_alias_ok [OF inv] by blast+
  qed
  have check: "publishable t" if "mosquitto_pub_topic_check (Some t) = MOSQ_ERR_SUCCESS" for t
    using that by (simp add: publishable_def)
  have none: "mosquitto_pub_topic_check None \<noteq> MOSQ_ERR_SUCCESS" by (simp add: mosquitto_pub_topic_check_def)
  have topic: "handled C E (reading r (\<lambda>e. Some (err_code e, sv')) (\<lambda>topic.
      case sr_remap_in srv ctx topic of (rc, topic) \<Rightarrow>
        if rc \<noteq> 0 then Some (rc, sv')
        else if mosquitto_pub_topic_check topic \<noteq> MOSQ_ERR_SUCCESS then Some (err_code MOSQ_ERR_PROTOCOL, sv')
        else Option.bind topic (\<lambda>t. publish_message srv acl alloc net c q (msg t) t e sv')))"
    if "r \<noteq> Inl Trap" "session_inv C E sv'" "readable q" "\<And>t. ms_ref_count (msg t) = 0" for r sv' ctx q msg e
  proof (rule handled_reading [OF that(1)])
    fix x
    obtain rc topic where r: "sr_remap_in srv ctx x = (rc, topic)" by fastforce
    show "handled C E (case sr_remap_in srv ctx x of (rc, topic) \<Rightarrow>
        if rc \<noteq> 0 then Some (rc, sv')
        else if mosquitto_pub_topic_check topic \<noteq> MOSQ_ERR_SUCCESS then Some (err_code MOSQ_ERR_PROTOCOL, sv')
        else Option.bind topic (\<lambda>t. publish_message srv acl alloc net c q (msg t) t e sv'))"
      using that(2) publish_message_handled [OF that(2) c al that(3) srv that(4) check] none
      by (cases topic) (simp_all add: r)
  qed (use that(2) in simp)
  show ?thesis
    unfolding handle__publish_def Let_def
  proof (intro handled_if)
    assume a: "\<not> ctx_state (sv_contexts sv c) \<noteq> mosq_cs_active" "\<not> \<not> alloc sizeof_msg_store"
    show "handled C E
     (case publish_header (db_config (sv_db sv)) (sv_contexts sv c) (pk_command p) of
        Inl e \<Rightarrow> Some (err_code e, sv)
      | Inr (qos, retain) \<Rightarrow>
          reading (publish_fields alloc (sv_contexts sv c) qos p) (\<lambda>e. Some (err_code e, sv)) (\<lambda>(topic, mid, properties, p).
          case publish_properties properties ([], -1, 0) of (kept, topic_alias, message_expiry_interval) \<Rightarrow>
          (case publish_alias srv alloc topic topic_alias (sv_contexts sv c) of (r, ctx) \<Rightarrow>
          reading r (\<lambda>e. Some (err_code e, with_ctx c ctx sv)) (\<lambda>topic.
          case sr_remap_in srv ctx topic of (rc, topic) \<Rightarrow>
            if rc \<noteq> 0 then Some (rc, with_ctx c ctx sv)
            else if mosquitto_pub_topic_check topic \<noteq> MOSQ_ERR_SUCCESS then Some (err_code MOSQ_ERR_PROTOCOL, with_ctx c ctx sv)
            else Option.bind topic (\<lambda>t.
              publish_message srv acl alloc net c p
                \<lparr>ms_db_id = 0, ms_source_id = [], ms_source_username = None, ms_dest_ids = [], ms_ref_count = 0,
                 ms_topic = Some t, ms_properties = kept, ms_payload = [], ms_message_expiry_time = 0, ms_payloadlen = 0,
                 ms_origin = mosq_mo_client, ms_source_mid = mid, ms_mid = 0, ms_qos = qos, ms_retain = retain\<rparr>
                t message_expiry_interval (with_ctx c ctx sv))))))"
      using inv
      by (auto split: sum.split prod.split intro!: handled_fields [OF publish_fields_ok [OF rd]] topic dest: al_ok)
  qed (use inv in simp_all)
qed

end
