(* ===== verification/Session_Run.thy ===== *)
theory Session_Run
  imports Publish_Safety Server_Props
begin

text \<open>
  The broker as its clients see it: a transition system whose steps are the packets that connected
  clients send, in any order, the clock, connections that change, and sessions that are resumed or
  end. In every state that can be reached each packet is handled.
\<close>

section \<open>Steps\<close>

text \<open>
  The packets that \<open>handle__packet\<close> gives to the handlers of \<open>Handlers\<close>, and the ones it refuses: all
  but \<open>CONNECT\<close>, \<open>DISCONNECT\<close>, \<open>AUTH\<close> and those that only a bridge gets.
\<close>

definition session_packet :: "packet \<Rightarrow> bool" where
  "session_packet p \<longleftrightarrow> readable p \<and>
     uint (pk_command p AND 0xF0) \<notin> {CMD_CONNECT, CMD_DISCONNECT, CMD_CONNACK, CMD_SUBACK, CMD_UNSUBACK, CMD_AUTH}"

inductive session_steps ::
  "other_packets \<Rightarrow> services \<Rightarrow> acl_check \<Rightarrow> retain_acl \<Rightarrow> (nat \<Rightarrow> bool) \<Rightarrow> net \<Rightarrow> nat set \<Rightarrow> server \<Rightarrow> server \<Rightarrow> bool"
  for other srv acl racl alloc net C where
  packet: "c \<in> C \<Longrightarrow> session_packet p \<Longrightarrow> handle__packet other srv acl racl alloc net c p sv = Some (rc, sv') \<Longrightarrow>
    session_steps other srv acl racl alloc net C sv sv'"
| clock: "session_steps other srv acl racl alloc net C sv (sv\<lparr>sv_db := (sv_db sv)\<lparr>db_now_s := t, db_now_real_s := t'\<rparr>\<rparr>)"
| connection: "c \<in> C \<Longrightarrow> session_steps other srv acl racl alloc net C sv
    (with_ctx c (mosquitto__set_state (sv_contexts sv c) st\<lparr>ctx_sock := sock\<rparr>) sv)"
| resume: "c \<in> C \<Longrightarrow> on_broker c (db__message_write_inflight_out_all net) sv = Some (rc, sv') \<Longrightarrow>
    session_steps other srv acl racl alloc net C sv sv'"
| discard: "c \<in> C \<Longrightarrow> on_broker c (db__messages_delete force_free) sv = Some (rc, sv') \<Longrightarrow>
    session_steps other srv acl racl alloc net C sv sv'"
| leave: "c \<in> C \<Longrightarrow> sub__clean_session c sv = Some (rc, sv') \<Longrightarrow> session_steps other srv acl racl alloc net C sv sv'"

definition session_start :: "nat set \<Rightarrow> server \<Rightarrow> bool" where
  "session_start C sv \<longleftrightarrow> server_initial C ((\<lambda>_. 0), sv) \<and> known_clients C sv"

definition session_reachable ::
  "other_packets \<Rightarrow> services \<Rightarrow> acl_check \<Rightarrow> retain_acl \<Rightarrow> (nat \<Rightarrow> bool) \<Rightarrow> net \<Rightarrow> nat set \<Rightarrow> server \<Rightarrow> bool" where
  "session_reachable other srv acl racl alloc net C sv \<longleftrightarrow>
     (\<exists>sv0. session_start C sv0 \<and> (session_steps other srv acl racl alloc net C)\<^sup>*\<^sup>* sv0 sv)"

section \<open>Every step keeps the invariant\<close>

lemma session_start_inv: "session_start C sv \<Longrightarrow> session_inv C (\<lambda>_. 0) sv"
  using server_initial_inv [of C "\<lambda>_. 0" sv]
  by (simp add: session_start_def session_inv_def known_topics_def server_initial_def store_at_def)

lemma packet_handled:
  assumes inv: "session_inv C E sv" and c: "c \<in> C" and p: "session_packet p" and al: "\<forall>n. alloc n" and srv: "services_ok srv"
  shows "handled C E (handle__packet other srv acl racl alloc net c p sv)"
proof -
  have rd: "readable p" and cmd: "uint (pk_command p AND 0xF0) \<notin> {CMD_CONNECT, CMD_DISCONNECT, CMD_CONNACK, CMD_SUBACK, CMD_UNSUBACK, CMD_AUTH}"
    using p by (simp_all add: session_packet_def)
  show ?thesis
    unfolding handle__packet_def Let_def
    using cmd inv
    by (auto intro!: handled_if ping_handled [OF inv] pubackcomp_handled [OF inv c rd] publish_handled [OF inv c al rd srv]
        pubrec_handled [OF inv c rd] pubrel_handled [OF inv c rd al] subscribe_handled [OF inv c rd al]
        unsubscribe_handled [OF inv c rd al] simp del: split_paired_All)
qed

lemma clock_ok:
  assumes inv: "session_inv C E sv"
  shows "session_inv C E (sv\<lparr>sv_db := (sv_db sv)\<lparr>db_now_s := t, db_now_real_s := t'\<rparr>\<rparr>)"
proof -
  let ?db = "(sv_db sv)\<lparr>db_now_s := t, db_now_real_s := t'\<rparr>"
  have "store_at ?db = store_at (sv_db sv)" by (simp add: store_at_def [abs_def])
  then show ?thesis
    using inv by (simp add: session_inv_def server_inv_def server_ok_def stores_ok_def tree_inv_def subs_inv_def known_topics_def known_clients_def)
qed

lemma connection_ok:
  assumes inv: "session_inv C E sv"
  shows "session_inv C E (with_ctx c (mosquitto__set_state (sv_contexts sv c) st\<lparr>ctx_sock := sock\<rparr>) sv)"
proof -
  let ?ctx = "mosquitto__set_state (sv_contexts sv c) st\<lparr>ctx_sock := sock\<rparr>"
  have f: "ctx_msgs_in ?ctx = ctx_msgs_in (sv_contexts sv c)" "ctx_msgs_out ?ctx = ctx_msgs_out (sv_contexts sv c)"
    "ctx_id ?ctx = ctx_id (sv_contexts sv c)" "ctx_aliases ?ctx = ctx_aliases (sv_contexts sv c)"
    by (simp_all add: mosquitto__set_state_def)
  have "server_ok C (with_refs E (forest_refs (sv_retains sv))) (with_ctx c ?ctx sv)"
    unfolding with_ctx_def using inv f by (intro server_ok_ctx) (simp_all add: session_inv_def server_inv_def)
  then have "server_inv C E (with_ctx c ?ctx sv)"
    using inv by (simp add: session_inv_def server_inv_def with_ctx_def tree_inv_def subs_inv_def)
  moreover have id: "ctx_id (sv_contexts (with_ctx c ?ctx sv) d) = ctx_id (sv_contexts sv d)"
    "ctx_aliases (sv_contexts (with_ctx c ?ctx sv) d) = ctx_aliases (sv_contexts sv d)" for d using f by (simp_all add: with_ctx_def)
  have "known_clients C (with_ctx c ?ctx sv)"
    using inv unfolding session_inv_def known_clients_def id by simp
  ultimately show ?thesis using inv by (simp add: session_inv_def with_ctx_def)
qed

lemma delete_list_from: "delete_list_loop ms db = Some db' \<Longrightarrow> stores_from db db'"
  by (induction ms arbitrary: db) (auto simp: bind_eq_Some_conv intro: stores_from_trans ref_dec_from)

lemma clear_msgs_from:
  "(if b then clear_msgs d bk else Some bk) = Some bk' \<Longrightarrow>
   stores_from (bk_db bk) (bk_db bk') \<and> identity (bk_ctx bk') = identity (bk_ctx bk)"
  by (auto simp: clear_msgs_def Let_def bind_eq_Some_conv split: if_splits
      dest!: delete_list_from intro: stores_from_trans)

lemma discard_handled:
  assumes inv: "session_inv C E sv" and c: "c \<in> C"
  shows "handled C E (on_broker c (db__messages_delete force_free) sv)"
proof -
  have s: "server_inv C E sv" using inv by (simp add: session_inv_def)
  obtain rc bk where r: "db__messages_delete force_free (the_client sv c) = Some (rc, bk)" "server_inv C E (put_client c bk sv)"
    using server_inv_client [OF s c messages_delete_ok] by blast
  have "stores_from (sv_db sv) (bk_db bk) \<and> identity (bk_ctx bk) = identity (sv_contexts sv c)"
    using r(1) unfolding db__messages_delete_def Let_def bind_eq_Some_conv
    by (auto dest!: clear_msgs_from simp: the_client_def intro: stores_from_trans)
  then have "session_frame sv (put_client c bk sv)" by (simp add: session_frame_def put_client_def)
  from session_step [OF inv r(2) this] show ?thesis using r(1) by (simp add: on_broker_def)
qed

lemma leave_handled:
  assumes inv: "session_inv C E sv" and c: "c \<in> C"
  shows "handled C E (sub__clean_session c sv)"
proof -
  have s: "server_inv C E sv" "tree_inv C sv" using inv by (simp_all add: session_inv_def server_inv_def)
  obtain rc sv' where r: "sub__clean_session c sv = Some (rc, sv')" "tree_inv C sv'"
    using clean_session_tree [OF s(2) c] by blast
  show ?thesis
    using r server_inv_subs_step [OF s(1) clean_session_step [OF r(1)] r(2)] session_frameI(2) [OF clean_session_step [OF r(1)]]
    by (intro handled_step [OF inv]) blast
qed

lemma session_steps_inv:
  assumes "session_steps other srv acl racl alloc net C sv sv'" and inv: "session_inv C E sv"
    and al: "\<forall>n. alloc n" and srv: "services_ok srv"
  shows "session_inv C E sv'"
  using assms(1)
proof cases
  case (packet c p rc)
  then show ?thesis using packet_handled [OF inv _ _ al srv, of c p other acl racl net] by (auto dest: handled_result)
next
  case (clock t t')
  then show ?thesis using clock_ok [OF inv] by simp
next
  case (connection c st sock)
  then show ?thesis using connection_ok [OF inv] by simp
next
  case (resume c rc)
  have "handled C E (on_broker c (db__message_write_inflight_out_all net) sv)"
    using on_broker_handled [OF inv resume(1), of mosq_md_out] write_all_ok by blast
  then show ?thesis using resume(2) by (rule handled_result)
next
  case (discard c force_free rc)
  show ?thesis by (rule handled_result [OF discard_handled [OF inv discard(1)] discard(2)])
next
  case (leave c rc)
  show ?thesis by (rule handled_result [OF leave_handled [OF inv leave(1)] leave(2)])
qed

lemma session_reachable_inv:
  assumes "session_reachable other srv acl racl alloc net C sv" and "\<forall>n. alloc n" and "services_ok srv"
  shows "session_inv C (\<lambda>_. 0) sv"
proof -
  obtain sv0 where s: "session_start C sv0" "(session_steps other srv acl racl alloc net C)\<^sup>*\<^sup>* sv0 sv"
    using assms(1) by (auto simp: session_reachable_def)
  from s(2) show ?thesis
    by (induction rule: rtranclp_induct) (use session_start_inv [OF s(1)] session_steps_inv assms(2,3) in blast)+
qed

end
