(* ===== verification/Session_Publish.thy ===== *)
theory Session_Publish
  imports Session_Props
begin

text \<open>
  What a \<open>PUBLISH\<close> packet leaves alone: everything, if the access control denies it, and all but the
  answer, if the message has come before.
\<close>

section \<open>Refused messages\<close>

text \<open>The rest of the broker, and the messages of the client, are left alone.\<close>

definition only_quota :: "nat \<Rightarrow> server \<Rightarrow> server \<Rightarrow> bool" where
  "only_quota c sv sv' \<longleftrightarrow> (\<exists>ctx. sv' = with_ctx c ctx sv \<and> ctx_msgs_out ctx = ctx_msgs_out (sv_contexts sv c) \<and>
     md_inflight (ctx_msgs_in ctx) = md_inflight (ctx_msgs_in (sv_contexts sv c)) \<and>
     md_queued (ctx_msgs_in ctx) = md_queued (ctx_msgs_in (sv_contexts sv c)))"

lemma only_quota_refl [simp]: "only_quota c sv sv"
  by (auto simp: only_quota_def with_ctx_def intro!: exI [of _ "sv_contexts sv c"])

lemma only_quota_trans: "only_quota c a b \<Longrightarrow> only_quota c b d \<Longrightarrow> only_quota c a d"
  by (fastforce simp: only_quota_def with_ctx_def)

lemma only_quotaI:
  "ctx_msgs_out ctx = ctx_msgs_out (sv_contexts sv c) \<Longrightarrow> md_inflight (ctx_msgs_in ctx) = md_inflight (ctx_msgs_in (sv_contexts sv c)) \<Longrightarrow>
   md_queued (ctx_msgs_in ctx) = md_queued (ctx_msgs_in (sv_contexts sv c)) \<Longrightarrow> only_quota c sv (with_ctx c ctx sv)"
  by (auto simp: only_quota_def)

lemma only_quota_reply:
  "only_quota c sv (snd (send__puback srv c mid reason sv))" "only_quota c sv (snd (send__pubrec_reason srv c mid reason sv))"
  by (auto simp: send__puback_def send__pubrec_reason_def Let_def util__increment_receive_quota_def quota_facts intro!: only_quotaI)

lemma refused_only_quota: "publish_refused srv c msg reason sv = Some (rc, sv') \<Longrightarrow> only_quota c sv sv'"
  using only_quota_reply [of c sv srv "ms_source_mid msg" reason] by (auto simp: publish_refused_def split: if_splits)

lemma denied_message:
  assumes deny: "\<And>msg. sr_write_acl srv (sv_contexts sv c) msg = err_code MOSQ_ERR_ACL_DENIED"
    and r: "publish_message srv acl alloc net c p msg t expiry sv = Some (rc, sv')"
  shows "only_quota c sv sv'"
  using r deny by (auto simp: publish_message_def Let_def reading_def dest: refused_only_quota split: if_splits sum.splits fault.splits)

lemma alias_only_quota:
  assumes "publish_alias srv alloc topic ta (sv_contexts sv c) = (r, ctx)"
  shows "only_quota c sv (with_ctx c ctx sv)" "ctx_id ctx = ctx_id (sv_contexts sv c)"
proof -
  have add: "m' = m\<lparr>ctx_aliases := ctx_aliases m'\<rparr>" if "alias__add x y m t a = (rc, m')" for x y m t a rc m'
    using that by (auto simp: alias__add_def split: option.splits if_splits)
  have "ctx = (sv_contexts sv c)\<lparr>ctx_aliases := ctx_aliases ctx\<rparr>"
    using assms add unfolding publish_alias_def by (auto split: if_splits option.splits sum.splits fault.splits prod.splits)
  then have "\<exists>xs. ctx = (sv_contexts sv c)\<lparr>ctx_aliases := xs\<rparr>" by (rule exI)
  then show "only_quota c sv (with_ctx c ctx sv)" "ctx_id ctx = ctx_id (sv_contexts sv c)"
    by (auto intro!: only_quotaI)
qed

lemma denied_publish:
  assumes deny: "\<And>ctx msg. ctx_id ctx = ctx_id (sv_contexts sv c) \<Longrightarrow> sr_write_acl srv ctx msg = err_code MOSQ_ERR_ACL_DENIED"
    and r: "handle__publish srv acl alloc net c p sv = Some (rc, sv')"
  shows "only_quota c sv sv'"
proof -
  have m: "only_quota c sv sv'"
    if "publish_alias srv alloc topic ta (sv_contexts sv c) = (r, ctx)"
      "publish_message srv acl alloc net c q msg t e (with_ctx c ctx sv) = Some (rc, sv')" for topic ta r ctx q msg t e
  proof -
    have "only_quota c (with_ctx c ctx sv) sv'"
      by (rule denied_message [OF deny that(2)]) (use alias_only_quota(2) [OF that(1)] in \<open>simp add: with_ctx_def\<close>)
    then show ?thesis using alias_only_quota(1) [OF that(1)] only_quota_trans by blast
  qed
  show ?thesis
    using r unfolding handle__publish_def Let_def reading_def
    by (auto split: if_splits sum.splits fault.splits prod.splits dest: m alias_only_quota(1) simp: bind_eq_Some_conv)
qed



section \<open>Repeated messages\<close>

lemma write_queued_in_frame:
  "write_queued_in_loop net as bk = Some (rc, bk') \<Longrightarrow>
   bk_db bk' = bk_db bk \<and> ctx_msgs_out (bk_ctx bk') = ctx_msgs_out (bk_ctx bk)"
proof (induction as arbitrary: bk)
  case (Cons a as)
  have d: "bk_db bk2 = bk_db bk1 \<and> ctx_msgs_out (bk_ctx bk2) = ctx_msgs_out (bk_ctx bk1)"
    if "dequeue_first mosq_md_in bk1 = Some bk2" for bk1 bk2
    using that by (auto simp: dequeue_first_def)
  have m: "bk_db (set_msg mosq_md_in b f bk1) = bk_db bk1" "ctx_msgs_out (bk_ctx (set_msg mosq_md_in b f bk1)) = ctx_msgs_out (bk_ctx bk1)"
    for b f bk1 by (simp_all add: set_msg_def Let_def)
  have p: "ctx_msgs_out ctx' = ctx_msgs_out ctx" if "send__pubrec net x ctx = (r, ctx')" for x ctx r ctx'
    using that by (auto simp: send__pubrec_def Let_def split: if_splits)
  show ?case
    using Cons.prems Cons.IH d p
    by (auto simp: Let_def m split: if_splits option.splits prod.splits)
qed simp


text \<open>The server after a message of qos 2 with the id 5.\<close>

definition ex_publish2 :: packet where
  "ex_publish2 = (packet_of [0, 1, 97, 0, 5, 7])\<lparr>pk_command := 0x34\<rparr>"

definition ex_msg2 :: mosquitto_msg_store where
  "ex_msg2 = \<lparr>ms_db_id = 0, ms_source_id = [], ms_source_username = None, ms_dest_ids = [], ms_ref_count = 0,
     ms_topic = Some ''a'', ms_properties = [], ms_payload = [7], ms_message_expiry_time = 0, ms_payloadlen = 1,
     ms_origin = mosq_mo_client, ms_source_mid = 5, ms_mid = 0, ms_qos = 2, ms_retain = False\<rparr>"

definition ex_once :: server where
  "ex_once = snd (the (ex_handle ex_publish2 ex_server))"

lemma ex_publish2_stored:
  "ex_handle ex_publish2 ex_server = publish_store ex_srv ex_acl (\<lambda>_. True) ex_net 1 ex_msg2 0 ex_server"
proof -
  have "holds (enc_string ex_string) ex_publish2"
    by (simp add: ex_string_ok holds_def readable_def ex_publish2_def packet_of_def)
  then have s: "packet__read_string (\<lambda>_. True) ex_publish2 = Inr (ex_string, skip 3 ex_publish2)"
    using string_codec.get_enc [OF ex_string_ok(1)] by (simp add: ex_string_ok eval_nat_numeral)
  have mid: "packet__read_uint16 (skip 3 ex_publish2) = Inr (5, skip 5 ex_publish2)"
    by (simp add: packet__read_uint16_def payload_at_def skip_def ex_publish2_def packet_of_def)
  have p: "packet__read_bytes 1 (skip 5 ex_publish2) = Inr ([7], skip 6 ex_publish2)"
    by (simp add: packet__read_bytes_def payload_range_def skip_def ex_publish2_def packet_of_def)
  have f: "publish_fields (\<lambda>_. True) (sv_contexts ex_server 1) 2 ex_publish2 = Inr (Some ''a'', 5, [], skip 5 ex_publish2)"
    using s mid ex_string_ok(2) by (simp add: publish_fields_def malformed_def ex_string_def ex_server_def ex_ctx_def)
  have h: "publish_header (db_config (sv_db ex_server)) (sv_contexts ex_server 1) (pk_command ex_publish2) = Inr (2, False)"
    by (simp add: publish_header_def ex_publish2_def packet_of_def ex_server_def ex_defs Let_def)
  have cmd: "uint (pk_command ex_publish2 AND 0xF0) = 48" by (simp add: ex_publish2_def packet_of_def)
  have st: "ctx_state (sv_contexts ex_server 1) = mosq_cs_active" by (simp add: ex_server_def ex_ctx_def)
  have ctx: "with_ctx 1 (sv_contexts ex_server 1) ex_server = ex_server" by (simp add: with_ctx_def)
  have len: "pk_remaining_length (skip 5 ex_publish2) - pk_pos (skip 5 ex_publish2) = 1"
    by (simp add: skip_def ex_publish2_def packet_of_def)
  have ne: "pk_remaining_length (skip 5 ex_publish2) \<noteq> pk_pos (skip 5 ex_publish2)"
    by (simp add: skip_def ex_publish2_def packet_of_def)
  show ?thesis
    unfolding handle__packet_def Let_def cmd handle__publish_def
    using st len p ne
    by (simp add: reading_def publish_alias_def ctx ex_srv_def mosquitto_pub_topic_check_def TOPIC_HIERARCHY_LIMIT_def f h
        publish_message_def malformed_def ex_msg2_def Let_def del: One_nat_def)
qed

lemma ex_once_facts:
  "ex_handle ex_publish2 ex_server = Some (0, ex_once)"
  "db__message_store_find 5 (the_client ex_once 1) = Some (0, Some 1)"
  "\<exists>s. store_at (sv_db ex_once) 1 = Some s \<and> ms_qos s = 2 \<and> ms_topic s = Some ''a'' \<and> ms_payloadlen s = 1 \<and> ms_payload s = [7]"
proof -
  obtain cells where c: "sub__topic_tokenise (\<lambda>_. True) ''a'' = Inr (cells, None)" "tokens_of cells = [[], ''a'']"
    using tokenise_cases [of "''a''" "\<lambda>_. True"] by auto
  have "\<exists>sv. ex_handle ex_publish2 ex_server = Some (0, sv) \<and>
      db__message_store_find 5 (the_client sv 1) = Some (0, Some 1) \<and>
      (\<exists>s. store_at (sv_db sv) 1 = Some s \<and> ms_qos s = 2 \<and> ms_topic s = Some ''a'' \<and> ms_payloadlen s = 1 \<and> ms_payload s = [7])"
    unfolding ex_publish2_stored
    by (simp add: publish_store_def Let_def new_store_addr_def ex_server_def ex_defs ex_msg2_def db__message_store_def db__msg_store_add_def
        publish_deliver_def store_at_def db__msg_store_ref_inc_def update_store_def
        db__message_store_find_def db__ready_for_flight_def db__message_insert_def insert_refused_def insert_state_def insert_finish_def
        append_msg_def new_addr_def with_ctx_def send__pubrec_def
        on_broker_def db__message_write_queued_in_def the_client_def put_client_def)
  then show "ex_handle ex_publish2 ex_server = Some (0, ex_once)"
    "db__message_store_find 5 (the_client ex_once 1) = Some (0, Some 1)"
    "\<exists>s. store_at (sv_db ex_once) 1 = Some s \<and> ms_qos s = 2 \<and> ms_topic s = Some ''a'' \<and> ms_payloadlen s = 1 \<and> ms_payload s = [7]"
    by (auto simp: ex_once_def)
qed

lemma ex_once_reachable: "session_reachable (\<lambda>_ _ _ sv. Some (0, sv)) ex_srv ex_acl ex_racl (\<lambda>_. True) ex_net {1} ex_once"
proof -
  have p: "session_packet ex_publish2" by (simp add: session_packet_def readable_def ex_publish2_def packet_of_def)
  have "session_steps (\<lambda>_ _ _ sv. Some (0, sv)) ex_srv ex_acl ex_racl (\<lambda>_. True) ex_net {1} ex_server ex_once"
    by (rule session_steps.packet [OF _ p ex_once_facts(1)]) simp
  then show ?thesis using ex_start unfolding session_reachable_def by blast
qed


end
