(* ===== verification/Handlers_Faults.thy ===== *)
theory Handlers_Faults
  imports Session_Publish Broker_Faults
begin

text \<open>
  Concrete runs of the handlers in which the counting of messages in flight goes wrong, or a packet
  is not refused that should be.
\<close>

section \<open>A refused message\<close>

text \<open>A client of MQTT 5 with a receive maximum of 1 and one message of qos 2 in flight.\<close>

definition ex_flight :: server where
  "ex_flight = ex_server\<lparr>
     sv_db := ex_db\<lparr>db_msg_store := [(100, ex_store\<lparr>ms_ref_count := 1\<rparr>)], db_msg_store_count := 1, db_msg_store_bytes := 1\<rparr>,
     sv_contexts := (\<lambda>_. ex_ctx\<lparr>ctx_protocol := mosq_p_mqtt5,
       ctx_msgs_out := ex_md\<lparr>md_inflight := [ex_msg 7 2 mosq_ms_wait_for_pubrec], md_inflight_quota := 0\<rparr>\<rparr>)\<rparr>"

text \<open>
  The client refuses the message with the reason 0x80. It is removed, but the place it had is not
  given back: the send quota stays 0, and no message of qos 1 or 2 goes to the client any more.
\<close>

lemma refused_message_keeps_quota:
  "\<exists>sv. handle__pubrec (\<lambda>_. True) ex_net 1 (packet_of [0, 7, 0x80]) ex_flight = Some (0, sv) \<and>
     md_inflight (ctx_msgs_out (sv_contexts sv 1)) = [] \<and> md_inflight_quota (ctx_msgs_out (sv_contexts sv 1)) = 0 \<and>
     md_inflight_maximum (ctx_msgs_out (sv_contexts sv 1)) = 1"
proof -
  have "read_ack (\<lambda>_. True) CMD_PUBREC (sv_contexts ex_flight 1) (packet_of [0, 7, 0x80]) = Inr (7, 0x80)"
    by (simp add: read_ack_def packet__read_uint16_def packet__read_byte_def payload_at_def packet_of_def)
      (simp add: ex_flight_def)
  then show ?thesis
    by (simp add: handle__pubrec_def ex_flight_def ex_server_def ex_defs reading_def on_broker_def the_client_def put_client_def
        mosquitto__get_state_def db__message_delete_outgoing_def ops_simps Let_def find_msg_def msgs_of_def set_msgs_def remove_msg_def db__message_remove_def store_at_def delete_msg_def
        db__msg_store_ref_dec_def db__msg_store_remove_def update_store_def db__message_write_inflight_out_latest_def)
qed

text \<open>
  An acknowledgement gives a place back before its id is looked up. One for an id that is not in
  flight is answered with success, and the quota is 1 while the only place is still taken.
\<close>

lemma unknown_ack_raises_quota:
  "\<exists>sv. handle__pubackcomp (\<lambda>_. True) ex_net 1 ''PUBACK'' (packet_of [0, 9]) ex_flight = Some (0, sv) \<and>
     length (md_inflight (ctx_msgs_out (sv_contexts sv 1))) = 1 \<and> md_inflight_quota (ctx_msgs_out (sv_contexts sv 1)) = 1 \<and>
     md_inflight_maximum (ctx_msgs_out (sv_contexts sv 1)) = 1"
proof -
  have "read_ack (\<lambda>_. True) CMD_PUBACK ctx (packet_of [0, 9]) = Inr (9, 0)" for ctx
    by (simp add: read_ack_def packet__read_uint16_def payload_at_def packet_of_def)
  then show ?thesis
    by (simp add: handle__pubackcomp_def ex_flight_def ex_server_def ex_defs reading_def on_broker_def the_client_def put_client_def
        mosquitto__get_state_def with_ctx_def util__increment_send_quota_def db__message_delete_outgoing_def ops_simps Let_def
        find_msg_def msgs_of_def db__message_write_inflight_out_latest_def write_inflight_out_single_def increment_quota_def set_msgs_def store_at_def)
qed

section \<open>An empty filter\<close>

text \<open>
  A filter of length 0 is read as NULL and passed over without its options: the options byte is taken
  for the start of the next filter, and the \<open>SUBACK\<close> has no reason code for it.
\<close>

lemma empty_filter_passed_over:
  assumes "pk_pos p < pk_remaining_length p"
    and "packet__read_string alloc p = Inr (\<lparr>ms_v = None, ms_len = 0\<rparr>, q)"
  shows "subscribe_loop (Suc n) srv racl alloc net c sid p rh payload rc sv =
    subscribe_loop n srv racl alloc net c sid q rh payload rc sv"
  using assms by (simp add: reading_def c_str_def)

end
