(* ===== verification/Packet_Build.thy ===== *)
theory Packet_Build
  imports Packet_IO Property_Build
begin

text \<open>
  The functions that build a packet and queue it for a client: \<open>lib/send_mosq.c\<close>,
  \<open>lib/send_publish.c\<close> without the topic mapping of bridges, \<open>lib/send_disconnect.c\<close>,
  \<open>src/send_suback.c\<close>, \<open>src/send_unsuback.c\<close>, \<open>src/send_connack.c\<close>, \<open>src/send_auth.c\<close>, and, of the
  clients, \<open>lib/send_subscribe.c\<close> and \<open>lib/send_unsubscribe.c\<close>.

  For each function \<open>send__x\<close> there is the packet it builds, \<open>x_packet\<close>: \<open>Some (Inl rc)\<close> returns,
  \<open>Some (Inr packet)\<close> goes to \<open>packet__queue\<close>. \<open>None\<close> is an access outside the memory of the packet, a
  failed \<open>assert\<close>, or a field that its writer refuses: the code does not look at the results of the
  writers, and what it would send then is not modelled. \<open>fill\<close> is what the memory of the packet holds
  when \<open>malloc\<close> returns it.
\<close>

section \<open>What the functions share\<close>

definition sizeof_packet :: nat where
  "sizeof_packet = 40"

text \<open>A packet from \<open>calloc\<close>, with the fields that are set before \<open>packet__alloc\<close>.\<close>

definition new_packet :: "u8 \<Rightarrow> u16 \<Rightarrow> u32 \<Rightarrow> packet" where
  "new_packet command mid remaining_length =
     \<lparr>pk_payload = [], pk_remaining_mult = 0, pk_remaining_length = remaining_length, pk_packet_length = 0,
      pk_to_process = 0, pk_pos = 0, pk_mid = mid, pk_command = command, pk_remaining_count = 0\<rparr>"

definition build :: "(nat \<Rightarrow> bool) \<Rightarrow> u8 list \<Rightarrow> packet \<Rightarrow> (packet \<Rightarrow> fault + packet) \<Rightarrow> (int + packet) option" where
  "build alloc fill packet body =
     (if \<not> alloc sizeof_packet then Some (Inl (err_code MOSQ_ERR_NOMEM))
      else
        (case packet__alloc alloc fill packet of
           (rc, packet) \<Rightarrow>
             if rc \<noteq> 0 then Some (Inl rc)
             else (case body packet of Inl _ \<Rightarrow> None | Inr packet \<Rightarrow> Some (Inr packet))))"

text \<open>An error of the functions on properties returns.\<close>

definition checked :: "fault + 'a \<Rightarrow> ('a \<Rightarrow> (int + 'b) option) \<Rightarrow> (int + 'b) option" where
  "checked r k = (case r of Inl Trap \<Rightarrow> None | Inl (Rc e) \<Rightarrow> Some (Inl (err_code e)) | Inr x \<Rightarrow> k x)"

definition queue_built ::
  "'s host \<Rightarrow> connection \<Rightarrow> (int + packet) option \<Rightarrow> 's world \<Rightarrow> (int \<times> connection \<times> 's world) option" where
  "queue_built host mosq r w =
     (case r of
        None \<Rightarrow> None
      | Some (Inl rc) \<Rightarrow> Some (rc, mosq, w)
      | Some (Inr packet) \<Rightarrow> packet__queue host mosq packet w)"

text \<open>A C string, and the string and length that \<open>packet__write_string\<close> is called with.\<close>

definition string_bytes_of :: "string \<Rightarrow> u8 list" where
  "string_bytes_of s = map (\<lambda>c. word_of_nat (of_char c)) s"

definition field_of :: "string \<Rightarrow> mqtt__string" where
  "field_of s = \<lparr>ms_v = Some (string_bytes_of s @ [0]), ms_len = word_of_nat (length s)\<rparr>"

definition is_mqtt5 :: "connection \<Rightarrow> bool" where
  "is_mqtt5 mosq \<longleftrightarrow> ctx_protocol mosq = mosq_p_mqtt5"

section \<open>Acknowledgements and pings\<close>

definition command_with_mid_packet ::
  "(nat \<Rightarrow> bool) \<Rightarrow> u8 list \<Rightarrow> connection \<Rightarrow> u8 \<Rightarrow> u16 \<Rightarrow> bool \<Rightarrow> u8 \<Rightarrow> mosquitto_property list \<Rightarrow> (int + packet) option" where
  "command_with_mid_packet alloc fill mosq command mid dup reason_code properties =
     (let command = (if dup then command OR 8 else command); remaining_length = 2;
          remaining_length =
            (if is_mqtt5 mosq then
               remaining_length + (if reason_code \<noteq> 0 \<or> properties \<noteq> [] then 1 else 0) +
               (if properties \<noteq> [] then property__get_remaining_length properties else 0)
             else remaining_length)
      in build alloc fill (new_packet command 0 remaining_length) (\<lambda>packet.
           seq (packet__write_uint16 mid packet) (\<lambda>packet.
             if is_mqtt5 mosq then
               seq (if reason_code \<noteq> 0 \<or> properties \<noteq> [] then packet__write_byte reason_code packet else Inr packet) (\<lambda>packet.
                 if properties \<noteq> [] then property__write_all properties True packet else Inr packet)
             else Inr packet)))"

definition send__command_with_mid where
  "send__command_with_mid host fill mosq command mid dup reason_code properties w =
     queue_built host mosq (command_with_mid_packet (h_alloc host) fill mosq command mid dup reason_code properties) w"

definition simple_command_packet :: "(nat \<Rightarrow> bool) \<Rightarrow> u8 list \<Rightarrow> u8 \<Rightarrow> (int + packet) option" where
  "simple_command_packet alloc fill command = build alloc fill (new_packet command 0 0) Inr"

definition send__simple_command where
  "send__simple_command host fill mosq command w = queue_built host mosq (simple_command_packet (h_alloc host) fill command) w"

definition send__pingresp where
  "send__pingresp host fill mosq w = send__simple_command host fill mosq (word_of_int CMD_PINGRESP) w"

section \<open>Messages\<close>

definition expiry_property :: "u32 \<Rightarrow> mosquitto_property" where
  "expiry_property expiry_interval =
     zero_property\<lparr>pr_identifier := MQTT_PROP_MESSAGE_EXPIRY_INTERVAL, pr_i32 := expiry_interval\<rparr>"

text \<open>
  \<open>send__real_publish\<close>. \<open>qos\<close> and \<open>retain\<close> go into the command byte as they are. When the properties are
  too long for their length field, the lists are dropped, but \<open>proplen\<close> is still written.
\<close>

definition publish_packet ::
  "(nat \<Rightarrow> bool) \<Rightarrow> u8 list \<Rightarrow> connection \<Rightarrow> u16 \<Rightarrow> string option \<Rightarrow> u32 \<Rightarrow> u8 list \<Rightarrow> u8 \<Rightarrow> bool \<Rightarrow> bool \<Rightarrow>
   mosquitto_property list \<Rightarrow> mosquitto_property list \<Rightarrow> u32 \<Rightarrow> (int + packet) option" where
  "publish_packet alloc fill mosq mid topic payloadlen payload qos retain dup cmsg_props store_props expiry_interval =
     (let packetlen = (case topic of Some t \<Rightarrow> 2 + word_of_nat (length t) + payloadlen | None \<Rightarrow> 2 + payloadlen);
          packetlen = (if qos > 0 then packetlen + 2 else packetlen);
          proplen =
            (if is_mqtt5 mosq then
               property__get_length_all cmsg_props + property__get_length_all store_props +
               (if expiry_interval > 0 then property__get_length_all [expiry_property expiry_interval] else 0)
             else 0);
          varbytes = packet__varint_bytes proplen; dropped = (is_mqtt5 mosq \<and> varbytes > 4);
          (cmsg_props, store_props, expiry_interval) = (if dropped then ([], [], 0) else (cmsg_props, store_props, expiry_interval));
          packetlen = (if is_mqtt5 mosq \<and> \<not> dropped then packetlen + (proplen + word_of_nat varbytes) else packetlen)
      in if packet__check_oversize mosq packetlen \<noteq> 0 then Some (Inl (err_code MOSQ_ERR_OVERSIZE_PACKET))
         else
           build alloc fill
             (new_packet (word_of_int Property.CMD_PUBLISH OR push_bit 3 (if dup then 1 else 0) OR push_bit 1 qos OR (if retain then 1 else 0))
               mid packetlen) (\<lambda>packet.
             seq (case topic of Some t \<Rightarrow> packet__write_string (field_of t) packet | None \<Rightarrow> packet__write_uint16 0 packet) (\<lambda>packet.
             seq (if qos > 0 then packet__write_uint16 mid packet else Inr packet) (\<lambda>packet.
             seq (if is_mqtt5 mosq then
                    seq (packet__write_varint proplen packet) (\<lambda>packet.
                    seq (property__write_all cmsg_props False packet) (\<lambda>packet.
                    seq (property__write_all store_props False packet) (\<lambda>packet.
                      if expiry_interval > 0 then property__write_all [expiry_property expiry_interval] False packet else Inr packet)))
                  else Inr packet) (\<lambda>packet.
             if payloadlen \<noteq> 0 then packet__write_bytes payload payloadlen packet else Inr packet)))))"

definition send__real_publish where
  "send__real_publish host fill mosq mid topic payloadlen payload qos retain dup cmsg_props store_props expiry_interval w =
     queue_built host mosq
       (publish_packet (h_alloc host) fill mosq mid topic payloadlen payload qos retain dup cmsg_props store_props expiry_interval) w"

section \<open>Answers to subscribing\<close>

definition suback_packet :: "(nat \<Rightarrow> bool) \<Rightarrow> u8 list \<Rightarrow> connection \<Rightarrow> u16 \<Rightarrow> u32 \<Rightarrow> u8 list \<Rightarrow> (int + packet) option" where
  "suback_packet alloc fill mosq mid payloadlen payload =
     build alloc fill
       (new_packet (word_of_int CMD_SUBACK) 0 (2 + payloadlen + (if is_mqtt5 mosq then property__get_remaining_length [] else 0)))
       (\<lambda>packet.
         seq (packet__write_uint16 mid packet) (\<lambda>packet.
         seq (if is_mqtt5 mosq then property__write_all [] True packet else Inr packet) (\<lambda>packet.
           if payloadlen \<noteq> 0 then packet__write_bytes payload payloadlen packet else Inr packet)))"

definition send__suback where
  "send__suback host fill mosq mid payloadlen payload w =
     queue_built host mosq (suback_packet (h_alloc host) fill mosq mid payloadlen payload) w"

definition unsuback_packet ::
  "(nat \<Rightarrow> bool) \<Rightarrow> u8 list \<Rightarrow> connection \<Rightarrow> u16 \<Rightarrow> u32 \<Rightarrow> u8 list \<Rightarrow> mosquitto_property list \<Rightarrow> (int + packet) option" where
  "unsuback_packet alloc fill mosq mid reason_code_count reason_codes properties =
     build alloc fill
       (new_packet (word_of_int CMD_UNSUBACK) 0
         (2 + (if is_mqtt5 mosq then property__get_remaining_length properties + reason_code_count else 0)))
       (\<lambda>packet.
         seq (packet__write_uint16 mid packet) (\<lambda>packet.
           if is_mqtt5 mosq then
             seq (property__write_all properties True packet) (packet__write_bytes reason_codes reason_code_count)
           else Inr packet))"

definition send__unsuback where
  "send__unsuback host fill mosq mid reason_code_count reason_codes properties w =
     queue_built host mosq (unsuback_packet (h_alloc host) fill mosq mid reason_code_count reason_codes properties) w"

section \<open>Connecting and disconnecting\<close>

text \<open>
  The properties of \<open>CONNACK\<close>: those of the caller, and what the configuration and the listener limit.
\<close>

definition connack_properties ::
  "(nat \<Rightarrow> bool) \<Rightarrow> bool \<Rightarrow> u32 \<Rightarrow> u16 \<Rightarrow> u8 \<Rightarrow> u8 \<Rightarrow> mosquitto_property list \<Rightarrow> fault + mosquitto_property list" where
  "connack_properties alloc retain_available max_packet_size max_inflight_messages max_qos reason_code connack_props =
     seq (if reason_code < 128 \<and> \<not> retain_available
          then mosquitto_property_add_byte alloc (Some connack_props) MQTT_PROP_RETAIN_AVAILABLE 0
          else Inr connack_props) (\<lambda>connack_props.
     seq (if reason_code < 128 \<and> max_packet_size > 0
          then mosquitto_property_add_int32 alloc (Some connack_props) MQTT_PROP_MAXIMUM_PACKET_SIZE max_packet_size
          else Inr connack_props) (\<lambda>connack_props.
     seq (if reason_code < 128 \<and> max_inflight_messages > 0
          then mosquitto_property_add_int16 alloc (Some connack_props) MQTT_PROP_RECEIVE_MAXIMUM max_inflight_messages
          else Inr connack_props) (\<lambda>connack_props.
     if max_qos \<noteq> 2 then mosquitto_property_add_byte alloc (Some connack_props) MQTT_PROP_MAXIMUM_QOS max_qos
     else Inr connack_props)))"

definition connack_packet ::
  "(nat \<Rightarrow> bool) \<Rightarrow> u8 list \<Rightarrow> bool \<Rightarrow> u32 \<Rightarrow> u16 \<Rightarrow> u8 \<Rightarrow> connection \<Rightarrow> u8 \<Rightarrow> u8 \<Rightarrow> mosquitto_property list \<Rightarrow> (int + packet) option" where
  "connack_packet alloc fill retain_available max_packet_size max_inflight_messages max_qos mosq ack reason_code properties =
     checked (mosquitto_property_copy_all alloc True properties) (\<lambda>copy.
     checked (if is_mqtt5 mosq
              then connack_properties alloc retain_available max_packet_size max_inflight_messages max_qos reason_code
                (case copy of None \<Rightarrow> [] | Some props \<Rightarrow> props)
              else Inr []) (\<lambda>connack_props.
     let remaining_length = 2 + (if is_mqtt5 mosq then property__get_remaining_length connack_props else 0)
     in if packet__check_oversize mosq remaining_length \<noteq> 0 then Some (Inl (err_code MOSQ_ERR_OVERSIZE_PACKET))
        else
          build alloc fill (new_packet (word_of_int CMD_CONNACK) 0 remaining_length) (\<lambda>packet.
            seq (packet__write_byte ack packet) (\<lambda>packet.
            seq (packet__write_byte reason_code packet) (\<lambda>packet.
            if is_mqtt5 mosq then property__write_all connack_props True packet else Inr packet)))))"

definition send__connack where
  "send__connack host fill retain_available max_packet_size max_inflight_messages max_qos mosq ack reason_code properties w =
     queue_built host mosq
       (connack_packet (h_alloc host) fill retain_available max_packet_size max_inflight_messages max_qos mosq ack reason_code properties) w"

definition disconnect_packet ::
  "(nat \<Rightarrow> bool) \<Rightarrow> u8 list \<Rightarrow> connection \<Rightarrow> u8 \<Rightarrow> mosquitto_property list \<Rightarrow> (int + packet) option" where
  "disconnect_packet alloc fill mosq reason_code properties =
     (let long = (is_mqtt5 mosq \<and> (reason_code \<noteq> 0 \<or> properties \<noteq> []));
          remaining_length = (if long then 1 + (if properties \<noteq> [] then property__get_remaining_length properties else 0) else 0)
      in build alloc fill (new_packet (word_of_int CMD_DISCONNECT) 0 remaining_length) (\<lambda>packet.
           if long then
             seq (packet__write_byte reason_code packet) (\<lambda>packet.
               if properties \<noteq> [] then property__write_all properties True packet else Inr packet)
           else Inr packet))"

definition send__disconnect where
  "send__disconnect host fill mosq reason_code properties w =
     queue_built host mosq (disconnect_packet (h_alloc host) fill mosq reason_code properties) w"

definition auth_packet ::
  "(nat \<Rightarrow> bool) \<Rightarrow> u8 list \<Rightarrow> connection \<Rightarrow> u8 list option \<Rightarrow> u8 \<Rightarrow> u8 list option \<Rightarrow> u16 \<Rightarrow> (int + packet) option" where
  "auth_packet alloc fill mosq auth_method reason_code auth_data auth_data_len =
     (if auth_method = None then Some (Inl (err_code MOSQ_ERR_INVAL))
      else if \<not> is_mqtt5 mosq then Some (Inl (err_code MOSQ_ERR_PROTOCOL))
      else
        checked (mosquitto_property_add_string alloc (Some []) MQTT_PROP_AUTHENTICATION_METHOD auth_method) (\<lambda>properties.
        checked (case auth_data of
                   Some bytes \<Rightarrow>
                     if auth_data_len > 0
                     then mosquitto_property_add_binary alloc (Some properties) MQTT_PROP_AUTHENTICATION_DATA bytes auth_data_len
                     else Inr properties
                 | None \<Rightarrow> Inr properties) (\<lambda>properties.
        let remaining_length = 1 + property__get_remaining_length properties
        in if packet__check_oversize mosq remaining_length \<noteq> 0 then Some (Inl (err_code MOSQ_ERR_OVERSIZE_PACKET))
           else
             build alloc fill (new_packet (word_of_int CMD_AUTH) 0 remaining_length) (\<lambda>packet.
               seq (packet__write_byte reason_code packet) (property__write_all properties True)))))"

definition send__auth where
  "send__auth host fill mosq auth_method reason_code auth_data auth_data_len w =
     queue_built host mosq (auth_packet (h_alloc host) fill mosq auth_method reason_code auth_data auth_data_len) w"

section \<open>Subscribing, by a client\<close>

text \<open>The lengths of the filters added up; a filter that is too long is refused.\<close>

fun filter_lengths :: "u32 \<Rightarrow> string list \<Rightarrow> u32 \<Rightarrow> u32 option" where
  "filter_lengths extra [] packetlen = Some packetlen"
| "filter_lengths extra (t # ts) packetlen =
     (if length t > 65535 then None else filter_lengths extra ts (packetlen + (2 + word_of_nat (length t) + extra)))"

fun write_filters :: "u8 option \<Rightarrow> string list \<Rightarrow> packet \<Rightarrow> fault + packet" where
  "write_filters options [] packet = Inr packet"
| "write_filters options (t # ts) packet =
     seq (packet__write_string (field_of t) packet) (\<lambda>packet.
     seq (case options of Some b \<Rightarrow> packet__write_byte b packet | None \<Rightarrow> Inr packet) (write_filters options ts))"

definition next_mid :: "connection \<Rightarrow> u16 \<times> connection" where
  "next_mid mosq = (case mosquitto__mid_generate (mosquitto.truncate mosq) of (mid, m) \<Rightarrow> (mid, mosq\<lparr>ctx_last_mid := ctx_last_mid m\<rparr>))"

definition subscribe_packet ::
  "(nat \<Rightarrow> bool) \<Rightarrow> u8 list \<Rightarrow> connection \<Rightarrow> u16 \<Rightarrow> string list \<Rightarrow> u8 \<Rightarrow> mosquitto_property list \<Rightarrow> (int + packet) option" where
  "subscribe_packet alloc fill mosq local_mid topic topic_qos properties =
     (case filter_lengths 1 topic (2 + (if is_mqtt5 mosq then property__get_remaining_length properties else 0)) of
        None \<Rightarrow> Some (Inl (err_code MOSQ_ERR_INVAL))
      | Some packetlen \<Rightarrow>
          build alloc fill (new_packet (word_of_int CMD_SUBSCRIBE OR push_bit 1 1) 0 packetlen) (\<lambda>packet.
            seq (packet__write_uint16 local_mid packet) (\<lambda>packet.
            seq (if is_mqtt5 mosq then property__write_all properties True packet else Inr packet)
              (write_filters (Some topic_qos) topic))))"

text \<open>The message id is taken once the packet is allocated.\<close>

definition send__subscribe where
  "send__subscribe host fill mosq topic topic_qos properties w =
     (case next_mid mosq of (local_mid, mosq') \<Rightarrow>
        (case subscribe_packet (h_alloc host) fill mosq local_mid topic topic_qos properties of
           Some (Inl rc) \<Rightarrow> Some (rc, mosq, w)
         | r \<Rightarrow> queue_built host mosq' r w))"

definition unsubscribe_packet ::
  "(nat \<Rightarrow> bool) \<Rightarrow> u8 list \<Rightarrow> connection \<Rightarrow> u16 \<Rightarrow> string list \<Rightarrow> mosquitto_property list \<Rightarrow> (int + packet) option" where
  "unsubscribe_packet alloc fill mosq local_mid topic properties =
     (case filter_lengths 0 topic 2 of
        None \<Rightarrow> Some (Inl (err_code MOSQ_ERR_INVAL))
      | Some packetlen \<Rightarrow>
          build alloc fill
            (new_packet (word_of_int CMD_UNSUBSCRIBE OR push_bit 1 1) 0
              (packetlen + (if is_mqtt5 mosq then property__get_remaining_length properties else 0))) (\<lambda>packet.
            seq (packet__write_uint16 local_mid packet) (\<lambda>packet.
            seq (if is_mqtt5 mosq then property__write_all properties True packet else Inr packet)
              (write_filters None topic))))"

definition send__unsubscribe where
  "send__unsubscribe host fill mosq topic properties w =
     (case next_mid mosq of (local_mid, mosq') \<Rightarrow>
        (case unsubscribe_packet (h_alloc host) fill mosq local_mid topic properties of
           Some (Inl rc) \<Rightarrow> Some (rc, mosq, w)
         | r \<Rightarrow> queue_built host mosq' r w))"

end
