(* ===== verification/Packet_Sent.thy ===== *)
theory Packet_Sent
  imports Packet_Build Packet_Frames Property_Laws
begin

text \<open>
  What the builders of \<open>Packet_Build\<close> put on the wire: the memory that is allocated is filled exactly,
  and the packet the other side makes of it has the fields in it.
\<close>

section \<open>Writers and their bytes\<close>

definition emits :: "u8 list \<Rightarrow> (packet \<Rightarrow> fault + packet) \<Rightarrow> bool" where
  "emits bs f \<longleftrightarrow> (\<forall>p. fits (length bs) p \<longrightarrow> f p = Inr (emit bs p))"

named_theorems emits_intros \<open>writers that put just the given bytes\<close>

lemma emitsD: "emits bs f \<Longrightarrow> fits (length bs) p \<Longrightarrow> f p = Inr (emit bs p)"
  by (simp add: emits_def)

lemma emits_Nil [emits_intros]: "emits [] Inr"
  by (simp add: emits_def)

lemma emits_seq [emits_intros]: "emits as f \<Longrightarrow> emits bs g \<Longrightarrow> emits (as @ bs) (\<lambda>p. seq (f p) g)"
  using fits_append [of as bs] emit_append [of as bs] by (simp add: emits_def)

lemma emits_If [emits_intros]:
  "(b \<Longrightarrow> emits xs f) \<Longrightarrow> (\<not> b \<Longrightarrow> emits ys g) \<Longrightarrow> emits (if b then xs else ys) (\<lambda>p. if b then f p else g p)"
  by (simp add: emits_def)

lemma emits_byte [emits_intros]: "emits [b] (packet__write_byte b)"
  using byte_codec.put_enc [of b] by (simp add: emits_def enc_byte_def)

lemma emits_uint16 [emits_intros]: "emits (enc_uint16 w) (packet__write_uint16 w)"
  using uint16_codec.put_enc [of w] by (simp add: emits_def)

lemma emits_varint [emits_intros]: "varint_ok w \<Longrightarrow> emits (enc_varint (unat w)) (packet__write_varint w)"
  using varint_codec.put_enc [of w] by (simp add: emits_def)

lemma emits_bytes [emits_intros]:
  "unat n \<le> length bs \<Longrightarrow> emits (take (unat n) bs) (packet__write_bytes bs n)"
  unfolding emits_def by (intro allI impI write_bytes_emit) (simp_all add: fits_def)

text \<open>Properties do not show on the wire who made them.\<close>

definition plain :: "mosquitto_property \<Rightarrow> mosquitto_property" where
  "plain x = x\<lparr>pr_client_generated := False\<rparr>"

definition sendable :: "mosquitto_property list \<Rightarrow> bool" where
  "sendable xs \<longleftrightarrow> list_all (prop_ok (\<lambda>_. True)) (map plain xs) \<and> length (enc_props xs) < max_remaining"

lemma plain_same: "property__write (plain x) = property__write x" "enc_prop (plain x) = enc_prop x"
  "property__get_length (plain x) = property__get_length x" "pr_identifier (plain x) = pr_identifier x"
  by (simp_all add: fun_eq_iff plain_def property__write_def enc_prop_def enc_body_def property__get_length_def
      cong: option.case_cong mqtt5_property_type.case_cong)

lemma plain_props: "enc_props (map plain xs) = enc_props xs" "write_all_loop (map plain xs) = write_all_loop xs"
  "property__get_length_all (map plain xs) = property__get_length_all xs"
proof -
  show "enc_props (map plain xs) = enc_props xs" by (simp add: enc_props_def comp_def plain_same)
  have "write_all_loop (map plain xs) p = write_all_loop xs p" for p
    by (induction xs arbitrary: p) (simp_all add: plain_same seq_def split: sum.split)
  then show "write_all_loop (map plain xs) = write_all_loop xs" by blast
  have "foldl (\<lambda>len p. len + property__get_length p) n (map plain xs) = foldl (\<lambda>len p. len + property__get_length p) n xs" for n
    by (induction xs arbitrary: n) (simp_all add: plain_same)
  then show "property__get_length_all (map plain xs) = property__get_length_all xs" by (simp add: property__get_length_all_def)
qed

lemma emits_props [emits_intros]: "sendable xs \<Longrightarrow> emits (enc_props xs) (property__write_all xs False)"
  using write_all_emit [of "\<lambda>_. True" "map plain xs"]
  by (simp add: emits_def property__write_all_def sendable_def plain_props)

lemma emits_prop_list [emits_intros]: "sendable xs \<Longrightarrow> emits (enc_prop_list xs) (property__write_all xs True)"
  using write_all_list_emit [of "\<lambda>_. True" "map plain xs"]
  by (simp add: emits_def property__write_all_def sendable_def plain_props enc_prop_list_def max_remaining_def)

lemma sendable_length:
  "sendable xs \<Longrightarrow> unat (property__get_length_all xs) = length (enc_props xs)"
  "sendable xs \<Longrightarrow> unat (property__get_remaining_length xs) = length (enc_prop_list xs)"
proof -
  assume s: "sendable xs"
  then have l: "property__get_length_all xs = word_of_nat (length (enc_props xs))"
    using length_enc_props [of "\<lambda>_. True" "map plain xs"] by (simp add: sendable_def plain_props)
  show u: "unat (property__get_length_all xs) = length (enc_props xs)"
    using s by (simp add: l sendable_def max_remaining_def unsigned_of_nat take_bit_nat_eq_self)
  have v: "length (enc_varint (length (enc_props xs))) \<le> 4"
    using s by (simp add: enc_varint_length sendable_def max_remaining_def)
  then show "unat (property__get_remaining_length xs) = length (enc_prop_list xs)"
    using s varint_bytes_enc [of "property__get_length_all xs"]
    by (simp add: property__get_remaining_length_def Let_def enc_prop_list_def u l unat_add_of_nat sendable_def max_remaining_def
        unsigned_of_nat take_bit_nat_eq_self flip: of_nat_add)
qed

lemma length_field_of: "length (string_bytes_of s) = length s"
  by (simp add: string_bytes_of_def)

lemma enc_field_of: "length t \<le> 65535 \<Longrightarrow> enc_string (field_of t) = enc_uint16 (word_of_nat (length t)) @ string_bytes_of t"
  by (simp add: enc_string_def field_of_def string_bytes_def length_field_of unsigned_of_nat take_bit_nat_eq_self)

lemma emits_field [emits_intros]:
  assumes "length t \<le> 65535"
  shows "emits (enc_uint16 (word_of_nat (length t)) @ string_bytes_of t) (packet__write_string (field_of t))"
proof -
  have "unat (ucast (word_of_nat (length t) :: u16) :: u32) = length t"
    using assms by (simp add: unat_ucast_u16_u32 unsigned_of_nat take_bit_nat_eq_self)
  then have "emits (string_bytes_of t) (packet__write_bytes (string_bytes_of t @ [0]) (ucast (word_of_nat (length t) :: u16)))"
    using emits_bytes [of "ucast (word_of_nat (length t) :: u16)" "string_bytes_of t @ [0]"] by (simp add: length_field_of)
  from emits_seq [OF emits_uint16 this] show ?thesis
    unfolding packet__write_string_def field_of_def by simp
qed

section \<open>A built packet\<close>

definition filled :: "packet \<Rightarrow> bool" where
  "filled p \<longleftrightarrow> pk_pos p = pk_packet_length p \<and> unat (pk_packet_length p) = length (pk_payload p)"

text \<open>What the receiver of the bytes has: the command, and a body with nothing read of it.\<close>

definition received :: "u8 \<Rightarrow> u8 list \<Rightarrow> packet \<Rightarrow> bool" where
  "received command bs q \<longleftrightarrow> pk_command q = command \<and> holds bs q \<and> pk_pos q = 0 \<and> unat (pk_remaining_length q) = length bs"

lemma alloc_new:
  assumes r: "packet__alloc alloc fill (new_packet command mid rl) = (0, p1)" and fill: "max_remaining \<le> length fill"
    and len: "unat rl = length bs"
  shows "fits (length bs) p1" "filled (emit bs p1)" "pk_payload (emit bs p1) = command # length_bytes 5 rl @ bs"
    "length bs < max_remaining" "length_field (length_bytes 5 rl)" "length_value (length_bytes 5 rl) = length bs"
proof -
  let ?ls = "length_bytes 5 rl" and ?pl = "rl + 1 + of_nat (length (length_bytes 5 rl))"
  have n5: "length ?ls \<noteq> 5" using r by (auto simp: packet__alloc_def new_packet_def Let_def)
  then show small: "length bs < max_remaining" using length_bytes_five [of rl] len by simp
  then show field: "length_field ?ls" "length_value ?ls = length bs" using length_bytes_field [of rl] len by simp_all
  have l4: "length ?ls \<le> 4" using field(1) by (simp add: length_field_def)
  have pl: "unat ?pl = length bs + 1 + length ?ls" "unat (1 + of_nat (length ?ls) :: u32) = 1 + length ?ls"
    using small len l4 by (simp_all add: unat_word_ariths unsigned_of_nat take_bit_nat_eq_self max_remaining_def)
  have p1: "pk_payload p1 = take (unat ?pl) (command # ?ls @ fill)" "pk_pos p1 = 1 + of_nat (length ?ls)" "pk_packet_length p1 = ?pl"
    using r n5 by (auto simp: packet__alloc_def new_packet_def Let_def split: if_splits)
  have n: "length (pk_payload p1) = length bs + 1 + length ?ls" using p1(1) pl(1) fill small by simp
  show "fits (length bs) p1" using small l4 by (simp add: fits_def p1(2,3) pl n max_remaining_def)
  have tk: "take (1 + length ?ls) (pk_payload p1) = command # ?ls" by (simp add: p1(1) pl min_def)
  show pay: "pk_payload (emit bs p1) = command # ?ls @ bs" using tk n by (simp add: emit_def p1(2) pl)
  have "rl = word_of_nat (length bs)" by (simp flip: len)
  then show "filled (emit bs p1)" unfolding filled_def pay using pl by (simp add: emit_def p1(2,3))
qed

lemma frame_received:
  assumes "length_field ls" "length_value ls = length bs" "length bs < max_remaining" and "frame (command # ls @ bs) q"
  shows "received command bs q"
proof -
  obtain ls' where ls': "command # ls @ bs = pk_command q # ls' @ pk_payload q" "length_field ls'"
      "length_value ls' = length (pk_payload q)" "unat (pk_remaining_length q) = length_value ls'" "pk_pos q = 0"
    using assms(4) by (auto simp: frame_def)
  then have "ls' = ls" "pk_payload q = bs" using length_field_unique [OF assms(1) ls'(2), of bs "pk_payload q"] by auto
  then show ?thesis using ls' assms(2,3) by (auto simp: received_def holds_def readable_def max_remaining_def)
qed

lemma build_emits:
  assumes e: "emits bs body" and len: "unat rl = length bs" and fill: "max_remaining \<le> length fill"
    and r: "build alloc fill (new_packet command mid rl) body = Some (Inr p')"
  shows "filled p'" "frame (pk_payload p') q \<Longrightarrow> received command bs q" "\<exists>q. frame (pk_payload p') q"
proof -
  obtain p1 where a: "packet__alloc alloc fill (new_packet command mid rl) = (0, p1)" "body p1 = Inr p'"
    using r by (auto simp: build_def split: if_splits prod.splits sum.splits)
  note al = alloc_new [OF a(1) fill len]
  have p': "p' = emit bs p1" using emitsD [OF e al(1)] a(2) by simp
  then show "filled p'" using al(2) by simp
  show "received command bs q" if "frame (pk_payload p') q"
    using frame_received [OF al(5,6,4)] that al(3) p' by simp
  have "frame (pk_payload p') (p1\<lparr>pk_payload := bs, pk_command := command, pk_remaining_length := rl,
      pk_remaining_count := int (length (length_bytes 5 rl)), pk_pos := 0\<rparr>)"
    unfolding frame_def by (rule exI [of _ "length_bytes 5 rl"]) (simp add: al p' len)
  then show "\<exists>q. frame (pk_payload p') q" by blast
qed

text \<open>With memory, a packet that MQTT can express is built.\<close>

lemma build_no_rc: "unat rl < max_remaining \<Longrightarrow> build (\<lambda>_. True) fill (new_packet command mid rl) body \<noteq> Some (Inl rc)"
  using length_bytes_five [of rl] by (auto simp: build_def packet__alloc_def new_packet_def Let_def split: sum.split)

definition well_built :: "(int + packet) option \<Rightarrow> bool" where
  "well_built r \<longleftrightarrow> (case r of None \<Rightarrow> False | Some (Inl rc) \<Rightarrow> True | Some (Inr p) \<Rightarrow> filled p)"

lemma build_well:
  assumes e: "emits bs body" and len: "unat rl = length bs" and fill: "max_remaining \<le> length fill"
  shows "well_built (build alloc fill (new_packet command mid rl) body)"
proof -
  have "\<exists>r. build alloc fill (new_packet command mid rl) body = Some r"
    using emitsD [OF e alloc_new(1) [OF _ fill len]] unfolding build_def by (auto split: prod.split sum.split)
  then obtain r where r: "build alloc fill (new_packet command mid rl) body = Some r" ..
  then show ?thesis using build_emits(1) [OF e len fill] by (cases r) (auto simp: well_built_def)
qed

section \<open>The bytes of each packet\<close>

definition ack_bytes :: "bool \<Rightarrow> u16 \<Rightarrow> u8 \<Rightarrow> mosquitto_property list \<Rightarrow> u8 list" where
  "ack_bytes five mid reason_code properties =
     enc_uint16 mid @
     (if five then
        (if reason_code \<noteq> 0 \<or> properties \<noteq> [] then [reason_code] else []) @ (if properties \<noteq> [] then enc_prop_list properties else [])
      else [])"

definition topic_bytes :: "string option \<Rightarrow> u8 list" where
  "topic_bytes topic = (case topic of Some t \<Rightarrow> enc_uint16 (word_of_nat (length t)) @ string_bytes_of t | None \<Rightarrow> enc_uint16 0)"

definition publish_bytes :: "bool \<Rightarrow> string option \<Rightarrow> u8 \<Rightarrow> u16 \<Rightarrow> mosquitto_property list \<Rightarrow> u8 list \<Rightarrow> u8 list" where
  "publish_bytes five topic qos mid properties payload =
     topic_bytes topic @ (if qos > 0 then enc_uint16 mid else []) @ (if five then enc_prop_list properties else []) @ payload"

definition filter_bytes :: "u8 option \<Rightarrow> string list \<Rightarrow> u8 list" where
  "filter_bytes options ts =
     concat (map (\<lambda>t. (enc_uint16 (word_of_nat (length t)) @ string_bytes_of t) @ (case options of Some b \<Rightarrow> [b] | None \<Rightarrow> [])) ts)"

text \<open>All properties of a message in the order they are written.\<close>

definition message_properties :: "mosquitto_property list \<Rightarrow> mosquitto_property list \<Rightarrow> u32 \<Rightarrow> mosquitto_property list" where
  "message_properties cmsg_props store_props expiry_interval =
     cmsg_props @ store_props @ (if expiry_interval > 0 then [expiry_property expiry_interval] else [])"

lemma enc_props_append: "enc_props (xs @ ys) = enc_props xs @ enc_props ys"
  by (simp add: enc_props_def)

lemma sendable_append: "sendable (xs @ ys) \<Longrightarrow> sendable xs \<and> sendable ys"
  by (auto simp: sendable_def enc_props_append)

lemma length_all_append: "property__get_length_all (xs @ ys) = property__get_length_all xs + property__get_length_all ys"
proof -
  have sum: "foldl (\<lambda>len p. len + property__get_length p) n zs = n + sum_list (map property__get_length zs)" for n zs
    by (induction zs arbitrary: n) (simp_all add: add.assoc)
  show ?thesis by (simp add: property__get_length_all_def sum)
qed

lemma enc_prop_list_length: "sendable xs \<Longrightarrow> length (enc_prop_list xs) < max_remaining + 4"
  by (auto simp: enc_prop_list_def enc_varint_length sendable_def max_remaining_def)

lemma emits_topic [emits_intros]:
  "(\<And>t. topic = Some t \<Longrightarrow> length t \<le> 65535) \<Longrightarrow>
   emits (topic_bytes topic) (\<lambda>p. case topic of Some t \<Rightarrow> packet__write_string (field_of t) p | None \<Rightarrow> packet__write_uint16 0 p)"
  using emits_field emits_uint16 by (auto simp: topic_bytes_def split: option.split)

lemma emits_filters [emits_intros]:
  "\<forall>t \<in> set ts. length t \<le> 65535 \<Longrightarrow> emits (filter_bytes options ts) (write_filters options ts)"
proof (induction ts)
  case Nil
  then show ?case using emits_Nil by (simp add: filter_bytes_def emits_def)
next
  case (Cons t ts)
  have o: "emits (case options of Some b \<Rightarrow> [b] | None \<Rightarrow> []) (\<lambda>p. case options of Some b \<Rightarrow> packet__write_byte b p | None \<Rightarrow> Inr p)"
    using emits_byte emits_Nil by (cases options) auto
  have "filter_bytes options (t # ts) =
      (enc_uint16 (word_of_nat (length t)) @ string_bytes_of t) @ (case options of Some b \<Rightarrow> [b] | None \<Rightarrow> []) @ filter_bytes options ts"
    by (simp add: filter_bytes_def)
  moreover have "write_filters options (t # ts) = (\<lambda>p. seq (packet__write_string (field_of t) p)
      (\<lambda>p. seq (case options of Some b \<Rightarrow> packet__write_byte b p | None \<Rightarrow> Inr p) (write_filters options ts)))"
    by (simp add: fun_eq_iff)
  ultimately show ?case
    using Cons.prems by (simp del: append_assoc add: emits_seq [OF emits_field emits_seq [OF o Cons.IH]])
qed

lemma emits_ack:
  "(five \<Longrightarrow> sendable properties) \<Longrightarrow> emits (ack_bytes five mid reason_code properties) (\<lambda>packet.
     seq (packet__write_uint16 mid packet) (\<lambda>packet.
       if five then
         seq (if reason_code \<noteq> 0 \<or> properties \<noteq> [] then packet__write_byte reason_code packet else Inr packet) (\<lambda>packet.
           if properties \<noteq> [] then property__write_all properties True packet else Inr packet)
       else Inr packet))"
  unfolding ack_bytes_def by (intro emits_intros) auto

lemma emits_message:
  assumes props: "five \<Longrightarrow> sendable (message_properties cmsg_props store_props expiry_interval)"
    and len: "five \<Longrightarrow> proplen = property__get_length_all (message_properties cmsg_props store_props expiry_interval)"
    and topic: "\<And>t. topic = Some t \<Longrightarrow> length t \<le> 65535" and pay: "unat payloadlen \<le> length payload"
  shows "emits (publish_bytes five topic qos mid (message_properties cmsg_props store_props expiry_interval) (take (unat payloadlen) payload))
    (\<lambda>packet.
       seq (case topic of Some t \<Rightarrow> packet__write_string (field_of t) packet | None \<Rightarrow> packet__write_uint16 0 packet) (\<lambda>packet.
       seq (if qos > 0 then packet__write_uint16 mid packet else Inr packet) (\<lambda>packet.
       seq (if five then
              seq (packet__write_varint proplen packet) (\<lambda>packet.
              seq (property__write_all cmsg_props False packet) (\<lambda>packet.
              seq (property__write_all store_props False packet) (\<lambda>packet.
                if expiry_interval > 0 then property__write_all [expiry_property expiry_interval] False packet else Inr packet)))
            else Inr packet) (\<lambda>packet.
       if payloadlen \<noteq> 0 then packet__write_bytes payload payloadlen packet else Inr packet))))"
proof -
  let ?xs = "message_properties cmsg_props store_props expiry_interval"
  have list: "emits (enc_prop_list ?xs) (\<lambda>packet.
      seq (packet__write_varint proplen packet) (\<lambda>packet.
      seq (property__write_all cmsg_props False packet) (\<lambda>packet.
      seq (property__write_all store_props False packet) (\<lambda>packet.
        if expiry_interval > 0 then property__write_all [expiry_property expiry_interval] False packet else Inr packet))))" if five
  proof -
    have s: "sendable ?xs" using props that by blast
    then have v: "varint_ok (property__get_length_all ?xs)"
      using sendable_length(1) [OF s] by (simp add: varint_ok_def word_less_nat_alt sendable_def max_remaining_def)
    have e: "enc_prop_list ?xs = enc_varint (unat (property__get_length_all ?xs)) @ enc_props cmsg_props @ enc_props store_props @
        (if expiry_interval > 0 then enc_props [expiry_property expiry_interval] else [])"
      using sendable_length(1) [OF s] by (simp add: enc_prop_list_def message_properties_def enc_props_append)
    show ?thesis unfolding e len [OF that]
      by (intro emits_intros v) (use s in \<open>auto simp: message_properties_def dest!: sendable_append\<close>)
  qed
  have p: "emits (take (unat payloadlen) payload) (\<lambda>packet. if payloadlen \<noteq> 0 then packet__write_bytes payload payloadlen packet else Inr packet)"
    using emits_bytes [OF pay] emits_Nil by (cases "payloadlen = 0") auto
  show ?thesis unfolding publish_bytes_def by (intro emits_intros list topic p)
qed

section \<open>The packets\<close>

text \<open>A result of \<open>build\<close> whose bytes are known.\<close>

definition built :: "u8 \<Rightarrow> u8 list \<Rightarrow> (int + packet) option \<Rightarrow> bool" where
  "built command bs r \<longleftrightarrow> well_built r \<and> (\<forall>p' q. r = Some (Inr p') \<longrightarrow> frame (pk_payload p') q \<longrightarrow> received command bs q) \<and>
     (\<forall>p'. r = Some (Inr p') \<longrightarrow> (\<exists>q. frame (pk_payload p') q))"

lemma builtI:
  "emits bs body \<Longrightarrow> unat rl = length bs \<Longrightarrow> max_remaining \<le> length fill \<Longrightarrow>
   built command bs (build alloc fill (new_packet command mid rl) body)"
  using build_well build_emits(2,3) by (auto simp: built_def)

text \<open>What is built arrives.\<close>

lemma built_arrives:
  assumes "built command bs r" and "\<And>rc. r \<noteq> Some (Inl rc)"
  obtains p' q where "r = Some (Inr p')" "frame (pk_payload p') q"
  using assms by (cases r rule: option.exhaust) (auto simp: built_def well_built_def split: sum.splits)

lemma built_rc [simp]: "built command bs (Some (Inl rc))"
  by (simp add: built_def well_built_def)

lemma built_If: "built command bs r \<Longrightarrow> built command bs (if b then Some (Inl rc) else r)"
  by simp

lemma built_checked: "(\<And>x. r = Inr x \<Longrightarrow> built command bs (k x)) \<Longrightarrow> r \<noteq> Inl Trap \<Longrightarrow> built command bs (checked r k)"
  by (auto simp: checked_def split: sum.split fault.split)

lemma built_well: "built command bs r \<Longrightarrow> well_built r"
  by (simp add: built_def)

lemma builtD: "built command bs r \<Longrightarrow> r = Some (Inr p') \<Longrightarrow> frame (pk_payload p') q \<Longrightarrow> received command bs q"
  by (simp add: built_def)

lemma unat_add_u32: "unat (a :: u32) + unat b < 2 ^ 32 \<Longrightarrow> unat (a + b) = unat a + unat b"
  by (simp add: unat_word_ariths)

lemma ack_built:
  assumes "is_mqtt5 mosq \<Longrightarrow> sendable properties" and "max_remaining \<le> length fill"
  shows "built (if dup then command OR 8 else command) (ack_bytes (is_mqtt5 mosq) mid reason_code properties)
    (command_with_mid_packet alloc fill mosq command mid dup reason_code properties)"
proof -
  have l: "unat (property__get_remaining_length properties) = length (enc_prop_list properties)"
    "length (enc_prop_list properties) < max_remaining + 4" if "is_mqtt5 mosq"
    using sendable_length(2) enc_prop_list_length assms(1) that by blast+
  show ?thesis
    unfolding command_with_mid_packet_def Let_def
    by (rule builtI [OF emits_ack [OF assms(1)] _ assms(2)])
      (use l in \<open>auto simp: ack_bytes_def unat_word_ariths max_remaining_def\<close>)
qed

lemma simple_built: "max_remaining \<le> length fill \<Longrightarrow> built command [] (simple_command_packet alloc fill command)"
  unfolding simple_command_packet_def by (rule builtI [OF emits_Nil]) simp_all

lemma publish_length:
  assumes props: "is_mqtt5 mosq \<Longrightarrow> sendable (message_properties cmsg_props store_props expiry_interval)"
    and topic: "\<And>t. topic = Some t \<Longrightarrow> length t \<le> 65535" and pay: "unat payloadlen < 2 ^ 31" "unat payloadlen \<le> length payload"
  defines "xs \<equiv> message_properties cmsg_props store_props expiry_interval"
  shows "unat ((case topic of Some t \<Rightarrow> 2 + word_of_nat (length t) + payloadlen | None \<Rightarrow> 2 + payloadlen) + (if qos > 0 then 2 else 0) +
      (if is_mqtt5 mosq then property__get_remaining_length xs else 0)) =
    length (publish_bytes (is_mqtt5 mosq) topic qos mid xs (take (unat payloadlen) payload))"
proof -
  have l: "unat (property__get_remaining_length xs) = length (enc_prop_list xs)" "length (enc_prop_list xs) < max_remaining + 4" if "is_mqtt5 mosq"
    using sendable_length(2) enc_prop_list_length props that unfolding xs_def by blast+
  have t: "unat (word_of_nat (length t) :: u32) = length t" if "topic = Some t" for t
    using topic [OF that] by (simp add: unsigned_of_nat take_bit_nat_eq_self)
  show ?thesis
    using l t topic pay
    by (cases topic) (auto simp: publish_bytes_def topic_bytes_def unat_word_ariths max_remaining_def length_field_of)
qed

definition publish_command :: "bool \<Rightarrow> u8 \<Rightarrow> bool \<Rightarrow> u8" where
  "publish_command dup qos retain =
     0x30 OR push_bit 3 (if dup then 1 else 0) OR push_bit 1 qos OR (if retain then 1 else 0)"

lemma publish_built:
  assumes props: "is_mqtt5 mosq \<Longrightarrow> sendable (message_properties cmsg_props store_props expiry_interval)"
    and topic: "\<And>t. topic = Some t \<Longrightarrow> length t \<le> 65535" and pay: "unat payloadlen < 2 ^ 31" "unat payloadlen \<le> length payload"
    and fill: "max_remaining \<le> length fill"
  shows "built (publish_command dup qos retain)
    (publish_bytes (is_mqtt5 mosq) topic qos mid (message_properties cmsg_props store_props expiry_interval) (take (unat payloadlen) payload))
    (publish_packet alloc fill mosq mid topic payloadlen payload qos retain dup cmsg_props store_props expiry_interval)"
proof -
  let ?xs = "message_properties cmsg_props store_props expiry_interval"
  let ?proplen = "if is_mqtt5 mosq then property__get_length_all ?xs else 0"
  let ?topic = "case topic of Some t \<Rightarrow> 2 + word_of_nat (length t) + payloadlen | None \<Rightarrow> 2 + payloadlen"
  have len: "(if is_mqtt5 mosq then property__get_length_all cmsg_props + property__get_length_all store_props +
      (if expiry_interval > 0 then property__get_length_all [expiry_property expiry_interval] else 0) else 0) = ?proplen"
    by (simp add: message_properties_def length_all_append add.assoc) (simp add: property__get_length_all_def)
  have "\<not> 4 < packet__varint_bytes ?proplen"
  proof (cases "is_mqtt5 mosq")
    case True
    then show ?thesis
      using props sendable_length(1) [of ?xs] by (simp add: varint_bytes_enc enc_varint_length sendable_def max_remaining_def)
  qed (simp add: packet__varint_bytes_def)
  then have short: "(is_mqtt5 mosq \<and> 4 < packet__varint_bytes ?proplen) = False" by simp
  let ?packetlen = "?topic + (if qos > 0 then 2 else 0) + (if is_mqtt5 mosq then property__get_remaining_length ?xs else 0)"
  have pl: "(if is_mqtt5 mosq
        then (if qos > 0 then ?topic + 2 else ?topic) + (?proplen + word_of_nat (packet__varint_bytes ?proplen))
        else if qos > 0 then ?topic + 2 else ?topic) = ?packetlen"
    by (simp add: property__get_remaining_length_def Let_def)
  have cmd: "word_of_int Property.CMD_PUBLISH OR push_bit 3 (if dup then 1 else 0) OR push_bit 1 qos OR (if retain then 1 else 0) =
      publish_command dup qos retain" by (simp add: publish_command_def)
  show ?thesis
    unfolding publish_packet_def Let_def len
    by (simp only: short if_False prod.case not_False_eq_True simp_thms pl cmd)
      (rule built_If, rule builtI [OF emits_message publish_length fill]; use props topic pay in simp)
qed

lemma suback_built:
  assumes "unat payloadlen < 2 ^ 31" "unat payloadlen \<le> length payload" and "max_remaining \<le> length fill"
  shows "built (word_of_int CMD_SUBACK)
    (enc_uint16 mid @ (if is_mqtt5 mosq then enc_prop_list [] else []) @ take (unat payloadlen) payload)
    (suback_packet alloc fill mosq mid payloadlen payload)"
proof -
  have nil: "sendable []" by (simp add: sendable_def max_remaining_def)
  have e: "emits (enc_uint16 mid @ (if is_mqtt5 mosq then enc_prop_list [] else []) @ take (unat payloadlen) payload)
      (\<lambda>packet. seq (packet__write_uint16 mid packet) (\<lambda>packet.
         seq (if is_mqtt5 mosq then property__write_all [] True packet else Inr packet) (\<lambda>packet.
           if payloadlen \<noteq> 0 then packet__write_bytes payload payloadlen packet else Inr packet)))"
    using emits_bytes [OF assms(2)] emits_Nil by (intro emits_intros nil) (cases "payloadlen = 0"; simp)
  show ?thesis
    unfolding suback_packet_def
    by (rule builtI [OF e _ assms(3)])
      (use assms sendable_length(2) [OF nil] in \<open>auto simp: unat_word_ariths enc_prop_list_def enc_varint.simps [of 0]\<close>)
qed

lemma unsuback_built:
  assumes "is_mqtt5 mosq \<Longrightarrow> sendable properties" "unat n < 2 ^ 31" "unat n \<le> length reason_codes" and "max_remaining \<le> length fill"
  shows "built (word_of_int CMD_UNSUBACK)
    (enc_uint16 mid @ (if is_mqtt5 mosq then enc_prop_list properties @ take (unat n) reason_codes else []))
    (unsuback_packet alloc fill mosq mid n reason_codes properties)"
proof -
  have l: "unat (property__get_remaining_length properties) = length (enc_prop_list properties)"
    "length (enc_prop_list properties) < max_remaining + 4" if "is_mqtt5 mosq"
    using sendable_length(2) enc_prop_list_length assms(1) that by blast+
  have e: "emits (enc_uint16 mid @ (if is_mqtt5 mosq then enc_prop_list properties @ take (unat n) reason_codes else []))
      (\<lambda>packet. seq (packet__write_uint16 mid packet) (\<lambda>packet.
         if is_mqtt5 mosq then seq (property__write_all properties True packet) (packet__write_bytes reason_codes n) else Inr packet))"
    by (intro emits_intros assms)
  show ?thesis
    unfolding unsuback_packet_def
    by (rule builtI [OF e _ assms(4)]) (use assms l in \<open>auto simp: unat_word_ariths max_remaining_def\<close>)
qed

lemma disconnect_built:
  assumes "is_mqtt5 mosq \<Longrightarrow> sendable properties" and "max_remaining \<le> length fill"
  shows "built (word_of_int CMD_DISCONNECT)
    (if is_mqtt5 mosq \<and> (reason_code \<noteq> 0 \<or> properties \<noteq> [])
     then [reason_code] @ (if properties \<noteq> [] then enc_prop_list properties else []) else [])
    (disconnect_packet alloc fill mosq reason_code properties)"
proof -
  have l: "unat (property__get_remaining_length properties) = length (enc_prop_list properties)"
    "length (enc_prop_list properties) < max_remaining + 4" if "is_mqtt5 mosq"
    using sendable_length(2) enc_prop_list_length assms(1) that by blast+
  have e: "emits (if is_mqtt5 mosq \<and> (reason_code \<noteq> 0 \<or> properties \<noteq> [])
      then [reason_code] @ (if properties \<noteq> [] then enc_prop_list properties else []) else [])
      (\<lambda>packet. if is_mqtt5 mosq \<and> (reason_code \<noteq> 0 \<or> properties \<noteq> [])
         then seq (packet__write_byte reason_code packet) (\<lambda>packet.
           if properties \<noteq> [] then property__write_all properties True packet else Inr packet)
         else Inr packet)"
    by (intro emits_intros) (use assms(1) in auto)
  show ?thesis
    unfolding disconnect_packet_def Let_def
    by (rule builtI [OF e _ assms(2)]) (use l in \<open>auto simp: unat_word_ariths max_remaining_def\<close>)
qed

text \<open>Sendable properties with room for \<open>k\<close> more bytes, and the properties that the broker adds to them.\<close>

definition room :: "nat \<Rightarrow> mosquitto_property list \<Rightarrow> bool" where
  "room k xs \<longleftrightarrow> sendable xs \<and> length (enc_props xs) + k < max_remaining"

lemma room_add:
  "room (k + 2) xs \<Longrightarrow> mosquitto_property_add_byte alloc (Some xs) i b = Inr ys \<Longrightarrow> i \<in> {MQTT_PROP_RETAIN_AVAILABLE, MQTT_PROP_MAXIMUM_QOS} \<Longrightarrow> room k ys"
  "room (k + 3) xs \<Longrightarrow> mosquitto_property_add_int16 alloc (Some xs) MQTT_PROP_RECEIVE_MAXIMUM n = Inr ys \<Longrightarrow> room k ys"
  "room (k + 5) xs \<Longrightarrow> mosquitto_property_add_int32 alloc (Some xs) MQTT_PROP_MAXIMUM_PACKET_SIZE w = Inr ys \<Longrightarrow> room k ys"
  by (auto simp: room_def sendable_def mosquitto_property_add_byte_def mosquitto_property_add_int16_def mosquitto_property_add_int32_def
      property__add_def new_property_def enc_props_append enc_prop_def enc_body_def plain_def prop_ok_def prop_type_def zero_property_def
      enc_byte_def Let_def split: if_splits)

lemma room_less: "room (k + j) xs \<Longrightarrow> room k xs"
  by (simp add: room_def)

lemma connack_properties_room:
  assumes "room 14 ps" and "connack_properties alloc ra mps mim mq rc ps = Inr qs"
  shows "sendable qs"
proof -
  obtain a b c where a: "(if rc < 128 \<and> \<not> ra then mosquitto_property_add_byte alloc (Some ps) MQTT_PROP_RETAIN_AVAILABLE 0 else Inr ps) = Inr a"
    and b: "(if rc < 128 \<and> mps > 0 then mosquitto_property_add_int32 alloc (Some a) MQTT_PROP_MAXIMUM_PACKET_SIZE mps else Inr a) = Inr b"
    and c: "(if rc < 128 \<and> mim > 0 then mosquitto_property_add_int16 alloc (Some b) MQTT_PROP_RECEIVE_MAXIMUM mim else Inr b) = Inr c"
    and d: "(if mq \<noteq> 2 then mosquitto_property_add_byte alloc (Some c) MQTT_PROP_MAXIMUM_QOS mq else Inr c) = Inr qs"
    using assms(2) unfolding connack_properties_def seq_eq_Inr_iff by blast
  have "room (12 + 2) ps" using assms(1) by simp
  then have "room 12 a" using a room_add(1) room_less [of 12 2 ps] by (auto split: if_splits)
  then have "room (7 + 5) a" by simp
  then have "room 7 b" using b room_add(3) room_less [of 7 5 a] by (auto split: if_splits)
  then have "room (4 + 3) b" by simp
  then have "room 4 c" using c room_add(2) room_less [of 4 3 b] by (auto split: if_splits)
  then have "room (2 + 2) c" by simp
  then have "room 2 qs" using d room_add(1) [of 2 c] room_less [of 2 2 c] by (auto split: if_splits)
  then show ?thesis by (simp add: room_def)
qed

lemma connack_properties_no_trap: "connack_properties alloc ra mps mim mq rc ps \<noteq> Inl Trap"
  by (auto simp: connack_properties_def mosquitto_property_add_byte_def mosquitto_property_add_int16_def mosquitto_property_add_int32_def
      seq_eq_Inl_iff split: if_splits)

lemma well_built_checked: "(\<And>x. r = Inr x \<Longrightarrow> well_built (k x)) \<Longrightarrow> r \<noteq> Inl Trap \<Longrightarrow> well_built (checked r k)"
  by (auto simp: checked_def well_built_def split: sum.split fault.split)

lemma connack_well:
  assumes copy: "mosquitto_property_copy_all alloc True properties \<noteq> Inl Trap"
    "\<And>c. mosquitto_property_copy_all alloc True properties = Inr c \<Longrightarrow> room 14 (case c of None \<Rightarrow> [] | Some ps \<Rightarrow> ps)"
    and fill: "max_remaining \<le> length fill"
  shows "well_built (connack_packet alloc fill ra mps mim mq mosq ack reason_code properties)"
  unfolding connack_packet_def
proof (rule well_built_checked [OF well_built_checked])
  fix c props
  assume c: "mosquitto_property_copy_all alloc True properties = Inr c"
    and props: "(if is_mqtt5 mosq then connack_properties alloc ra mps mim mq reason_code (case c of None \<Rightarrow> [] | Some ps \<Rightarrow> ps) else Inr []) = Inr props"
  have s: "sendable props" if "is_mqtt5 mosq" using connack_properties_room [OF copy(2) [OF c]] props that by simp
  have l: "unat (property__get_remaining_length props) = length (enc_prop_list props)" "length (enc_prop_list props) < max_remaining + 4"
    if "is_mqtt5 mosq" using sendable_length(2) enc_prop_list_length s that by blast+
  have e: "emits ([ack] @ [reason_code] @ (if is_mqtt5 mosq then enc_prop_list props else []))
      (\<lambda>packet. seq (packet__write_byte ack packet) (\<lambda>packet. seq (packet__write_byte reason_code packet) (\<lambda>packet.
         if is_mqtt5 mosq then property__write_all props True packet else Inr packet)))"
    by (intro emits_intros s)
  show "well_built (let remaining_length = 2 + (if is_mqtt5 mosq then property__get_remaining_length props else 0)
       in if packet__check_oversize mosq remaining_length \<noteq> 0 then Some (Inl (err_code MOSQ_ERR_OVERSIZE_PACKET))
          else build alloc fill (new_packet (word_of_int CMD_CONNACK) 0 remaining_length) (\<lambda>packet.
            seq (packet__write_byte ack packet) (\<lambda>packet. seq (packet__write_byte reason_code packet) (\<lambda>packet.
            if is_mqtt5 mosq then property__write_all props True packet else Inr packet))))"
    unfolding Let_def
    by (rule built_well, rule built_If, rule builtI [OF e _ fill]) (use l in \<open>auto simp: unat_word_ariths max_remaining_def\<close>)
qed (use copy connack_properties_no_trap in auto)

lemma filter_lengths_bytes:
  assumes "filter_lengths extra ts n = Some m" and "unat extra = (case options of Some _ \<Rightarrow> 1 | None \<Rightarrow> 0)"
    and "unat n + length (filter_bytes options ts) < 2 ^ 32"
  shows "unat m = unat n + length (filter_bytes options ts)" "\<forall>t \<in> set ts. length t \<le> 65535"
proof -
  have "unat m = unat n + length (filter_bytes options ts) \<and> (\<forall>t \<in> set ts. length t \<le> 65535)"
    using assms
  proof (induction ts arbitrary: n)
    case Nil
    then show ?case by (simp add: filter_bytes_def)
  next
    case (Cons t ts)
    have t: "length t \<le> 65535" and r: "filter_lengths extra ts (n + (2 + word_of_nat (length t) + extra)) = Some m"
      using Cons.prems(1) by (auto split: if_splits)
    have fb: "length (filter_bytes options (t # ts)) = 2 + length t + unat extra + length (filter_bytes options ts)"
      using Cons.prems(2) by (simp add: filter_bytes_def length_field_of split: option.split)
    have u: "unat (n + (2 + word_of_nat (length t) + extra)) = unat n + (2 + length t + unat extra)"
      using Cons.prems(2,3) t fb
      by (simp add: unat_word_ariths unsigned_of_nat take_bit_nat_eq_self split: option.splits)
    show ?case using Cons.IH [OF r Cons.prems(2)] Cons.prems(3) fb u t by simp
  qed
  then show "unat m = unat n + length (filter_bytes options ts)" "\<forall>t \<in> set ts. length t \<le> 65535" by auto
qed

lemma subscribe_built:
  assumes "is_mqtt5 mosq \<Longrightarrow> sendable properties" and "length (filter_bytes (Some topic_qos) topic) < 2 ^ 31" and "max_remaining \<le> length fill"
  shows "built 0x82 (enc_uint16 mid @ (if is_mqtt5 mosq then enc_prop_list properties else []) @ filter_bytes (Some topic_qos) topic)
    (subscribe_packet alloc fill mosq mid topic topic_qos properties)"
proof (cases "filter_lengths 1 topic (2 + (if is_mqtt5 mosq then property__get_remaining_length properties else 0))")
  case None
  then show ?thesis by (simp add: subscribe_packet_def)
next
  case (Some n)
  have l: "unat (2 + (if is_mqtt5 mosq then property__get_remaining_length properties else 0)) =
      2 + length (if is_mqtt5 mosq then enc_prop_list properties else [])"
    "length (if is_mqtt5 mosq then enc_prop_list properties else []) < max_remaining + 4"
    using sendable_length(2) [of properties] enc_prop_list_length [of properties] assms(1)
    by (auto simp: unat_word_ariths max_remaining_def)
  note fl = filter_lengths_bytes [OF Some, of "Some topic_qos"]
  have n: "unat n = 2 + length (if is_mqtt5 mosq then enc_prop_list properties else []) + length (filter_bytes (Some topic_qos) topic)"
    "\<forall>t \<in> set topic. length t \<le> 65535"
    using fl l assms(2) by (simp_all add: max_remaining_def)
  have e: "emits (enc_uint16 mid @ (if is_mqtt5 mosq then enc_prop_list properties else []) @ filter_bytes (Some topic_qos) topic)
      (\<lambda>packet. seq (packet__write_uint16 mid packet) (\<lambda>packet.
         seq (if is_mqtt5 mosq then property__write_all properties True packet else Inr packet) (write_filters (Some topic_qos) topic)))"
    by (intro emits_intros assms n)
  have c: "(word_of_int CMD_SUBSCRIBE OR push_bit 1 1 :: u8) = 0x82" by simp
  show ?thesis
    unfolding subscribe_packet_def Some option.case c
    by (rule builtI [OF e _ assms(3)]) (simp add: n)
qed

lemma unsubscribe_built:
  assumes "is_mqtt5 mosq \<Longrightarrow> sendable properties" and "length (filter_bytes None topic) < 2 ^ 31" and "max_remaining \<le> length fill"
  shows "built 0xA2 (enc_uint16 mid @ (if is_mqtt5 mosq then enc_prop_list properties else []) @ filter_bytes None topic)
    (unsubscribe_packet alloc fill mosq mid topic properties)"
proof (cases "filter_lengths 0 topic 2")
  case None
  then show ?thesis by (simp add: unsubscribe_packet_def)
next
  case (Some n)
  note fl = filter_lengths_bytes [OF Some, of None]
  have n: "unat n = 2 + length (filter_bytes None topic)" "\<forall>t \<in> set topic. length t \<le> 65535"
    using fl assms(2) by simp_all
  have l: "unat (n + (if is_mqtt5 mosq then property__get_remaining_length properties else 0)) =
      2 + length (if is_mqtt5 mosq then enc_prop_list properties else []) + length (filter_bytes None topic)"
    using sendable_length(2) [of properties] enc_prop_list_length [of properties] assms(1,2) n(1)
    by (auto simp: unat_word_ariths max_remaining_def)
  have e: "emits (enc_uint16 mid @ (if is_mqtt5 mosq then enc_prop_list properties else []) @ filter_bytes None topic)
      (\<lambda>packet. seq (packet__write_uint16 mid packet) (\<lambda>packet.
         seq (if is_mqtt5 mosq then property__write_all properties True packet else Inr packet) (write_filters None topic)))"
    by (intro emits_intros assms n)
  have c: "(word_of_int CMD_UNSUBSCRIBE OR push_bit 1 1 :: u8) = 0xA2" by simp
  show ?thesis
    unfolding unsubscribe_packet_def Some option.case c
    by (rule builtI [OF e _ assms(3)]) (simp add: l)
qed

section \<open>Every packet fills its memory\<close>



end
