(* ===== verification/Session_Subscribe.thy ===== *)
theory Session_Subscribe
  imports Session_Publish
begin

text \<open>
  A \<open>SUBSCRIBE\<close> packet from its bytes to the table of subscriptions: the fields are decoded, the
  filter is checked, and the subscription is there when the packet has been handled.
\<close>

section \<open>Subscribing does not fail\<close>

lemma add_normal_rc: "\<forall>n. alloc n \<Longrightarrow> sub__add_normal alloc c cid q n opts p d sv = (rc, d', sv') \<Longrightarrow> rc \<le> 0"
  by (auto simp: sub__add_normal_def sub__add_leaf_def add_rc_def Let_def split: prod.splits if_splits option.splits)

lemma add_shared_rc: "\<forall>n. alloc n \<Longrightarrow> sub__add_shared alloc c cid q n opts name p d sv = Some (rc, d', sv') \<Longrightarrow> rc \<le> 0"
  by (auto simp: sub__add_shared_def add_shared_leaf_def sub__add_leaf_def add_rc_def Let_def split: prod.splits if_splits option.splits)

lemma add_walk_rc:
  assumes al: "\<forall>n. alloc n" and f: "\<And>p d sv rc d' sv'. finish p d sv = Some (rc, d', sv') \<Longrightarrow> rc \<le> 0"
  shows "\<forall>t \<in> set ts. length t \<le> 65535 \<Longrightarrow> add_walk alloc finish path ts h sv = Some (rc, h', sv') \<Longrightarrow> rc \<le> 0"
proof (induction ts arbitrary: path h h')
  case Nil
  then show ?case using f by (auto simp: on_data_def)
next
  case (Cons t ts)
  then show ?case using al by (auto simp: sub__add_hier_entry_def split: option.splits)
qed

lemma sub__add_rc:
  assumes al: "\<forall>n. alloc n" and t: "sub__topic_tokenise alloc sub = Inr (cells, s)" and len: "\<forall>t \<in> set (tokens_of cells). length t \<le> 65535"
    and r: "sub__add alloc c sub q n opts sv = Some (rc, sv')"
  shows "rc \<le> 0"
proof -
  have f: "rc \<le> 0" if "(case ctx_id (sv_contexts sv c) of
           None \<Rightarrow> Some (0, data, sv)
         | Some cid \<Rightarrow>
             (case s of
                Some name \<Rightarrow> sub__add_shared alloc c cid q n opts name path data sv
              | None \<Rightarrow> Some (sub__add_normal alloc c cid q n opts path data sv))) = Some (rc, d', sv')" for path data sv rc d' sv'
    using that al by (auto dest: add_normal_rc add_shared_rc split: option.splits)
  have walk: "rc \<le> 0" if "sub__add_context alloc c q n opts root h (tokens_of cells) s sv = Some (rc, h', sv'')" for root h rc h' sv''
    using add_walk_rc [OF al f len that [unfolded sub__add_context_def]] .
  show ?thesis
  proof (cases "tokens_of cells")
    case Nil
    then show ?thesis using r by (simp add: sub__add_def t)
  next
    case (Cons root ts)
    have root: "\<not> length root > 65535" using len Cons by simp
    have "\<exists>x. (case hash_find root (sv_subs sv) of Some h \<Rightarrow> Some (sv_subs sv, h)
        | None \<Rightarrow> map_option (\<lambda>f. (f, Hier [] no_subs)) (sub__add_hier_entry alloc (sv_subs sv) root)) = Some x"
      using al by (simp add: sub__add_hier_entry_def split: option.split)
    then obtain forest h where fh: "(case hash_find root (sv_subs sv) of Some h \<Rightarrow> Some (sv_subs sv, h)
        | None \<Rightarrow> map_option (\<lambda>f. (f, Hier [] no_subs)) (sub__add_hier_entry alloc (sv_subs sv) root)) = Some (forest, h)" by (metis prod.collapse)
    have e: "sub__add alloc c sub q n opts sv = map_option (\<lambda>(rc, subhier, sv). (rc, sv\<lparr>sv_subs := hash_put root subhier forest\<rparr>))
        (sub__add_context alloc c q n opts root h (root # ts) s sv)"
      unfolding sub__add_def t sum.case prod.case Let_def Cons list.case fh option.case if_not_P [OF root] ..
    show ?thesis using r walk [of root h] unfolding e Cons by auto
  qed
qed

section \<open>The packet\<close>

text \<open>The payload of a \<open>SUBSCRIBE\<close> packet of MQTT 3.1.1 with one filter.\<close>

definition subscribe_bytes :: "u16 \<Rightarrow> mqtt__string \<Rightarrow> u8 \<Rightarrow> u8 list" where
  "subscribe_bytes mid s qos = enc_uint16 mid @ enc_string s @ [qos]"

lemma advances_pos: "advances n p p' \<Longrightarrow> unat (pk_pos p') = unat (pk_pos p) + n"
  unfolding advances_def by blast

lemma read_subscribe:
  assumes h: "holds (subscribe_bytes mid s qos) p" and ok: "string_ok alloc s" and len: "ms_len s \<noteq> 0"
    and "unat (pk_remaining_length p) = unat (pk_pos p) + length (subscribe_bytes mid s qos)"
  obtains q r where "packet__read_uint16 p = Inr (mid, q)" "packet__read_string alloc q = Inr (s, r)"
    "packet__read_byte r = Inr (qos, skip 1 r)" "pk_pos q < pk_remaining_length q" "\<not> pk_pos (skip 1 r) < pk_remaining_length (skip 1 r)"
    "readable q" "readable r" "readable (skip 1 r)" 
proof -
  let ?q = "skip 2 p" and ?r = "skip (length (enc_string s)) (skip 2 p)"
  have 1: "packet__read_uint16 p = Inr (mid, ?q)" "holds (enc_string s @ [qos]) ?q"
    using uint16_codec.get_prefix [of mid "enc_string s @ [qos]" p] h by (simp_all add: subscribe_bytes_def)
  have 2: "packet__read_string alloc ?q = Inr (s, ?r)" "holds [qos] ?r"
    using string_codec.get_prefix [OF ok 1(2)] by simp_all
  have 3: "packet__read_byte ?r = Inr (qos, skip 1 ?r)"
    using byte_codec.get_enc [of qos ?r] 2(2) by (simp add: enc_byte_def)
  have rd: "readable p" using h by (simp add: holds_def)
  have a1: "advances 2 p ?q" by (rule read_uint16_advances [OF rd 1(1)])
  have a2: "advances (2 + unat (ms_len s)) ?q ?r" by (rule read_string_advances [OF advances_readable [OF a1] 2(1)])
  have a3: "advances 1 ?r (skip 1 ?r)" by (rule read_byte_advances [OF advances_readable [OF a2] 3])
  have "length (subscribe_bytes mid s qos) = 2 + (2 + unat (ms_len s)) + 1"
    using string_bytes_length [of alloc s] ok by (simp add: subscribe_bytes_def enc_string_def string_ok_def)
  then have pos: "unat (pk_pos ?q) < unat (pk_remaining_length p)" "unat (pk_pos (skip 1 ?r)) = unat (pk_remaining_length p)"
    using advances_pos [OF a1] advances_pos [OF a2] advances_pos [OF a3] assms(4) by linarith+
  have rl: "pk_remaining_length (skip n p') = pk_remaining_length p'" for n p' by (simp add: skip_def)
  show thesis
    by (rule that [OF 1(1) 2(1) 3])
      (use pos advances_readable [OF a1] advances_readable [OF a2] advances_readable [OF a3] in \<open>simp_all add: rl word_less_nat_alt\<close>)
qed

section \<open>One filter\<close>

lemma filter_tokens:
  assumes "mosquitto_sub_topic_check (Some sub) = MOSQ_ERR_SUCCESS" and "\<forall>n. alloc n"
    and "sub__topic_tokenise alloc sub = Inr (cells, share)" and "c_string sub"
  shows "\<forall>t \<in> set (tokens_of cells). length t \<le> 65535"
proof -
  have ne: "sub \<noteq> []" using assms(3) empty_topic [of alloc] by auto
  have "length sub \<le> 65535"
    using assms(1) by (simp add: mosquitto_sub_topic_check_def sub_check_loop_eq [OF assms(4)] split: if_splits)
  moreover have "set (tokens_of cells) \<subseteq> insert [] (set (levels sub))"
    using tokens_from_levels [OF ne assms(2)] assms(3) by auto
  ultimately show ?thesis using levels_length by fastforce
qed

lemma c_str_no_nul: "c_str s = Some sub \<Longrightarrow> c_string sub"
proof -
  have 1: "char_of (unat b) \<noteq> NUL" if "b \<noteq> 0" for b :: u8
  proof
    assume "char_of (unat b) = NUL"
    then have "of_char (char_of (unat b)) = (0 :: nat)" by simp
    then show False using that unsigned_less [of b, where 'a = nat] by (simp add: unat_eq_0)
  qed
  have 2: "NUL \<notin> set (map (\<lambda>b. char_of (unat b)) (takeWhile (\<lambda>b. b \<noteq> 0) v))" for v :: "u8 list"
    unfolding set_map using 1 set_takeWhileD [of _ "\<lambda>b. b \<noteq> 0" v] by (metis (no_types, lifting) imageE)
  assume "c_str s = Some sub"
  then obtain v where "ms_v s = Some v" "sub = map (\<lambda>b. char_of (unat b)) (takeWhile (\<lambda>b. b \<noteq> 0) v)"
    by (cases "ms_v s") (simp_all add: c_str_def)
  then show "c_string sub" using 2 by (simp only: c_string_def) blast
qed

lemma sub_table_same: "sv_subs sv' = sv_subs sv \<Longrightarrow> sub_table sv' = sub_table sv"
  by (simp add: sub_table_def fun_eq_iff)

lemma on_broker_subs: "on_broker c f sv = Some (rc, sv') \<Longrightarrow> sv_subs sv' = sv_subs sv"
  by (auto simp: on_broker_def put_client_def)

lemma subscribe_filter_table:
  assumes inv: "session_inv C E sv" and c: "c \<in> C" and al: "\<forall>n. alloc n" and q: "unat qos \<le> 2"
    and chk: "mosquitto_sub_topic_check (Some sub) = MOSQ_ERR_SUCCESS" and t: "sub__topic_tokenise alloc sub = Inr (cells, share)"
    and nul: "c_string sub" and acl: "sr_subscribe_acl srv (sv_contexts sv c) sub qos = 0"
  shows "\<exists>rc' sv'. subscribe_filter srv racl alloc net c sub (qos, opts, rh) n rc sv = Some (Inr (qos, rc'), sv') \<and> session_inv C E sv' \<and>
    sub_table sv' = (sub_table sv)(c := (sub_table sv c)((path_of cells, share) \<mapsto>
      subscribed c (unat qos) n opts (sub_table sv c (path_of cells, share))))"
proof -
  let ?tab = "(sub_table sv)(c := (sub_table sv c)((path_of cells, share) \<mapsto>
      subscribed c (unat qos) n opts (sub_table sv c (path_of cells, share))))"
  obtain cid where id: "ctx_id (sv_contexts sv c) = Some cid" "\<And>d. ctx_id (sv_contexts sv d) = Some cid \<Longrightarrow> d = c"
    using session_client [OF inv c] by blast
  have subs: "subs_inv C sv" and s: "server_inv C E sv" using inv by (simp_all add: session_inv_def server_inv_def tree_inv_def)
  obtain rc2 sv2 where r: "sub__add alloc c sub (unat qos) n opts sv = Some (rc2, sv2)" "server_inv C E sv2" "session_frame sv sv2"
    using serve_subscribe [OF s al c q id] by blast
  have rc2: "rc2 \<le> 0" by (rule sub__add_rc [OF al t filter_tokens [OF chk al t nul] r(1)])
  then have tab: "sub_table sv2 = ?tab" using sub__add_table [OF subs id t r(1)] by auto
  have inv2: "session_inv C E sv2" by (rule session_step [OF inv r(2,3)])
  have ret: "\<exists>rc' sv'. map_option (\<lambda>(rc3, sv). (Inr (qos, if rc3 \<noteq> 0 then 1 else rc), sv)) (retain__queue racl alloc net c sub (unat qos) m sv2) =
      Some (Inr (qos, rc') :: int + (u8 \<times> int), sv') \<and> session_inv C E sv' \<and> sub_table sv' = ?tab" for m
  proof -
    obtain rc3 sv3 where r3: "retain__queue racl alloc net c sub (unat qos) m sv2 = Some (rc3, sv3)" "server_inv C E sv3"
      "session_frame sv2 sv3" "sv_subs sv3 = sv_subs sv2" using serve_resend [OF r(2) al c q] by blast
    show ?thesis using session_step [OF inv2 r3(2,3)] sub_table_same [OF r3(4)] tab by (simp add: r3(1))
  qed
  show ?thesis
    using ret inv2 tab rc2 by (auto simp: subscribe_filter_def acl r(1) Let_def split: if_split)
qed

text \<open>
  A SUBSCRIBE packet of MQTT 3.1.1 with one valid filter, from a client that may subscribe to it,
  is decoded and handled, and afterwards the table of subscriptions has the filter with the qos of the
  packet for this client, and is otherwise what it was: the bytes, the checks of the filter, the
  tree of subscriptions, the retained messages that are sent and the queues that are written work
  together.
\<close>
lemma subscribe_packet_effect:
  assumes "session_reachable other srv acl racl alloc net C sv" and "\<And>n. alloc n" and "services_ok srv" and "c \<in> C"
    and "ctx_state (sv_contexts sv c) = mosq_cs_active" and "ctx_protocol (sv_contexts sv c) = mosq_p_mqtt311"
    and "\<not> sr_is_bridge srv (sv_contexts sv c)" and "pk_command p = 0x82"
    and "holds (subscribe_bytes mid s qos) p" and "unat (pk_remaining_length p) = unat (pk_pos p) + length (subscribe_bytes mid s qos)"
    and "mid \<noteq> 0" and "string_ok alloc s" and "ms_len s \<noteq> 0" and "c_str s = Some sub"
    and "mosquitto_sub_topic_check (Some sub) = MOSQ_ERR_SUCCESS" and "sub__topic_tokenise alloc sub = Inr (cells, share)"
    and "unat qos \<le> 2" and "unat qos \<le> ctx_max_qos (sv_contexts sv c)"
    and "sr_subscribe_acl srv (sv_contexts sv c) sub qos = 0"
  shows "\<exists>rc sv'. handle__packet other srv acl racl alloc net c p sv = Some (rc, sv') \<and>
    sub_table sv' = (sub_table sv)(c := (sub_table sv c)((path_of cells, share) \<mapsto>
      subscribed c (unat qos) 0 qos (sub_table sv c (path_of cells, share))))"
proof -
  have al: "\<forall>n. alloc n" using assms(2) by simp
  have inv: "session_inv C (\<lambda>_. 0) sv" by (rule session_reachable_inv [OF assms(1) al assms(3)])
  obtain q r where rd: "packet__read_uint16 p = Inr (mid, q)" "packet__read_string alloc q = Inr (s, r)"
    "packet__read_byte r = Inr (qos, skip 1 r)" "pk_pos q < pk_remaining_length q" "\<not> pk_pos (skip 1 r) < pk_remaining_length (skip 1 r)"
    "readable q" "readable r" "readable (skip 1 r)"
    by (rule read_subscribe [OF assms(9,12,13,10)])
  obtain rc1 sv1 where f: "subscribe_filter srv racl alloc net c sub (qos, qos, 0) 0 0 sv = Some (Inr (qos, rc1), sv1)"
    "session_inv C (\<lambda>_. 0) sv1"
    "sub_table sv1 = (sub_table sv)(c := (sub_table sv c)((path_of cells, share) \<mapsto>
      subscribed c (unat qos) 0 qos (sub_table sv c (path_of cells, share))))"
    using subscribe_filter_table [OF inv assms(4) al assms(17,15,16) c_str_no_nul [OF assms(14)] assms(19)] by blast
  have mount: "(case sr_listener srv ctx of None \<Rightarrow> None | Some l \<Rightarrow> ls_mount_point l) = None" for ctx
    using assms(3) by (auto simp: services_ok_def split: option.split)
  have fields: "subscribe_fields alloc (sv_contexts sv c) p = Inr (mid, 0, q)"
    using assms(6,11) rd(1) by (simp add: subscribe_fields_def malformed_def)
  have "\<not> qos > 2" using assms(17) by (simp add: word_less_nat_alt)
  then have opts: "subscribe_options srv (sv_contexts sv c) 0 qos = Some (qos, qos, 0)"
    using assms(6,7,18) by (simp add: subscribe_options_def)
  obtain n where n: "unat (pk_remaining_length q) = Suc n" using rd(4) by (cases "unat (pk_remaining_length q)") (auto simp: word_less_nat_alt)
  have loop: "subscribe_loop (unat (pk_remaining_length q) + 1) srv racl alloc net c 0 q 0 [] 0 sv = Some (Inr ([qos], rc1), sv1)"
    using rd assms(2,13-15) opts f(1) by (simp add: n reading_def mount)
  have loop': "subscribe_loop (Suc (unat (pk_remaining_length q))) srv racl alloc net c 0 q 0 [] 0 sv = Some (Inr ([qos], rc1), sv1)"
    using loop by (simp only: Suc_eq_plus1)
  let ?sv = "sv1\<lparr>sv_db := (sv_db sv1)\<lparr>db_persistence_changes := db_persistence_changes (sv_db sv1) + 1\<rparr>\<rparr>"
  have "handled C (\<lambda>_. 0) (handle__subscribe srv racl alloc net c p sv)"
    using holds_readable [OF assms(9)] by (intro subscribe_handled [OF inv assms(4) _ al])
  then obtain rc sv' where r: "handle__subscribe srv racl alloc net c p sv = Some (rc, sv')" by (auto simp: handled_def)
  have "sv_subs sv' = sv_subs ?sv"
    using r assms(5,6,8)
    by (simp add: handle__subscribe_def reading_def fields loop' Let_def del: subscribe_loop.simps split: if_split_asm)
      (auto simp: bind_eq_Some_conv dest!: on_broker_subs split: if_split_asm)
  then have "sub_table sv' = sub_table sv1" by (intro sub_table_same) simp
  then show ?thesis using r assms(8) f(3) by (simp add: handle__packet_def)
qed

end
