(* ===== verification/Packet_Received.thy ===== *)
theory Packet_Received
  imports Packet_Sent Session_Subscribe
begin

text \<open>
  From one side of a connection to the other: what the handlers of \<open>Handlers\<close> read from the packets
  that \<open>Packet_Build\<close> builds, and a subscription from the call of the client library to the table of the
  broker.
\<close>

section \<open>Topics\<close>

text \<open>The field a topic is read as.\<close>

definition read_topic :: "string option \<Rightarrow> mqtt__string" where
  "read_topic topic = (case topic of Some t \<Rightarrow> if t = [] then empty_string else field_of t | None \<Rightarrow> empty_string)"

definition valid_text :: "string \<Rightarrow> bool" where
  "valid_text t \<longleftrightarrow> NUL \<notin> set t \<and> length t \<le> 65535 \<and>
     mosquitto_validate_utf8 (Some (string_bytes_of t @ [0])) (int (length t)) = Inr ()"

lemma byte_of_char: "char_of (unat (word_of_nat (of_char c) :: u8)) = c" "(word_of_nat (of_char c) :: u8) = 0 \<longleftrightarrow> c = NUL"
proof -
  have u: "unat (word_of_nat (of_char c) :: u8) = of_char c"
    using nat_of_char_less_256 [of c] by (rule unat_word_of_nat_u8)
  then show "char_of (unat (word_of_nat (of_char c) :: u8)) = c" by simp
  have "(word_of_nat (of_char c) :: u8) = 0 \<longleftrightarrow> of_char c = (0 :: nat)" using u by (metis unat_eq_zero)
  also have "\<dots> \<longleftrightarrow> c = NUL"
  proof
    assume "of_char c = (0 :: nat)"
    then have "char_of (of_char c :: nat) = char_of (0 :: nat)" by (rule arg_cong)
    moreover have "char_of (0 :: nat) = NUL" by (simp add: char_of_def)
    ultimately show "c = NUL" by simp
  qed simp
  finally show "(word_of_nat (of_char c) :: u8) = 0 \<longleftrightarrow> c = NUL" .
qed

lemma c_str_field: "NUL \<notin> set t \<Longrightarrow> c_str (field_of t) = Some t"
proof -
  assume "NUL \<notin> set t"
  then have "takeWhile (\<lambda>b. b \<noteq> 0) (string_bytes_of t @ [0]) = string_bytes_of t"
    by (induction t) (auto simp: string_bytes_of_def byte_of_char)
  then show ?thesis by (simp add: c_str_def field_of_def string_bytes_of_def byte_of_char comp_def)
qed

lemma field_len: "length t \<le> 65535 \<Longrightarrow> unat (ms_len (field_of t)) = length t"
  by (simp add: field_of_def unsigned_of_nat take_bit_nat_eq_self)

lemma field_ok:
  assumes "valid_text t" "t \<noteq> []"
  shows "string_ok (\<lambda>_. True) (field_of t)" "ms_len (field_of t) \<noteq> 0"
proof -
  have l: "unat (ms_len (field_of t)) = length t" using field_len assms(1) by (simp add: valid_text_def)
  then show "ms_len (field_of t) \<noteq> 0" using assms(2) by (metis length_0_conv unat_eq_zero)
  then show "string_ok (\<lambda>_. True) (field_of t)"
    using assms l by (simp add: string_ok_def binary_ok_def valid_text_def) (simp add: field_of_def length_field_of)
qed

lemma read_topic_ok:
  assumes "\<And>t. topic = Some t \<Longrightarrow> valid_text t"
  shows "string_ok (\<lambda>_. True) (read_topic topic)" "enc_string (read_topic topic) = topic_bytes topic"
    "c_str (read_topic topic) = (if topic = Some [] then None else topic)"
    "ms_len (read_topic topic) = 0 \<longleftrightarrow> topic \<in> {None, Some []}"
proof -
  have e: "string_ok (\<lambda>_. True) empty_string" "enc_string empty_string = enc_uint16 0" "c_str empty_string = None" "ms_len empty_string = 0"
    by (simp_all add: string_ok_def binary_ok_def empty_string_def enc_string_def string_bytes_def c_str_def)
  show "string_ok (\<lambda>_. True) (read_topic topic)" "enc_string (read_topic topic) = topic_bytes topic"
    "c_str (read_topic topic) = (if topic = Some [] then None else topic)"
    "ms_len (read_topic topic) = 0 \<longleftrightarrow> topic \<in> {None, Some []}"
    using e assms field_ok c_str_field enc_field_of
    by (auto simp: read_topic_def topic_bytes_def string_bytes_of_def valid_text_def split: option.split)
qed

section \<open>Fields of a received packet\<close>

lemma receivedD: "received command bs q \<Longrightarrow> pk_command q = command \<and> holds bs q \<and> unat (pk_remaining_length q) = length bs \<and> unat (pk_pos q) = 0"
  by (simp add: received_def)

lemma skip_pos: "holds bs q \<Longrightarrow> n \<le> length bs \<Longrightarrow> unat (pk_pos (skip n q)) = unat (pk_pos q) + n"
  by (auto simp: skip_def holds_def readable_def unat_add_of_nat)

lemma read_props:
  assumes "sendable xs" and "mosquitto_property_check_all command (map plain xs) = MOSQ_ERR_SUCCESS" and "holds (enc_prop_list xs @ bs) q"
  shows "property__read_all (\<lambda>_. True) command q = Inr (map plain xs, skip (length (enc_prop_list xs)) q)"
    and "holds bs (skip (length (enc_prop_list xs)) q)"
proof -
  have e: "enc_prop_list (map plain xs) = enc_prop_list xs" by (simp add: enc_prop_list_def plain_props)
  have h: "holds (enc_prop_list xs) q" "holds bs (skip (length (enc_prop_list xs)) q)"
    using holds_append [OF assms(3)] by simp_all
  then show "property__read_all (\<lambda>_. True) command q = Inr (map plain xs, skip (length (enc_prop_list xs)) q)"
    using read_all_list_holds [of "\<lambda>_. True" "map plain xs" command q] assms(1,2) e
    by (simp add: sendable_def plain_props max_remaining_def)
  show "holds bs (skip (length (enc_prop_list xs)) q)" by (rule h)
qed

lemma read_bytes_holds:
  assumes "holds bs q" and "length bs = unat n"
  shows "packet__read_bytes n q = Inr (bs, q\<lparr>pk_pos := pk_pos q + n\<rparr>)"
proof -
  have "unat n < 2 ^ 31" using holds_readable [OF assms(1)] holds_room [OF assms(1)] assms(2) by (auto simp: readable_def)
  then have "\<not> pk_remaining_length q < pk_pos q + n"
    using read_check(1) [OF holds_readable [OF assms(1)], of "unat n"] holds_room [OF assms(1)] assms(2) by simp
  then show ?thesis using holds_range [OF assms(1)] assms(2) by (simp add: packet__read_bytes_def)
qed

lemma enc_prop_list_pos: "0 < length (enc_prop_list xs)"
  by (simp add: enc_prop_list_def enc_varint_length)

section \<open>Acknowledgements\<close>

text \<open>
  C23: The id and the reason that \<open>send__command_with_mid\<close> puts into an acknowledgement are those that
  the handler on the other side reads, whatever properties it has; before MQTT 5 the reason is left
  out and read as 0.
\<close>
theorem acknowledgements_read_back:
  assumes "command_with_mid_packet al fill mosq command mid dup reason_code properties = Some (Inr p')" and "frame (pk_payload p') q"
    and "max_remaining \<le> length fill" and "mid \<noteq> 0" and "is_mqtt5 mosq \<longleftrightarrow> ctx_protocol ctx = mosq_p_mqtt5"
    and "sendable properties" and "mosquitto_property_check_all type (map plain properties) = MOSQ_ERR_SUCCESS"
  shows "pk_command q = (if dup then command OR 8 else command) \<and>
    read_ack (\<lambda>_. True) type ctx q = Inr (mid, if ctx_protocol ctx = mosq_p_mqtt5 then reason_code else 0)"
proof -
  let ?five = "ctx_protocol ctx = mosq_p_mqtt5"
  let ?rest = "if ?five then (if reason_code \<noteq> 0 \<or> properties \<noteq> [] then [reason_code] else []) @ (if properties \<noteq> [] then enc_prop_list properties else []) else []"
  have "received (if dup then command OR 8 else command) (ack_bytes ?five mid reason_code properties) q"
    using builtD [OF ack_built [OF assms(6,3)] assms(1,2)] assms(5) by simp
  then have q: "pk_command q = (if dup then command OR 8 else command)" "holds (enc_uint16 mid @ ?rest) q"
    "unat (pk_remaining_length q) = 2 + length ?rest"
    by (simp_all add: receivedD ack_bytes_def)
  have 1: "packet__read_uint16 q = Inr (mid, skip 2 q)" "holds ?rest (skip 2 q)"
    using uint16_codec.get_prefix [of mid ?rest q] q(2) by simp_all
  have rl: "pk_remaining_length (skip n q) = pk_remaining_length q" for n by (simp add: skip_def)
  have "read_ack (\<lambda>_. True) type ctx q = Inr (mid, if ?five then reason_code else 0)"
  proof (cases "?five \<and> (reason_code \<noteq> 0 \<or> properties \<noteq> [])")
    case True
    then have h: "holds ([reason_code] @ (if properties \<noteq> [] then enc_prop_list properties else [])) (skip 2 q)" using 1(2) by simp
    have 2: "packet__read_byte (skip 2 q) = Inr (reason_code, skip 3 q)"
      using byte_codec.get_prefix [OF TrueI h [folded enc_byte_def]] by (simp add: enc_byte_def)
    have long: "unat (pk_remaining_length q) = 3 + (if properties \<noteq> [] then length (enc_prop_list properties) else 0)" using q(3) True by simp
    have 3: "property__read_all (\<lambda>_. True) type (skip 3 q) = Inr (map plain properties, skip (length (enc_prop_list properties)) (skip 3 q))"
      if "properties \<noteq> []"
      using read_props(1) [OF assms(6,7), of "[]" "skip 3 q"] byte_codec.get_prefix [OF TrueI h [folded enc_byte_def]] that
      by (simp add: enc_byte_def)
    show ?thesis
      using True 1(1) 2 3 long assms(4) enc_prop_list_pos [of properties]
      by (auto simp: read_ack_def rl word_less_nat_alt)
  next
    case False
    then have "?rest = []" by auto
    then have "\<not> pk_remaining_length (skip 2 q) > 2" using q(3) rl by (simp add: word_less_nat_alt)
    then show ?thesis using 1(1) assms(4) False by (auto simp: read_ack_def)
  qed
  then show ?thesis using q(1) by blast
qed

definition ex_five :: connection where
  "ex_five = ex_reading\<lparr>ctx_protocol := mosq_p_mqtt5\<rparr>"

definition ex_memory :: "u8 list" where
  "ex_memory = replicate max_remaining 0"

lemma ex_memory_length: "max_remaining \<le> length ex_memory"
  by (simp add: ex_memory_def)

lemma ex_fives: "is_mqtt5 ex_five" "\<not> is_mqtt5 ex_reading" "cn_maximum_packet_size ex_five = 0"
  by (simp_all add: is_mqtt5_def ex_five_def ex_reading_def context__init_def)

lemma sendable_Nil: "sendable []"
  by (simp add: sendable_def max_remaining_def)

theorem acknowledgements_read_back_witness:
  "\<exists>p' q. command_with_mid_packet (\<lambda>_. True) ex_memory ex_five 0x50 7 False 0x97 [] = Some (Inr p') \<and> frame (pk_payload p') q \<and>
     read_ack (\<lambda>_. True) CMD_PUBREC (ex_ctx\<lparr>ctx_protocol := mosq_p_mqtt5\<rparr>) q = Inr (7, 0x97)"
proof -
  let ?r = "command_with_mid_packet (\<lambda>_. True) ex_memory ex_five 0x50 7 False 0x97 []"
  have "?r \<noteq> Some (Inl rc)" for rc
    unfolding command_with_mid_packet_def Let_def by (rule build_no_rc) (simp add: max_remaining_def ex_fives)
  from built_arrives [OF ack_built [OF sendable_Nil ex_memory_length] this]
  obtain p' q where r: "?r = Some (Inr p')" "frame (pk_payload p') q" .
  from acknowledgements_read_back [OF r ex_memory_length, of "ex_ctx\<lparr>ctx_protocol := mosq_p_mqtt5\<rparr>" CMD_PUBREC]
  show ?thesis using r by (auto simp: ex_fives sendable_Nil)
qed

section \<open>Messages\<close>

lemma publish_header_read:
  assumes "qos \<le> 2" and "unat qos \<le> ctx_max_qos ctx" and "retain \<Longrightarrow> cfg_retain_available cfg"
  shows "publish_header cfg ctx (publish_command dup qos retain) = Inr (unat qos, retain)"
proof -
  have "unat qos \<le> 2" using assms(1) by (simp add: word_le_nat_alt)
  then have "unat qos = 0 \<or> unat qos = 1 \<or> unat qos = 2" by arith
  then have q: "qos = 0 \<or> qos = 1 \<or> qos = 2" by (auto simp: word_unat_eq_iff)
  have "unat (drop_bit 1 (publish_command dup qos retain AND 0x06)) = unat qos" "publish_command dup qos retain AND 0x01 \<noteq> 0 \<longleftrightarrow> retain"
    using q by (cases dup; cases retain; auto simp: publish_command_def)+
  then show ?thesis using assms(2,3) \<open>unat qos \<le> 2\<close> by (auto simp: publish_header_def Let_def)
qed

text \<open>
  C6: A message that \<open>send__real_publish\<close> has built is read as it was given by the handler of PUBLISH on
  the other side: its qos and retain flag from the command byte, its topic, message id and properties in
  their order (an empty topic as none, for an alias), and its payload from what is left of the packet.
\<close>
theorem messages_read_back:
  assumes "publish_packet al fill mosq mid topic n payload qos retain dup cmsg_props store_props expiry = Some (Inr p')"
    and "frame (pk_payload p') q" and "max_remaining \<le> length fill" and "is_mqtt5 mosq \<longleftrightarrow> ctx_protocol ctx = mosq_p_mqtt5"
    and "sendable (message_properties cmsg_props store_props expiry)"
    and "mosquitto_property_check_all Property.CMD_PUBLISH (map plain (message_properties cmsg_props store_props expiry)) = MOSQ_ERR_SUCCESS"
    and "\<And>t. topic = Some t \<Longrightarrow> valid_text t" and "topic \<in> {None, Some []} \<Longrightarrow> is_mqtt5 mosq"
    and "qos \<le> 2" and "unat qos \<le> ctx_max_qos ctx" and "retain \<Longrightarrow> cfg_retain_available cfg" and "qos > 0 \<Longrightarrow> mid \<noteq> 0"
    and "unat n < 2 ^ 31" and "unat n \<le> length payload"
  shows "publish_header cfg ctx (pk_command q) = Inr (unat qos, retain) \<and>
    (\<exists>q' q''. publish_fields (\<lambda>_. True) ctx (unat qos) q =
        Inr (if topic = Some [] then None else topic, if qos > 0 then mid else 0,
          if is_mqtt5 mosq then map plain (message_properties cmsg_props store_props expiry) else [], q') \<and>
      pk_remaining_length q' - pk_pos q' = n \<and> packet__read_bytes n q' = Inr (take (unat n) payload, q''))"
proof -
  let ?xs = "message_properties cmsg_props store_props expiry"
  let ?pay = "take (unat n) payload" and ?five = "is_mqtt5 mosq"
  let ?c = "(if ?five then enc_prop_list ?xs else []) @ ?pay" and ?m = "if qos > 0 then enc_uint16 mid else []"
  have top: "\<And>t. topic = Some t \<Longrightarrow> length t \<le> 65535" using assms(7) by (auto simp: valid_text_def)
  have "received (publish_command dup qos retain) (publish_bytes ?five topic qos mid ?xs ?pay) q"
    using builtD [OF publish_built [OF assms(5) top assms(13,14,3)] assms(1,2)] by simp
  then have q: "pk_command q = publish_command dup qos retain" "holds (topic_bytes topic @ ?m @ ?c) q"
    "unat (pk_remaining_length q) = length (topic_bytes topic @ ?m @ ?c)" "unat (pk_pos q) = 0"
    by (simp_all add: receivedD publish_bytes_def)
  have rt: "string_ok (\<lambda>_. True) (read_topic topic)" "enc_string (read_topic topic) = topic_bytes topic"
    "c_str (read_topic topic) = (if topic = Some [] then None else topic)" "ms_len (read_topic topic) = 0 \<longleftrightarrow> topic \<in> {None, Some []}"
    using read_topic_ok [of topic] assms(7) by blast+
  let ?q1 = "skip (length (topic_bytes topic)) q"
  have 1: "packet__read_string (\<lambda>_. True) q = Inr (read_topic topic, ?q1)" "holds (?m @ ?c) ?q1"
    using string_codec.get_prefix [OF rt(1), of "?m @ ?c" q] q(2) rt(2) by simp_all
  let ?q2 = "skip (length ?m) ?q1"
  have 2: "(if unat qos > 0 then malformed (packet__read_uint16 ?q1) else Inr (0, ?q1)) = Inr (if qos > 0 then mid else 0, ?q2)" "holds ?c ?q2"
    using uint16_codec.get_prefix [of mid ?c ?q1] 1(2) by (auto simp: malformed_def word_less_nat_alt)
  let ?l = "if ?five then enc_prop_list ?xs else []"
  let ?q3 = "skip (length ?l) ?q2"
  have 3: "(if ?five then protocol_malformed (property__read_all (\<lambda>_. True) Property.CMD_PUBLISH ?q2) else Inr ([], ?q2)) =
      Inr (if ?five then map plain ?xs else [], ?q3)" "holds ?pay ?q3"
    using read_props [OF assms(5,6), of ?pay ?q2] 2(2) by (auto simp: protocol_malformed_def)
  have fields: "publish_fields (\<lambda>_. True) ctx (unat qos) q =
      Inr (if topic = Some [] then None else topic, if qos > 0 then mid else 0, if ?five then map plain ?xs else [], ?q3)"
    using 1(1) 2(1) 3(1) rt(3,4) assms(4,8,12)
    by (simp add: publish_fields_def malformed_def word_less_nat_alt) (auto simp: word_less_nat_alt)
  have eq3: "?q3 = skip (length (topic_bytes topic @ ?m @ ?l)) q" by (simp only: skip_skip length_append add.assoc)
  have pos: "unat (pk_pos ?q3) = length (topic_bytes topic @ ?m @ ?l)"
    unfolding eq3 using skip_pos [OF q(2), of "length (topic_bytes topic @ ?m @ ?l)"] q(4) by (simp only: length_append)
  have rem: "pk_remaining_length ?q3 - pk_pos ?q3 = n"
  proof -
    have "unat (pk_remaining_length ?q3) = unat (pk_pos ?q3) + unat n"
      unfolding pos using q(3) assms(14) by (simp add: skip_def)
    then have "unat (pk_remaining_length ?q3 - pk_pos ?q3) = unat n" by (simp add: unat_sub word_le_nat_alt)
    then show ?thesis by (simp only: word_unat_eq_iff)
  qed
  have "packet__read_bytes n ?q3 = Inr (?pay, ?q3\<lparr>pk_pos := pk_pos ?q3 + n\<rparr>)"
    by (rule read_bytes_holds [OF 3(2)]) (use assms(14) in simp)
  then show ?thesis using fields rem publish_header_read [OF assms(9-11)] q(1) by auto
qed

lemma text_a: "valid_text ''a''"
  by (simp add: valid_text_def string_bytes_of_def mosquitto_validate_utf8_def utf8_step_def utf8_lead_def utf8_reject_def)

theorem messages_read_back_witness:
  "\<exists>p' q q' q''. publish_packet (\<lambda>_. True) ex_memory ex_five 5 (Some ''a'') 2 [7, 8] 1 True False [] [] 9 = Some (Inr p') \<and>
     frame (pk_payload p') q \<and>
     publish_fields (\<lambda>_. True) (ex_ctx\<lparr>ctx_protocol := mosq_p_mqtt5\<rparr>) 1 q = Inr (Some ''a'', 5, [expiry_property 9], q') \<and>
     packet__read_bytes 2 q' = Inr ([7, 8], q'')"
proof -
  let ?r = "publish_packet (\<lambda>_. True) ex_memory ex_five 5 (Some ''a'') 2 [7, 8] 1 True False [] [] 9"
  let ?ctx = "ex_ctx\<lparr>ctx_protocol := mosq_p_mqtt5\<rparr>"
  have xs: "message_properties [] [] 9 = [expiry_property 9]" "map plain [expiry_property 9] = [expiry_property 9]"
    by (simp_all add: message_properties_def plain_def expiry_property_def zero_property_def)
  have s: "sendable (message_properties [] [] 9)"
    by (simp add: xs(1) sendable_def max_remaining_def expiry_property_def enc_prop_def enc_body_def plain_def
        prop_ok_def prop_type_def zero_property_def Let_def)
  have chk: "mosquitto_property_check_all Property.CMD_PUBLISH (map plain (message_properties [] [] 9)) = MOSQ_ERR_SUCCESS"
    by (simp add: xs(1) plain_def zero_property_def expiry_property_def check_value_def mosquitto_property_check_command_def)
  have "?r \<noteq> Some (Inl rc)" for rc
    unfolding publish_packet_def Let_def
    by (simp add: ex_fives packet__check_oversize_def property__get_length_all_def property__get_length_def expiry_property_def prop_type_def
        packet__varint_bytes_def) (rule build_no_rc, simp add: max_remaining_def)
  from built_arrives [OF publish_built [OF s _ _ _ ex_memory_length] this]
  obtain p' q where r: "?r = Some (Inr p')" "frame (pk_payload p') q" by auto
  have "publish_header ex_cfg ?ctx (pk_command q) = Inr (unat (1 :: u8), True) \<and>
    (\<exists>q' q''. publish_fields (\<lambda>_. True) ?ctx (unat (1 :: u8)) q =
        Inr (if Some ''a'' = Some [] then None else Some ''a'', if (1 :: u8) > 0 then 5 else 0,
          if is_mqtt5 ex_five then map plain (message_properties [] [] 9) else [], q') \<and>
      pk_remaining_length q' - pk_pos q' = 2 \<and> packet__read_bytes 2 q' = Inr (take (unat (2 :: u32)) [7, 8], q''))"
    by (rule messages_read_back [OF r ex_memory_length _ s chk]) (use text_a in \<open>auto simp: ex_fives ex_ctx_def ex_cfg_def\<close>)
  then obtain q' q'' where "publish_fields (\<lambda>_. True) ?ctx 1 q = Inr (Some ''a'', 5, [expiry_property 9], q')"
    "packet__read_bytes 2 q' = Inr ([7, 8], q'')"
    using ex_fives(1) xs by auto
  then show ?thesis using r by blast
qed

section \<open>Subscribing\<close>

text \<open>
  C3: A subscription travels from the call of the client library to the table of the broker: the packet
  that \<open>send__subscribe\<close> builds for a client of MQTT 3.1.1 and a valid filter, taken apart again from its
  bytes and handled by the broker in any state it can be in, puts the filter with the requested qos
  into the table of subscriptions of this client, and changes nothing else in the table.
\<close>
theorem client_subscription_reaches_broker:
  assumes "subscribe_packet al fill mosq mid [sub] qos [] = Some (Inr p')" and "frame (pk_payload p') p"
    and "max_remaining \<le> length fill" and "\<not> is_mqtt5 mosq" and "mid \<noteq> 0"
    and "session_reachable other srv acl racl alloc net C sv" and "\<And>n. alloc n" and "services_ok srv" and "c \<in> C"
    and "ctx_state (sv_contexts sv c) = mosq_cs_active" and "ctx_protocol (sv_contexts sv c) = mosq_p_mqtt311"
    and "\<not> sr_is_bridge srv (sv_contexts sv c)" and "valid_text sub"
    and "mosquitto_sub_topic_check (Some sub) = MOSQ_ERR_SUCCESS" and "sub__topic_tokenise alloc sub = Inr (cells, share)"
    and "unat qos \<le> 2" and "unat qos \<le> ctx_max_qos (sv_contexts sv c)"
    and "sr_subscribe_acl srv (sv_contexts sv c) sub qos = 0"
  shows "\<exists>rc sv'. handle__packet other srv acl racl alloc net c p sv = Some (rc, sv') \<and>
    sub_table sv' = (sub_table sv)(c := (sub_table sv c)((path_of cells, share) \<mapsto>
      subscribed c (unat qos) 0 qos (sub_table sv c (path_of cells, share))))"
proof -
  have ne: "sub \<noteq> []" using assms(15) by (auto simp: empty_topic [of alloc])
  have al: "alloc = (\<lambda>_. True)" using assms(7) by auto
  have len: "length sub \<le> 65535" "NUL \<notin> set sub" using assms(13) by (simp_all add: valid_text_def)
  have b: "enc_uint16 mid @ (if is_mqtt5 mosq then enc_prop_list [] else []) @ filter_bytes (Some qos) [sub] = subscribe_bytes mid (field_of sub) qos"
    using assms(4) enc_field_of [OF len(1)] by (simp add: filter_bytes_def subscribe_bytes_def)
  have l: "length (filter_bytes (Some qos) [sub]) < 2 ^ 31" using len(1) by (simp add: filter_bytes_def length_field_of)
  have "received 0x82 (subscribe_bytes mid (field_of sub) qos) p"
    using builtD [OF subscribe_built [OF _ l assms(3)] assms(1,2)] assms(4) b by (simp add: sendable_def)
  then have p: "pk_command p = 0x82" "holds (subscribe_bytes mid (field_of sub) qos) p"
    "unat (pk_remaining_length p) = unat (pk_pos p) + length (subscribe_bytes mid (field_of sub) qos)"
    by (simp_all add: receivedD)
  show ?thesis
    by (rule subscribe_packet_effect [OF assms(6-12) p assms(5) _ field_ok(2) c_str_field [OF len(2)] assms(14-18)])
      (use field_ok(1) assms(13) ne al in simp_all)
qed

theorem client_subscription_reaches_broker_witness:
  "\<exists>p' p rc sv' cells. subscribe_packet (\<lambda>_. True) ex_memory ex_reading 5 [''a''] 1 [] = Some (Inr p') \<and> frame (pk_payload p') p \<and>
     ex_handle p ex_server = Some (rc, sv') \<and> tokens_of cells = [[], ''a''] \<and>
     sub_table sv' 1 (path_of cells, None) = Some (subscribed 1 1 0 1 None)"
proof -
  obtain cells where c: "sub__topic_tokenise (\<lambda>_. True) ''a'' = Inr (cells, None)" "tokens_of cells = [[], ''a'']"
    using tokenise_cases [of "''a''" "\<lambda>_. True"] by auto
  have chk: "mosquitto_sub_topic_check (Some ''a'') = MOSQ_ERR_SUCCESS"
    by (simp add: mosquitto_sub_topic_check_def TOPIC_HIERARCHY_LIMIT_def)
  let ?r = "subscribe_packet (\<lambda>_. True) ex_memory ex_reading 5 [''a''] 1 []"
  have "?r \<noteq> Some (Inl rc)" for rc
    by (simp add: subscribe_packet_def ex_fives) (rule build_no_rc, simp add: max_remaining_def)
  from built_arrives [OF subscribe_built [OF sendable_Nil _ ex_memory_length] this]
  obtain p' p where r: "?r = Some (Inr p')" "frame (pk_payload p') p" by (auto simp: filter_bytes_def length_field_of)
  have "\<exists>rc sv'. ex_handle p ex_server = Some (rc, sv') \<and>
      sub_table sv' = (sub_table ex_server)(1 := (sub_table ex_server 1)((path_of cells, None) \<mapsto>
        subscribed 1 (unat (1 :: u8)) 0 1 (sub_table ex_server 1 (path_of cells, None))))"
    by (rule client_subscription_reaches_broker [OF r ex_memory_length ex_fives(2) _ ex_start_reachable TrueI ex_srv_ok _ _ _ _ text_a chk c(1)])
      (simp_all add: ex_server_def ex_defs ex_srv_def)
  then obtain rc sv' where h: "ex_handle p ex_server = Some (rc, sv')" and t: "sub_table sv' = (sub_table ex_server)(1 :=
      (sub_table ex_server 1)((path_of cells, None) \<mapsto> subscribed 1 (unat (1 :: u8)) 0 1 (sub_table ex_server 1 (path_of cells, None))))"
    by blast
  have "sub_table ex_server 1 (path_of cells, None) = None" by (simp add: sub_table_def ex_server_def)
  then have "sub_table sv' 1 (path_of cells, None) = Some (subscribed 1 1 0 1 None)" using t by simp
  then show ?thesis using r h c(2) by blast
qed

end
